(* ===== verification/Pollaris_Types.thy ===== *)
theory Pollaris_Types
  imports Go_Prelude "HOL-Library.Word"
begin

text \<open>
  The data the collector exchanges with the Pollaris library (\<open>l8pollaris\<close>, generated protobuf
  types that are not under \<open>src/\<close>): collection jobs, polls, cadence plans and targets, with the
  fields the collector reads or writes. A pointer field that may be nil is an option, a byte slice
  that may be nil is an option too, an int64 or int32 field is an int whose arithmetic wraps through
  \<open>int64\<close> and \<open>int32\<close>. The lookups the collector makes in that library are the fields of
  \<open>registry\<close>: they are parameters of every definition that calls them.
\<close>

type_synonym bytes = "8 word list"

datatype protocol =
    L8PPSNMPV2
  | L8PSSH
  | L8PRESTAPI
  | L8PGraphQL
  | L8PKubectl
  | L8PKubernetesAPI
  | OtherProtocol int

datatype operation = L8C_Get | L8C_Map | L8C_Table | OtherOperation int

record cadence_plan =
  Enabled :: bool
  Current :: int
  Cadences :: "int list"
  Startups :: "int list option"

record cjob =
  TargetId :: string
  HostId :: string
  LinksId :: string
  PollarisName :: string
  JobName :: string
  Cadence :: "cadence_plan option"
  Timeout :: int
  Always :: bool
  Started :: int
  Ended :: int
  Error :: string
  ErrorCount :: int
  LastResultHash :: "64 word"
  Result :: "bytes option"
  Arguments :: "(string \<rightharpoonup> string) option"

text \<open>The zero value of a job, \<open>&l8tpollaris.CJob{}\<close>.\<close>

definition empty_job :: cjob where
  "empty_job = \<lparr>TargetId = '''', HostId = '''', LinksId = '''', PollarisName = '''', JobName = '''',
     Cadence = None, Timeout = 0, Always = False, Started = 0, Ended = 0, Error = '''', ErrorCount = 0,
     LastResultHash = 0, Result = None, Arguments = None\<rparr>"

record poll =
  poll_Name :: string
  poll_What :: string
  poll_Operation :: operation
  poll_Protocol :: protocol
  poll_Cadence :: "cadence_plan option"
  poll_Timeout :: int
  poll_Always :: bool
  poll_RespName :: string

record pollaris =
  plrs_Name :: string
  plrs_Order :: "string list option"
  plrs_Polling :: "(string \<times> poll) list"

text \<open>How a REST or GraphQL host authenticates.\<close>

record auth_info =
  SessionAuth :: bool
  AuthBody :: string
  ApiUser :: string
  ApiKey :: string
  AuthPath :: string
  AuthResp :: string
  SessionPage :: string
  CsrfSource :: string
  CsrfPattern :: string
  PresetCookies :: "(string \<times> string) list"
  NeedAuth :: bool
  AuthUserField :: string
  AuthPassField :: string
  AuthToken :: string
  IsApiKey :: bool

record host_protocol =
  cfg_Protocol :: protocol
  cfg_Addr :: string
  cfg_Port :: int
  cfg_CredId :: string
  cfg_Timeout :: int
  cfg_HttpPrefix :: string
  cfg_Prompt :: "string list"
  cfg_Ainfo :: "auth_info option"
  cfg_Cert :: string
  cfg_Terminal :: string
  cfg_TerminalCommands :: "string list option"

record host =
  host_HostId :: string
  host_Configs :: "(int \<times> host_protocol) list"

record target =
  tgt_TargetId :: string
  tgt_LinksId :: string
  tgt_Hosts :: "(string \<times> host) list"

datatype target_state = Up | Down | OtherState int

text \<open>A lookup key: the Pollaris (or group) name and the six attribute strings.\<close>

type_synonym pollaris_key = "string \<times> string list"

record registry =
  PollarisByKey :: "pollaris_key \<Rightarrow> pollaris option"
  PollarisByGroup :: "pollaris_key \<Rightarrow> pollaris list option"
  Poll :: "string \<Rightarrow> string \<Rightarrow> poll option"
  Parser :: "string \<Rightarrow> string \<times> int"

text \<open>The six empty attribute strings most calls pass.\<close>

definition no_attrs :: "string list" where
  "no_attrs = ['''', '''', '''', '''', '''', '''']"

section \<open>Well-formed cadence plans\<close>

text \<open>
  What the collector needs of a plan: at least one interval, positive intervals small enough that the
  sum of two does not overflow, the current level in range and, once drawn, one startup per level.
\<close>

definition plan_ok :: "cadence_plan \<Rightarrow> bool" where
  "plan_ok c \<longleftrightarrow> 0 \<le> Current c \<and> Current c < int (length (Cadences c)) \<and>
     int (length (Cadences c)) < 2 ^ 31 \<and>
     (\<forall>x \<in> set (Cadences c). 0 < x \<and> x < 2 ^ 40) \<and>
     (case Startups c of None \<Rightarrow> True | Some s \<Rightarrow> length s = length (Cadences c))"

lemma plan_ok_nth:
  assumes "plan_ok c"
  shows "0 < Cadences c ! nat (Current c)" "Cadences c ! nat (Current c) < 2 ^ 40"
    "nat (Current c) < length (Cadences c)"
proof -
  show *: "nat (Current c) < length (Cadences c)"
    using assms by (auto simp: plan_ok_def nat_less_iff)
  then have "Cadences c ! nat (Current c) \<in> set (Cadences c)" by simp
  then show "0 < Cadences c ! nat (Current c)" "Cadences c ! nat (Current c) < 2 ^ 40"
    using assms unfolding plan_ok_def by blast+
qed

lemma plan_ok_level [intro]:
  "plan_ok c \<Longrightarrow> 0 \<le> n \<Longrightarrow> n < int (length (Cadences c)) \<Longrightarrow> plan_ok (c\<lparr>Current := n\<rparr>)"
  by (simp add: plan_ok_def split: option.splits)

lemma plan_ok_enabled [simp]: "plan_ok (c\<lparr>Enabled := b\<rparr>) = plan_ok c"
  by (simp add: plan_ok_def split: option.splits)

definition job_ok :: "cjob \<Rightarrow> bool" where
  "job_ok j \<longleftrightarrow> (case Cadence j of None \<Rightarrow> False | Some c \<Rightarrow> plan_ok c)"

lemma job_okE:
  assumes "job_ok j"
  obtains c where "Cadence j = Some c" and "plan_ok c"
  using assms by (auto simp: job_ok_def split: option.splits)

definition poll_ok :: "poll \<Rightarrow> bool" where
  "poll_ok p \<longleftrightarrow> (case poll_Cadence p of None \<Rightarrow> False | Some c \<Rightarrow> plan_ok c)"

text \<open>
  A usable Pollaris: its polls are a map with usable plans and, where an order is given with as many
  names as there are polls, every name in it is a poll.
\<close>

definition pollaris_ok :: "pollaris \<Rightarrow> bool" where
  "pollaris_ok p \<longleftrightarrow> go_map (plrs_Polling p) \<and> (\<forall>e \<in> set (plrs_Polling p). poll_ok (snd e)) \<and>
     (case plrs_Order p of None \<Rightarrow> True
      | Some ns \<Rightarrow> length ns = length (plrs_Polling p) \<longrightarrow> set ns \<subseteq> fst ` set (plrs_Polling p))"

end
