(* ===== verification/Common.thy ===== *)
theory Common
  imports Pollaris_Types
begin

text \<open>
  \<open>collector/common\<close>: the boot stage names and the substitution of job arguments into a command
  template. A Go string is its list of bytes. The loop of \<open>ReplaceArguments\<close> goes over runes; since
  the characters it tests are ASCII it acts on the bytes of valid UTF-8 in the same way.
\<close>

section \<open>Boot stages\<close>

definition BootStages :: "string list" where
  "BootStages = [''Boot_Stage_00'', ''Boot_Stage_01'', ''Boot_Stage_02'', ''Boot_Stage_03'',
     ''Boot_Stage_04'']"

lemma length_BootStages [simp]: "length BootStages = 5"
  by (simp add: BootStages_def)

lemma distinct_BootStages: "distinct BootStages"
  by (simp add: BootStages_def)

section \<open>Argument substitution\<close>

text \<open>
  One round per character; \<open>opn\<close> says whether a variable name is being read. \<open>None\<close> is the early
  return of the template itself when a name has no argument.
\<close>

fun replace_loop ::
  "(string \<rightharpoonup> string) \<Rightarrow> string \<Rightarrow> string \<Rightarrow> string \<Rightarrow> bool \<Rightarrow> (string \<times> string \<times> bool) option" where
  "replace_loop args [] buff arg opn = Some (buff, arg, opn)"
| "replace_loop args (c # cs) buff arg opn =
     (if c = CHR ''$'' then replace_loop args cs buff arg True
      else if c = CHR '' '' \<and> opn then
        (case args arg of
           None \<Rightarrow> None
         | Some v \<Rightarrow> replace_loop args cs (buff @ v @ '' '') [] False)
      else if opn then replace_loop args cs buff (arg @ [c]) opn
      else replace_loop args cs (buff @ [c]) arg opn)"

definition ReplaceArguments :: "string \<Rightarrow> cjob \<Rightarrow> string" where
  "ReplaceArguments what job =
     (case Arguments job of
        None \<Rightarrow> what
      | Some args \<Rightarrow>
          (case replace_loop args what [] [] False of
             None \<Rightarrow> what
           | Some (buff, arg, opn) \<Rightarrow>
               (if opn then (case args arg of None \<Rightarrow> what | Some v \<Rightarrow> buff @ v) else buff)))"

subsection \<open>Templates and their expansion\<close>

text \<open>
  The reference: a template is a sequence of literal texts each followed by a variable and a space,
  then a last literal text and possibly a last variable. Its expansion puts the value in the place of
  each variable.
\<close>

type_synonym template = "(string \<times> string) list \<times> string \<times> string option"

definition template_text :: "template \<Rightarrow> string" where
  "template_text t = (case t of (ps, l, v) \<Rightarrow>
     concat (map (\<lambda>(l, v). l @ ''$'' @ v @ '' '') ps) @ l @
     (case v of None \<Rightarrow> [] | Some v \<Rightarrow> ''$'' @ v))"

definition template_expand :: "(string \<Rightarrow> string) \<Rightarrow> template \<Rightarrow> string" where
  "template_expand val t = (case t of (ps, l, v) \<Rightarrow>
     concat (map (\<lambda>(l, v). l @ val v @ '' '') ps) @ l @
     (case v of None \<Rightarrow> [] | Some v \<Rightarrow> val v))"

definition template_vars :: "template \<Rightarrow> string set" where
  "template_vars t = (case t of (ps, l, v) \<Rightarrow> snd ` set ps \<union> set_option v)"

definition segment_ok :: "string \<times> string \<Rightarrow> bool" where
  "segment_ok p \<longleftrightarrow>
     CHR ''$'' \<notin> set (fst p) \<and> CHR ''$'' \<notin> set (snd p) \<and> CHR '' '' \<notin> set (snd p)"

definition template_ok :: "template \<Rightarrow> bool" where
  "template_ok t = (case t of (ps, l, v) \<Rightarrow>
     list_all segment_ok ps \<and> segment_ok (l, case v of None \<Rightarrow> [] | Some v \<Rightarrow> v))"

lemma replace_loop_literal:
  "CHR ''$'' \<notin> set l \<Longrightarrow>
   replace_loop args (l @ cs) buff arg False = replace_loop args cs (buff @ l) arg False"
  by (induction l arbitrary: buff) auto

lemma replace_loop_name:
  "CHR ''$'' \<notin> set v \<Longrightarrow> CHR '' '' \<notin> set v \<Longrightarrow>
   replace_loop args (v @ cs) buff arg True = replace_loop args cs buff (arg @ v) True"
  by (induction v arbitrary: arg) auto

lemma replace_loop_segment:
  assumes "CHR ''$'' \<notin> set l" "CHR ''$'' \<notin> set v" "CHR '' '' \<notin> set v"
  shows "replace_loop args (l @ CHR ''$'' # v @ CHR '' '' # cs) buff [] False =
    (case args v of None \<Rightarrow> None | Some x \<Rightarrow> replace_loop args cs (buff @ l @ x @ '' '') [] False)"
proof -
  have "replace_loop args (l @ CHR ''$'' # v @ CHR '' '' # cs) buff [] False =
      replace_loop args (v @ CHR '' '' # cs) (buff @ l) [] True"
    by (simp add: replace_loop_literal assms(1))
  also have "\<dots> = replace_loop args (CHR '' '' # cs) (buff @ l) v True"
    using replace_loop_name [OF assms(2,3), where arg = "[]"] by simp
  also have "\<dots> = (case args v of None \<Rightarrow> None
      | Some x \<Rightarrow> replace_loop args cs (buff @ l @ x @ '' '') [] False)"
    by (simp split: option.split)
  finally show ?thesis .
qed

lemma replace_loop_segments:
  assumes "list_all segment_ok ps"
  shows "replace_loop args (concat (map (\<lambda>(l, v). l @ ''$'' @ v @ '' '') ps) @ cs) buff [] False =
    (if snd ` set ps \<subseteq> dom args
     then replace_loop args cs
       (buff @ concat (map (\<lambda>(l, v). l @ the (args v) @ '' '') ps)) [] False
     else None)"
  using assms
proof (induction ps arbitrary: buff)
  case Nil
  then show ?case by simp
next
  case (Cons p ps)
  obtain l v where p: "p = (l, v)" by force
  let ?cs = "concat (map (\<lambda>(l, v). l @ ''$'' @ v @ '' '') ps) @ cs"
  have "segment_ok (l, v)" using Cons.prems p by simp
  then have "replace_loop args (l @ CHR ''$'' # v @ CHR '' '' # ?cs) buff [] False =
     (case args v of None \<Rightarrow> None
      | Some x \<Rightarrow> replace_loop args ?cs (buff @ l @ x @ '' '') [] False)"
    by (intro replace_loop_segment) (simp_all add: segment_ok_def)
  moreover have "replace_loop args ?cs b [] False =
    (if snd ` set ps \<subseteq> dom args
     then replace_loop args cs (b @ concat (map (\<lambda>(l, v). l @ the (args v) @ '' '') ps)) [] False
     else None)" for b
    using Cons.prems by (intro Cons.IH) simp
  ultimately show ?case by (cases "args v") (auto simp: p)
qed

text \<open>The tail of a template: a last literal and possibly a last variable.\<close>

lemma replace_loop_tail_plain:
  "CHR ''$'' \<notin> set l \<Longrightarrow> replace_loop args l buff [] False = Some (buff @ l, [], False)"
  using replace_loop_literal [where cs = "[]"] by simp

lemma replace_loop_tail_var:
  assumes "segment_ok (l, v)"
  shows "replace_loop args (l @ CHR ''$'' # v) buff [] False = Some (buff @ l, v, True)"
  using assms replace_loop_name [of v args "[]" "buff @ l" "[]"]
  by (simp add: segment_ok_def replace_loop_literal)

text \<open>
  C33. For a template of literal texts and variables whose names hold neither a dollar sign nor a
  space, substitution returns the expansion of the template when every variable has an argument, and
  the template unchanged when one has none.
\<close>

theorem ReplaceArguments_template:
  assumes "template_ok t" and "Arguments job = Some args"
  shows "ReplaceArguments (template_text t) job =
    (if template_vars t \<subseteq> dom args then template_expand (\<lambda>v. the (args v)) t
     else template_text t)"
proof -
  obtain ps l v where t: "t = (ps, l, v)" by (cases t)
  have ps: "list_all segment_ok ps" and l: "segment_ok (l, case v of None \<Rightarrow> [] | Some v \<Rightarrow> v)"
    using assms(1) by (simp_all add: t template_ok_def)
  show ?thesis
  proof (cases v)
    case None
    then show ?thesis
      using l replace_loop_segments [OF ps, of args l "[]"] assms(2)
      by (simp add: t ReplaceArguments_def template_text_def template_expand_def template_vars_def
          segment_ok_def replace_loop_tail_plain)
  next
    case (Some w)
    then show ?thesis
      using l replace_loop_segments [OF ps, of args "l @ CHR ''$'' # w" "[]"] assms(2)
      by (auto simp add: t ReplaceArguments_def template_text_def template_expand_def
          template_vars_def replace_loop_tail_var split: option.splits)
  qed
qed

theorem ReplaceArguments_template_witness:
  "ReplaceArguments ''get pods -n $ns -o $fmt''
     (empty_job\<lparr>Arguments := Some [''ns'' \<mapsto> ''kube-system'', ''fmt'' \<mapsto> ''json'']\<rparr>) =
   ''get pods -n kube-system -o json''"
proof -
  let ?t = "([(''get pods -n '', ''ns'')], ''-o '', Some ''fmt'') :: template"
  let ?args = "[''ns'' \<mapsto> ''kube-system'', ''fmt'' \<mapsto> ''json'']"
  have ok: "template_ok ?t" by (simp add: template_ok_def segment_ok_def)
  have "ReplaceArguments (template_text ?t) (empty_job\<lparr>Arguments := Some ?args\<rparr>) =
      template_expand (\<lambda>v. the (?args v)) ?t"
    using ReplaceArguments_template [OF ok, of "empty_job\<lparr>Arguments := Some ?args\<rparr>" ?args]
    by (simp add: template_vars_def)
  then show ?thesis by (simp add: template_text_def template_expand_def)
qed

end
