(* ===== verification/Job_Cadence.thy ===== *)
theory Job_Cadence
  imports Pollaris_Types
begin

text \<open>
  \<open>service/JobCadence.go\<close>: the interval of a job at its current cadence level, with the randomised
  start when \<open>SmoothFirstCollection\<close> is set, and the copy of a plan that each job gets. The random
  source is a parameter: \<open>rnd n\<close> is the value \<open>rand.Int63n(n)\<close> returns for a positive \<open>n\<close>
  (the call panics for any other).
\<close>

section \<open>The interval at the current level\<close>

definition init_startups :: "bool \<Rightarrow> cadence_plan \<Rightarrow> cadence_plan" where
  "init_startups smooth c =
     (if smooth \<and> Startups c = None
      then c\<lparr>Startups := Some (replicate (length (Cadences c)) (- 1))\<rparr> else c)"

definition needs_startup :: "bool \<Rightarrow> cadence_plan \<Rightarrow> bool res" where
  "needs_startup smooth c =
     (if smooth then
        bind_res (deref (Startups c)) (\<lambda>ss. bind_res (go_nth ss (Current c)) (\<lambda>s. Inr (s = - 1)))
      else Inr False)"

definition JobCadence :: "bool \<Rightarrow> (int \<Rightarrow> int) \<Rightarrow> cadence_plan \<Rightarrow> (int \<times> cadence_plan) res" where
  "JobCadence smooth rnd plan =
     (let c = init_startups smooth plan in
      bind_res (needs_startup smooth c) (\<lambda>first.
      bind_res (go_nth (Cadences c) (Current c)) (\<lambda>interval.
        if first then
          (if interval \<le> 0 then Inl InvalidArgument
           else Inr (int64 (rnd interval + interval),
                c\<lparr>Startups := map_option (\<lambda>ss. ss[nat (Current c) := rnd interval]) (Startups c)\<rparr>))
        else Inr (interval, c))))"

text \<open>Every value a random source may return.\<close>

definition random_source :: "(int \<Rightarrow> int) \<Rightarrow> bool" where
  "random_source rnd \<longleftrightarrow> (\<forall>n. 0 < n \<longrightarrow> 0 \<le> rnd n \<and> rnd n < n)"

definition level_interval :: "cadence_plan \<Rightarrow> int" where
  "level_interval c = Cadences c ! nat (Current c)"

lemma level_interval_bounds:
  assumes "plan_ok c"
  shows "0 < level_interval c" "level_interval c < 2 ^ 40"
  using plan_ok_nth [OF assms] by (simp_all add: level_interval_def)

lemma plan_ok_go_nth: "plan_ok c \<Longrightarrow> go_nth (Cadences c) (Current c) = Inr (level_interval c)"
  by (simp add: plan_ok_def go_nth_in_range level_interval_def)

lemma init_startups_frame [simp]:
  "Enabled (init_startups b c) = Enabled c" "Current (init_startups b c) = Current c"
  "Cadences (init_startups b c) = Cadences c" "level_interval (init_startups b c) = level_interval c"
  by (simp_all add: init_startups_def level_interval_def)

lemma init_startups_off [simp]: "init_startups False c = c"
  by (simp add: init_startups_def)

lemma plan_ok_init_startups [simp]: "plan_ok c \<Longrightarrow> plan_ok (init_startups b c)"
  by (auto simp: plan_ok_def init_startups_def)

lemma JobCadence_steady: "plan_ok c \<Longrightarrow> JobCadence False rnd c = Inr (level_interval c, c)"
  by (simp add: JobCadence_def needs_startup_def plan_ok_go_nth)

lemma needs_startup_ok: "plan_ok c \<Longrightarrow> \<exists>b. needs_startup smooth (init_startups smooth c) = Inr b"
  by (auto simp: plan_ok_def needs_startup_def init_startups_def go_nth_def split: option.splits)

text \<open>
  The call on a usable plan: it does not panic, the interval it returns lies between the level's
  interval and its double, and only the drawn startups of the plan change.
\<close>

lemma JobCadence_ok:
  assumes "plan_ok c" and "random_source rnd"
  obtains v c' where "JobCadence smooth rnd c = Inr (v, c')" and "plan_ok c'"
    and "level_interval c \<le> v" and "v < 2 * level_interval c"
    and "Enabled c' = Enabled c" and "Current c' = Current c" and "Cadences c' = Cadences c"
proof -
  let ?c = "init_startups smooth c"
  have ok: "plan_ok ?c" using assms(1) by simp
  obtain b where b: "needs_startup smooth ?c = Inr b"
    using needs_startup_ok [OF assms(1)] by blast
  note bounds = level_interval_bounds [OF assms(1)]
  have r: "0 \<le> rnd (level_interval c)" "rnd (level_interval c) < level_interval c"
    using assms(2) bounds by (simp_all add: random_source_def)
  show ?thesis
  proof (cases b)
    case False
    with b ok bounds show ?thesis
      by (intro that [of "level_interval c" ?c])
        (simp_all add: JobCadence_def Let_def plan_ok_go_nth [OF assms(1)])
  next
    case True
    let ?c' = "?c\<lparr>Startups := map_option (\<lambda>ss. ss[nat (Current c) := rnd (level_interval c)]) (Startups ?c)\<rparr>"
    have "plan_ok ?c'"
      using ok by (auto simp: plan_ok_def split: option.splits)
    moreover have "int64 (rnd (level_interval c) + level_interval c) = rnd (level_interval c) + level_interval c"
      using r bounds by (intro int64_id) simp_all
    ultimately show ?thesis
      using True b ok bounds r
      by (intro that [of "rnd (level_interval c) + level_interval c" ?c'])
        (simp_all add: JobCadence_def Let_def plan_ok_go_nth [OF assms(1)])
  qed
qed

text \<open>
  C34. On a usable plan \<open>JobCadence\<close> does not panic and returns an interval at least the one of the
  current level and less than twice it; without randomised starts it returns exactly that interval
  and leaves the plan alone, and a level is drawn at most once: a second call returns the level's own
  interval.
\<close>

theorem JobCadence_interval:
  assumes "plan_ok c" and "random_source rnd"
  shows "\<exists>v c'. JobCadence smooth rnd c = Inr (v, c') \<and> level_interval c \<le> v \<and>
    v < 2 * level_interval c \<and> (\<not> smooth \<longrightarrow> v = level_interval c \<and> c' = c) \<and>
    JobCadence smooth rnd c' = Inr (level_interval c, c')"
proof (cases "smooth")
  case False
  then show ?thesis
    using assms level_interval_bounds [OF assms(1)] by (simp add: JobCadence_steady)
next
  case True
  let ?c = "init_startups True c" and ?n = "nat (Current c)"
  obtain ss where ss: "Startups ?c = Some ss" "length ss = length (Cadences c)"
    using assms(1) by (auto simp: init_startups_def plan_ok_def split: option.splits)
  have lv: "go_nth ss (Current c) = Inr (ss ! ?n)" "?n < length ss"
    using assms(1) ss(2) plan_ok_nth(3) [OF assms(1)] by (auto simp: plan_ok_def go_nth_def)
  note b = level_interval_bounds [OF assms(1)]
  have r: "0 \<le> rnd (level_interval c)" "rnd (level_interval c) < level_interval c"
    using assms(2) b by (simp_all add: random_source_def)
  have gn: "go_nth (Cadences c) (Current c) = Inr (level_interval c)"
    by (rule plan_ok_go_nth [OF assms(1)])
  show ?thesis
  proof (cases "ss ! ?n = - 1")
    case True
    let ?c' = "?c\<lparr>Startups := Some (ss[?n := rnd (level_interval c)])\<rparr>"
    have "JobCadence True rnd c = Inr (rnd (level_interval c) + level_interval c, ?c')"
      using True ss lv gn r b by (simp add: JobCadence_def Let_def needs_startup_def)
    moreover have "go_nth (ss[?n := rnd (level_interval c)]) (Current c) = Inr (rnd (level_interval c))"
      using lv assms(1) ss(2) by (auto simp: go_nth_def plan_ok_def)
    then have "JobCadence True rnd ?c' = Inr (level_interval c, ?c')"
      using r gn by (simp add: JobCadence_def Let_def needs_startup_def init_startups_def)
    ultimately show ?thesis using r \<open>smooth\<close> by auto
  next
    case False
    then have "JobCadence True rnd c = Inr (level_interval c, ?c)"
      using ss lv gn by (simp add: JobCadence_def Let_def needs_startup_def)
    moreover have "JobCadence True rnd ?c = Inr (level_interval c, ?c)"
      using False ss lv gn by (simp add: JobCadence_def Let_def needs_startup_def init_startups_def)
    ultimately show ?thesis using b \<open>smooth\<close> by auto
  qed
qed

theorem JobCadence_interval_witness:
  "\<exists>v c'. JobCadence True (\<lambda>n. n - 1)
     \<lparr>Enabled = True, Current = 1, Cadences = [60, 300], Startups = None\<rparr> = Inr (v, c') \<and>
     300 \<le> v \<and> v < 600"
proof -
  let ?c = "\<lparr>Enabled = True, Current = 1, Cadences = [60, 300], Startups = None\<rparr>"
  have "plan_ok ?c" and "random_source (\<lambda>n. n - 1)" by (simp_all add: plan_ok_def random_source_def)
  from JobCadence_interval [OF this, of True] show ?thesis by (auto simp: level_interval_def)
qed

section \<open>Copying a plan\<close>

text \<open>The copy has its own interval slice and no drawn startups; a nil plan stays nil.\<close>

definition cloneCadence :: "cadence_plan option \<Rightarrow> cadence_plan option" where
  "cloneCadence src =
     (case src of
        None \<Rightarrow> None
      | Some s \<Rightarrow> Some \<lparr>Enabled = Enabled s, Current = Current s, Cadences = Cadences s, Startups = None\<rparr>)"

lemma cloneCadence_ok: "plan_ok s \<Longrightarrow> cloneCadence (Some s) = Some c \<Longrightarrow> plan_ok c"
  by (auto simp: cloneCadence_def plan_ok_def)

lemma cloneCadence_enabled: "cloneCadence (Some s) = Some c \<Longrightarrow> Enabled c = Enabled s"
  by (auto simp: cloneCadence_def)

end
