(* ===== verification/Content_Hash.thy ===== *)
theory Content_Hash
  imports Pollaris_Types
begin

unbundle bit_operations_syntax

text \<open>
  \<open>service/hash.go\<close>: the 64-bit FNV-1a hash of a job result, with \<open>hash/fnv\<close> of Go's standard
  library written out (offset basis, xor of each byte, product with the FNV prime modulo \<open>2 ^ 64\<close>).
\<close>

definition fnv_prime :: "64 word" where
  "fnv_prime = 1099511628211"

definition fnv_offset :: "64 word" where
  "fnv_offset = 14695981039346656037"

definition fnv_step :: "64 word \<Rightarrow> 8 word \<Rightarrow> 64 word" where
  "fnv_step h b = (h XOR ucast b) * fnv_prime"

definition fnv1a :: "64 word \<Rightarrow> bytes \<Rightarrow> 64 word" where
  "fnv1a h bs = foldl fnv_step h bs"

definition hashBytes :: "bytes option \<Rightarrow> 64 word" where
  "hashBytes data =
     (case data of
        None \<Rightarrow> 0
      | Some bs \<Rightarrow> (if length bs = 0 then 0 else fnv1a fnv_offset bs))"

section \<open>No collision between results that differ in one byte\<close>

text \<open>The inverse of the prime modulo \<open>2 ^ 64\<close>.\<close>

lemma fnv_prime_inverse: "fnv_prime * 14886173955864302971 = 1"
  by (simp add: fnv_prime_def)

lemma fnv_prime_cancel:
  assumes "x * fnv_prime = y * fnv_prime"
  shows "x = y"
proof -
  have "x * fnv_prime * 14886173955864302971 = y * fnv_prime * 14886173955864302971"
    using assms by (rule arg_cong)
  then show ?thesis by (simp only: mult.assoc fnv_prime_inverse mult_1_right)
qed

lemma xor_cancel_left:
  fixes h :: "64 word"
  assumes "h XOR a = h XOR b"
  shows "a = b"
proof -
  have "h XOR (h XOR a) = h XOR (h XOR b)"
    using assms by (rule arg_cong)
  then show ?thesis by (simp only: xor.assoc [symmetric] xor_self_eq xor.left_neutral)
qed

lemma xor_cancel_right:
  fixes h :: "64 word"
  assumes "a XOR h = b XOR h"
  shows "a = b"
  using assms by (simp only: xor.commute [of _ h]) (rule xor_cancel_left)

lemma fnv_step_inj_state: "fnv_step g b = fnv_step h b \<longleftrightarrow> g = h"
  unfolding fnv_step_def by (auto dest: fnv_prime_cancel xor_cancel_right)

lemma fnv_step_inj_byte: "fnv_step h a = fnv_step h b \<longleftrightarrow> a = b"
proof
  assume "fnv_step h a = fnv_step h b"
  then have "(ucast a :: 64 word) = ucast b"
    unfolding fnv_step_def by (blast dest: fnv_prime_cancel xor_cancel_left)
  then have "uint (ucast a :: 64 word) = uint (ucast b :: 64 word)"
    by (rule arg_cong)
  then have "uint a = uint b"
    by (simp add: uint_up_ucast is_up)
  then show "a = b" by (rule word_uint_eqI)
qed simp

lemma fnv1a_inj_state: "fnv1a g bs = fnv1a h bs \<longleftrightarrow> g = h"
  unfolding fnv1a_def by (induction bs arbitrary: g h) (auto simp: fnv_step_inj_state)

lemma fnv1a_append: "fnv1a h (as @ bs) = fnv1a (fnv1a h as) bs"
  by (simp add: fnv1a_def)

lemma fnv1a_single: "fnv1a h [a] = fnv_step h a"
  by (simp add: fnv1a_def)

lemma fnv1a_one_byte: "fnv1a h (as @ [a] @ bs) = fnv1a h (as @ [b] @ bs) \<longleftrightarrow> a = b"
  by (simp only: fnv1a_append fnv1a_inj_state fnv1a_single fnv_step_inj_byte)

lemma hashBytes_empty [simp]: "hashBytes None = 0" "hashBytes (Some []) = 0"
  by (simp_all add: hashBytes_def)

end
