(* ===== verification/Jobs_Queue.thy ===== *)
theory Jobs_Queue
  imports Job_Cadence Content_Hash
begin

text \<open>
  \<open>service/JobsQueue.go\<close>: the queue of collection jobs of one host. The slice \<open>jobs\<close> and the map
  \<open>jobsMap\<close> hold pointers to the same job objects, and the host collector changes a popped job through
  its pointer while it stays in the queue; so the queue keeps the objects in \<open>cell\<close>, by address, and
  both containers hold addresses. Every operation runs under the queue's mutex and is one step here.
  A method called on a nil queue takes \<open>None\<close>.
\<close>

type_synonym ref = nat

record jobs_queue =
  cell :: "ref \<Rightarrow> cjob"
  fresh :: ref
  jobs :: "ref list"
  jobsMap :: "string \<rightharpoonup> ref"
  shutdown :: bool
  queue_service :: bool
  queue_target :: "target option"
  queue_hostId :: string

section \<open>Operations\<close>

definition NewJobsQueue :: "target option \<Rightarrow> string \<Rightarrow> jobs_queue" where
  "NewJobsQueue t hostId = \<lparr>cell = (\<lambda>_. empty_job), fresh = 0, jobs = [], jobsMap = Map.empty,
     shutdown = False, queue_service = True, queue_target = t, queue_hostId = hostId\<rparr>"

definition Shutdown :: "jobs_queue \<Rightarrow> jobs_queue" where
  "Shutdown q = q\<lparr>shutdown := True, jobs := [], jobsMap := Map.empty, queue_service := False,
     queue_hostId := '''', queue_target := None\<rparr>"

definition JobKey :: "string \<Rightarrow> string \<Rightarrow> string" where
  "JobKey polarisName jobName = polarisName @ jobName"

abbreviation key_of :: "cjob \<Rightarrow> string" where
  "key_of j \<equiv> JobKey (PollarisName j) (JobName j)"

subsection \<open>Making the jobs of a Pollaris\<close>

text \<open>
  The names to go through: the Pollaris' own order, or the keys of its map (in whatever order the map
  is ranged) when the order is missing or has another length.
\<close>

definition order_names :: "(string list \<Rightarrow> string list) \<Rightarrow> pollaris \<Rightarrow> string list" where
  "order_names rng p =
     (case plrs_Order p of
        None \<Rightarrow> rng (map fst (plrs_Polling p))
      | Some ns \<Rightarrow> (if length ns \<noteq> length (plrs_Polling p) then rng (map fst (plrs_Polling p)) else ns))"

definition new_job :: "jobs_queue \<Rightarrow> pollaris \<Rightarrow> string \<Rightarrow> poll \<Rightarrow> cjob res" where
  "new_job q p name pl =
     bind_res (deref (queue_target q)) (\<lambda>t.
       Inr (empty_job\<lparr>JobName := name, PollarisName := plrs_Name p,
         Cadence := cloneCadence (poll_Cadence pl), Timeout := poll_Timeout pl,
         TargetId := tgt_TargetId t, HostId := queue_hostId q, LinksId := tgt_LinksId t,
         Always := poll_Always pl\<rparr>))"

text \<open>A name of the order without a poll reads a nil poll.\<close>

fun build_jobs ::
  "jobs_queue \<Rightarrow> pollaris \<Rightarrow> string list \<Rightarrow> (string \<times> cjob) list \<Rightarrow> (string \<times> cjob) list res" where
  "build_jobs q p [] acc = Inr acc"
| "build_jobs q p (n # ns) acc =
     bind_res (deref (map_of (plrs_Polling p) n)) (\<lambda>pl.
     bind_res (new_job q p n pl) (\<lambda>j. build_jobs q p ns (AList.update n j acc)))"

definition newJobsForKey ::
  "registry \<Rightarrow> (string list \<Rightarrow> string list) \<Rightarrow> pollaris_key \<Rightarrow> jobs_queue \<Rightarrow>
   (string \<times> cjob) list option res" where
  "newJobsForKey reg rng key q =
     (if \<not> queue_service q then Inl NilDeref
      else case PollarisByKey reg key of
        None \<Rightarrow> Inr None
      | Some p \<Rightarrow> bind_res (build_jobs q p (order_names rng p) []) (\<lambda>js. Inr (Some js)))"

fun group_jobs :: "jobs_queue \<Rightarrow> pollaris \<Rightarrow> string list \<Rightarrow> cjob list \<Rightarrow> cjob list res" where
  "group_jobs q p [] acc = Inr acc"
| "group_jobs q p (n # ns) acc =
     bind_res (deref (map_of (plrs_Polling p) n)) (\<lambda>pl.
     bind_res (deref (poll_Cadence pl)) (\<lambda>c.
       if \<not> Enabled c then group_jobs q p ns acc
       else bind_res (new_job q p n pl) (\<lambda>j. group_jobs q p ns (acc @ [j]))))"

fun groups_jobs ::
  "(string list \<Rightarrow> string list) \<Rightarrow> jobs_queue \<Rightarrow> pollaris list \<Rightarrow> cjob list \<Rightarrow> cjob list res" where
  "groups_jobs rng q [] acc = Inr acc"
| "groups_jobs rng q (p # ps) acc =
     bind_res (group_jobs q p (order_names rng p) acc) (groups_jobs rng q ps)"

definition newJobsForGroup ::
  "registry \<Rightarrow> (string list \<Rightarrow> string list) \<Rightarrow> pollaris_key \<Rightarrow> jobs_queue \<Rightarrow> cjob list option res" where
  "newJobsForGroup reg rng key q =
     (if \<not> queue_service q then Inl NilDeref
      else case PollarisByGroup reg key of
        None \<Rightarrow> Inr None
      | Some ps \<Rightarrow> bind_res (groups_jobs rng q ps []) (\<lambda>js. Inr (Some js)))"

subsection \<open>Inserting\<close>

text \<open>An enabled job is appended under its key, or the job already there is made due again.\<close>

definition insert_one :: "cjob \<Rightarrow> jobs_queue \<Rightarrow> jobs_queue" where
  "insert_one j q =
     (case jobsMap q (key_of j) of
        None \<Rightarrow> q\<lparr>cell := (cell q)(fresh q := j), fresh := Suc (fresh q), jobs := jobs q @ [fresh q],
                  jobsMap := (jobsMap q)(key_of j \<mapsto> fresh q)\<rparr>
      | Some old \<Rightarrow> q\<lparr>cell := (cell q)(old := (cell q old)\<lparr>Started := 0, Ended := 0\<rparr>)\<rparr>)"

fun insert_jobs :: "cjob list \<Rightarrow> jobs_queue \<Rightarrow> jobs_queue res" where
  "insert_jobs [] q = Inr q"
| "insert_jobs (j # js) q =
     bind_res (deref (Cadence j)) (\<lambda>c. insert_jobs js (if \<not> Enabled c then q else insert_one j q))"

definition InsertJob ::
  "registry \<Rightarrow> (string list \<Rightarrow> string list) \<Rightarrow> pollaris_key \<Rightarrow> jobs_queue option \<Rightarrow>
   (jobs_queue option \<times> string option) res" where
  "InsertJob reg rng key this =
     (case this of
        None \<Rightarrow> Inr (None, Some ''Job Queue is already shutdown'')
      | Some q \<Rightarrow> bind_res (newJobsForKey reg rng key q) (\<lambda>js.
          case js of
            None \<Rightarrow> Inr (Some q, Some ''cannot find pollaris to create jobs'')
          | Some js \<Rightarrow>
              (if shutdown q then Inr (Some q, Some ''Job Queue is already shutdown'')
               else bind_res (insert_jobs (map (\<lambda>n. the (map_of js n)) (rng (map fst js))) q)
                      (\<lambda>q'. Inr (Some q', None)))))"

subsection \<open>Disabling, expediting\<close>

definition set_cell :: "ref \<Rightarrow> cjob \<Rightarrow> jobs_queue \<Rightarrow> jobs_queue" where
  "set_cell r j q = q\<lparr>cell := (cell q)(r := j)\<rparr>"

definition DisableJob :: "ref \<Rightarrow> jobs_queue \<Rightarrow> jobs_queue res" where
  "DisableJob r q =
     bind_res (deref (Cadence (cell q r))) (\<lambda>c.
       Inr (set_cell r ((cell q r)\<lparr>Cadence := Some (c\<lparr>Enabled := False\<rparr>)\<rparr>) q))"

fun expedite_loop :: "ref list \<Rightarrow> jobs_queue \<Rightarrow> jobs_queue res" where
  "expedite_loop [] q = Inr q"
| "expedite_loop (r # rs) q =
     bind_res (deref (Cadence (cell q r))) (\<lambda>c.
       expedite_loop rs (if \<not> Enabled c then q else set_cell r ((cell q r)\<lparr>Ended := 0\<rparr>) q))"

definition Expedite :: "jobs_queue option \<Rightarrow> jobs_queue option res" where
  "Expedite this =
     (case this of
        None \<Rightarrow> Inr None
      | Some q \<Rightarrow>
          (if shutdown q then Inr (Some q)
           else bind_res (expedite_loop (jobs q) q) (\<lambda>q'. Inr (Some q'))))"

subsection \<open>Popping\<close>

text \<open>
  The scan stops at the first enabled job whose interval has elapsed; before that it keeps the least
  time to the next execution. \<open>JobCadence\<close> may draw the startups of each job it is called on.
\<close>

fun pop_scan ::
  "bool \<Rightarrow> (ref \<Rightarrow> int \<Rightarrow> int) \<Rightarrow> int \<Rightarrow> ref list \<Rightarrow> nat \<Rightarrow> int \<Rightarrow> jobs_queue \<Rightarrow>
   ((ref \<times> nat) option \<times> int \<times> jobs_queue) res" where
  "pop_scan smooth rnd now [] i wait q = Inr (None, wait, q)"
| "pop_scan smooth rnd now (r # rs) i wait q =
     bind_res (deref (Cadence (cell q r))) (\<lambda>c.
       if \<not> Enabled c then pop_scan smooth rnd now rs (Suc i) wait q
       else bind_res (JobCadence smooth (rnd r) c) (\<lambda>(interval, c').
         let q' = set_cell r ((cell q r)\<lparr>Cadence := Some c'\<rparr>) q;
             since = int64 (now - Ended (cell q r)) in
         if interval \<le> since then Inr (Some (r, i), wait, q')
         else let till = int64 (interval - since) in
           pop_scan smooth rnd now rs (Suc i) (if till < wait then till else wait) q'))"

definition moveToLast :: "nat option \<Rightarrow> jobs_queue \<Rightarrow> jobs_queue" where
  "moveToLast index q =
     (case index of
        None \<Rightarrow> q
      | Some i \<Rightarrow> q\<lparr>jobs := take i (jobs q) @ drop (Suc i) (jobs q) @ [jobs q ! i]\<rparr>)"

definition Pop ::
  "bool \<Rightarrow> (ref \<Rightarrow> int \<Rightarrow> int) \<Rightarrow> int \<Rightarrow> jobs_queue option \<Rightarrow>
   ((ref option \<times> int) \<times> jobs_queue option) res" where
  "Pop smooth rnd now this =
     (case this of
        None \<Rightarrow> Inr ((None, - 1), None)
      | Some q \<Rightarrow>
          (if jobs q = [] \<and> \<not> queue_service q then Inl NilDeref
           else if shutdown q then Inr ((None, - 1), Some q)
           else bind_res (pop_scan smooth rnd now (jobs q) 0 999999 q) (\<lambda>(hit, wait, q').
             Inr ((map_option fst hit, wait), Some (moveToLast (map_option snd hit) q')))))"

subsection \<open>Marking\<close>

definition MarkStart :: "int \<Rightarrow> cjob \<Rightarrow> cjob" where
  "MarkStart now job =
     (let job = (if ErrorCount job = 0 then job\<lparr>LastResultHash := hashBytes (Result job)\<rparr> else job) in
      job\<lparr>Started := now, Ended := 0, Result := None, Error := ''''\<rparr>)"

definition MarkEnded :: "int \<Rightarrow> cjob \<Rightarrow> cjob" where
  "MarkEnded now job = job\<lparr>Ended := now\<rparr>"

end
