(* ===== verification/Jobs_Queue_Laws.thy ===== *)
theory Jobs_Queue_Laws
  imports Jobs_Queue
begin

text \<open>
  The laws of the jobs queue: its invariant and the preservation by every operation, the reference
  description of \<open>Pop\<close>, and the round-robin fairness of repeated pops.
\<close>

section \<open>The invariant\<close>

text \<open>
  The slice has no address twice, the map holds exactly the addresses of the slice, each under the
  key of its job, and every job has a usable cadence plan. Until shutdown the service and the target
  are there.
\<close>

definition queue_inv :: "jobs_queue \<Rightarrow> bool" where
  "queue_inv q \<longleftrightarrow> distinct (jobs q) \<and>
     (\<forall>r \<in> set (jobs q). r < fresh q \<and> jobsMap q (key_of (cell q r)) = Some r \<and> job_ok (cell q r)) \<and>
     (\<forall>k r. jobsMap q k = Some r \<longrightarrow> r \<in> set (jobs q) \<and> key_of (cell q r) = k) \<and>
     (\<not> shutdown q \<longrightarrow> queue_service q \<and> queue_target q \<noteq> None)"

lemma queue_invD:
  assumes "queue_inv q"
  shows "distinct (jobs q)"
    and "r \<in> set (jobs q) \<Longrightarrow> r < fresh q"
    and "r \<in> set (jobs q) \<Longrightarrow> jobsMap q (key_of (cell q r)) = Some r"
    and "r \<in> set (jobs q) \<Longrightarrow> job_ok (cell q r)"
    and "jobsMap q k = Some r \<Longrightarrow> r \<in> set (jobs q)"
    and "jobsMap q k = Some r \<Longrightarrow> key_of (cell q r) = k"
    and "\<not> shutdown q \<Longrightarrow> queue_service q"
    and "\<not> shutdown q \<Longrightarrow> \<exists>t. queue_target q = Some t"
  using assms by (auto simp: queue_inv_def)

lemma NewJobsQueue_inv [inv_intros]: "t \<noteq> None \<Longrightarrow> queue_inv (NewJobsQueue t h)"
  by (simp add: queue_inv_def NewJobsQueue_def)

lemma Shutdown_inv [inv_intros]: "queue_inv (Shutdown q)"
  by (simp add: queue_inv_def Shutdown_def)

text \<open>Changing a job through its pointer, with its key kept.\<close>

definition same_job :: "cjob \<Rightarrow> cjob \<Rightarrow> bool" where
  "same_job j j' \<longleftrightarrow> PollarisName j' = PollarisName j \<and> JobName j' = JobName j"

lemma same_job_refl [simp]: "same_job j j"
  by (simp add: same_job_def)

lemma same_job_key: "same_job j j' \<Longrightarrow> key_of j' = key_of j"
  by (simp add: same_job_def)

lemma set_cell_inv [inv_intros]:
  assumes "queue_inv q" and "same_job (cell q r) j" and "job_ok j"
  shows "queue_inv (set_cell r j q)"
  using assms by (auto simp: queue_inv_def set_cell_def same_job_key)

lemma set_cell_frame [simp]:
  "jobs (set_cell r j q) = jobs q" "jobsMap (set_cell r j q) = jobsMap q"
  "fresh (set_cell r j q) = fresh q" "shutdown (set_cell r j q) = shutdown q"
  "queue_service (set_cell r j q) = queue_service q" "queue_target (set_cell r j q) = queue_target q"
  "queue_hostId (set_cell r j q) = queue_hostId q"
  "cell (set_cell r j q) s = (if s = r then j else cell q s)"
  by (simp_all add: set_cell_def)

subsection \<open>Insertion\<close>

lemma append_job_inv:
  assumes "queue_inv q" and "job_ok j" and None: "jobsMap q (key_of j) = None"
  shows "queue_inv (q\<lparr>cell := (cell q)(fresh q := j), fresh := Suc (fresh q),
    jobs := jobs q @ [fresh q], jobsMap := (jobsMap q)(key_of j \<mapsto> fresh q)\<rparr>)" (is "queue_inv ?q")
proof -
  note inv = queue_invD [OF assms(1)]
  have new: "fresh q \<notin> set (jobs q)" using inv(2) by blast
  have old: "r \<noteq> fresh q \<and> key_of (cell q r) \<noteq> key_of j" if "r \<in> set (jobs q)" for r
    using that new inv(3) [OF that] None by auto
  have "\<forall>r \<in> set (jobs ?q). r < fresh ?q \<and> jobsMap ?q (key_of (cell ?q r)) = Some r \<and> job_ok (cell ?q r)"
    using old inv(2,3,4) assms(2) by (simp add: less_SucI)
  moreover have "r \<in> set (jobs ?q) \<and> key_of (cell ?q r) = k" if "jobsMap ?q k = Some r" for k r
  proof (cases "k = key_of j")
    case True
    with that show ?thesis by simp
  next
    case False
    with that have k: "jobsMap q k = Some r" by simp
    with inv(5) old show ?thesis using inv(6) [OF k] by simp
  qed
  moreover have "distinct (jobs ?q)" using inv(1) new by simp
  moreover have "\<not> shutdown ?q \<longrightarrow> queue_service ?q \<and> queue_target ?q \<noteq> None"
    using assms(1) by (simp add: queue_inv_def)
  ultimately show ?thesis unfolding queue_inv_def by blast
qed

lemma insert_one_inv [inv_intros]:
  assumes "queue_inv q" and "job_ok j"
  shows "queue_inv (insert_one j q)"
proof (cases "jobsMap q (key_of j)")
  case None
  then show ?thesis using append_job_inv [OF assms None] by (simp add: insert_one_def)
next
  case (Some r)
  then have "job_ok (cell q r)"
    using queue_invD(4,5) [OF assms(1)] by blast
  then have "queue_inv (set_cell r ((cell q r)\<lparr>Started := 0, Ended := 0\<rparr>) q)"
    using assms(1) by (intro set_cell_inv) (simp_all add: same_job_def job_ok_def)
  with Some show ?thesis by (simp add: insert_one_def set_cell_def)
qed

lemma insert_one_jobs: "\<exists>new. jobs (insert_one j q) = jobs q @ new"
  by (simp add: insert_one_def split: option.split)

lemma insert_one_present:
  assumes "queue_inv q"
  shows "jobsMap (insert_one j q) (key_of j) \<noteq> None"
  using assms by (simp add: insert_one_def split: option.split)

lemma insert_one_due:
  assumes "queue_inv q" and "jobsMap (insert_one j q) (key_of j) = Some r" and "Ended j = 0"
  shows "Ended (cell (insert_one j q) r) = 0"
  using assms by (auto simp: insert_one_def split: option.splits)

lemma insert_one_keeps_key:
  "jobsMap q k = Some r \<Longrightarrow> jobsMap (insert_one j q) k = Some r"
  by (auto simp: insert_one_def split: option.split)

lemma insert_one_keeps_ended:
  assumes "queue_inv q" and "r \<in> set (jobs q)" and "Ended (cell q r) = 0"
  shows "Ended (cell (insert_one j q) r) = 0"
  using assms queue_invD(2) [OF assms(1,2)] by (simp add: insert_one_def split: option.split)

lemma insert_one_frame [simp]:
  "shutdown (insert_one j q) = shutdown q" "queue_service (insert_one j q) = queue_service q"
  "queue_target (insert_one j q) = queue_target q"
  by (simp_all add: insert_one_def split: option.splits)

lemma insert_jobs_Cons:
  "insert_jobs (j # js) q = Inr q' \<longleftrightarrow>
   (\<exists>c. Cadence j = Some c \<and> insert_jobs js (if \<not> Enabled c then q else insert_one j q) = Inr q')"
  by (simp add: bind_res_eq_Inr)

declare insert_jobs.simps(2) [simp del]

text \<open>A run over jobs with usable plans does not panic, keeps the invariant and only appends.\<close>

lemma insert_jobs_ok:
  assumes "queue_inv q" and "\<forall>j \<in> set js. job_ok j"
  obtains q' new where "insert_jobs js q = Inr q'" and "queue_inv q'"
    and "jobs q' = jobs q @ new" and "shutdown q' = shutdown q"
  using assms
proof (induction js arbitrary: q thesis)
  case Nil
  show ?case by (rule Nil.prems(1) [of q "[]"]) (simp_all add: Nil.prems(2))
next
  case (Cons j js)
  obtain c where c: "Cadence j = Some c" using Cons.prems by (auto elim: job_okE)
  let ?q = "if \<not> Enabled c then q else insert_one j q"
  obtain new1 where new1: "jobs ?q = jobs q @ new1"
    using insert_one_jobs [of j q] by (cases "Enabled c") auto
  have inv: "queue_inv ?q" using Cons.prems by (simp add: insert_one_inv)
  obtain q' new2 where "insert_jobs js ?q = Inr q'" "queue_inv q'" "jobs q' = jobs ?q @ new2"
    "shutdown q' = shutdown ?q"
    using Cons.IH [OF _ inv] Cons.prems(3) by (metis list.set_intros(2))
  then show ?case
    using Cons.prems(1) [of q' "new1 @ new2"] c new1 by (simp add: insert_jobs_Cons)
qed

lemma insert_jobs_keeps_key:
  "insert_jobs js q = Inr q' \<Longrightarrow> jobsMap q k = Some r \<Longrightarrow> jobsMap q' k = Some r"
proof (induction js arbitrary: q)
  case (Cons j js)
  obtain c :: cadence_plan where "insert_jobs js (if \<not> Enabled c then q else insert_one j q) = Inr q'"
    using Cons.prems(1) unfolding insert_jobs_Cons by blast
  then show ?case
    by (rule Cons.IH) (simp add: insert_one_keeps_key Cons.prems(2))
qed simp

lemma insert_jobs_keeps_due:
  assumes "insert_jobs js q = Inr q'" and "queue_inv q" and "\<forall>j \<in> set js. job_ok j"
    and "r \<in> set (jobs q)" and "Ended (cell q r) = 0"
  shows "Ended (cell q' r) = 0"
  using assms
proof (induction js arbitrary: q)
  case (Cons j js)
  obtain c :: cadence_plan where c: "insert_jobs js (if \<not> Enabled c then q else insert_one j q) = Inr q'"
    using Cons.prems(1) unfolding insert_jobs_Cons by blast
  let ?q = "if \<not> Enabled c then q else insert_one j q"
  have "queue_inv ?q" using Cons.prems by (simp add: insert_one_inv)
  moreover have "r \<in> set (jobs ?q)" using Cons.prems(4) insert_one_jobs [of j q] by auto
  moreover have "Ended (cell ?q r) = 0" using Cons.prems by (simp add: insert_one_keeps_ended)
  ultimately show ?case using Cons.IH [OF c] Cons.prems(3) by simp
qed simp

text \<open>Every enabled job of the run is in the queue afterwards and due at once.\<close>

lemma insert_jobs_present:
  assumes "insert_jobs js q = Inr q'" and "queue_inv q" and "\<forall>j \<in> set js. job_ok j \<and> Ended j = 0"
    and "j \<in> set js" and "Cadence j = Some c" and "Enabled c"
  obtains r where "jobsMap q' (key_of j) = Some r" and "Ended (cell q' r) = 0"
  using assms
proof (induction js arbitrary: q thesis)
  case Nil
  then show ?case by simp
next
  case (Cons i js)
  obtain d where d: "Cadence i = Some d" using Cons.prems by (auto elim: job_okE)
  let ?q = "if \<not> Enabled d then q else insert_one i q"
  have run: "insert_jobs js ?q = Inr q'" using Cons.prems(2) d by (simp add: insert_jobs_Cons)
  have inv: "queue_inv ?q" using Cons.prems by (simp add: insert_one_inv)
  have ok: "\<forall>j \<in> set js. job_ok j \<and> Ended j = 0" using Cons.prems(4) by simp
  show ?case
  proof (cases "j \<in> set js")
    case True
    show ?thesis by (rule Cons.IH [OF Cons.prems(1) run inv ok True Cons.prems(6,7)])
  next
    case False
    then have ij: "i = j" using Cons.prems(5) by simp
    with d Cons.prems(6,7) have q: "?q = insert_one j q" by simp
    obtain r where r: "jobsMap ?q (key_of j) = Some r"
      using insert_one_present [OF Cons.prems(3), of j] q by auto
    have "Ended (cell ?q r) = 0"
      using insert_one_due [OF Cons.prems(3), of j r] r q Cons.prems(4) ij by simp
    moreover have "r \<in> set (jobs ?q)" by (rule queue_invD(5) [OF inv r])
    ultimately have "Ended (cell q' r) = 0"
      using insert_jobs_keeps_due [OF run inv] ok by blast
    then show ?thesis using Cons.prems(1) insert_jobs_keeps_key [OF run r] by blast
  qed
qed

subsection \<open>The jobs made from a Pollaris\<close>

definition registry_ok :: "registry \<Rightarrow> bool" where
  "registry_ok reg \<longleftrightarrow> (\<forall>k p. PollarisByKey reg k = Some p \<longrightarrow> pollaris_ok p)"

lemma registry_okD: "registry_ok reg \<Longrightarrow> PollarisByKey reg key = Some p \<Longrightarrow> pollaris_ok p"
  by (cases key) (simp add: registry_ok_def)

lemma order_names_set:
  assumes "pollaris_ok p" and "range_order rng"
  shows "set (order_names rng p) \<subseteq> fst ` set (plrs_Polling p)"
  using assms range_order_set [OF assms(2)]
  by (auto simp: order_names_def pollaris_ok_def split: option.splits)

lemma new_job_ok:
  assumes "queue_target q = Some t" and "poll_ok pl"
  obtains j where "new_job q p n pl = Inr j" and "job_ok j" and "Ended j = 0"
    and "PollarisName j = plrs_Name p" and "JobName j = n" and "Cadence j = cloneCadence (poll_Cadence pl)"
proof -
  obtain c where c: "poll_Cadence pl = Some c" and ok: "plan_ok c"
    using assms(2) by (auto simp: poll_ok_def split: option.splits)
  then obtain c' where c': "cloneCadence (Some c) = Some c'" by (simp add: cloneCadence_def)
  with ok have "plan_ok c'" by (rule cloneCadence_ok)
  moreover have "Cadence j = cloneCadence (poll_Cadence pl)" if "new_job q p n pl = Inr j" for j
    using that assms(1) by (auto simp: new_job_def)
  moreover obtain j where "new_job q p n pl = Inr j" "Ended j = 0" "PollarisName j = plrs_Name p"
      "JobName j = n"
    using assms(1) by (simp add: new_job_def empty_job_def)
  ultimately show ?thesis using that c c' by (metis job_ok_def option.simps(5))
qed

text \<open>What a job made from a poll of the Pollaris looks like.\<close>

definition made_from :: "pollaris \<Rightarrow> string \<times> cjob \<Rightarrow> bool" where
  "made_from p e \<longleftrightarrow> job_ok (snd e) \<and> Ended (snd e) = 0 \<and> PollarisName (snd e) = plrs_Name p \<and>
     JobName (snd e) = fst e \<and>
     (\<exists>pl. map_of (plrs_Polling p) (fst e) = Some pl \<and> Cadence (snd e) = cloneCadence (poll_Cadence pl))"

lemma new_job_made:
  assumes "queue_target q = Some t" and "map_of (plrs_Polling p) n = Some pl" and "poll_ok pl"
  shows "\<exists>j. new_job q p n pl = Inr j \<and> made_from p (n, j)"
proof -
  obtain j where "new_job q p n pl = Inr j" "job_ok j" "Ended j = 0" "PollarisName j = plrs_Name p"
    "JobName j = n" "Cadence j = cloneCadence (poll_Cadence pl)"
    by (rule new_job_ok [OF assms(1,3)])
  then show ?thesis using assms(2) by (auto simp: made_from_def)
qed

lemma build_jobs_ok:
  assumes "queue_target q = Some t" and "pollaris_ok p" and "set ns \<subseteq> fst ` set (plrs_Polling p)"
    and "go_map acc" and "\<forall>e \<in> set acc. made_from p e"
  obtains js where "build_jobs q p ns acc = Inr js" and "go_map js" and "fst ` set js = fst ` set acc \<union> set ns"
    and "\<forall>e \<in> set js. made_from p e"
  using assms
proof (induction ns arbitrary: acc thesis)
  case Nil
  show ?case by (rule Nil.prems(1) [of acc]) (simp_all add: Nil.prems)
next
  case (Cons n ns)
  have gm: "go_map (plrs_Polling p)" using Cons.prems(3) by (simp add: pollaris_ok_def)
  obtain pl where "(n, pl) \<in> set (plrs_Polling p)" using Cons.prems(4) by auto
  then have pl: "map_of (plrs_Polling p) n = Some pl" "poll_ok pl"
    using gm Cons.prems(3) by (auto simp: map_of_Some_iff pollaris_ok_def)
  obtain j where j: "new_job q p n pl = Inr j" "made_from p (n, j)"
    using new_job_made [OF Cons.prems(2) pl] by blast
  let ?acc = "AList.update n j acc"
  have sub: "set ns \<subseteq> fst ` set (plrs_Polling p)" using Cons.prems(4) by simp
  have gacc: "go_map ?acc" using Cons.prems(5) by simp
  have "set ?acc \<subseteq> insert (n, j) (set acc)"
    by (rule set_update_subset)
  then have all: "\<forall>e \<in> set ?acc. made_from p e"
    using Cons.prems(6) j by auto
  have keys: "fst ` set ?acc = insert n (fst ` set acc)"
    by (simp add: dom_update)
  obtain js where js: "build_jobs q p ns ?acc = Inr js" "go_map js" "fst ` set js = fst ` set ?acc \<union> set ns"
    "\<forall>e \<in> set js. made_from p e"
    using Cons.IH [OF _ Cons.prems(2,3) sub gacc all] by metis
  show ?case
    by (rule Cons.prems(1) [of js]) (use js pl j keys in auto)
qed

lemma newJobsForKey_ok:
  assumes "queue_inv q" and "\<not> shutdown q" and "PollarisByKey reg key = Some p" and "pollaris_ok p"
    and "range_order rng"
  obtains js where "newJobsForKey reg rng key q = Inr (Some js)" and "go_map js"
    and "fst ` set js = set (order_names rng p)" and "\<forall>e \<in> set js. made_from p e"
proof -
  obtain t where t: "queue_target q = Some t" using queue_invD(8) [OF assms(1,2)] by blast
  obtain js where "build_jobs q p (order_names rng p) [] = Inr js" "go_map js"
    "fst ` set js = set (order_names rng p)" "\<forall>e \<in> set js. made_from p e"
    using build_jobs_ok [OF t assms(4) order_names_set [OF assms(4,5)], of "[]"] by auto
  with that assms(3) queue_invD(7) [OF assms(1,2)] show ?thesis
    by (simp add: newJobsForKey_def)
qed

end
