(* ===== verification/Jobs_Queue_Pop.thy ===== *)
theory Jobs_Queue_Pop
  imports Jobs_Queue_Laws
begin

text \<open>
  What \<open>Pop\<close> of the jobs queue promises: the first due job of the slice, moved to its end, or the time
  to the next execution; and the contract of a round-robin scheduler that this gives.
\<close>

section \<open>The reference description\<close>

definition due :: "bool \<Rightarrow> (ref \<Rightarrow> int \<Rightarrow> int) \<Rightarrow> int \<Rightarrow> jobs_queue \<Rightarrow> ref \<Rightarrow> bool" where
  "due smooth rnd now q r \<longleftrightarrow>
     (case Cadence (cell q r) of
        None \<Rightarrow> False
      | Some c \<Rightarrow> Enabled c \<and>
          (case JobCadence smooth (rnd r) c of
             Inl _ \<Rightarrow> False
           | Inr (interval, _) \<Rightarrow> interval \<le> int64 (now - Ended (cell q r))))"

definition job_enabled :: "jobs_queue \<Rightarrow> ref \<Rightarrow> bool" where
  "job_enabled q r \<longleftrightarrow> (case Cadence (cell q r) of None \<Rightarrow> False | Some c \<Rightarrow> Enabled c)"

definition remaining :: "bool \<Rightarrow> (ref \<Rightarrow> int \<Rightarrow> int) \<Rightarrow> int \<Rightarrow> jobs_queue \<Rightarrow> ref \<Rightarrow> int" where
  "remaining smooth rnd now q r =
     (case Cadence (cell q r) of
        None \<Rightarrow> 0
      | Some c \<Rightarrow> (case JobCadence smooth (rnd r) c of
          Inl _ \<Rightarrow> 0
        | Inr (interval, _) \<Rightarrow> int64 (interval - int64 (now - Ended (cell q r)))))"

fun first_due :: "(ref \<Rightarrow> bool) \<Rightarrow> ref list \<Rightarrow> nat \<Rightarrow> (ref \<times> nat) option" where
  "first_due P [] i = None"
| "first_due P (r # rs) i = (if P r then Some (r, i) else first_due P rs (Suc i))"

definition next_wait :: "(ref \<Rightarrow> int) \<Rightarrow> (ref \<Rightarrow> bool) \<Rightarrow> ref list \<Rightarrow> int \<Rightarrow> int" where
  "next_wait f P rs w = foldl min w (map f (filter P rs))"

lemma first_due_find: "map_option fst (first_due P rs i) = find P rs"
  by (induction rs arbitrary: i) simp_all

lemma first_due_cong:
  "(\<And>r. r \<in> set rs \<Longrightarrow> P r = Q r) \<Longrightarrow> first_due P rs i = first_due Q rs i"
  by (induction rs arbitrary: i) simp_all

lemma first_due_SomeD:
  "first_due P rs i = Some (r, k) \<Longrightarrow>
   i \<le> k \<and> k - i < length rs \<and> rs ! (k - i) = r \<and> P r \<and> (\<forall>s \<in> set (take (k - i) rs). \<not> P s)"
proof (induction rs arbitrary: i)
  case (Cons x xs)
  then show ?case
  proof (cases "P x")
    case False
    with Cons.prems have "first_due P xs (Suc i) = Some (r, k)" by simp
    from Cons.IH [OF this] False show ?thesis
      by (auto simp: Suc_diff_Suc [symmetric] less_eq_Suc_le [symmetric])
  qed simp
qed simp

lemma first_due_None: "first_due P rs i = None \<longleftrightarrow> (\<forall>r \<in> set rs. \<not> P r)"
  by (induction rs arbitrary: i) auto

lemma next_wait_Nil [simp]: "next_wait f P [] w = w"
  by (simp add: next_wait_def)

lemma next_wait_Cons [simp]:
  "next_wait f P (r # rs) w = next_wait f P rs (if P r then min w (f r) else w)"
  by (simp add: next_wait_def)

lemma next_wait_cong:
  "(\<And>r. r \<in> set rs \<Longrightarrow> f r = g r \<and> P r = Q r) \<Longrightarrow> next_wait f P rs w = next_wait g Q rs w"
  by (induction rs arbitrary: w) simp_all

lemma next_wait_le: "next_wait f P rs w \<le> w"
proof (induction rs arbitrary: w)
  case (Cons x xs)
  show ?case using Cons.IH [of "if P x then min w (f x) else w"] by (auto split: if_splits)
qed simp

lemma next_wait_le_member: "r \<in> set rs \<Longrightarrow> P r \<Longrightarrow> next_wait f P rs w \<le> f r"
proof (induction rs arbitrary: w)
  case (Cons x xs)
  then show ?case
    using next_wait_le [of f P xs "min w (f r)"] by auto
qed simp

lemma next_wait_attained:
  "next_wait f P rs w = w \<or> (\<exists>r \<in> set rs. P r \<and> next_wait f P rs w = f r)"
proof (induction rs arbitrary: w)
  case (Cons x xs)
  show ?case
    using Cons.IH [of "if P x then min w (f x) else w"] by (auto simp: min_def split: if_splits)
qed simp

section \<open>The scan meets the description\<close>

definition plan_step :: "cadence_plan \<Rightarrow> cadence_plan \<Rightarrow> bool" where
  "plan_step c c' \<longleftrightarrow> Enabled c' = Enabled c \<and> Current c' = Current c \<and> Cadences c' = Cadences c \<and>
     (plan_ok c \<longrightarrow> plan_ok c')"

lemma JobCadence_step:
  assumes "plan_ok c" and "random_source rnd"
  obtains v c' where "JobCadence smooth rnd c = Inr (v, c')" and "plan_step c c'"
    and "level_interval c \<le> v" and "v < 2 * level_interval c"
proof -
  obtain v c' where "JobCadence smooth rnd c = Inr (v, c')" "plan_ok c'" "level_interval c \<le> v"
    "v < 2 * level_interval c" "Enabled c' = Enabled c" "Current c' = Current c" "Cadences c' = Cadences c"
    by (rule JobCadence_ok [OF assms])
  then show ?thesis by (intro that [of v c']) (simp_all add: plan_step_def)
qed

text \<open>Two queues that differ at most in the drawn startups of their jobs.\<close>

definition drawn :: "jobs_queue \<Rightarrow> jobs_queue \<Rightarrow> bool" where
  "drawn q q' \<longleftrightarrow> q'\<lparr>cell := cell q\<rparr> = q \<and>
     (\<forall>r. (cell q' r)\<lparr>Cadence := None\<rparr> = (cell q r)\<lparr>Cadence := None\<rparr> \<and>
       rel_option plan_step (Cadence (cell q r)) (Cadence (cell q' r)))"

lemma plan_step_refl [simp]: "plan_step c c"
  by (simp add: plan_step_def)

lemma plan_step_trans: "plan_step a b \<Longrightarrow> plan_step b c \<Longrightarrow> plan_step a c"
  by (simp add: plan_step_def)

lemma drawn_refl [simp]: "drawn q q"
  by (auto simp: drawn_def intro: option.rel_refl)

lemma drawn_trans:
  assumes "drawn a b" and "drawn b c"
  shows "drawn a c"
proof -
  have "rel_option plan_step x z" if "rel_option plan_step x y" "rel_option plan_step y z" for x y z
    using that by (cases x; cases y; cases z) (auto intro: plan_step_trans)
  moreover have "c\<lparr>cell := cell a\<rparr> = a"
  proof -
    have "c\<lparr>cell := cell a\<rparr> = (c\<lparr>cell := cell b\<rparr>)\<lparr>cell := cell a\<rparr>" by simp
    then show ?thesis using assms by (simp only: drawn_def)
  qed
  ultimately show ?thesis using assms unfolding drawn_def by metis
qed

lemma drawn_frame:
  assumes "drawn q q'"
  shows "jobs q' = jobs q" "jobsMap q' = jobsMap q" "fresh q' = fresh q" "shutdown q' = shutdown q"
    "queue_service q' = queue_service q" "queue_target q' = queue_target q"
  using assms by (metis drawn_def jobs_queue.update_convs(1) jobs_queue.select_convs(2-7) jobs_queue.surjective)+

lemma drawn_cell:
  assumes "drawn q q'"
  shows "PollarisName (cell q' r) = PollarisName (cell q r)" "JobName (cell q' r) = JobName (cell q r)"
    "Ended (cell q' r) = Ended (cell q r)" "job_ok (cell q r) \<Longrightarrow> job_ok (cell q' r)"
proof -
  have e: "(cell q' r)\<lparr>Cadence := None\<rparr> = (cell q r)\<lparr>Cadence := None\<rparr>"
    and p: "rel_option plan_step (Cadence (cell q r)) (Cadence (cell q' r))"
    using assms by (simp_all add: drawn_def)
  show "PollarisName (cell q' r) = PollarisName (cell q r)" "JobName (cell q' r) = JobName (cell q r)"
    "Ended (cell q' r) = Ended (cell q r)"
    using arg_cong [OF e, of PollarisName] arg_cong [OF e, of JobName] arg_cong [OF e, of Ended]
    by simp_all
  show "job_ok (cell q r) \<Longrightarrow> job_ok (cell q' r)"
    using p by (auto simp: job_ok_def plan_step_def rel_option_iff split: option.splits)
qed

lemma drawn_inv [inv_intros]: "drawn q q' \<Longrightarrow> queue_inv q \<Longrightarrow> queue_inv q'"
  unfolding queue_inv_def by (simp add: drawn_frame drawn_cell)

lemma set_cell_drawn:
  assumes "Cadence (cell q r) = Some c" and "plan_step c c'"
  shows "drawn q (set_cell r ((cell q r)\<lparr>Cadence := Some c'\<rparr>) q)"
  using assms by (auto simp: drawn_def set_cell_def intro: option.rel_refl)

lemma set_cell_id: "Cadence (cell q r) = Some c \<Longrightarrow> set_cell r ((cell q r)\<lparr>Cadence := Some c\<rparr>) q = q"
proof -
  assume "Cadence (cell q r) = Some c"
  then have "(cell q r)\<lparr>Cadence := Some c\<rparr> = cell q r" by (simp flip: \<open>Cadence (cell q r) = Some c\<close>)
  then show ?thesis by (simp only: set_cell_def fun_upd_triv) simp
qed

lemma due_cell: "cell q' r = cell q r \<Longrightarrow> due smooth rnd now q' r = due smooth rnd now q r"
  by (simp only: due_def)

lemma remaining_cell:
  "cell q' r = cell q r \<Longrightarrow> remaining smooth rnd now q' r = remaining smooth rnd now q r"
  by (simp only: remaining_def)

lemma due_other [simp]: "r \<noteq> s \<Longrightarrow> due smooth rnd now (set_cell s j q) r = due smooth rnd now q r"
  by (rule due_cell) simp

lemma remaining_other [simp]:
  "r \<noteq> s \<Longrightarrow> remaining smooth rnd now (set_cell s j q) r = remaining smooth rnd now q r"
  by (rule remaining_cell) simp

lemma job_enabled_other [simp]: "r \<noteq> s \<Longrightarrow> job_enabled (set_cell s j q) r = job_enabled q r"
  by (simp add: job_enabled_def)

lemma pop_scan_meets:
  assumes "distinct rs" and "\<forall>r \<in> set rs. job_ok (cell q r)" and "\<forall>r. random_source (rnd r)"
  obtains w q' where
    "pop_scan smooth rnd now rs i wait q = Inr (first_due (due smooth rnd now q) rs i, w, q')"
    and "drawn q q'"
    and "first_due (due smooth rnd now q) rs i = None \<longrightarrow>
      w = next_wait (remaining smooth rnd now q) (job_enabled q) rs wait"
    and "\<not> smooth \<longrightarrow> q' = q"
  using assms(1,2)
proof (induction rs arbitrary: i wait q thesis)
  case Nil
  show ?case by (rule Nil.prems(1) [of wait q]) simp_all
next
  case (Cons r rs)
  obtain c where c: "Cadence (cell q r) = Some c" and ok: "plan_ok c"
    using Cons.prems(3) by (auto elim: job_okE)
  have dist: "distinct rs" and r: "r \<notin> set rs" using Cons.prems(2) by simp_all
  show ?case
  proof (cases "Enabled c")
    case False
    have all: "\<forall>r \<in> set rs. job_ok (cell q r)" using Cons.prems(3) by simp
    have nd: "\<not> due smooth rnd now q r" "\<not> job_enabled q r"
      using False c by (simp_all add: due_def job_enabled_def)
    obtain w q' where w: "pop_scan smooth rnd now rs (Suc i) wait q =
        Inr (first_due (due smooth rnd now q) rs (Suc i), w, q')" "drawn q q'"
      "first_due (due smooth rnd now q) rs (Suc i) = None \<longrightarrow>
        w = next_wait (remaining smooth rnd now q) (job_enabled q) rs wait" "\<not> smooth \<longrightarrow> q' = q"
      using Cons.IH [OF _ dist all, where i = "Suc i" and wait = wait] by metis
    show ?thesis
      by (rule Cons.prems(1) [of w q']) (use False c nd w in simp_all)
  next
    case True
    obtain v c' where v: "JobCadence smooth (rnd r) c = Inr (v, c')" and step: "plan_step c c'"
      using JobCadence_step [OF ok] assms(3) by blast
    let ?q = "set_cell r ((cell q r)\<lparr>Cadence := Some c'\<rparr>) q"
    have drawn: "drawn q ?q" using c step by (rule set_cell_drawn)
    have en: "job_enabled q r" using True c by (simp add: job_enabled_def)
    have same: "?q = q" if "\<not> smooth"
    proof -
      have "c' = c" using v that JobCadence_steady [OF ok] by simp
      with c show ?thesis by (simp add: set_cell_id)
    qed
    show ?thesis
    proof (cases "v \<le> int64 (now - Ended (cell q r))")
      case True
      then have d: "due smooth rnd now q r" using \<open>Enabled c\<close> c v by (simp add: due_def)
      show ?thesis
      proof (rule Cons.prems(1) [of wait ?q])
        show "pop_scan smooth rnd now (r # rs) i wait q =
            Inr (first_due (due smooth rnd now q) (r # rs) i, wait, ?q)"
          using True d c \<open>Enabled c\<close> v by (simp add: Let_def)
      qed (use d drawn same in simp_all)
    next
      case False
      then have nd: "\<not> due smooth rnd now q r" using c v by (simp add: due_def)
      let ?till = "int64 (v - int64 (now - Ended (cell q r)))"
      have till: "remaining smooth rnd now q r = ?till" using c v by (simp add: remaining_def)
      let ?w = "if ?till < wait then ?till else wait"
      have all: "\<forall>s \<in> set rs. job_ok (cell ?q s)" using Cons.prems(3) r by simp
      have cong: "first_due (due smooth rnd now ?q) rs (Suc i) = first_due (due smooth rnd now q) rs (Suc i)"
        by (rule first_due_cong) (use r due_other in metis)
      have wcong: "next_wait (remaining smooth rnd now ?q) (job_enabled ?q) rs x =
          next_wait (remaining smooth rnd now q) (job_enabled q) rs x" for x
        by (rule next_wait_cong) (use r remaining_other job_enabled_other in metis)
      have min: "?w = min wait (remaining smooth rnd now q r)" using till by (simp add: min_def)
      obtain w q' where w: "pop_scan smooth rnd now rs (Suc i) ?w ?q =
          Inr (first_due (due smooth rnd now ?q) rs (Suc i), w, q')" "drawn ?q q'"
        "first_due (due smooth rnd now ?q) rs (Suc i) = None \<longrightarrow>
          w = next_wait (remaining smooth rnd now ?q) (job_enabled ?q) rs ?w" "\<not> smooth \<longrightarrow> q' = ?q"
        using Cons.IH [OF _ dist all, where i = "Suc i" and wait = ?w] by metis
      show ?thesis
      proof (rule Cons.prems(1) [of w q'])
        show "pop_scan smooth rnd now (r # rs) i wait q =
            Inr (first_due (due smooth rnd now q) (r # rs) i, w, q')"
          using False c \<open>Enabled c\<close> v w(1) nd cong by (simp add: Let_def)
        show "drawn q q'" using drawn w(2) by (rule drawn_trans)
        show "first_due (due smooth rnd now q) (r # rs) i = None \<longrightarrow>
            w = next_wait (remaining smooth rnd now q) (job_enabled q) (r # rs) wait"
          using w(3) nd cong wcong en min by simp
        show "\<not> smooth \<longrightarrow> q' = q" using w(4) same by simp
      qed
    qed
  qed
qed

section \<open>Pop\<close>

lemma moveToLast_frame [simp]:
  "cell (moveToLast i q) = cell q" "jobsMap (moveToLast i q) = jobsMap q"
  "fresh (moveToLast i q) = fresh q" "shutdown (moveToLast i q) = shutdown q"
  "queue_service (moveToLast i q) = queue_service q" "queue_target (moveToLast i q) = queue_target q"
  by (simp_all add: moveToLast_def split: option.splits)

lemma moveToLast_mset:
  "(\<And>i. index = Some i \<Longrightarrow> i < length (jobs q)) \<Longrightarrow> mset (jobs (moveToLast index q)) = mset (jobs q)"
  by (cases index) (simp_all add: moveToLast_def mset_move_to_last del: mset_append)

lemma moveToLast_inv [inv_intros]:
  assumes "queue_inv q" and "\<And>i. index = Some i \<Longrightarrow> i < length (jobs q)"
  shows "queue_inv (moveToLast index q)"
proof -
  have m: "mset (jobs (moveToLast index q)) = mset (jobs q)" using assms(2) by (rule moveToLast_mset)
  then have "set (jobs (moveToLast index q)) = set (jobs q)" by (rule mset_eq_setD)
  moreover have "distinct (jobs (moveToLast index q)) = distinct (jobs q)"
    using m by (rule mset_eq_imp_distinct_iff)
  ultimately show ?thesis using assms(1) by (simp add: queue_inv_def)
qed

text \<open>
  On a queue in use, \<open>Pop\<close> does not panic. It returns the first due job of the slice and moves it to
  the end, or no job and the least time to the next execution.
\<close>

lemma Pop_meets:
  assumes "queue_inv q" and "\<not> shutdown q" and "\<forall>r. random_source (rnd r)"
  obtains w q' where
    "Pop smooth rnd now (Some q) = Inr ((find (due smooth rnd now q) (jobs q), w), Some q')"
    and "queue_inv q'" and "\<not> shutdown q'"
    and "jobs q' = (case find (due smooth rnd now q) (jobs q) of
      None \<Rightarrow> jobs q | Some r \<Rightarrow> remove1 r (jobs q) @ [r])"
    and "find (due smooth rnd now q) (jobs q) = None \<longrightarrow>
      w = next_wait (remaining smooth rnd now q) (job_enabled q) (jobs q) 999999"
    and "jobsMap q' = jobsMap q" and "\<forall>r. Ended (cell q' r) = Ended (cell q r)"
    and "\<not> smooth \<longrightarrow> cell q' = cell q"
proof -
  note inv = queue_invD [OF assms(1)]
  let ?d = "due smooth rnd now q" and ?hit = "first_due (due smooth rnd now q) (jobs q) 0"
  have all: "\<forall>r \<in> set (jobs q). job_ok (cell q r)" using inv(4) by blast
  obtain w q1 where w: "pop_scan smooth rnd now (jobs q) 0 999999 q = Inr (?hit, w, q1)" "drawn q q1"
    "?hit = None \<longrightarrow> w = next_wait (remaining smooth rnd now q) (job_enabled q) (jobs q) 999999"
    "\<not> smooth \<longrightarrow> q1 = q"
    by (rule pop_scan_meets [OF inv(1) all assms(3), where smooth = smooth and now = now and i = 0
        and wait = 999999])
  let ?q = "moveToLast (map_option snd ?hit) q1"
  have idx: "i < length (jobs q1)" if hi: "map_option snd ?hit = Some i" for i
  proof -
    obtain r where "?hit = Some (r, i)" using hi by (cases ?hit) auto
    then show ?thesis using first_due_SomeD [of ?d "jobs q" 0 r i] drawn_frame(1) [OF w(2)] by simp
  qed
  have fnd: "map_option fst ?hit = find ?d (jobs q)" by (rule first_due_find)
  have pop: "Pop smooth rnd now (Some q) = Inr ((map_option fst ?hit, w), Some ?q)"
    using inv(7) [OF assms(2)] assms(2) by (simp only: Pop_def option.case w(1)) simp
  show ?thesis
  proof (rule that [of w ?q])
    show "Pop smooth rnd now (Some q) = Inr ((find ?d (jobs q), w), Some ?q)"
      using pop by (simp only: fnd)
    show "queue_inv ?q"
      by (rule moveToLast_inv [OF drawn_inv [OF w(2) assms(1)] idx])
    show "\<not> shutdown ?q" using assms(2) drawn_frame(4) [OF w(2)] by simp
    show "jobs ?q = (case find ?d (jobs q) of None \<Rightarrow> jobs q | Some r \<Rightarrow> remove1 r (jobs q) @ [r])"
    proof (cases ?hit)
      case None
      then have "find ?d (jobs q) = None" using fnd by simp
      with None show ?thesis using drawn_frame(1) [OF w(2)] by (simp add: moveToLast_def)
    next
      case (Some h)
      obtain r k where h: "h = (r, k)" by (cases h)
      have k: "k < length (jobs q)" "jobs q ! k = r" "\<forall>s \<in> set (take k (jobs q)). \<not> ?d s" "?d r"
        using first_due_SomeD [of ?d "jobs q" 0 r k] Some h by auto
      then have "r \<notin> set (take k (jobs q))" by blast
      then have "remove1 r (jobs q) = take k (jobs q) @ drop (Suc k) (jobs q)"
        using k by (metis id_take_nth_drop remove1_append remove1.simps(2))
      moreover have "find ?d (jobs q) = Some r" using fnd Some h by simp
      ultimately show ?thesis
        using Some h k drawn_frame(1) [OF w(2)] by (simp add: moveToLast_def)
    qed
    show "find ?d (jobs q) = None \<longrightarrow> w = next_wait (remaining smooth rnd now q) (job_enabled q) (jobs q) 999999"
      using w(3) fnd by (metis map_option_is_None)
    show "jobsMap ?q = jobsMap q" using drawn_frame(2) [OF w(2)] by simp
    show "\<forall>r. Ended (cell ?q r) = Ended (cell q r)" using drawn_cell(3) [OF w(2)] by simp
    show "\<not> smooth \<longrightarrow> cell ?q = cell q" using w(4) by simp
  qed
qed

section \<open>Round-robin scheduling\<close>

text \<open>
  The contract of a round-robin scheduler: a pop takes the first ready item of the list and puts it
  last; between pops the environment may change anything but may only append items. Its client lemma
  is fairness: an item that is ready at every pop is served after at most as many pops as there are
  items before it.
\<close>

inductive pop_run ::
  "('c \<Rightarrow> 'q \<Rightarrow> 'j option \<Rightarrow> 'q \<Rightarrow> bool) \<Rightarrow> ('q \<Rightarrow> 'q \<Rightarrow> bool) \<Rightarrow> ('c \<Rightarrow> 'q \<Rightarrow> 'j \<Rightarrow> bool) \<Rightarrow>
   'j \<Rightarrow> 'q \<Rightarrow> 'j option list \<Rightarrow> 'q \<Rightarrow> bool"
  for pop env ready j where
  pop_done: "pop_run pop env ready j q [] q"
| pop_more: "ready c q j \<Longrightarrow> pop c q x q1 \<Longrightarrow> env q1 q2 \<Longrightarrow> pop_run pop env ready j q2 xs q3 \<Longrightarrow>
    pop_run pop env ready j q (x # xs) q3"

definition place :: "'j \<Rightarrow> 'j list \<Rightarrow> nat" where
  "place j xs = length (takeWhile (\<lambda>x. x \<noteq> j) xs)"

lemma place_less: "j \<in> set xs \<Longrightarrow> place j xs < length xs"
  by (induction xs) (auto simp: place_def)

lemma place_remove1:
  "j \<in> set xs \<Longrightarrow> r \<in> set (takeWhile (\<lambda>x. x \<noteq> j) xs) \<Longrightarrow> place j xs = Suc (place j (remove1 r xs @ ys))"
proof (induction xs)
  case (Cons x xs)
  show ?case
  proof (cases "x = r")
    case True
    then have "x \<noteq> j" using Cons.prems(2) by (auto split: if_splits)
    moreover have "j \<in> set xs" using Cons.prems(1) \<open>x \<noteq> j\<close> by simp
    ultimately show ?thesis using True by (auto simp: place_def takeWhile_append)
  next
    case False
    then have "x \<noteq> j" "r \<in> set (takeWhile (\<lambda>x. x \<noteq> j) xs)" "j \<in> set xs"
      using Cons.prems by (auto split: if_splits)
    then show ?thesis using Cons.IH False by (simp add: place_def)
  qed
qed simp

lemma find_before:
  "j \<in> set xs \<Longrightarrow> P j \<Longrightarrow> \<exists>r. find P xs = Some r \<and> (r = j \<or> r \<in> set (takeWhile (\<lambda>x. x \<noteq> j) xs))"
  by (induction xs) auto

locale round_robin =
  fixes ready :: "'c \<Rightarrow> 'q \<Rightarrow> 'j \<Rightarrow> bool"
    and items :: "'q \<Rightarrow> 'j list"
    and ok :: "'q \<Rightarrow> bool"
    and pop :: "'c \<Rightarrow> 'q \<Rightarrow> 'j option \<Rightarrow> 'q \<Rightarrow> bool"
    and env :: "'q \<Rightarrow> 'q \<Rightarrow> bool"
  assumes pop_first: "ok q \<Longrightarrow> pop c q x q' \<Longrightarrow> x = find (ready c q) (items q)"
    and pop_ok: "ok q \<Longrightarrow> pop c q x q' \<Longrightarrow> ok q'"
    and pop_rotates: "ok q \<Longrightarrow> pop c q (Some r) q' \<Longrightarrow> items q' = remove1 r (items q) @ [r]"
    and env_ok: "ok q \<Longrightarrow> env q q' \<Longrightarrow> ok q'"
    and env_appends: "ok q \<Longrightarrow> env q q' \<Longrightarrow> \<exists>new. items q' = items q @ new"
begin

lemma served:
  assumes "pop_run pop env ready j q xs q'" and "ok q" and "j \<in> set (items q)" and "Some j \<notin> set xs"
  shows "length xs \<le> place j (items q)"
  using assms
proof (induction rule: pop_run.induct)
  case (pop_done q)
  show ?case by simp
next
  case (pop_more c q x q1 q2 xs q3)
  obtain r where r: "find (ready c q) (items q) = Some r"
    "r = j \<or> r \<in> set (takeWhile (\<lambda>x. x \<noteq> j) (items q))"
    using find_before [OF pop_more.prems(2), of "ready c q"] pop_more.hyps(1) by blast
  have x: "x = Some r" using pop_first [OF pop_more.prems(1) pop_more.hyps(2)] r(1) by simp
  then have before: "r \<in> set (takeWhile (\<lambda>x. x \<noteq> j) (items q))" and "r \<noteq> j"
    using r(2) pop_more.prems(3) by auto
  have ok1: "ok q1" by (rule pop_ok [OF pop_more.prems(1) pop_more.hyps(2)])
  have items1: "items q1 = remove1 r (items q) @ [r]"
    using pop_rotates [OF pop_more.prems(1)] pop_more.hyps(2) x by simp
  obtain new where new: "items q2 = items q1 @ new"
    using env_appends [OF ok1 pop_more.hyps(3)] by blast
  have "j \<in> set (items q2)"
    using pop_more.prems(2) \<open>r \<noteq> j\<close> by (simp add: new items1)
  then have "length xs \<le> place j (items q2)"
    using pop_more.IH env_ok [OF ok1 pop_more.hyps(3)] pop_more.prems(3) by simp
  moreover have "place j (items q) = Suc (place j (items q2))"
    using place_remove1 [OF pop_more.prems(2) before, of "[r] @ new"] by (simp add: new items1)
  ultimately show ?case by simp
qed

end

text \<open>The jobs queue is such a scheduler; the context of a pop is the mode, the draws and the time.\<close>

type_synonym pop_context = "bool \<times> (ref \<Rightarrow> int \<Rightarrow> int) \<times> int"

definition queue_ready :: "pop_context \<Rightarrow> jobs_queue \<Rightarrow> ref \<Rightarrow> bool" where
  "queue_ready c q r = (case c of (smooth, rnd, now) \<Rightarrow> due smooth rnd now q r)"

definition queue_live :: "jobs_queue \<Rightarrow> bool" where
  "queue_live q \<longleftrightarrow> queue_inv q \<and> \<not> shutdown q"

definition queue_pop :: "pop_context \<Rightarrow> jobs_queue \<Rightarrow> ref option \<Rightarrow> jobs_queue \<Rightarrow> bool" where
  "queue_pop c q x q' = (case c of (smooth, rnd, now) \<Rightarrow>
     (\<forall>r. random_source (rnd r)) \<and> (\<exists>w. Pop smooth rnd now (Some q) = Inr ((x, w), Some q')))"

definition queue_env :: "jobs_queue \<Rightarrow> jobs_queue \<Rightarrow> bool" where
  "queue_env q q' \<longleftrightarrow> queue_live q' \<and> (\<exists>new. jobs q' = jobs q @ new)"

lemma queue_pop_meets:
  assumes "queue_live q" and "queue_pop c q x q'"
  shows "x = find (queue_ready c q) (jobs q)" and "queue_live q'"
    and "x = Some r \<Longrightarrow> jobs q' = remove1 r (jobs q) @ [r]"
proof -
  obtain smooth rnd now where c: "c = (smooth, rnd, now)" by (cases c)
  have inv: "queue_inv q" "\<not> shutdown q" and rs: "\<forall>r. random_source (rnd r)"
    using assms by (simp_all add: c queue_live_def queue_pop_def)
  obtain w q1 where meets:
    "Pop smooth rnd now (Some q) = Inr ((find (due smooth rnd now q) (jobs q), w), Some q1)"
    "queue_inv q1" "\<not> shutdown q1"
    "jobs q1 = (case find (due smooth rnd now q) (jobs q) of
      None \<Rightarrow> jobs q | Some r \<Rightarrow> remove1 r (jobs q) @ [r])"
    by (rule Pop_meets [OF inv rs])
  then have q': "x = find (due smooth rnd now q) (jobs q)" "q' = q1"
    using assms(2) by (simp_all add: c queue_pop_def)
  have "queue_ready c q = due smooth rnd now q" by (rule ext) (simp add: c queue_ready_def)
  then show "x = find (queue_ready c q) (jobs q)" using q'(1) by simp
  show "queue_live q'" using meets q' by (simp add: queue_live_def)
  show "x = Some r \<Longrightarrow> jobs q' = remove1 r (jobs q) @ [r]" using q' meets(4) by simp
qed

interpretation jq: round_robin queue_ready jobs queue_live queue_pop queue_env
  by unfold_locales (auto dest: queue_pop_meets simp: queue_env_def)

end
