(* ===== verification/Jobs_Queue_Spec.thy ===== *)
theory Jobs_Queue_Spec
  imports Jobs_Queue_Pop
begin

text \<open>
  The properties of the jobs queue: its states under every sequence of operations, what \<open>Pop\<close>,
  \<open>InsertJob\<close> and \<open>Expedite\<close> promise, the fairness of repeated pops and the exactness of the time to
  sleep.
\<close>

section \<open>Expediting and disabling\<close>

lemma expedite_cell_inv [inv_intros]:
  "queue_inv q \<Longrightarrow> r \<in> set (jobs q) \<Longrightarrow> queue_inv (set_cell r ((cell q r)\<lparr>Ended := e\<rparr>) q)"
  using queue_invD(4) [of q r] by (intro set_cell_inv) (simp_all add: same_job_def job_ok_def)

lemma expedite_loop_meets:
  assumes "queue_inv q" and "set rs \<subseteq> set (jobs q)"
  obtains q' where "expedite_loop rs q = Inr q'" and "queue_inv q'" and "jobs q' = jobs q"
    and "shutdown q' = shutdown q"
    and "\<forall>r. cell q' r = (if r \<in> set rs \<and> job_enabled q r then (cell q r)\<lparr>Ended := 0\<rparr> else cell q r)"
  using assms
proof (induction rs arbitrary: q thesis)
  case Nil
  show ?case by (rule Nil.prems(1) [of q]) (simp_all add: Nil.prems)
next
  case (Cons r rs)
  have r: "r \<in> set (jobs q)" using Cons.prems(3) by simp
  obtain c where c: "Cadence (cell q r) = Some c"
    using queue_invD(4) [OF Cons.prems(2) r] by (rule job_okE)
  let ?q = "if \<not> Enabled c then q else set_cell r ((cell q r)\<lparr>Ended := 0\<rparr>) q"
  have inv: "queue_inv ?q" using Cons.prems(2) r by (simp add: expedite_cell_inv)
  have sub: "set rs \<subseteq> set (jobs ?q)" using Cons.prems(3) by simp
  obtain q' where q': "expedite_loop rs ?q = Inr q'" "queue_inv q'" "jobs q' = jobs ?q"
    "shutdown q' = shutdown ?q"
    "\<forall>s. cell q' s = (if s \<in> set rs \<and> job_enabled ?q s then (cell ?q s)\<lparr>Ended := 0\<rparr> else cell ?q s)"
    using Cons.IH [OF _ inv sub] by metis
  show ?case
    by (rule Cons.prems(1) [of q']) (use q' c in \<open>auto simp: job_enabled_def\<close>)
qed

lemma DisableJob_inv:
  assumes "queue_inv q" and "r \<in> set (jobs q)"
  obtains q' where "DisableJob r q = Inr q'" and "queue_inv q'" and "jobs q' = jobs q"
    and "\<not> job_enabled q' r" and "\<And>s. s \<noteq> r \<Longrightarrow> cell q' s = cell q s"
proof -
  obtain c where c: "Cadence (cell q r) = Some c" "plan_ok c"
    using queue_invD(4) [OF assms] by (rule job_okE)
  let ?j = "(cell q r)\<lparr>Cadence := Some (c\<lparr>Enabled := False\<rparr>)\<rparr>"
  show ?thesis
  proof (rule that [of "set_cell r ?j q"])
    show "queue_inv (set_cell r ?j q)"
      using assms(1) c by (intro set_cell_inv) (simp_all add: same_job_def job_ok_def)
  qed (use c in \<open>simp_all add: DisableJob_def job_enabled_def\<close>)
qed

section \<open>Insertion\<close>

definition enabled_polls :: "pollaris \<Rightarrow> string set" where
  "enabled_polls p = {n. \<exists>pl c. map_of (plrs_Polling p) n = Some pl \<and> poll_Cadence pl = Some c \<and> Enabled c}"

lemma insert_one_jobs_old: "jobsMap q (key_of j) \<noteq> None \<Longrightarrow> jobs (insert_one j q) = jobs q"
  by (auto simp: insert_one_def)

lemma insert_one_dom: "dom (jobsMap (insert_one j q)) = insert (key_of j) (dom (jobsMap q))"
  by (auto simp: insert_one_def split: option.splits)

definition enabled_keys :: "cjob list \<Rightarrow> string set" where
  "enabled_keys js = {key_of j | j. j \<in> set js \<and> (\<exists>c. Cadence j = Some c \<and> Enabled c)}"

lemma enabled_keys_Cons:
  "Cadence j = Some c \<Longrightarrow>
   enabled_keys (j # js) = (if Enabled c then insert (key_of j) (enabled_keys js) else enabled_keys js)"
  by (auto simp: enabled_keys_def)

lemma insert_jobs_dom:
  "insert_jobs js q = Inr q' \<Longrightarrow> dom (jobsMap q') = enabled_keys js \<union> dom (jobsMap q)"
proof (induction js arbitrary: q)
  case Nil
  then show ?case by (simp add: enabled_keys_def)
next
  case (Cons j js)
  obtain c where c: "Cadence j = Some c"
    "insert_jobs js (if \<not> Enabled c then q else insert_one j q) = Inr q'"
    using Cons.prems unfolding insert_jobs_Cons by blast
  show ?case using Cons.IH [OF c(2)] c(1) by (auto simp: enabled_keys_Cons insert_one_dom)
qed

lemma insert_jobs_no_growth:
  "insert_jobs js q = Inr q' \<Longrightarrow> enabled_keys js \<subseteq> dom (jobsMap q) \<Longrightarrow> jobs q' = jobs q"
proof (induction js arbitrary: q)
  case (Cons j js)
  obtain c where c: "Cadence j = Some c"
    "insert_jobs js (if \<not> Enabled c then q else insert_one j q) = Inr q'"
    using Cons.prems(1) unfolding insert_jobs_Cons by blast
  let ?q = "if \<not> Enabled c then q else insert_one j q"
  have "enabled_keys js \<subseteq> dom (jobsMap ?q)"
    using Cons.prems(2) c(1) by (auto simp: enabled_keys_Cons insert_one_dom)
  then have "jobs q' = jobs ?q" by (rule Cons.IH [OF c(2)])
  moreover have "jobs ?q = jobs q"
    using Cons.prems(2) c(1) by (auto simp: enabled_keys_Cons insert_one_jobs_old)
  ultimately show ?case by simp
qed simp

lemma map_values:
  assumes "go_map js" and "range_order rng"
  shows "set (map (\<lambda>n. the (map_of js n)) (rng (map fst js))) = snd ` set js"
proof -
  have "(\<lambda>n. the (map_of js n)) ` fst ` set js = snd ` set js"
    using assms(1) by (force simp: go_map_def)
  then show ?thesis using range_order_set [OF assms(2), of "map fst js"] by simp
qed

lemma made_enabled_keys:
  assumes "\<forall>e \<in> set js. made_from p e"
  shows "enabled_keys (map snd js) = JobKey (plrs_Name p) ` (fst ` set js \<inter> enabled_polls p)"
proof -
  have en: "(\<exists>c. Cadence (snd e) = Some c \<and> Enabled c) \<longleftrightarrow> fst e \<in> enabled_polls p" if e: "e \<in> set js" for e
  proof -
    obtain pl where "map_of (plrs_Polling p) (fst e) = Some pl"
      "Cadence (snd e) = cloneCadence (poll_Cadence pl)"
      using bspec [OF assms e] by (auto simp: made_from_def)
    then show ?thesis by (auto simp: enabled_polls_def cloneCadence_def split: option.splits)
  qed
  have key: "key_of (snd e) = JobKey (plrs_Name p) (fst e)" if e: "e \<in> set js" for e
    using bspec [OF assms e] by (simp add: made_from_def)
  have "enabled_keys (map snd js) =
      (\<lambda>e. key_of (snd e)) ` {e \<in> set js. \<exists>c. Cadence (snd e) = Some c \<and> Enabled c}"
    unfolding enabled_keys_def by auto
  also have "\<dots> = (\<lambda>e. JobKey (plrs_Name p) (fst e)) ` {e \<in> set js. fst e \<in> enabled_polls p}"
    by (rule image_cong) (use en key in \<open>auto simp only: mem_Collect_eq\<close>)
  also have "\<dots> = JobKey (plrs_Name p) ` (fst ` set js \<inter> enabled_polls p)"
    by auto
  finally show ?thesis .
qed

lemma enabled_keys_set: "set xs = set ys \<Longrightarrow> enabled_keys xs = enabled_keys ys"
  by (simp add: enabled_keys_def)

definition wanted_keys :: "(string list \<Rightarrow> string list) \<Rightarrow> pollaris \<Rightarrow> string set" where
  "wanted_keys rng p = JobKey (plrs_Name p) ` (set (order_names rng p) \<inter> enabled_polls p)"

text \<open>
  Insertion of a usable Pollaris into a queue in use: it succeeds, the jobs of the queue keep their
  place, the keys of its enabled polls are added, and the jobs under them are due.
\<close>

lemma InsertJob_meets:
  assumes "queue_inv q" and "\<not> shutdown q" and "PollarisByKey reg key = Some p" and "pollaris_ok p"
    and "range_order rng"
  obtains q' new where "InsertJob reg rng key (Some q) = Inr (Some q', None)" and "queue_inv q'"
    and "\<not> shutdown q'" and "jobs q' = jobs q @ new"
    and "dom (jobsMap q') = wanted_keys rng p \<union> dom (jobsMap q)"
    and "\<forall>k r. k \<in> wanted_keys rng p \<longrightarrow> jobsMap q' k = Some r \<longrightarrow> Ended (cell q' r) = 0"
    and "wanted_keys rng p \<subseteq> dom (jobsMap q) \<longrightarrow> new = []"
proof -
  obtain js where js: "newJobsForKey reg rng key q = Inr (Some js)" "go_map js"
    "fst ` set js = set (order_names rng p)" "\<forall>e \<in> set js. made_from p e"
    by (rule newJobsForKey_ok [OF assms])
  let ?js = "map (\<lambda>n. the (map_of js n)) (rng (map fst js))"
  have vals: "set ?js = set (map snd js)" using map_values [OF js(2) assms(5)] by simp
  have ok: "\<forall>j \<in> set ?js. job_ok j \<and> Ended j = 0"
    unfolding vals using js(4) by (auto simp: made_from_def)
  have keys: "enabled_keys ?js = wanted_keys rng p"
    using enabled_keys_set [OF vals] made_enabled_keys [OF js(4)] js(3) by (simp add: wanted_keys_def)
  obtain q' new where q': "insert_jobs ?js q = Inr q'" "queue_inv q'" "jobs q' = jobs q @ new"
    "shutdown q' = shutdown q"
    using insert_jobs_ok [OF assms(1), of ?js] ok by blast
  show ?thesis
  proof (rule that [of q' new])
    show "InsertJob reg rng key (Some q) = Inr (Some q', None)"
      using js(1) q'(1) assms(2) by (simp add: InsertJob_def)
    show "dom (jobsMap q') = wanted_keys rng p \<union> dom (jobsMap q)"
      using insert_jobs_dom [OF q'(1)] keys by simp
    show "\<forall>k r. k \<in> wanted_keys rng p \<longrightarrow> jobsMap q' k = Some r \<longrightarrow> Ended (cell q' r) = 0"
    proof (intro allI impI)
      fix k r
      assume k: "k \<in> wanted_keys rng p" and r: "jobsMap q' k = Some r"
      obtain j c where j: "j \<in> set ?js" "Cadence j = Some c" "Enabled c" "k = key_of j"
        using k unfolding keys [symmetric] enabled_keys_def by blast
      show "Ended (cell q' r) = 0"
        using insert_jobs_present [OF q'(1) assms(1) ok j(1,2,3)] r j(4) by (metis option.inject)
    qed
    show "wanted_keys rng p \<subseteq> dom (jobsMap q) \<longrightarrow> new = []"
      using insert_jobs_no_growth [OF q'(1)] keys q'(3) by simp
  qed (use q' assms(2) in simp_all)
qed

lemma InsertJob_unknown:
  "queue_inv q \<Longrightarrow> \<not> shutdown q \<Longrightarrow> PollarisByKey reg key = None \<Longrightarrow>
   InsertJob reg rng key (Some q) = Inr (Some q, Some ''cannot find pollaris to create jobs'')"
  using queue_invD(7) by (simp add: InsertJob_def newJobsForKey_def)

end
