(* ===== verification/Host_Collector.thy ===== *)
theory Host_Collector
  imports Jobs_Queue_Spec Common
begin

text \<open>
  \<open>service/HostCollector.go\<close>, \<open>service/BootSequence.go\<close> and \<open>service/StaticJobs.go\<close>: the collector of
  one host. Its state is the record \<open>host_collector\<close> over the type \<open>'c\<close> of protocol collectors. What it
  calls outside \<open>src/\<close> is in \<open>host_env\<close>: the object serializer, the sysObjectID table, the posting of a
  Pollaris, the construction of a protocol collector, and the orders in which Go ranges over maps. A
  call of a method on a nil \<open>SyncMap\<close> dereferences nil. Messages to the parser are appended to
  \<open>sent\<close>, with the job as it is at that moment; \<open>loops\<close> counts the collection goroutines started.

  The queue object outlives the field that points to it (a popped job is still written after a stop),
  so \<open>queue_obj\<close> is the object and \<open>queue_nil\<close> says that the field is nil.
\<close>

section \<open>State\<close>

record boot_state =
  jobNames :: "(string \<times> bool) list"
  boot_stage :: nat

record 'c host_collector =
  hc_service :: bool
  hc_target :: "target option"
  hc_hostId :: string
  collectors :: "(protocol \<times> 'c) list option"
  queue_obj :: jobs_queue
  queue_nil :: bool
  running :: bool
  currentBootStage :: nat
  bootStages :: "boot_state option list"
  pollarisName :: string
  admissionCh :: bool
  hc_registry :: registry
  sent :: "((string \<times> int) \<times> cjob) list"
  loops :: nat

datatype payload = CMapObj "string \<rightharpoonup> bytes" | StringObj string | OtherObj

record 'c host_env =
  rng :: "string list \<Rightarrow> string list"
  host_order :: "(string \<times> host) list \<Rightarrow> (string \<times> host) list"
  config_order :: "(int \<times> host_protocol) list \<Rightarrow> (int \<times> host_protocol) list"
  GetPollarisByOid :: "string \<Rightarrow> pollaris option"
  PostPollaris :: "pollaris option \<Rightarrow> registry \<Rightarrow> registry res"
  decode :: "bytes \<Rightarrow> payload option"
  encode_string :: "string \<Rightarrow> bytes"
  encode_status :: "(protocol \<times> bool) list \<Rightarrow> bytes"
  init_collector :: "host_protocol \<Rightarrow> 'c \<times> string option"
  online :: "'c \<Rightarrow> bool"

definition newHostCollector :: "registry \<Rightarrow> target option \<Rightarrow> string \<Rightarrow> 'c host_collector" where
  "newHostCollector reg t hostId = \<lparr>hc_service = True, hc_target = t, hc_hostId = hostId,
     collectors = Some [], queue_obj = NewJobsQueue t hostId, queue_nil = False, running = True,
     currentBootStage = 0, bootStages = replicate 5 None, pollarisName = '''', admissionCh = False,
     hc_registry = reg, sent = [], loops = 0\<rparr>"

text \<open>The queue field, the job object at an address and the write through its pointer.\<close>

definition this_queue :: "'c host_collector \<Rightarrow> jobs_queue option" where
  "this_queue h = (if queue_nil h then None else Some (queue_obj h))"

definition put_queue :: "jobs_queue option \<Rightarrow> 'c host_collector \<Rightarrow> 'c host_collector" where
  "put_queue q h = (case q of None \<Rightarrow> h | Some q \<Rightarrow> h\<lparr>queue_obj := q\<rparr>)"

definition job_at :: "ref \<Rightarrow> 'c host_collector \<Rightarrow> cjob" where
  "job_at r h = cell (queue_obj h) r"

definition put_job :: "ref \<Rightarrow> cjob \<Rightarrow> 'c host_collector \<Rightarrow> 'c host_collector" where
  "put_job r j h = h\<lparr>queue_obj := set_cell r j (queue_obj h)\<rparr>"

section \<open>Boot stages\<close>

fun boot_polls ::
  "(protocol \<times> 'c) list \<Rightarrow> (string \<times> poll) list \<Rightarrow> (string \<times> bool) list \<times> bool \<Rightarrow>
   (string \<times> bool) list \<times> bool" where
  "boot_polls cs [] st = st"
| "boot_polls cs ((k, pl) # es) (names, has) =
     (case map_of cs (poll_Protocol pl) of
        None \<Rightarrow> boot_polls cs es (names, has)
      | Some _ \<Rightarrow> boot_polls cs es (AList.update (poll_Name pl) False names, True))"

text \<open>
  The Pollarises of a stage. \<open>flt\<close> is the links id to keep, when some Pollaris of the stage has it as its
  name. The error of an insertion is logged only.
\<close>

fun boot_pollarises ::
  "registry \<Rightarrow> (string list \<Rightarrow> string list) \<Rightarrow> (protocol \<times> 'c) list \<Rightarrow> string option \<Rightarrow> pollaris list \<Rightarrow>
   (string \<times> bool) list \<times> jobs_queue option \<Rightarrow> ((string \<times> bool) list \<times> jobs_queue option) res" where
  "boot_pollarises reg ord cs flt [] st = Inr st"
| "boot_pollarises reg ord cs flt (p # ps) (names, q) =
     (if flt \<noteq> None \<and> flt \<noteq> Some (plrs_Name p) then boot_pollarises reg ord cs flt ps (names, q)
      else
        (case boot_polls cs (plrs_Polling p) (names, False) of (names', has) \<Rightarrow>
           if has then
             bind_res (InsertJob reg ord (plrs_Name p, no_attrs) q)
               (\<lambda>qe. boot_pollarises reg ord cs flt ps (names', fst qe))
           else boot_pollarises reg ord cs flt ps (names', q)))"

definition links_filter :: "target option \<Rightarrow> pollaris list \<Rightarrow> string option" where
  "links_filter t ps =
     (case t of
        None \<Rightarrow> None
      | Some t \<Rightarrow>
          (if tgt_LinksId t \<noteq> '''' \<and> list_ex (\<lambda>p. plrs_Name p = tgt_LinksId t) ps
           then Some (tgt_LinksId t) else None))"

definition newBootState ::
  "'c host_env \<Rightarrow> nat \<Rightarrow> 'c host_collector \<Rightarrow> (boot_state \<times> 'c host_collector) res" where
  "newBootState env stage h =
     (if \<not> hc_service h then Inl NilDeref
      else bind_res (go_nth BootStages (int stage)) (\<lambda>name.
        case PollarisByGroup (hc_registry h) (name, no_attrs) of
          None \<Rightarrow> Inr (\<lparr>jobNames = [], boot_stage = stage\<rparr>, h)
        | Some ps \<Rightarrow>
            bind_res (deref (collectors h)) (\<lambda>cs.
            bind_res (boot_pollarises (hc_registry h) (rng env) cs (links_filter (hc_target h) ps) ps
                ([], this_queue h)) (\<lambda>st.
              Inr (\<lparr>jobNames = fst st, boot_stage = stage\<rparr>, put_queue (snd st) h)))))"

definition isComplete :: "boot_state \<Rightarrow> bool" where
  "isComplete bs = list_all snd (jobNames bs)"

definition BootState_jobComplete :: "cjob \<Rightarrow> boot_state \<Rightarrow> boot_state" where
  "BootState_jobComplete job bs =
     (case map_of (jobNames bs) (JobName job) of
        None \<Rightarrow> bs
      | Some _ \<Rightarrow> bs\<lparr>jobNames := AList.update (JobName job) True (jobNames bs)\<rparr>)"

lemma put_queue_frame [simp]:
  "bootStages (put_queue q h) = bootStages h" "currentBootStage (put_queue q h) = currentBootStage h"
  "hc_service (put_queue q h) = hc_service h" "hc_target (put_queue q h) = hc_target h"
  "collectors (put_queue q h) = collectors h" "running (put_queue q h) = running h"
  "queue_nil (put_queue q h) = queue_nil h" "hc_registry (put_queue q h) = hc_registry h"
  "sent (put_queue q h) = sent h" "loops (put_queue q h) = loops h"
  "pollarisName (put_queue q h) = pollarisName h" "hc_hostId (put_queue q h) = hc_hostId h"
  "admissionCh (put_queue q h) = admissionCh h"
  by (simp_all add: put_queue_def split: option.split)

lemma newBootState_queue:
  "newBootState env stage h = Inr (bs, h') \<Longrightarrow> \<exists>q. h' = put_queue q h"
  unfolding newBootState_def
  by (auto simp: bind_res_eq_Inr put_queue_def split: if_splits option.splits intro: exI [of _ None])

text \<open>The loop that leaves every complete stage.\<close>

function boot_advance :: "'c host_env \<Rightarrow> 'c host_collector \<Rightarrow> 'c host_collector res" where
  "boot_advance env h =
     bind_res (go_nth (bootStages h) (int (currentBootStage h))) (\<lambda>b.
     bind_res (deref b) (\<lambda>bs.
       if \<not> isComplete bs then Inr h
       else let n = Suc (currentBootStage h) in
         if length (bootStages h) \<le> n then Inr (h\<lparr>currentBootStage := n\<rparr>)
         else bind_res (newBootState env n (h\<lparr>currentBootStage := n\<rparr>)) (\<lambda>bh.
           boot_advance env ((snd bh)\<lparr>bootStages := (bootStages (snd bh))[n := Some (fst bh)]\<rparr>))))"
  by auto

termination
proof (relation "measure (\<lambda>(env, h). length (bootStages h) - currentBootStage h)")
qed (auto dest!: newBootState_queue)

definition boot_progress :: "'c host_env \<Rightarrow> ref \<Rightarrow> 'c host_collector \<Rightarrow> 'c host_collector res" where
  "boot_progress env r h =
     (if currentBootStage h < length (bootStages h) then
        bind_res (deref (bootStages h ! currentBootStage h)) (\<lambda>bs.
          boot_advance env (h\<lparr>bootStages := (bootStages h)
            [currentBootStage h := Some (BootState_jobComplete (job_at r h) bs)]\<rparr>))
      else Inr h)"

section \<open>Static jobs\<close>

definition IpAddressJob_do :: "'c host_env \<Rightarrow> 'c host_collector \<Rightarrow> cjob \<Rightarrow> cjob res" where
  "IpAddressJob_do env h job =
     bind_res (deref (hc_target h)) (\<lambda>t.
       Inr (case host_order env (tgt_Hosts t) of
              [] \<Rightarrow> job
            | (k, hs) # _ \<Rightarrow>
                (case config_order env (host_Configs hs) of
                   [] \<Rightarrow> job
                 | (p, c) # _ \<Rightarrow> job\<lparr>Result := Some (encode_string env (cfg_Addr c))\<rparr>)))"

definition DeviceStatusJob_do :: "'c host_env \<Rightarrow> 'c host_collector \<Rightarrow> cjob \<Rightarrow> cjob res" where
  "DeviceStatusJob_do env h job =
     bind_res (deref (collectors h)) (\<lambda>cs.
       Inr (job\<lparr>Result := Some (encode_status env (map (\<lambda>(p, c). (p, online env c)) cs))\<rparr>))"

definition DeviceStatusJob_doDown :: "'c host_env \<Rightarrow> 'c host_collector \<Rightarrow> cjob \<Rightarrow> cjob res" where
  "DeviceStatusJob_doDown env h job =
     bind_res (deref (collectors h)) (\<lambda>cs.
       Inr (job\<lparr>Result := Some (encode_status env (map (\<lambda>(p, c). (p, False)) cs))\<rparr>))"

definition staticJobs ::
  "(string \<times> ('c host_env \<Rightarrow> 'c host_collector \<Rightarrow> cjob \<Rightarrow> cjob res)) list" where
  "staticJobs = [(''ipAddress'', IpAddressJob_do), (''deviceStatus'', DeviceStatusJob_do)]"

definition doStaticJob ::
  "'c host_env \<Rightarrow> 'c host_collector \<Rightarrow> cjob \<Rightarrow> boot_state \<Rightarrow> (bool \<times> cjob \<times> boot_state) res" where
  "doStaticJob env h job bs =
     (case map_of staticJobs (JobName job) of
        None \<Rightarrow> Inr (False, job, bs)
      | Some sjob \<Rightarrow>
          bind_res (sjob env h job) (\<lambda>j.
            Inr (True, j, case map_of (jobNames bs) (JobName j) of
                   None \<Rightarrow> bs
                 | Some _ \<Rightarrow> bs\<lparr>jobNames := AList.update (JobName j) True (jobNames bs)\<rparr>)))"

section \<open>Completion of a job\<close>

text \<open>The level of the cadence goes up with each result, until the last one.\<close>

definition jobHasChange :: "cjob \<Rightarrow> (bool \<times> cjob) res" where
  "jobHasChange job =
     (if Always job then Inr (True, job)
      else bind_res
        (if Result job = None then Inr job
         else bind_res (deref (Cadence job)) (\<lambda>c.
           Inr (if Current c < int32 (int (length (Cadences c)) - 1)
                then job\<lparr>Cadence := Some (c\<lparr>Current := int32 (Current c + 1)\<rparr>)\<rparr> else job)))
        (\<lambda>job.
           if LastResultHash job = 0 \<and> Result job = None then Inr (False, job)
           else if LastResultHash job = 0 \<and> Result job \<noteq> None then Inr (True, job)
           else if Result job = None then Inr (True, job)
           else Inr (hashBytes (Result job) \<noteq> LastResultHash job, job)))"

definition sysoid_key :: string where
  "sysoid_key = ''.1.3.6.1.2.1.1.2.0''"

text \<open>The sysObjectID of an encoded system MIB; the empty string for every failure.\<close>

definition job_sysoid :: "'c host_env \<Rightarrow> cjob \<Rightarrow> string" where
  "job_sysoid env job =
     (case Result job of
        None \<Rightarrow> ''''
      | Some bs \<Rightarrow>
          (if length bs < 3 then ''''
           else (case decode env bs of
                   Some (CMapObj m) \<Rightarrow>
                     (case m sysoid_key of
                        None \<Rightarrow> ''''
                      | Some v \<Rightarrow> (case decode env v of Some (StringObj s) \<Rightarrow> s | _ \<Rightarrow> ''''))
                 | _ \<Rightarrow> '''')))"

definition insertCustomJobs :: "'c host_env \<Rightarrow> string \<Rightarrow> 'c host_collector \<Rightarrow> 'c host_collector res" where
  "insertCustomJobs env name h =
     bind_res (InsertJob (hc_registry h) (rng env) (name, no_attrs) (this_queue h))
       (\<lambda>qe. Inr (put_queue (fst qe) h))"

definition bootDetailDevice :: "'c host_env \<Rightarrow> cjob \<Rightarrow> 'c host_collector \<Rightarrow> 'c host_collector res" where
  "bootDetailDevice env job h =
     (if pollarisName h \<noteq> '''' then Inr h
      else let sysoid = job_sysoid env job in
        if sysoid = '''' then Inr h
        else let plrs = GetPollarisByOid env sysoid in
          bind_res (PostPollaris env plrs (hc_registry h)) (\<lambda>reg.
            let h1 = h\<lparr>hc_registry := reg\<rparr> in
            case plrs of
              None \<Rightarrow> Inr h1
            | Some p \<Rightarrow>
                (if plrs_Name p \<noteq> ''boot03''
                 then insertCustomJobs env (plrs_Name p) (h1\<lparr>pollarisName := plrs_Name p\<rparr>)
                 else Inr h1)))"

definition jobComplete :: "'c host_env \<Rightarrow> ref \<Rightarrow> 'c host_collector \<Rightarrow> 'c host_collector res" where
  "jobComplete env r h =
     (if \<not> hc_service h then Inr h
      else let job = job_at r h in
        if Error job \<noteq> '''' then
          bind_res (deref (Cadence job)) (\<lambda>c. Inr (put_job r (job\<lparr>Cadence := Some (c\<lparr>Current := 0\<rparr>)\<rparr>) h))
        else bind_res (jobHasChange job) (\<lambda>(changed, job).
          let h1 = put_job r job h in
          if \<not> changed then Inr h1
          else let h2 = h1\<lparr>sent := sent h1 @ [(Parser (hc_registry h1) (LinksId job), job)]\<rparr> in
            if JobName job = ''systemMib'' then bootDetailDevice env job h2 else Inr h2))"

section \<open>The collection loop\<close>

text \<open>
  One round for a popped job, up to the protocol call: \<open>Some p\<close> when the collector of protocol \<open>p\<close> is
  to execute it, \<open>None\<close> when the round is over.
\<close>

definition collect_start ::
  "'c host_env \<Rightarrow> int \<Rightarrow> int \<Rightarrow> ref \<Rightarrow> 'c host_collector \<Rightarrow> ('c host_collector \<times> protocol option) res" where
  "collect_start env now1 now2 r h =
     (case Poll (hc_registry h) (PollarisName (job_at r h)) (JobName (job_at r h)) of
        None \<Rightarrow> Inr (h, None)
      | Some pl \<Rightarrow>
          let h1 = put_job r (MarkStart now1 (job_at r h)) h in
          case map_of staticJobs (JobName (job_at r h1)) of
            Some sjob \<Rightarrow>
              bind_res (sjob env h1 (job_at r h1)) (\<lambda>j.
              bind_res (jobComplete env r (put_job r (MarkEnded now2 j) h1)) (\<lambda>h2.
              bind_res (boot_progress env r h2) (\<lambda>h3. Inr (h3, None))))
          | None \<Rightarrow>
              bind_res (deref (collectors h1)) (\<lambda>cs.
                case map_of cs (poll_Protocol pl) of
                  None \<Rightarrow>
                    bind_res (DisableJob r (queue_obj (put_job r (MarkEnded now2 (job_at r h1)) h1)))
                      (\<lambda>q. Inr (h1\<lparr>queue_obj := q\<rparr>, None))
                | Some _ \<Rightarrow> Inr (h1, Some (poll_Protocol pl))))"

text \<open>The rest of the round, with what the protocol call left of the collector and of the job.\<close>

definition collect_finish ::
  "'c host_env \<Rightarrow> int \<Rightarrow> ref \<Rightarrow> protocol \<Rightarrow> 'c \<Rightarrow> cjob \<Rightarrow> 'c host_collector \<Rightarrow> 'c host_collector res" where
  "collect_finish env now2 r p c' j' h =
     (let h1 = put_job r (MarkEnded now2 j') (h\<lparr>collectors := map_option (AList.update p c') (collectors h)\<rparr>) in
      if running h1 then bind_res (jobComplete env r h1) (boot_progress env r) else Inr h1)"

text \<open>What a round gets from its surroundings: the clock, the draws, the protocol call, a wake-up.\<close>

record 'c tick =
  tick_now :: int
  tick_start :: int
  tick_end :: int
  tick_draw :: "ref \<Rightarrow> int \<Rightarrow> int"
  tick_exec :: "'c \<Rightarrow> cjob \<Rightarrow> ('c \<times> cjob) res"
  tick_woken :: bool

definition collect_job :: "'c host_env \<Rightarrow> 'c tick \<Rightarrow> ref \<Rightarrow> 'c host_collector \<Rightarrow> 'c host_collector res" where
  "collect_job env k r h =
     bind_res (collect_start env (tick_start k) (tick_end k) r h) (\<lambda>(h1, call).
       case call of
         None \<Rightarrow> Inr h1
       | Some p \<Rightarrow>
           bind_res (deref (map_of (the (collectors h1)) p)) (\<lambda>c.
           bind_res (tick_exec k c (job_at r h1)) (\<lambda>(c', j').
             collect_finish env (tick_end k) r p c' j' h1)))"

definition collect_round :: "bool \<Rightarrow> 'c host_env \<Rightarrow> 'c tick \<Rightarrow> 'c host_collector \<Rightarrow> 'c host_collector res" where
  "collect_round smooth env k h =
     bind_res (Pop smooth (tick_draw k) (tick_now k) (this_queue h)) (\<lambda>((job, wait), q).
       let h1 = put_queue q h in
       case job of
         Some r \<Rightarrow> collect_job env k r h1
       | None \<Rightarrow>
           (if admissionCh h1 \<and> tick_woken k
            then bind_res (Expedite (this_queue h1)) (\<lambda>q. Inr (put_queue q h1))
            else Inr h1))"

fun collect :: "bool \<Rightarrow> 'c host_env \<Rightarrow> 'c tick list \<Rightarrow> 'c host_collector \<Rightarrow> 'c host_collector res" where
  "collect smooth env [] h = Inr h"
| "collect smooth env (k # ks) h =
     (if running h then bind_res (collect_round smooth env k h) (collect smooth env ks) else Inr h)"

section \<open>Start, stop, update, execution on demand\<close>

definition known_protocol :: "protocol \<Rightarrow> bool" where
  "known_protocol p = (case p of OtherProtocol _ \<Rightarrow> False | _ \<Rightarrow> True)"

definition newProtocolCollector :: "'c host_env \<Rightarrow> host_protocol \<Rightarrow> 'c option \<times> string option" where
  "newProtocolCollector env config =
     (if known_protocol (cfg_Protocol config)
      then (case init_collector env config of (c, err) \<Rightarrow> (Some c, err))
      else (None, Some ''Unknown Protocol ''))"

fun start_collectors ::
  "'c host_env \<Rightarrow> (int \<times> host_protocol) list \<Rightarrow> (protocol \<times> 'c) list \<Rightarrow> (protocol \<times> 'c) list" where
  "start_collectors env [] cs = cs"
| "start_collectors env ((k, cfg) # es) cs =
     (case fst (newProtocolCollector env cfg) of
        None \<Rightarrow> start_collectors env es cs
      | Some c \<Rightarrow> start_collectors env es (AList.update (cfg_Protocol cfg) c cs))"

definition start :: "'c host_env \<Rightarrow> 'c host_collector \<Rightarrow> 'c host_collector res" where
  "start env h =
     bind_res (deref (hc_target h)) (\<lambda>t.
     bind_res (deref (map_of (tgt_Hosts t) (hc_hostId h))) (\<lambda>hs.
     bind_res (deref (collectors h)) (\<lambda>cs.
       let configs = config_order env (host_Configs hs);
           h1 = h\<lparr>collectors := Some (start_collectors env configs cs)\<rparr> in
       bind_res (newBootState env 0 h1) (\<lambda>(bs, h2).
       if bootStages h2 = [] then Inl IndexOutOfRange
       else let h3 = h2\<lparr>bootStages := (bootStages h2)[0 := Some bs]\<rparr> in
         Inr (h3\<lparr>admissionCh := admissionCh h3 \<or>
                list_ex (\<lambda>(k, cfg). cfg_Protocol cfg = L8PKubernetesAPI) configs,
              loops := Suc (loops h3)\<rparr>)))))"

fun update_collectors ::
  "'c host_env \<Rightarrow> (int \<times> host_protocol) list \<Rightarrow> (protocol \<times> 'c) list \<Rightarrow> (protocol \<times> 'c) list \<times> bool" where
  "update_collectors env [] cs = (cs, False)"
| "update_collectors env ((k, cfg) # es) cs =
     (if map_of cs (cfg_Protocol cfg) \<noteq> None then update_collectors env es cs
      else (case newProtocolCollector env cfg of
              (_, Some err) \<Rightarrow> (cs, True)
            | (None, None) \<Rightarrow> update_collectors env es cs
            | (Some c, None) \<Rightarrow> update_collectors env es (AList.update (cfg_Protocol cfg) c cs)))"

definition update_host :: "'c host_env \<Rightarrow> 'c host_collector \<Rightarrow> ('c host_collector \<times> bool) res" where
  "update_host env h =
     bind_res (deref (hc_target h)) (\<lambda>t.
     bind_res (deref (map_of (tgt_Hosts t) (hc_hostId h))) (\<lambda>hs.
     bind_res (deref (collectors h)) (\<lambda>cs.
       case update_collectors env (config_order env (host_Configs hs)) cs of
         (cs', failed) \<Rightarrow>
           let h1 = h\<lparr>collectors := Some cs'\<rparr> in
           if failed then Inr (h1, True)
           else bind_res (newBootState env 0 (h1\<lparr>bootStages := replicate 5 None\<rparr>)) (\<lambda>(bs, h2).
             Inr (h2\<lparr>bootStages := (bootStages h2)[0 := Some bs]\<rparr>, False)))))"

definition sendDeviceDown :: "'c host_env \<Rightarrow> 'c host_collector \<Rightarrow> 'c host_collector res" where
  "sendDeviceDown env h =
     bind_res (deref (hc_target h)) (\<lambda>t.
     bind_res (DeviceStatusJob_doDown env h
       (empty_job\<lparr>TargetId := tgt_TargetId t, HostId := hc_hostId h, LinksId := tgt_LinksId t,
         JobName := ''deviceStatus'', PollarisName := ''boot02'', Always := True\<rparr>)) (\<lambda>job.
       if \<not> hc_service h then Inl NilDeref
       else Inr (h\<lparr>sent := sent h @ [(Parser (hc_registry h) (LinksId job), job)]\<rparr>)))"

text \<open>The stop, write by write, in the order of the code.\<close>

definition stop_running :: "'c host_collector \<Rightarrow> 'c host_collector" where
  "stop_running h = h\<lparr>running := False, admissionCh := False\<rparr>"

definition stop_collectors :: "'c host_collector \<Rightarrow> 'c host_collector" where
  "stop_collectors h = h\<lparr>collectors := None\<rparr>"

definition stop_queue :: "'c host_collector \<Rightarrow> 'c host_collector" where
  "stop_queue h = h\<lparr>queue_obj := Shutdown (queue_obj h)\<rparr>"

definition stop_fields :: "'c host_collector \<Rightarrow> 'c host_collector" where
  "stop_fields h = h\<lparr>queue_nil := True, bootStages := [], hc_target := None, hc_service := False\<rparr>"

definition stop :: "'c host_env \<Rightarrow> 'c host_collector \<Rightarrow> 'c host_collector res" where
  "stop env h =
     bind_res (sendDeviceDown env h) (\<lambda>h1.
       let h2 = stop_running h1 in
       bind_res (deref (collectors h2)) (\<lambda>_.
         let h3 = stop_collectors h2 in
         if queue_nil h3 then Inl NilDeref else Inr (stop_fields (stop_queue h3))))"

definition execJob ::
  "'c tick \<Rightarrow> cjob \<Rightarrow> 'c host_collector \<Rightarrow> (bool \<times> cjob \<times> 'c host_collector) res" where
  "execJob k job h =
     (if \<not> hc_service h then Inl NilDeref
      else case Poll (hc_registry h) (PollarisName job) (JobName job) of
        None \<Rightarrow>
          bind_res (deref (hc_target h)) (\<lambda>t.
            Inl (Raised (tgt_TargetId t @ '': cannot find poll '' @ PollarisName job @ ''/'' @ JobName job)))
      | Some pl \<Rightarrow>
          let j1 = MarkStart (tick_start k) job in
          bind_res (deref (collectors h)) (\<lambda>cs.
            case map_of cs (poll_Protocol pl) of
              None \<Rightarrow> Inr (False, MarkEnded (tick_end k) j1, h)
            | Some c \<Rightarrow>
                bind_res (tick_exec k c j1) (\<lambda>(c', j').
                  Inr (True, MarkEnded (tick_end k) j',
                    h\<lparr>collectors := Some (AList.update (poll_Protocol pl) c' cs)\<rparr>))))"

end
