(* ===== verification/Protocol_Collector.thy ===== *)
theory Protocol_Collector
  imports Pollaris_Types
begin

text \<open>
  The interface \<open>ProtocolCollector\<close> of \<open>collector/common/interfaces.go\<close>, seen from the collection
  loop: the contract of \<open>Exec\<close> that the loop relies on. Every protocol's theory interprets the locale on
  its own model of \<open>Exec\<close>.
\<close>

section \<open>The contract of a protocol collector\<close>

text \<open>\<open>Exec\<close> returns, and changes of the job nothing but its error, error count and result.\<close>

definition exec_frame :: "cjob \<Rightarrow> cjob \<Rightarrow> bool" where
  "exec_frame j j' \<longleftrightarrow> j'\<lparr>Error := Error j, ErrorCount := ErrorCount j, Result := Result j\<rparr> = j"

definition exec_ok :: "('c \<Rightarrow> bool) \<Rightarrow> ('c \<Rightarrow> cjob \<Rightarrow> ('c \<times> cjob) res) \<Rightarrow> bool" where
  "exec_ok u ex \<longleftrightarrow> (\<forall>c j. u c \<longrightarrow> (\<exists>c' j'. ex c j = Inr (c', j') \<and> u c' \<and> exec_frame j j'))"

lemma exec_frameD:
  assumes "exec_frame j j'"
  shows "PollarisName j' = PollarisName j" "JobName j' = JobName j" "Cadence j' = Cadence j"
    "Always j' = Always j" "LinksId j' = LinksId j" "LastResultHash j' = LastResultHash j"
    "TargetId j' = TargetId j" "HostId j' = HostId j"
proof -
  have e: "j'\<lparr>Error := Error j, ErrorCount := ErrorCount j, Result := Result j\<rparr> = j"
    using assms by (simp only: exec_frame_def)
  show "PollarisName j' = PollarisName j" "JobName j' = JobName j" "Cadence j' = Cadence j"
    "Always j' = Always j" "LinksId j' = LinksId j" "LastResultHash j' = LastResultHash j"
    "TargetId j' = TargetId j" "HostId j' = HostId j"
    using arg_cong [OF e, of PollarisName] arg_cong [OF e, of JobName] arg_cong [OF e, of Cadence]
      arg_cong [OF e, of Always] arg_cong [OF e, of LinksId] arg_cong [OF e, of LastResultHash]
      arg_cong [OF e, of TargetId] arg_cong [OF e, of HostId]
    by simp_all
qed

lemma exec_frame_refl [simp]: "exec_frame j j"
  by (simp add: exec_frame_def)

lemma exec_frame_updates [simp]:
  "exec_frame i (j\<lparr>Error := e\<rparr>) = exec_frame i j" "exec_frame i (j\<lparr>ErrorCount := n\<rparr>) = exec_frame i j"
  "exec_frame i (j\<lparr>Result := r\<rparr>) = exec_frame i j"
  by (simp_all add: exec_frame_def)

text \<open>The operations a client of the interface calls, with the states in which it may call them.\<close>

locale protocol_collector =
  fixes exec :: "'c \<Rightarrow> cjob \<Rightarrow> ('c \<times> cjob) res"
    and usable :: "'c \<Rightarrow> bool"
  assumes exec_returns: "usable c \<Longrightarrow> \<exists>c' j'. exec c j = Inr (c', j') \<and> usable c' \<and> exec_frame j j'"
begin

lemma contract: "exec_ok usable exec"
  using exec_returns by (simp add: exec_ok_def)

text \<open>Executing several jobs one after another with the same collector never panics.\<close>

fun exec_all :: "'c \<Rightarrow> cjob list \<Rightarrow> ('c \<times> cjob list) res" where
  "exec_all c [] = Inr (c, [])"
| "exec_all c (j # js) =
     bind_res (exec c j) (\<lambda>(c', j'). bind_res (exec_all c' js) (\<lambda>(c'', js'). Inr (c'', j' # js')))"

lemma exec_all_returns:
  "usable c \<Longrightarrow> \<exists>c' js'. exec_all c js = Inr (c', js') \<and> usable c' \<and> list_all2 exec_frame js js'"
proof (induction js arbitrary: c)
  case (Cons j js)
  obtain c1 j1 where j1: "exec c j = Inr (c1, j1)" "usable c1" "exec_frame j j1"
    using exec_returns [OF Cons.prems] by blast
  obtain c2 js2 where "exec_all c1 js = Inr (c2, js2)" "usable c2" "list_all2 exec_frame js js2"
    using Cons.IH [OF j1(2)] by blast
  with j1 show ?case by simp
qed simp

end

end
