(* ===== verification/Host_Collector_Laws.thy ===== *)
theory Host_Collector_Laws
  imports Host_Collector Protocol_Collector
begin

text \<open>
  The laws of the host collector: its invariant, what every operation of a collector in use keeps
  (\<open>goes_on\<close>), and the contract of a protocol collector's \<open>Exec\<close> under which the collection loop
  keeps it.
\<close>

section \<open>The invariant\<close>

definition host_ok :: "('c \<Rightarrow> bool) \<Rightarrow> 'c host_collector \<Rightarrow> bool" where
  "host_ok u h \<longleftrightarrow> hc_service h \<and> hc_target h \<noteq> None \<and> \<not> queue_nil h \<and>
     (\<exists>cs. collectors h = Some cs \<and> (\<forall>e \<in> set cs. u (snd e))) \<and>
     queue_live (queue_obj h) \<and> registry_ok (hc_registry h) \<and> length (bootStages h) = 5 \<and>
     currentBootStage h \<le> 5 \<and>
     (\<forall>i \<le> currentBootStage h. i < 5 \<longrightarrow> bootStages h ! i \<noteq> None)"

text \<open>
  \<open>u\<close> says which protocol collectors are usable: those whose \<open>Exec\<close> keeps its contract (below).
  What is asked of the surroundings: map ranges visit every entry once, and posting a Pollaris
  (even the nil one, which the code posts when the table has no match) leaves a usable registry.
\<close>

definition env_ok :: "'c host_env \<Rightarrow> bool" where
  "env_ok env \<longleftrightarrow> range_order (rng env) \<and>
     (\<forall>p reg. registry_ok reg \<longrightarrow> (\<exists>reg'. PostPollaris env p reg = Inr reg' \<and> registry_ok reg'))"

definition goes_on :: "('c \<Rightarrow> bool) \<Rightarrow> 'c host_collector \<Rightarrow> 'c host_collector \<Rightarrow> bool" where
  "goes_on u h h' \<longleftrightarrow> host_ok u h' \<and> currentBootStage h \<le> currentBootStage h' \<and>
     (\<exists>msgs. sent h' = sent h @ msgs) \<and> set (jobs (queue_obj h)) \<subseteq> set (jobs (queue_obj h')) \<and>
     running h' = running h \<and> loops h' = loops h \<and> admissionCh h' = admissionCh h \<and>
     hc_target h' = hc_target h \<and> hc_hostId h' = hc_hostId h"

definition runs :: "('c \<Rightarrow> bool) \<Rightarrow> 'c host_collector \<Rightarrow> 'c host_collector res \<Rightarrow> bool" where
  "runs u h m \<longleftrightarrow> (\<exists>h'. m = Inr h' \<and> goes_on u h h')"

lemma goes_on_refl [simp]: "host_ok u h \<Longrightarrow> goes_on u h h"
  by (simp add: goes_on_def)

lemma goes_on_trans: "goes_on u a b \<Longrightarrow> goes_on u b c \<Longrightarrow> goes_on u a c"
  unfolding goes_on_def by force

lemma goes_on_ok: "goes_on u h h' \<Longrightarrow> host_ok u h'"
  by (simp add: goes_on_def)

lemma goes_on_job: "goes_on u h h' \<Longrightarrow> r \<in> set (jobs (queue_obj h)) \<Longrightarrow> r \<in> set (jobs (queue_obj h'))"
  unfolding goes_on_def by blast

lemma runs_Inr [simp]: "runs u h (Inr h') \<longleftrightarrow> goes_on u h h'"
  by (simp add: runs_def)

lemma runs_bind:
  assumes "runs u h m" and "\<And>h'. goes_on u h h' \<Longrightarrow> runs u h' (f h')"
  shows "runs u h (bind_res m f)"
proof -
  obtain h1 where h1: "m = Inr h1" "goes_on u h h1" using assms(1) by (auto simp: runs_def)
  obtain h2 where "f h1 = Inr h2" "goes_on u h1 h2" using assms(2) [OF h1(2)] by (auto simp: runs_def)
  then show ?thesis using h1 goes_on_trans by (auto simp: runs_def)
qed

lemma runs_trans: "goes_on u h h1 \<Longrightarrow> runs u h1 m \<Longrightarrow> runs u h m"
  by (auto simp: runs_def intro: goes_on_trans)

lemma host_ok_queue:
  assumes "host_ok u h" and "queue_live q" and "set (jobs (queue_obj h)) \<subseteq> set (jobs q)"
  shows "goes_on u h (h\<lparr>queue_obj := q\<rparr>)"
  using assms by (simp add: goes_on_def host_ok_def)

lemma host_ok_job:
  "host_ok u h \<Longrightarrow> r \<in> set (jobs (queue_obj h)) \<Longrightarrow> job_ok (job_at r h)"
  by (auto simp: host_ok_def queue_live_def job_at_def intro: queue_invD(4))

lemma put_job_ext:
  assumes "host_ok u h" and "same_job (job_at r h) j" and "job_ok j"
  shows "goes_on u h (put_job r j h)"
  unfolding put_job_def
  using assms by (intro host_ok_queue) (simp_all add: host_ok_def queue_live_def job_at_def set_cell_inv)

lemma job_at_put_job [simp]: "job_at r (put_job r j h) = j"
  by (simp add: job_at_def put_job_def)

lemma put_job_frame [simp]:
  "hc_service (put_job r j h) = hc_service h" "hc_target (put_job r j h) = hc_target h"
  "collectors (put_job r j h) = collectors h" "running (put_job r j h) = running h"
  "hc_registry (put_job r j h) = hc_registry h" "sent (put_job r j h) = sent h"
  "bootStages (put_job r j h) = bootStages h" "currentBootStage (put_job r j h) = currentBootStage h"
  "jobs (queue_obj (put_job r j h)) = jobs (queue_obj h)" "queue_nil (put_job r j h) = queue_nil h"
  "pollarisName (put_job r j h) = pollarisName h" "hc_hostId (put_job r j h) = hc_hostId h"
  by (simp_all add: put_job_def)

section \<open>Inserting into the queue\<close>

lemma InsertJob_live:
  assumes "queue_live q" and "registry_ok reg" and "range_order ord"
  shows "\<exists>q' e new. InsertJob reg ord key (Some q) = Inr (Some q', e) \<and> queue_live q' \<and> jobs q' = jobs q @ new"
proof (cases "PollarisByKey reg key")
  case None
  then show ?thesis using assms(1) by (simp add: InsertJob_unknown queue_live_def)
next
  case (Some p)
  have inv: "queue_inv q" "\<not> shutdown q" using assms(1) by (simp_all add: queue_live_def)
  obtain q' new where "InsertJob reg ord key (Some q) = Inr (Some q', None)" "queue_inv q'"
    "\<not> shutdown q'" "jobs q' = jobs q @ new"
    by (rule InsertJob_meets [OF inv Some registry_okD [OF assms(2) Some] assms(3)])
  then show ?thesis by (auto simp: queue_live_def)
qed

lemma boot_pollarises_ok:
  assumes "queue_live q" and "registry_ok reg" and "range_order ord"
  shows "\<exists>names' q' new. boot_pollarises reg ord cs flt ps (names, Some q) = Inr (names', Some q') \<and>
    queue_live q' \<and> jobs q' = jobs q @ new"
  using assms(1)
proof (induction ps arbitrary: names q)
  case Nil
  then show ?case by simp
next
  case (Cons p ps)
  obtain names1 has where b: "boot_polls cs (plrs_Polling p) (names, False) = (names1, has)" by force
  obtain q1 e new1 where q1: "InsertJob reg ord (plrs_Name p, no_attrs) (Some q) = Inr (Some q1, e)"
    "queue_live q1" "jobs q1 = jobs q @ new1"
    using InsertJob_live [OF Cons.prems assms(2,3)] by blast
  show ?case
  proof (cases "flt \<noteq> None \<and> flt \<noteq> Some (plrs_Name p) \<or> \<not> has")
    case True
    then show ?thesis using Cons.IH [OF Cons.prems] b by auto
  next
    case False
    then show ?thesis using Cons.IH [OF q1(2), of names1] b q1 by auto
  qed
qed

lemma newBootState_ok:
  assumes "hc_service h" and "collectors h \<noteq> None" and "\<not> queue_nil h" and "queue_live (queue_obj h)"
    and "registry_ok (hc_registry h)" and "env_ok env" and "stage < 5"
  shows "\<exists>bs q new. newBootState env stage h = Inr (bs, h\<lparr>queue_obj := q\<rparr>) \<and> queue_live q \<and>
    jobs q = jobs (queue_obj h) @ new"
proof -
  obtain cs where cs: "collectors h = Some cs" using assms(2) by blast
  let ?name = "BootStages ! stage"
  have name: "go_nth BootStages (int stage) = Inr ?name" using assms(7) by simp
  have ord: "range_order (rng env)" using assms(6) by (simp add: env_ok_def)
  show ?thesis
  proof (cases "PollarisByGroup (hc_registry h) (?name, no_attrs)")
    case None
    have "h\<lparr>queue_obj := queue_obj h\<rparr> = h" by simp
    then show ?thesis using None assms name by (force simp: newBootState_def)
  next
    case (Some ps)
    obtain names q new where "boot_pollarises (hc_registry h) (rng env) cs (links_filter (hc_target h) ps) ps
        ([], Some (queue_obj h)) = Inr (names, Some q)" "queue_live q" "jobs q = jobs (queue_obj h) @ new"
      using boot_pollarises_ok [OF assms(4,5) ord] by blast
    then have "newBootState env stage h = Inr (\<lparr>jobNames = names, boot_stage = stage\<rparr>, h\<lparr>queue_obj := q\<rparr>)"
        "queue_live q" "jobs q = jobs (queue_obj h) @ new"
      using Some assms cs name by (simp_all add: newBootState_def this_queue_def put_queue_def)
    then show ?thesis by blast
  qed
qed

section \<open>Boot progress\<close>

declare boot_advance.simps [simp del]

lemma boot_advance_at:
  assumes "currentBootStage h < 5" and "length (bootStages h) = 5"
    and "bootStages h ! currentBootStage h = Some bs"
  shows "boot_advance env h =
    (if \<not> isComplete bs then Inr h
     else let n = Suc (currentBootStage h) in
       if 5 \<le> n then Inr (h\<lparr>currentBootStage := n\<rparr>)
       else bind_res (newBootState env n (h\<lparr>currentBootStage := n\<rparr>)) (\<lambda>bh.
         boot_advance env ((snd bh)\<lparr>bootStages := (bootStages (snd bh))[n := Some (fst bh)]\<rparr>)))"
  by (subst boot_advance.simps) (simp add: assms)

lemma boot_advance_runs:
  assumes "host_ok u h" and "env_ok env" and "currentBootStage h < 5"
  shows "\<exists>h'. boot_advance env h = Inr h' \<and> goes_on u h h' \<and>
    (currentBootStage h' < 5 \<longrightarrow>
      (\<exists>bs. bootStages h' ! currentBootStage h' = Some bs \<and> \<not> isComplete bs))"
  using assms
proof (induction "5 - currentBootStage h" arbitrary: h rule: less_induct)
  case less
  let ?cur = "currentBootStage h"
  obtain bs where bs: "bootStages h ! ?cur = Some bs"
    using less.prems(1,3) by (auto simp: host_ok_def)
  have len: "length (bootStages h) = 5" using less.prems(1) by (simp add: host_ok_def)
  note step = boot_advance_at [OF less.prems(3) len bs, of env]
  show ?case
  proof (cases "isComplete bs")
    case False
    then show ?thesis using step bs less.prems(1) by simp
  next
    case complete: True
    show ?thesis
    proof (cases "Suc ?cur < 5")
      case False
      then have "Suc ?cur = 5" using less.prems(3) by simp
      moreover have "goes_on u h (h\<lparr>currentBootStage := 5\<rparr>)"
        using less.prems(1) calculation by (auto simp: goes_on_def host_ok_def le_Suc_eq)
      ultimately show ?thesis using step complete by simp
    next
      case True
      let ?h1 = "h\<lparr>currentBootStage := Suc ?cur\<rparr>"
      obtain b q new where b: "newBootState env (Suc ?cur) ?h1 = Inr (b, ?h1\<lparr>queue_obj := q\<rparr>)"
        "queue_live q" "jobs q = jobs (queue_obj h) @ new"
        using newBootState_ok [of ?h1 env "Suc ?cur"] less.prems(1,2) True by (auto simp: host_ok_def)
      let ?h2 = "?h1\<lparr>queue_obj := q, bootStages := (bootStages h)[Suc ?cur := Some b]\<rparr>"
      have ok: "host_ok u ?h2"
        using less.prems(1) b(2) True by (auto simp: host_ok_def nth_list_update le_Suc_eq)
      then have ext: "goes_on u h ?h2" using b(3) by (auto simp: goes_on_def)
      have "boot_advance env h = boot_advance env ?h2"
        using step complete True b(1) by simp
      moreover have "\<exists>h'. boot_advance env ?h2 = Inr h' \<and> goes_on u ?h2 h' \<and>
          (currentBootStage h' < 5 \<longrightarrow>
            (\<exists>bs. bootStages h' ! currentBootStage h' = Some bs \<and> \<not> isComplete bs))"
        by (rule less.hyps) (use True ok less.prems(2) in simp_all)
      ultimately show ?thesis using ext goes_on_trans by metis
    qed
  qed
qed

lemma boot_progress_runs:
  assumes "host_ok u h" and "env_ok env"
  shows "runs u h (boot_progress env r h)"
proof (cases "currentBootStage h < 5")
  case True
  then obtain bs where bs: "bootStages h ! currentBootStage h = Some bs"
    using assms(1) by (auto simp: host_ok_def)
  let ?h = "h\<lparr>bootStages := (bootStages h)
      [currentBootStage h := Some (BootState_jobComplete (job_at r h) bs)]\<rparr>"
  have ok: "host_ok u ?h" using assms(1) True by (auto simp: host_ok_def nth_list_update)
  then have ext: "goes_on u h ?h" by (simp add: goes_on_def)
  have "runs u ?h (boot_advance env ?h)"
    using boot_advance_runs [OF ok assms(2)] True by (auto simp: runs_def)
  then have "runs u h (boot_advance env ?h)" by (rule runs_trans [OF ext])
  then show ?thesis using True bs assms(1) by (simp add: boot_progress_def host_ok_def)
next
  case False
  then show ?thesis using assms(1) by (simp add: boot_progress_def host_ok_def)
qed

section \<open>Job completion\<close>

text \<open>The verdict and the new level, as the code means them.\<close>

definition result_changed :: "cjob \<Rightarrow> bool" where
  "result_changed j \<longleftrightarrow>
     (if Result j = None then LastResultHash j \<noteq> 0
      else LastResultHash j = 0 \<or> hashBytes (Result j) \<noteq> LastResultHash j)"

definition raise_level :: "cjob \<Rightarrow> cjob" where
  "raise_level j =
     (case Cadence j of
        None \<Rightarrow> j
      | Some c \<Rightarrow>
          (if Result j \<noteq> None \<and> Current c < int (length (Cadences c)) - 1
           then j\<lparr>Cadence := Some (c\<lparr>Current := Current c + 1\<rparr>)\<rparr> else j))"

lemma raise_level_frame [simp]:
  "LastResultHash (raise_level j) = LastResultHash j" "Result (raise_level j) = Result j"
  "LinksId (raise_level j) = LinksId j" "JobName (raise_level j) = JobName j"
  by (simp_all add: raise_level_def split: option.split)

lemma jobHasChange_eq:
  assumes "job_ok j"
  shows "jobHasChange j = Inr (Always j \<or> result_changed j, if Always j then j else raise_level j)"
proof -
  obtain c where c: "Cadence j = Some c" "plan_ok c" using assms by (rule job_okE)
  let ?n = "int (length (Cadences c)) - 1"
  have len: "int32 ?n = ?n" using c(2) by (intro int32_id) (auto simp: plan_ok_def)
  have nxt: "int32 (Current c + 1) = Current c + 1" if "Current c < ?n"
    using c(2) that by (intro int32_id) (auto simp: plan_ok_def)
  have "(if Result j = None then Inr j
         else bind_res (deref (Cadence j)) (\<lambda>c.
           Inr (if Current c < int32 (int (length (Cadences c)) - 1)
                then j\<lparr>Cadence := Some (c\<lparr>Current := int32 (Current c + 1)\<rparr>)\<rparr> else j))) = Inr (raise_level j)"
    by (simp only: c(1) deref_simps bind_res_Inr len raise_level_def option.case) (simp add: nxt)
  then show ?thesis
    by (simp only: jobHasChange_def bind_res_Inr) (simp add: result_changed_def)
qed

lemma raise_level_ok:
  assumes "job_ok j"
  shows "job_ok (raise_level j)" and "same_job j (raise_level j)"
proof -
  obtain c where c: "Cadence j = Some c" "plan_ok c" using assms by (rule job_okE)
  have "plan_ok (c\<lparr>Current := Current c + 1\<rparr>)" if "Current c < int (length (Cadences c)) - 1"
    using c(2) that by (intro plan_ok_level) (auto simp: plan_ok_def)
  then show "job_ok (raise_level j)" using c by (simp add: raise_level_def job_ok_def)
  show "same_job j (raise_level j)" using c by (simp add: raise_level_def same_job_def)
qed

lemma jobHasChange_ok:
  assumes "job_ok j"
  obtains b j' where "jobHasChange j = Inr (b, j')" and "same_job j j'" and "job_ok j'"
  using jobHasChange_eq [OF assms] raise_level_ok [OF assms] assms that by (auto split: if_splits)

lemma insertCustomJobs_runs:
  assumes "host_ok u h" and "env_ok env"
  shows "runs u h (insertCustomJobs env name h)"
proof -
  have live: "queue_live (queue_obj h)" and reg: "registry_ok (hc_registry h)" and nn: "\<not> queue_nil h"
    using assms(1) by (simp_all add: host_ok_def)
  have ord: "range_order (rng env)" using assms(2) by (simp add: env_ok_def)
  obtain q e new where q: "InsertJob (hc_registry h) (rng env) (name, no_attrs) (Some (queue_obj h)) = Inr (Some q, e)"
    "queue_live q" "jobs q = jobs (queue_obj h) @ new"
    using InsertJob_live [OF live reg ord] by blast
  have "goes_on u h (h\<lparr>queue_obj := q\<rparr>)"
    by (rule host_ok_queue [OF assms(1) q(2)]) (simp add: q(3))
  then show ?thesis
    using q(1) nn by (simp add: insertCustomJobs_def this_queue_def put_queue_def)
qed

lemma bootDetailDevice_runs:
  assumes "host_ok u h" and "env_ok env"
  shows "runs u h (bootDetailDevice env job h)"
proof -
  let ?plrs = "GetPollarisByOid env (job_sysoid env job)"
  obtain reg where reg: "PostPollaris env ?plrs (hc_registry h) = Inr reg" "registry_ok reg"
  proof -
    have "registry_ok (hc_registry h)" using assms(1) by (simp add: host_ok_def)
    then show ?thesis using assms(2) that unfolding env_ok_def by blast
  qed
  let ?h1 = "h\<lparr>hc_registry := reg\<rparr>"
  have ext1: "goes_on u h ?h1"
    using assms(1) reg(2) by (auto simp: goes_on_def host_ok_def)
  have "runs u h (insertCustomJobs env n (?h1\<lparr>pollarisName := n\<rparr>))" for n
  proof -
    have "goes_on u h (?h1\<lparr>pollarisName := n\<rparr>)"
      using ext1 by (auto simp: goes_on_def host_ok_def)
    then show ?thesis
      using insertCustomJobs_runs [OF goes_on_ok assms(2)] by (blast intro: runs_trans)
  qed
  then show ?thesis
    using ext1 reg(1) assms(1) by (simp add: bootDetailDevice_def Let_def split: option.split)
qed

lemma send_ext: "host_ok u h \<Longrightarrow> goes_on u h (h\<lparr>sent := sent h @ ms\<rparr>)"
  by (auto simp: goes_on_def host_ok_def)

lemma jobComplete_runs:
  assumes "host_ok u h" and "env_ok env" and "job_ok (job_at r h)"
  shows "runs u h (jobComplete env r h)"
proof -
  let ?j = "job_at r h"
  have sv: "hc_service h" using assms(1) by (simp add: host_ok_def)
  obtain c where c: "Cadence ?j = Some c" "plan_ok c" using assms(3) by (rule job_okE)
  show ?thesis
  proof (cases "Error ?j = ''''")
    case False
    have "plan_ok (c\<lparr>Current := 0\<rparr>)"
      using c(2) by (intro plan_ok_level) (auto simp: plan_ok_def)
    then have "goes_on u h (put_job r (?j\<lparr>Cadence := Some (c\<lparr>Current := 0\<rparr>)\<rparr>) h)"
      by (intro put_job_ext assms(1)) (simp_all add: same_job_def job_ok_def)
    then show ?thesis using False sv c(1) by (simp add: jobComplete_def)
  next
    case True
    obtain b j' where j': "jobHasChange ?j = Inr (b, j')" "same_job ?j j'" "job_ok j'"
      using assms(3) by (rule jobHasChange_ok)
    have ext1: "goes_on u h (put_job r j' h)" by (rule put_job_ext [OF assms(1) j'(2,3)])
    let ?h2 = "(put_job r j' h)\<lparr>sent := sent (put_job r j' h) @
      [(Parser (hc_registry (put_job r j' h)) (LinksId j'), j')]\<rparr>"
    have ext2: "goes_on u h ?h2"
      by (rule goes_on_trans [OF ext1 send_ext [OF goes_on_ok [OF ext1]]])
    have "runs u h (bootDetailDevice env j' ?h2)"
      by (rule runs_trans [OF ext2 bootDetailDevice_runs [OF goes_on_ok [OF ext2] assms(2)]])
    then show ?thesis
      using True sv j'(1) ext1 ext2 by (simp add: jobComplete_def Let_def)
  qed
qed

section \<open>Marking\<close>

lemma job_ok_cadence: "Cadence j' = Cadence j \<Longrightarrow> job_ok j' = job_ok j"
  by (simp add: job_ok_def)

lemma MarkStart_ok: "job_ok j \<Longrightarrow> job_ok (MarkStart t j)" "same_job j (MarkStart t j)"
  by (simp_all add: MarkStart_def Let_def job_ok_def same_job_def)

lemma MarkEnded_ok: "job_ok j \<Longrightarrow> job_ok (MarkEnded t j)" "same_job j (MarkEnded t j)"
  by (simp_all add: MarkEnded_def job_ok_def same_job_def)

section \<open>The collection loop\<close>

lemma static_do_result:
  assumes "map_of staticJobs n = Some sjob" and "sjob env h j = Inr j'"
  shows "exec_frame j j' \<and> Error j' = Error j \<and> ErrorCount j' = ErrorCount j"
proof -
  have ip: "exec_frame j j' \<and> Error j' = Error j \<and> ErrorCount j' = ErrorCount j" if run: "IpAddressJob_do env h j = Inr j'"
  proof -
    obtain t where t: "hc_target h = Some t" using run by (auto simp: IpAddressJob_do_def bind_res_eq_Inr)
    show ?thesis
    proof (cases "host_order env (tgt_Hosts t)")
      case (Cons e es)
      then show ?thesis
        using run t by (cases e; cases "config_order env (host_Configs (snd e))")
          (auto simp: IpAddressJob_do_def split: prod.splits)
    qed (use run t in \<open>simp add: IpAddressJob_do_def\<close>)
  qed
  have "sjob = IpAddressJob_do \<or> sjob = DeviceStatusJob_do"
    using assms(1) by (auto simp: staticJobs_def split: if_splits)
  then show ?thesis using assms(2) ip by (auto simp: DeviceStatusJob_do_def bind_res_eq_Inr)
qed

lemma static_do_ok:
  assumes "host_ok u h" and "map_of staticJobs n = Some sjob"
  shows "\<exists>j'. sjob env h j = Inr j' \<and> exec_frame j j'"
proof -
  obtain t cs where "hc_target h = Some t" "collectors h = Some cs"
    using assms(1) by (auto simp: host_ok_def)
  moreover have "sjob = IpAddressJob_do \<or> sjob = DeviceStatusJob_do"
    using assms(2) by (auto simp: staticJobs_def split: if_splits)
  ultimately show ?thesis
    by (auto simp: IpAddressJob_do_def DeviceStatusJob_do_def split: list.split)
qed

lemma complete_and_progress:
  assumes "host_ok u h" and "env_ok env" and "job_ok (job_at r h)"
  shows "runs u h (bind_res (jobComplete env r h) (boot_progress env r))"
  using jobComplete_runs [OF assms] boot_progress_runs [OF goes_on_ok assms(2)] by (rule runs_bind)

text \<open>After the first half of a round: the collector goes on, and its job is there to execute.\<close>

definition started_ok :: "('c \<Rightarrow> bool) \<Rightarrow> ref \<Rightarrow> 'c host_collector \<Rightarrow> 'c host_collector \<times> protocol option \<Rightarrow> bool" where
  "started_ok u r h hp \<longleftrightarrow> goes_on u h (fst hp) \<and>
     (case snd hp of None \<Rightarrow> True | Some p \<Rightarrow> map_of (the (collectors (fst hp))) p \<noteq> None)"

lemma collect_start_ok:
  assumes "host_ok u h" and "env_ok env" and "r \<in> set (jobs (queue_obj h))"
  shows "\<exists>hp. collect_start env t1 t2 r h = Inr hp \<and> started_ok u r h hp"
proof (cases "Poll (hc_registry h) (PollarisName (job_at r h)) (JobName (job_at r h))")
  case None
  then show ?thesis using assms(1) by (simp add: collect_start_def started_ok_def)
next
  case (Some pl)
  let ?h1 = "put_job r (MarkStart t1 (job_at r h)) h"
  have jok: "job_ok (job_at r h)" by (rule host_ok_job [OF assms(1,3)])
  have ext1: "goes_on u h ?h1" by (rule put_job_ext [OF assms(1) MarkStart_ok(2) MarkStart_ok(1) [OF jok]])
  have ok1: "host_ok u ?h1" by (rule goes_on_ok [OF ext1])
  have jok1: "job_ok (job_at r ?h1)" using MarkStart_ok(1) [OF jok] by simp
  show ?thesis
  proof (cases "map_of (staticJobs :: (string \<times> ('a host_env \<Rightarrow> 'a host_collector \<Rightarrow> cjob \<Rightarrow> cjob res)) list)
      (JobName (job_at r ?h1))")
    case stat: (Some sjob)
    obtain j where j: "sjob env ?h1 (job_at r ?h1) = Inr j" "exec_frame (job_at r ?h1) j"
      using static_do_ok [OF ok1 stat] by blast
    let ?j = "MarkEnded t2 j"
    have "job_ok j" using jok1 by (simp only: job_ok_cadence [OF exec_frameD(3) [OF j(2)]])
    then have jok: "job_ok ?j" by (rule MarkEnded_ok)
    have same: "same_job (job_at r ?h1) ?j"
      using exec_frameD(1,2) [OF j(2)] by (simp add: same_job_def MarkEnded_def)
    have ext2: "goes_on u ?h1 (put_job r ?j ?h1)" by (rule put_job_ext [OF ok1 same jok])
    have jok2: "job_ok (job_at r (put_job r ?j ?h1))" using jok by simp
    have ok2: "host_ok u (put_job r ?j ?h1)" by (rule goes_on_ok [OF ext2])
    have "runs u h (bind_res (jobComplete env r (put_job r ?j ?h1)) (boot_progress env r))"
      by (rule runs_trans [OF goes_on_trans [OF ext1 ext2] complete_and_progress [OF ok2 assms(2) jok2]])
    then show ?thesis
      using Some stat j(1) by (auto simp: collect_start_def Let_def runs_def started_ok_def bind_res_eq_Inr)
  next
    case stat: None
    obtain cs where cs: "collectors ?h1 = Some cs" using ok1 by (auto simp: host_ok_def)
    show ?thesis
    proof (cases "map_of cs (poll_Protocol pl)")
      case (Some c)
      then show ?thesis
        using \<open>Poll _ _ _ = Some pl\<close> stat cs ext1 by (simp add: collect_start_def Let_def started_ok_def)
    next
      case None
      let ?h2 = "put_job r (MarkEnded t2 (job_at r ?h1)) ?h1"
      have ext2: "goes_on u ?h1 ?h2"
        by (rule put_job_ext [OF ok1 MarkEnded_ok(2) MarkEnded_ok(1) [OF jok1]])
      have inv: "queue_inv (queue_obj ?h2)" and r: "r \<in> set (jobs (queue_obj ?h2))"
        using goes_on_ok [OF ext2] assms(3) by (auto simp: host_ok_def queue_live_def)
      obtain q where q: "DisableJob r (queue_obj ?h2) = Inr q" "queue_inv q" "jobs q = jobs (queue_obj ?h2)"
        by (rule DisableJob_inv [OF inv r])
      have "shutdown q = shutdown (queue_obj ?h2)"
        using q(1) by (auto simp: DisableJob_def bind_res_eq_Inr)
      then have "queue_live q" using q(2) goes_on_ok [OF ext2] by (simp add: host_ok_def queue_live_def)
      then have "goes_on u ?h1 (?h1\<lparr>queue_obj := q\<rparr>)"
        by (rule host_ok_queue [OF ok1]) (simp add: q(3))
      then have "goes_on u h (?h1\<lparr>queue_obj := q\<rparr>)" by (rule goes_on_trans [OF ext1])
      then show ?thesis
        using \<open>Poll _ _ _ = Some pl\<close> stat cs None q(1)
        by (simp add: collect_start_def Let_def started_ok_def)
    qed
  qed
qed

lemma set_update_snd: "\<forall>e \<in> set m. P (snd e) \<Longrightarrow> P v \<Longrightarrow> \<forall>e \<in> set (AList.update k v m). P (snd e)"
  using set_update_subset [of k v m] by auto

lemma collect_finish_runs:
  assumes "host_ok u h" and "env_ok env" and "r \<in> set (jobs (queue_obj h))" and "u c'"
    and frame: "exec_frame (job_at r h) j'"
  shows "runs u h (collect_finish env t2 r p c' j' h)"
proof -
  let ?h1 = "h\<lparr>collectors := map_option (AList.update p c') (collectors h)\<rparr>"
  let ?j = "MarkEnded t2 j'"
  obtain cs where cs: "collectors h = Some cs" "\<forall>e \<in> set cs. u (snd e)"
    using assms(1) by (auto simp: host_ok_def)
  have "\<forall>e \<in> set (AList.update p c' cs). u (snd e)"
    by (rule set_update_snd [OF cs(2) assms(4)])
  then have ext1: "goes_on u h ?h1"
    using assms(1) cs(1) by (simp add: goes_on_def host_ok_def)
  have ok1: "host_ok u ?h1" by (rule goes_on_ok [OF ext1])
  have at: "job_at r ?h1 = job_at r h" by (simp add: job_at_def)
  have "job_ok j'"
    using host_ok_job [OF assms(1,3)] by (simp only: job_ok_cadence [OF exec_frameD(3) [OF frame]])
  then have jok: "job_ok ?j" by (rule MarkEnded_ok)
  have same: "same_job (job_at r ?h1) ?j"
    using exec_frameD(1,2) [OF frame] by (simp add: same_job_def MarkEnded_def at)
  have ext2: "goes_on u ?h1 (put_job r ?j ?h1)" by (rule put_job_ext [OF ok1 same jok])
  have jok2: "job_ok (job_at r (put_job r ?j ?h1))" using jok by simp
  have ok2: "host_ok u (put_job r ?j ?h1)" by (rule goes_on_ok [OF ext2])
  have ext: "goes_on u h (put_job r ?j ?h1)" by (rule goes_on_trans [OF ext1 ext2])
  have "runs u h (bind_res (jobComplete env r (put_job r ?j ?h1)) (boot_progress env r))"
    by (rule runs_trans [OF ext complete_and_progress [OF ok2 assms(2) jok2]])
  then show ?thesis using ext by (simp add: collect_finish_def Let_def)
qed

lemma collect_job_runs:
  assumes "host_ok u h" and "env_ok env" and "r \<in> set (jobs (queue_obj h))" and "exec_ok u (tick_exec k)"
  shows "runs u h (collect_job env k r h)"
proof -
  obtain h1 call where st: "collect_start env (tick_start k) (tick_end k) r h = Inr (h1, call)"
    "started_ok u r h (h1, call)"
    using collect_start_ok [OF assms(1-3), of "tick_start k" "tick_end k"] by auto
  have ext1: "goes_on u h h1" using st(2) by (simp add: started_ok_def)
  have ok1: "host_ok u h1" by (rule goes_on_ok [OF ext1])
  show ?thesis
  proof (cases call)
    case None
    then show ?thesis using st(1) ext1 by (simp add: collect_job_def)
  next
    case (Some p)
    obtain cs where cs: "collectors h1 = Some cs" "\<forall>e \<in> set cs. u (snd e)"
      using ok1 by (auto simp: host_ok_def)
    obtain c where c: "map_of cs p = Some c" using st(2) Some cs(1) by (auto simp: started_ok_def)
    have "u c" using cs(2) map_of_SomeD [OF c] by auto
    then obtain c' j' where ex: "tick_exec k c (job_at r h1) = Inr (c', j')" "u c'" "exec_frame (job_at r h1) j'"
      using assms(4) unfolding exec_ok_def by blast
    have "runs u h1 (collect_finish env (tick_end k) r p c' j' h1)"
      by (rule collect_finish_runs [OF ok1 assms(2) goes_on_job [OF ext1 assms(3)] ex(2,3)])
    then have "runs u h (collect_finish env (tick_end k) r p c' j' h1)" by (rule runs_trans [OF ext1])
    then show ?thesis using st(1) Some cs(1) c ex(1) by (simp add: collect_job_def)
  qed
qed

definition tick_ok :: "('c \<Rightarrow> bool) \<Rightarrow> 'c tick \<Rightarrow> bool" where
  "tick_ok u k \<longleftrightarrow> exec_ok u (tick_exec k) \<and> (\<forall>r. random_source (tick_draw k r))"

lemma collect_round_runs:
  assumes "host_ok u h" and "env_ok env" and "tick_ok u k"
  shows "runs u h (collect_round smooth env k h)"
proof -
  let ?q = "queue_obj h"
  have live: "queue_inv ?q" "\<not> shutdown ?q" and nn: "\<not> queue_nil h"
    using assms(1) by (simp_all add: host_ok_def queue_live_def)
  have rs: "\<forall>r. random_source (tick_draw k r)" using assms(3) by (simp add: tick_ok_def)
  let ?hit = "find (due smooth (tick_draw k) (tick_now k) ?q) (jobs ?q)"
  obtain w q1 where pop: "Pop smooth (tick_draw k) (tick_now k) (Some ?q) = Inr ((?hit, w), Some q1)"
    "queue_inv q1" "\<not> shutdown q1"
    "jobs q1 = (case ?hit of None \<Rightarrow> jobs ?q | Some r \<Rightarrow> remove1 r (jobs ?q) @ [r])"
    by (rule Pop_meets [OF live rs, where smooth = smooth and now = "tick_now k"])
  have set1: "set (jobs q1) = set (jobs ?q)"
  proof (cases ?hit)
    case (Some r)
    then have "r \<in> set (jobs ?q)" by (auto simp: find_Some_iff)
    then show ?thesis using pop(4) Some queue_invD(1) [OF live(1)] by auto
  qed (use pop(4) in simp)
  let ?h1 = "h\<lparr>queue_obj := q1\<rparr>"
  have ext1: "goes_on u h ?h1"
    by (rule host_ok_queue [OF assms(1)]) (use pop(2,3) set1 in \<open>simp_all add: queue_live_def\<close>)
  have ok1: "host_ok u ?h1" by (rule goes_on_ok [OF ext1])
  show ?thesis
  proof (cases ?hit)
    case (Some r)
    then have "r \<in> set (jobs (queue_obj ?h1))" using set1 by (auto simp: find_Some_iff)
    then have "runs u ?h1 (collect_job env k r ?h1)"
      using assms(3) by (intro collect_job_runs [OF ok1 assms(2)]) (simp_all add: tick_ok_def)
    then have "runs u h (collect_job env k r ?h1)" by (rule runs_trans [OF ext1])
    then show ?thesis
      using pop(1) Some nn by (simp add: collect_round_def this_queue_def put_queue_def Let_def)
  next
    case None
    obtain q2 where q2: "expedite_loop (jobs q1) q1 = Inr q2" "queue_inv q2" "jobs q2 = jobs q1"
      "shutdown q2 = shutdown q1"
      by (rule expedite_loop_meets [OF pop(2) subset_refl])
    have "goes_on u ?h1 (?h1\<lparr>queue_obj := q2\<rparr>)"
      by (rule host_ok_queue [OF ok1]) (use q2 pop(3) in \<open>simp_all add: queue_live_def\<close>)
    then have "goes_on u h (?h1\<lparr>queue_obj := q2\<rparr>)" by (rule goes_on_trans [OF ext1])
    then show ?thesis
      using pop(1,3) None nn q2(1) ext1
      by (simp add: collect_round_def this_queue_def put_queue_def Let_def Expedite_def)
  qed
qed

lemma collect_runs:
  "host_ok u h \<Longrightarrow> env_ok env \<Longrightarrow> \<forall>k \<in> set ks. tick_ok u k \<Longrightarrow> runs u h (collect smooth env ks h)"
proof (induction ks arbitrary: h)
  case (Cons k ks)
  have "runs u h (bind_res (collect_round smooth env k h) (collect smooth env ks))"
    by (rule runs_bind [OF collect_round_runs]) (use Cons goes_on_ok in auto)
  then show ?case using Cons.prems(1) by simp
qed simp

end
