(* ===== verification/Jobs_Queue_Theorems.thy ===== *)
theory Jobs_Queue_Theorems
  imports Jobs_Queue_Spec
begin

text \<open>
  The properties of the jobs queue, each over the operations of \<open>Jobs_Queue\<close>, with a small queue of
  two jobs as their concrete instance.
\<close>

section \<open>A queue of two jobs\<close>

definition demo_config :: host_protocol where
  "demo_config = \<lparr>cfg_Protocol = L8PPSNMPV2, cfg_Addr = ''10.0.0.1'', cfg_Port = 161,
     cfg_CredId = ''sim'', cfg_Timeout = 30, cfg_HttpPrefix = '''', cfg_Prompt = [], cfg_Ainfo = None, cfg_Cert = '''', cfg_Terminal = '''',
     cfg_TerminalCommands = None\<rparr>"

definition demo_target :: target where
  "demo_target = \<lparr>tgt_TargetId = ''10.0.0.1'', tgt_LinksId = ''NetDev'',
     tgt_Hosts = [(''10.0.0.1'', \<lparr>host_HostId = ''10.0.0.1'', host_Configs = [(1, demo_config)]\<rparr>)]\<rparr>"

definition demo_plan :: cadence_plan where
  "demo_plan = \<lparr>Enabled = True, Current = 0, Cadences = [60, 300], Startups = None\<rparr>"

definition demo_poll :: "string \<Rightarrow> poll" where
  "demo_poll n = \<lparr>poll_Name = n, poll_What = ''.1.3.6.1.2.1.1'', poll_Operation = L8C_Map,
     poll_Protocol = L8PPSNMPV2, poll_Cadence = Some demo_plan, poll_Timeout = 60, poll_Always = False,
     poll_RespName = ''''\<rparr>"

definition demo_pollaris :: pollaris where
  "demo_pollaris = \<lparr>plrs_Name = ''mib2'', plrs_Order = Some [''systemMib'', ''ifTable''],
     plrs_Polling = [(''ifTable'', demo_poll ''ifTable''), (''systemMib'', demo_poll ''systemMib'')]\<rparr>"

definition demo_registry :: registry where
  "demo_registry = \<lparr>PollarisByKey = (\<lambda>k. if fst k = ''mib2'' then Some demo_pollaris else None),
     PollarisByGroup = (\<lambda>k. if fst k = ''Boot_Stage_00'' then Some [demo_pollaris] else None),
     Poll = (\<lambda>p n. if p = ''mib2'' then map_of (plrs_Polling demo_pollaris) n else None),
     Parser = (\<lambda>l. (''Parser'', 0))\<rparr>"

definition demo_job :: "string \<Rightarrow> cjob" where
  "demo_job n = empty_job\<lparr>JobName := n, PollarisName := ''mib2'', Cadence := Some demo_plan,
     Timeout := 60, TargetId := ''10.0.0.1'', HostId := ''10.0.0.1'', LinksId := ''NetDev''\<rparr>"

definition demo_queue :: jobs_queue where
  "demo_queue = insert_one (demo_job ''ifTable'') (insert_one (demo_job ''systemMib'')
     (NewJobsQueue (Some demo_target) ''10.0.0.1''))"

lemma demo_plan_ok: "plan_ok demo_plan"
  by (simp add: demo_plan_def plan_ok_def)

lemma demo_job_ok: "job_ok (demo_job n)"
  by (simp add: demo_job_def job_ok_def demo_plan_ok)

lemma demo_pollaris_ok: "pollaris_ok demo_pollaris"
  by (auto simp: pollaris_ok_def demo_pollaris_def demo_poll_def poll_ok_def demo_plan_ok go_map_def)

lemma demo_registry_ok: "registry_ok demo_registry"
  by (auto simp: registry_ok_def demo_registry_def demo_pollaris_ok split: if_splits)

lemma demo_queue_inv: "queue_inv demo_queue"
  unfolding demo_queue_def by (intro insert_one_inv NewJobsQueue_inv demo_job_ok) simp

lemma demo_queue_simps:
  "jobs demo_queue = [0, 1]" "\<not> shutdown demo_queue"
  "cell demo_queue 0 = demo_job ''systemMib''" "cell demo_queue 1 = demo_job ''ifTable''"
  "cell demo_queue (Suc 0) = demo_job ''ifTable''"
  "jobsMap demo_queue = [''mib2systemMib'' \<mapsto> 0, ''mib2ifTable'' \<mapsto> 1]"
  by (simp_all add: demo_queue_def insert_one_def NewJobsQueue_def demo_job_def JobKey_def)

lemma demo_queue_live: "queue_live demo_queue"
  by (simp add: queue_live_def demo_queue_inv demo_queue_simps)

section \<open>Every reachable queue\<close>

text \<open>
  What can happen to a queue: insertions, pops, expedites, disables, the writes of the host collector
  through a job's pointer (which never change the names of the job and keep its plan usable) and the
  shutdown.
\<close>

datatype queue_event =
    Inserted pollaris_key
  | Popped "ref option"
  | Expedited
  | Disabled ref
  | Written ref
  | ShutDown

inductive queue_step :: "registry \<Rightarrow> jobs_queue \<Rightarrow> queue_event \<Rightarrow> jobs_queue \<Rightarrow> bool" for reg where
  step_insert: "range_order rng \<Longrightarrow> InsertJob reg rng key (Some q) = Inr (Some q', e) \<Longrightarrow>
    queue_step reg q (Inserted key) q'"
| step_pop: "\<forall>r. random_source (rnd r) \<Longrightarrow> Pop smooth rnd now (Some q) = Inr ((x, w), Some q') \<Longrightarrow>
    queue_step reg q (Popped x) q'"
| step_expedite: "Expedite (Some q) = Inr (Some q') \<Longrightarrow> queue_step reg q Expedited q'"
| step_disable: "r \<in> set (jobs q) \<Longrightarrow> DisableJob r q = Inr q' \<Longrightarrow> queue_step reg q (Disabled r) q'"
| step_write: "same_job (cell q r) j \<Longrightarrow> job_ok j \<Longrightarrow> queue_step reg q (Written r) (set_cell r j q)"
| step_shutdown: "queue_step reg q ShutDown (Shutdown q)"

inductive_cases queue_stepE: "queue_step reg q e q'"

definition new_queue :: "jobs_queue \<Rightarrow> bool" where
  "new_queue q \<longleftrightarrow> (\<exists>t h. q = NewJobsQueue (Some t) h)"

lemma InsertJob_inv:
  assumes "registry_ok reg" and "range_order rng" and "queue_inv q"
    and run: "InsertJob reg rng key (Some q) = Inr (Some q', e)"
  shows "queue_inv q'"
proof (cases "shutdown q")
  case True
  then have "q' = q"
    using run by (auto simp: InsertJob_def bind_res_eq_Inr split: option.splits)
  then show ?thesis using assms(3) by simp
next
  case False
  show ?thesis
  proof (cases "PollarisByKey reg key")
    case None
    with InsertJob_unknown [OF assms(3) False None, of rng] run assms(3) show ?thesis by simp
  next
    case (Some p)
    then have ok: "pollaris_ok p" by (rule registry_okD [OF assms(1)])
    obtain q1 where "InsertJob reg rng key (Some q) = Inr (Some q1, None)" "queue_inv q1"
      by (rule InsertJob_meets [OF assms(3) False Some ok assms(2)])
    then show ?thesis using run by simp
  qed
qed

lemma Pop_inv:
  assumes "queue_inv q" and "\<forall>r. random_source (rnd r)"
    and run: "Pop smooth rnd now (Some q) = Inr ((x, w), Some q')"
  shows "queue_inv q'"
proof (cases "shutdown q")
  case True
  then show ?thesis using run assms(1) by (auto simp: Pop_def split: if_splits)
next
  case False
  obtain w1 q1 where "Pop smooth rnd now (Some q) =
      Inr ((find (due smooth rnd now q) (jobs q), w1), Some q1)" "queue_inv q1"
    by (rule Pop_meets [OF assms(1) False assms(2)])
  then show ?thesis using run by simp
qed

lemma Expedite_inv:
  assumes "queue_inv q" and run: "Expedite (Some q) = Inr (Some q')"
  shows "queue_inv q'"
proof (cases "shutdown q")
  case True
  then show ?thesis using run assms(1) by (simp add: Expedite_def)
next
  case False
  obtain q1 where "expedite_loop (jobs q) q = Inr q1" "queue_inv q1"
    by (rule expedite_loop_meets [OF assms(1) subset_refl])
  then show ?thesis using run False by (simp add: Expedite_def)
qed

lemma queue_step_inv:
  assumes "registry_ok reg" and "queue_inv q" and "queue_step reg q e q'"
  shows "queue_inv q'"
  using assms(3)
proof (cases rule: queue_step.cases)
  case (step_disable r)
  obtain q1 where "DisableJob r q = Inr q1" "queue_inv q1"
    by (rule DisableJob_inv [OF assms(2) step_disable(2)])
  then show ?thesis using step_disable by simp
qed (use assms InsertJob_inv Pop_inv Expedite_inv set_cell_inv Shutdown_inv in blast)+

definition good_registry_step :: "registry \<Rightarrow> jobs_queue \<Rightarrow> queue_event \<Rightarrow> jobs_queue \<Rightarrow> bool" where
  "good_registry_step reg q e q' \<longleftrightarrow> registry_ok reg \<and> queue_step reg q e q'"

interpretation queue_sys: invariant_system new_queue "good_registry_step reg" queue_inv for reg
  by unfold_locales
    (auto simp: new_queue_def good_registry_step_def intro: NewJobsQueue_inv queue_step_inv)

lemma reach_good:
  "registry_ok reg \<Longrightarrow> reach new_queue (queue_step reg) q \<Longrightarrow> reach new_queue (good_registry_step reg) q"
proof (rotate_tac, induction rule: reach.induct)
  case (reach_start s)
  then show ?case by (blast intro: reach.reach_start)
next
  case (reach_step s e t)
  then show ?case by (blast intro: reach.reach_step [where e = e] good_registry_step_def [THEN iffD2])
qed

lemma queue_no_panic:
  assumes "queue_inv q" and "\<not> shutdown q" and "registry_ok reg"
  shows "\<forall>r. random_source (rnd r) \<Longrightarrow> \<not> panics (Pop smooth rnd now (Some q))"
    and "range_order rng \<Longrightarrow> \<not> panics (InsertJob reg rng key (Some q))"
    and "\<not> panics (Expedite (Some q))"
proof -
  show "\<not> panics (Pop smooth rnd now (Some q))" if rs: "\<forall>r. random_source (rnd r)"
    by (rule Pop_meets [OF assms(1,2) rs, of smooth now]) simp
  show "\<not> panics (Expedite (Some q))"
    by (rule expedite_loop_meets [OF assms(1) subset_refl]) (simp add: Expedite_def assms(2))
  show "\<not> panics (InsertJob reg rng key (Some q))" if ro: "range_order rng"
  proof (cases "PollarisByKey reg key")
    case None
    then show ?thesis by (simp add: InsertJob_unknown [OF assms(1,2)])
  next
    case (Some p)
    then have ok: "pollaris_ok p" by (rule registry_okD [OF assms(3)])
    show ?thesis by (rule InsertJob_meets [OF assms(1,2) Some ok ro]) simp
  qed
qed

text \<open>
  C12. In every state that operations, in any order, lead a new queue to, the slice holds no job
  twice, the map indexes exactly the slice by job key, and every job has a usable plan; and while the
  queue is not shut down none of its operations panics.
\<close>

theorem queue_safe:
  assumes "registry_ok reg" and "reach new_queue (queue_step reg) q"
  shows "queue_inv q \<and> (\<forall>smooth rnd now rng key.
    \<not> shutdown q \<and> (\<forall>r. random_source (rnd r)) \<and> range_order rng \<longrightarrow>
    \<not> panics (Pop smooth rnd now (Some q)) \<and> \<not> panics (InsertJob reg rng key (Some q)) \<and>
    \<not> panics (Expedite (Some q)))"
proof -
  have inv: "queue_inv q" using queue_sys.reach_inv [OF reach_good [OF assms]] .
  then show ?thesis using queue_no_panic [OF inv _ assms(1)] by blast
qed

lemma demo_insert:
  "InsertJob demo_registry (\<lambda>xs. xs) (''mib2'', no_attrs)
     (Some (NewJobsQueue (Some demo_target) ''10.0.0.1'')) = Inr (Some demo_queue, None)"
  by (simp add: InsertJob_def newJobsForKey_def demo_registry_def demo_pollaris_def order_names_def
      demo_poll_def NewJobsQueue_def new_job_def cloneCadence_def demo_plan_def insert_jobs.simps(2)
      insert_one_def JobKey_def demo_queue_def demo_job_def demo_target_def empty_job_def)

lemma demo_reach: "reach new_queue (queue_step demo_registry) demo_queue"
proof (rule reach.reach_step)
  show "reach new_queue (queue_step demo_registry) (NewJobsQueue (Some demo_target) ''10.0.0.1'')"
    by (rule reach.reach_start) (auto simp: new_queue_def)
  show "queue_step demo_registry (NewJobsQueue (Some demo_target) ''10.0.0.1'')
      (Inserted (''mib2'', no_attrs)) demo_queue"
    by (rule step_insert [OF range_order_id demo_insert])
qed

lemma no_draw: "random_source (\<lambda>n. 0)"
  by (simp add: random_source_def)

theorem queue_safe_witness:
  "\<not> panics (Pop True (\<lambda>r n. 0) 1700000000 (Some demo_queue)) \<and>
   \<not> panics (InsertJob demo_registry rev (''mib2'', no_attrs) (Some demo_queue))"
  using queue_safe [OF demo_registry_ok demo_reach, THEN conjunct2, THEN spec,
      of True, THEN spec, of "\<lambda>r n. 0", THEN spec, of 1700000000, THEN spec, of rev, THEN spec,
      of "(''mib2'', no_attrs)"]
  by (simp add: no_draw demo_queue_simps)

section \<open>Popping\<close>

text \<open>
  C15. On a queue in use, \<open>Pop\<close> returns the first job of the slice that is enabled and whose interval
  has elapsed, and moves it to the end; the other jobs keep their order and no job is lost or
  duplicated. When no job is due it changes nothing in the slice and returns the least time that an
  enabled job still has to wait, or 999999.
\<close>

theorem Pop_first_due:
  assumes "queue_live q" and "\<forall>r. random_source (rnd r)"
  shows "\<exists>w q'. Pop smooth rnd now (Some q) = Inr ((find (due smooth rnd now q) (jobs q), w), Some q') \<and>
    mset (jobs q') = mset (jobs q) \<and> jobsMap q' = jobsMap q \<and>
    (case find (due smooth rnd now q) (jobs q) of
       None \<Rightarrow> jobs q' = jobs q \<and>
         (w = 999999 \<or> (\<exists>r \<in> set (jobs q). job_enabled q r \<and> w = remaining smooth rnd now q r)) \<and>
         (\<forall>r \<in> set (jobs q). job_enabled q r \<longrightarrow> w \<le> remaining smooth rnd now q r) \<and> w \<le> 999999
     | Some r \<Rightarrow> jobs q' = remove1 r (jobs q) @ [r])"
proof -
  have inv: "queue_inv q" "\<not> shutdown q" using assms(1) by (simp_all add: queue_live_def)
  let ?hit = "find (due smooth rnd now q) (jobs q)"
  obtain w q' where pop: "Pop smooth rnd now (Some q) = Inr ((?hit, w), Some q')"
    and "queue_inv q'" and "\<not> shutdown q'" and js: "jobs q' = (case ?hit of None \<Rightarrow> jobs q | Some r \<Rightarrow> remove1 r (jobs q) @ [r])"
    and w: "?hit = None \<longrightarrow> w = next_wait (remaining smooth rnd now q) (job_enabled q) (jobs q) 999999"
    and m: "jobsMap q' = jobsMap q"
    by (rule Pop_meets [OF inv assms(2), where smooth = smooth and now = now])
  show ?thesis
  proof (cases ?hit)
    case None
    with w have "w = next_wait (remaining smooth rnd now q) (job_enabled q) (jobs q) 999999" by simp
    then show ?thesis
      using pop js m None next_wait_attained next_wait_le_member next_wait_le by fastforce
  next
    case (Some r)
    then have "r \<in> set (jobs q)" by (auto simp: find_Some_iff)
    then have "mset (remove1 r (jobs q) @ [r]) = mset (jobs q)" by simp
    then show ?thesis using pop js m Some by auto
  qed
qed

theorem Pop_first_due_witness:
  "\<exists>w q'. Pop False (\<lambda>r n. 0) 1700000000 (Some demo_queue) = Inr ((Some 0, w), Some q') \<and>
     jobs q' = [1, 0]"
proof -
  have d: "due False (\<lambda>r n. 0) 1700000000 demo_queue 0"
    by (simp add: due_def demo_queue_simps demo_job_def empty_job_def demo_plan_def JobCadence_def
        needs_startup_def go_nth_def)
  show ?thesis
    using Pop_first_due [OF demo_queue_live, of "\<lambda>r n. 0" False 1700000000] no_draw d
    by (auto simp: demo_queue_simps)
qed

text \<open>
  C25. Round-robin fairness: whatever times the pops are made at and whatever jobs are inserted or
  rewritten between them, a job of the queue that is due at each pop is returned before the pops
  outnumber the jobs that were ahead of it.
\<close>

theorem Pop_fair:
  assumes "pop_run queue_pop queue_env queue_ready r q xs q'" and "queue_live q"
    and "r \<in> set (jobs q)" and "place r (jobs q) < length xs"
  shows "Some r \<in> set xs"
  using jq.served [OF assms(1-3)] assms(4) by (meson not_less)

lemma demo_due:
  "cell q = cell demo_queue \<Longrightarrow> r \<in> {0, 1} \<Longrightarrow> due False (\<lambda>r n. 0) 1700000000 q r"
  by (auto simp: due_def demo_queue_simps demo_job_def empty_job_def demo_plan_def JobCadence_def
      needs_startup_def go_nth_def)

lemma queue_run_more:
  "queue_ready c q j \<Longrightarrow> queue_pop c q x q1 \<Longrightarrow> queue_env q1 q2 \<Longrightarrow>
   pop_run queue_pop queue_env queue_ready j q2 xs q3 \<Longrightarrow>
   pop_run queue_pop queue_env queue_ready j q (x # xs) q3"
  by (rule pop_more)

theorem Pop_fair_witness:
  "\<exists>xs q'. pop_run queue_pop queue_env queue_ready 1 demo_queue xs q' \<and> Some 1 \<in> set xs"
proof -
  let ?c = "(False, \<lambda>(r::ref) (n::int). 0::int, 1700000000::int)"
  have pop: "\<exists>q'. queue_pop ?c q (Some (hd (jobs q))) q' \<and> queue_live q' \<and> cell q' = cell demo_queue \<and>
      set (jobs q') = {0, 1} \<and> jobs q' = tl (jobs q) @ [hd (jobs q)]"
    if live: "queue_live q" and cell: "cell q = cell demo_queue" and js: "set (jobs q) = {0, 1}" for q
  proof -
    obtain x xs where xs: "jobs q = x # xs" using js by (cases "jobs q") auto
    have "x \<in> {0, 1}" using js xs by auto
    then have hit: "find (due False (\<lambda>r n. 0) 1700000000 q) (jobs q) = Some x"
      using demo_due [OF cell] xs by simp
    have inv: "queue_inv q" "\<not> shutdown q" using live by (simp_all add: queue_live_def)
    have rs: "\<forall>r::ref. random_source ((\<lambda>r n. 0) r)" using no_draw by simp
    obtain w q' where "Pop False (\<lambda>r n. 0) 1700000000 (Some q) =
        Inr ((find (due False (\<lambda>r n. 0) 1700000000 q) (jobs q), w), Some q')"
      "queue_inv q'" "\<not> shutdown q'"
      "jobs q' = (case find (due False (\<lambda>r n. 0) 1700000000 q) (jobs q) of
        None \<Rightarrow> jobs q | Some r \<Rightarrow> remove1 r (jobs q) @ [r])"
      "find (due False (\<lambda>r n. 0) 1700000000 q) (jobs q) = None \<longrightarrow>
        w = next_wait (remaining False (\<lambda>r n. 0) 1700000000 q) (job_enabled q) (jobs q) 999999"
      "jobsMap q' = jobsMap q" "\<forall>r. Ended (cell q' r) = Ended (cell q r)"
      "\<not> False \<longrightarrow> cell q' = cell q"
      by (rule Pop_meets [OF inv rs, where smooth = False and now = 1700000000])
    then show ?thesis
      using xs js cell hit by (auto simp: queue_pop_def queue_live_def no_draw)
  qed
  obtain q1 where q1: "queue_pop ?c demo_queue (Some 0) q1" "queue_live q1" "cell q1 = cell demo_queue"
    "set (jobs q1) = {0, 1}" "jobs q1 = [1, 0]"
    using pop [OF demo_queue_live] by (auto simp: demo_queue_simps)
  obtain q2 where q2: "queue_pop ?c q1 (Some 1) q2" "queue_live q2" "cell q2 = cell demo_queue"
    using pop [OF q1(2-4)] q1(5) by auto
  have ready: "queue_ready ?c q 1" if "cell q = cell demo_queue" for q
    using demo_due [OF that, of 1] by (simp add: queue_ready_def)
  have env: "queue_env q q" if "queue_live q" for q
    using that by (simp add: queue_env_def)
  have "pop_run queue_pop queue_env queue_ready 1 q1 [Some 1] q2"
    by (rule queue_run_more [OF ready [OF q1(3)] q2(1) env [OF q2(2)]]) (rule pop_done)
  then have run: "pop_run queue_pop queue_env queue_ready 1 demo_queue [Some 0, Some 1] q2"
    by (rule queue_run_more [OF ready [OF refl] q1(1) env [OF q1(2)]])
  have "Some 1 \<in> set [Some 0, Some (1::nat)]"
    by (rule Pop_fair [OF run demo_queue_live])
      (simp_all add: demo_queue_simps place_def)
  with run show ?thesis by blast
qed

section \<open>The time to sleep\<close>

text \<open>Times as the collector has them: Unix seconds, and no job that ended in the future.\<close>

definition times_ok :: "int \<Rightarrow> jobs_queue \<Rightarrow> bool" where
  "times_ok now q \<longleftrightarrow> 0 \<le> now \<and> now < 2 ^ 61 \<and> (\<forall>r \<in> set (jobs q). 0 \<le> Ended (cell q r) \<and> Ended (cell q r) \<le> now)"

definition next_time :: "jobs_queue \<Rightarrow> ref \<Rightarrow> int" where
  "next_time q r = Ended (cell q r) + level_interval (the (Cadence (cell q r)))"

lemma due_steady:
  assumes "job_ok (cell q r)" and "0 \<le> Ended (cell q r)" and "0 \<le> t" and "t < 2 ^ 62" and "Ended (cell q r) < 2 ^ 62"
  shows "due False rnd t q r \<longleftrightarrow> job_enabled q r \<and> next_time q r \<le> t"
proof -
  obtain c where c: "Cadence (cell q r) = Some c" "plan_ok c" using assms(1) by (rule job_okE)
  have "int64 (t - Ended (cell q r)) = t - Ended (cell q r)"
    using assms by (intro int64_id) simp_all
  then show ?thesis
    using c by (auto simp: due_def JobCadence_steady job_enabled_def next_time_def)
qed

lemma remaining_steady:
  assumes "job_ok (cell q r)" and "0 \<le> Ended (cell q r)" and "0 \<le> t" and "t < 2 ^ 62" and "Ended (cell q r) < 2 ^ 62"
  shows "remaining False rnd t q r = next_time q r - t"
proof -
  obtain c where c: "Cadence (cell q r) = Some c" "plan_ok c" using assms(1) by (rule job_okE)
  note b = level_interval_bounds [OF c(2)]
  have "int64 (t - Ended (cell q r)) = t - Ended (cell q r)"
    using assms by (intro int64_id) simp_all
  moreover have "int64 (level_interval c - (t - Ended (cell q r))) = level_interval c - (t - Ended (cell q r))"
    using assms b by (intro int64_id) simp_all
  ultimately show ?thesis
    using c by (simp add: remaining_def JobCadence_steady next_time_def)
qed

text \<open>
  C26. The sleep is exact: when \<open>Pop\<close> (without randomised starts) returns no job and \<open>w\<close> seconds, then
  \<open>w\<close> is positive, no job of the queue becomes due before \<open>w\<close> seconds have passed, and some job is
  due at that time unless \<open>w\<close> is the cap of 999999 seconds.
\<close>

theorem Pop_sleep_exact:
  assumes "queue_live q" and "\<forall>r. random_source (rnd r)" and "times_ok now q"
    and "Pop False rnd now (Some q) = Inr ((None, w), Some q')"
  shows "0 < w \<and> (\<forall>t. now \<le> t \<and> t < now + w \<longrightarrow> find (due False rnd t q') (jobs q') = None) \<and>
    (w < 999999 \<longrightarrow> find (due False rnd (now + w) q') (jobs q') \<noteq> None)"
proof -
  have inv: "queue_inv q" "\<not> shutdown q" using assms(1) by (simp_all add: queue_live_def)
  obtain w1 q1 where pop: "Pop False rnd now (Some q) = Inr ((find (due False rnd now q) (jobs q), w1), Some q1)"
    "queue_inv q1" "\<not> shutdown q1"
    "jobs q1 = (case find (due False rnd now q) (jobs q) of None \<Rightarrow> jobs q | Some r \<Rightarrow> remove1 r (jobs q) @ [r])"
    "find (due False rnd now q) (jobs q) = None \<longrightarrow>
      w1 = next_wait (remaining False rnd now q) (job_enabled q) (jobs q) 999999"
    "jobsMap q1 = jobsMap q" "\<forall>r. Ended (cell q1 r) = Ended (cell q r)" "\<not> False \<longrightarrow> cell q1 = cell q"
    by (rule Pop_meets [OF inv assms(2), where smooth = False and now = now])
  have none: "find (due False rnd now q) (jobs q) = None" and q': "q' = q1" and "w = w1"
    using pop(1) assms(4) by simp_all
  then have w: "w = next_wait (remaining False rnd now q) (job_enabled q) (jobs q) 999999"
    and js: "jobs q' = jobs q" and cell: "cell q' = cell q"
    using pop by simp_all
  have t: "0 \<le> now" "now < 2 ^ 61" using assms(3) by (simp_all add: times_ok_def)
  have ok: "job_ok (cell q r)" "0 \<le> Ended (cell q r)" "Ended (cell q r) < 2 ^ 61" if "r \<in> set (jobs q)" for r
    using that queue_invD(4) [OF inv(1)] assms(3) by (auto simp: times_ok_def)
  have d: "due False rnd t q' r \<longleftrightarrow> job_enabled q r \<and> next_time q r \<le> t"
    if "r \<in> set (jobs q)" "0 \<le> t" "t < 2 ^ 62" for r t
    using due_steady [of q r t rnd] ok [OF that(1)] that due_cell [of q' r q False rnd t] cell by simp
  have rem: "remaining False rnd now q r = next_time q r - now" if "r \<in> set (jobs q)" for r
    using remaining_steady [of q r now rnd] ok [OF that] t by simp
  have later: "now < next_time q r" if "r \<in> set (jobs q)" "job_enabled q r" for r
    using none d [OF that(1) t(1)] that t(2) due_cell [of q' r q False rnd now] cell
    by (simp add: find_None_iff not_le)
  have cap: "w \<le> 999999" using w next_wait_le by simp
  have least: "w \<le> next_time q r - now" if "r \<in> set (jobs q)" "job_enabled q r" for r
    using next_wait_le_member [where P = "job_enabled q" and f = "remaining False rnd now q"
        and w = 999999, OF that] rem [OF that(1)] w by simp
  have attained: "w = 999999 \<or> (\<exists>r \<in> set (jobs q). job_enabled q r \<and> w = next_time q r - now)"
    using next_wait_attained [of "remaining False rnd now q" "job_enabled q" "jobs q" 999999] rem w by auto
  have "0 < w" using attained later by auto
  moreover have "find (due False rnd t q') (jobs q') = None" if "now \<le> t" "t < now + w" for t
    using d [of _ t] least t cap that by (fastforce simp: find_None_iff js)
  moreover have "find (due False rnd (now + w) q') (jobs q') \<noteq> None" if lt: "w < 999999"
  proof -
    obtain r where r: "r \<in> set (jobs q)" "job_enabled q r" "w = next_time q r - now"
      using attained lt by auto
    then have "due False rnd (now + w) q' r"
      using d [OF r(1), of "now + w"] t cap \<open>0 < w\<close> by simp
    then show ?thesis using r(1) js by (auto simp: find_None_iff)
  qed
  ultimately show ?thesis by blast
qed

definition demo_idle_queue :: jobs_queue where
  "demo_idle_queue = set_cell 1 ((demo_job ''ifTable'')\<lparr>Ended := 1699999970\<rparr>)
     (set_cell 0 ((demo_job ''systemMib'')\<lparr>Ended := 1699999990\<rparr>) demo_queue)"

lemma demo_idle_live: "queue_live demo_idle_queue"
proof -
  have "job_ok ((demo_job n)\<lparr>Ended := e\<rparr>)" for n e
    using demo_job_ok [of n] by (simp add: job_ok_def)
  then have "queue_inv demo_idle_queue"
    unfolding demo_idle_queue_def
    by (intro set_cell_inv demo_queue_inv) (simp_all add: same_job_def demo_queue_simps)
  then show ?thesis by (simp add: queue_live_def demo_idle_queue_def demo_queue_simps)
qed

theorem Pop_sleep_exact_witness:
  "\<exists>q'. Pop False (\<lambda>r n. 0) 1700000000 (Some demo_idle_queue) = Inr ((None, 30), Some q') \<and>
     find (due False (\<lambda>r n. 0) 1700000030 q') (jobs q') \<noteq> None"
proof -
  have "queue_service demo_queue" using demo_queue_live queue_invD(7) by (auto simp: queue_live_def)
  then have pop: "Pop False (\<lambda>r n. 0) 1700000000 (Some demo_idle_queue) = Inr ((None, 30), Some demo_idle_queue)"
    by (simp add: Pop_def demo_idle_queue_def demo_queue_simps demo_job_def empty_job_def demo_plan_def
        JobCadence_def needs_startup_def go_nth_def moveToLast_def set_cell_def)
  have "times_ok 1700000000 demo_idle_queue"
    by (auto simp: times_ok_def demo_idle_queue_def demo_queue_simps)
  from Pop_sleep_exact [OF demo_idle_live _ this pop] no_draw pop show ?thesis by auto
qed

section \<open>Inserting and expediting\<close>

text \<open>
  C16. Inserting a usable Pollaris into a queue in use succeeds: the jobs already there keep their
  place, the keys of the queue become the old ones and those of the Pollaris' enabled polls, and the
  job under each of these is in the queue and due at once, new or not. No other job is added, so a
  Pollaris whose enabled polls are all there adds none.
\<close>

theorem InsertJob_adds_enabled:
  assumes "queue_live q" and "PollarisByKey reg key = Some p" and "pollaris_ok p" and "range_order rng"
  shows "\<exists>q' new. InsertJob reg rng key (Some q) = Inr (Some q', None) \<and> queue_live q' \<and>
    jobs q' = jobs q @ new \<and> dom (jobsMap q') = wanted_keys rng p \<union> dom (jobsMap q) \<and>
    (\<forall>k \<in> wanted_keys rng p. \<exists>r \<in> set (jobs q'). jobsMap q' k = Some r \<and> Ended (cell q' r) = 0) \<and>
    (wanted_keys rng p \<subseteq> dom (jobsMap q) \<longrightarrow> new = [])"
proof -
  have inv: "queue_inv q" "\<not> shutdown q" using assms(1) by (simp_all add: queue_live_def)
  obtain q' new where q': "InsertJob reg rng key (Some q) = Inr (Some q', None)" "queue_inv q'"
    "\<not> shutdown q'" "jobs q' = jobs q @ new" "dom (jobsMap q') = wanted_keys rng p \<union> dom (jobsMap q)"
    "\<forall>k r. k \<in> wanted_keys rng p \<longrightarrow> jobsMap q' k = Some r \<longrightarrow> Ended (cell q' r) = 0"
    "wanted_keys rng p \<subseteq> dom (jobsMap q) \<longrightarrow> new = []"
    by (rule InsertJob_meets [OF inv assms(2-4)])
  have "\<exists>r \<in> set (jobs q'). jobsMap q' k = Some r \<and> Ended (cell q' r) = 0"
    if k: "k \<in> wanted_keys rng p" for k
  proof -
    obtain r where r: "jobsMap q' k = Some r" using k q'(5) by blast
    show ?thesis using r queue_invD(5) [OF q'(2) r] q'(6) k by blast
  qed
  then show ?thesis using q' by (auto simp: queue_live_def)
qed

theorem InsertJob_adds_enabled_witness:
  "\<exists>q'. InsertJob demo_registry rev (''mib2'', no_attrs) (Some demo_queue) = Inr (Some q', None) \<and>
     jobs q' = [0, 1]"
proof -
  have p: "PollarisByKey demo_registry (''mib2'', no_attrs) = Some demo_pollaris"
    by (simp add: demo_registry_def)
  have "wanted_keys rev demo_pollaris \<subseteq> dom (jobsMap demo_queue)"
    by (auto simp: wanted_keys_def order_names_def demo_pollaris_def demo_queue_simps JobKey_def)
  then show ?thesis
    using InsertJob_adds_enabled [OF demo_queue_live p demo_pollaris_ok range_order_rev]
    by (auto simp: demo_queue_simps)
qed

definition job_interval :: "jobs_queue \<Rightarrow> ref \<Rightarrow> int" where
  "job_interval q r = level_interval (the (Cadence (cell q r)))"

text \<open>A job that never ended is due at any present time, with or without randomised starts.\<close>

lemma due_fresh:
  assumes "job_ok (cell q r)" and "Ended (cell q r) = 0" and "random_source (rnd r)"
    and "2 * job_interval q r \<le> now" and "now < 2 ^ 63"
  shows "due smooth rnd now q r \<longleftrightarrow> job_enabled q r"
proof -
  obtain c where c: "Cadence (cell q r) = Some c" "plan_ok c" using assms(1) by (rule job_okE)
  obtain v c' where v: "JobCadence smooth (rnd r) c = Inr (v, c')" "v < 2 * level_interval c"
    using JobCadence_ok [OF c(2) assms(3)] by metis
  have "v \<le> now" using v(2) assms(4) c(1) by (simp add: job_interval_def)
  moreover have "int64 now = now"
    using assms(4,5) level_interval_bounds(1) [OF c(2)] c(1)
    by (intro int64_id) (simp_all add: job_interval_def)
  ultimately show ?thesis using c v(1) assms(2) by (simp add: due_def job_enabled_def)
qed

text \<open>
  After \<open>Expedite\<close> on a queue in use the next \<open>Pop\<close> does not wait: it returns the first enabled
  job of the slice, whatever was drawn or is drawn for the randomised starts. The intervals are
  assumed to be at most half of the present Unix time (some 27 years).
\<close>

theorem Expedite_then_Pop:
  assumes "queue_live q" and "\<forall>r. random_source (rnd r)" and "now < 2 ^ 63"
    and "\<forall>r \<in> set (jobs q). 2 * job_interval q r \<le> now"
  shows "\<exists>q1 w q2. Expedite (Some q) = Inr (Some q1) \<and> jobs q1 = jobs q \<and>
    Pop smooth rnd now (Some q1) = Inr ((find (job_enabled q) (jobs q), w), Some q2)"
proof -
  have inv: "queue_inv q" "\<not> shutdown q" using assms(1) by (simp_all add: queue_live_def)
  obtain q1 where q1: "expedite_loop (jobs q) q = Inr q1" "queue_inv q1" "jobs q1 = jobs q"
    "shutdown q1 = shutdown q"
    "\<forall>r. cell q1 r = (if r \<in> set (jobs q) \<and> job_enabled q r then (cell q r)\<lparr>Ended := 0\<rparr> else cell q r)"
    by (rule expedite_loop_meets [OF inv(1) subset_refl])
  have d: "due smooth rnd now q1 r = job_enabled q r" if r: "r \<in> set (jobs q)" for r
  proof (cases "job_enabled q r")
    case True
    then have "job_enabled q1 r" "Ended (cell q1 r) = 0" using q1(5) r by (simp_all add: job_enabled_def)
    moreover have "job_ok (cell q1 r)" using queue_invD(4) [OF q1(2)] r q1(3) by simp
    moreover have "2 * job_interval q1 r \<le> now"
      using assms(4) r q1(5) by (simp add: job_interval_def)
    ultimately show ?thesis using due_fresh assms(2,3) True by blast
  next
    case False
    then have "cell q1 r = cell q r" using q1(5) by simp
    then show ?thesis using False by (auto simp: due_def job_enabled_def split: option.splits)
  qed
  have nsd: "\<not> shutdown q1" using q1(4) inv(2) by simp
  obtain w q2 where "Pop smooth rnd now (Some q1) = Inr ((find (due smooth rnd now q1) (jobs q1), w), Some q2)"
    by (rule Pop_meets [OF q1(2) nsd assms(2), where smooth = smooth and now = now])
  moreover have "find (due smooth rnd now q1) (jobs q1) = find (job_enabled q) (jobs q)"
    using d by (simp add: q1(3) cong: find_cong)
  ultimately show ?thesis using q1(1,3) inv(2) by (simp add: Expedite_def)
qed

theorem Expedite_then_Pop_witness:
  "\<exists>q1 w q2. Expedite (Some demo_idle_queue) = Inr (Some q1) \<and>
     Pop True (\<lambda>r n. 0) 1700000000 (Some q1) = Inr ((Some 0, w), Some q2)"
proof -
  have "find (job_enabled demo_idle_queue) (jobs demo_idle_queue) = Some 0"
    by (simp add: demo_idle_queue_def demo_queue_simps job_enabled_def demo_job_def demo_plan_def)
  moreover have "\<forall>r \<in> set (jobs demo_idle_queue). 2 * job_interval demo_idle_queue r \<le> 1700000000"
    by (simp add: demo_idle_queue_def demo_queue_simps job_interval_def demo_job_def demo_plan_def
        level_interval_def)
  ultimately show ?thesis
    using Expedite_then_Pop [OF demo_idle_live, of "\<lambda>r n. 0" 1700000000 True] no_draw by auto
qed

section \<open>Limits of the queue\<close>

text \<open>
  After shutdown the operations do not return their errors: \<open>Pop\<close> and \<open>InsertJob\<close> read the
  service, which the shutdown has cleared, before they test the flag, and panic. Only \<open>Expedite\<close>
  tests it first.
\<close>

theorem Shutdown_then_panic:
  "Pop smooth rnd now (Some (Shutdown q)) = Inl NilDeref \<and>
   InsertJob reg rng key (Some (Shutdown q)) = Inl NilDeref \<and>
   Expedite (Some (Shutdown q)) = Inr (Some (Shutdown q))"
  by (simp add: Pop_def InsertJob_def newJobsForKey_def Expedite_def Shutdown_def)

text \<open>
  Randomised starts do not delay a first collection: a job that has not ended yet is due at once,
  whatever is drawn for its start.
\<close>

theorem first_run_not_randomised:
  assumes "queue_live q" and "r \<in> set (jobs q)" and "job_enabled q r" and "Ended (cell q r) = 0"
    and "\<forall>r. random_source (rnd r)" and "2 * job_interval q r \<le> now" and "now < 2 ^ 63"
  shows "due True rnd now q r"
proof -
  have "job_ok (cell q r)" using assms(1,2) queue_invD(4) by (simp add: queue_live_def)
  then show ?thesis using due_fresh [OF _ assms(4) _ assms(6,7)] assms(3,5) by blast
qed

theorem first_run_not_randomised_witness:
  "due True (\<lambda>r n. n - 1) 1700000000 demo_queue 1"
proof (rule first_run_not_randomised [OF demo_queue_live])
  show "\<forall>r::ref. random_source ((\<lambda>r n. n - 1) r)" by (simp add: random_source_def)
qed (simp_all add: demo_queue_simps job_enabled_def demo_job_def demo_plan_def empty_job_def
  job_interval_def level_interval_def)

text \<open>
  The key of a job joins its two names without a separator, so it does not determine them: a job
  of another Pollaris can have the key of a job in the queue, and inserting it adds nothing.
\<close>

theorem JobKey_ambiguous:
  "JobKey p (s @ n) = JobKey (p @ s) n \<and>
   jobs (insert_one ((demo_job ''Mib'')\<lparr>PollarisName := ''mib2system''\<rparr>) demo_queue) = jobs demo_queue"
  by (simp add: JobKey_def insert_one_def demo_queue_simps demo_job_def)

end
