(* ===== verification/Host_Collector_Theorems.thy ===== *)
theory Host_Collector_Theorems
  imports Host_Collector_Laws Jobs_Queue_Theorems
begin

text \<open>
  The properties of the host collector: its life from creation through any number of rounds, the boot
  stages, the change detection and the forwarding of results, and the limits of boot and stop.
\<close>

section \<open>Starting\<close>

definition init_ok :: "('c \<Rightarrow> bool) \<Rightarrow> 'c host_env \<Rightarrow> bool" where
  "init_ok u env \<longleftrightarrow> (\<forall>cfg. known_protocol (cfg_Protocol cfg) \<longrightarrow> u (fst (init_collector env cfg)))"

text \<open>The collectors that \<open>start\<close> makes: one for each configuration with a known protocol.\<close>

lemma start_collectors_all:
  "\<forall>(k, cfg) \<in> set cfgs. known_protocol (cfg_Protocol cfg) \<longrightarrow> P (cfg_Protocol cfg, fst (init_collector env cfg)) \<Longrightarrow>
    \<forall>e \<in> set cs. P e \<Longrightarrow> \<forall>e \<in> set (start_collectors env cfgs cs). P e"
proof (induction cfgs arbitrary: cs)
  case (Cons e es)
  obtain k cfg where e: "e = (k, cfg)" by force
  show ?case
  proof (cases "fst (newProtocolCollector env cfg)")
    case None
    then show ?thesis using Cons e by simp
  next
    case (Some c)
    then have "P (cfg_Protocol cfg, c)"
      using Cons.prems(1) e by (auto simp: newProtocolCollector_def split: if_splits prod.splits)
    then have "\<forall>e \<in> set (AList.update (cfg_Protocol cfg) c cs). P e"
      using Cons.prems(2) set_update_subset [of "cfg_Protocol cfg" c cs] by blast
    then show ?thesis using Cons.IH Cons.prems(1) Some e by simp
  qed
qed simp

lemma start_collectors_usable:
  "init_ok u env \<Longrightarrow> \<forall>e \<in> set cs. u (snd e) \<Longrightarrow> \<forall>e \<in> set (start_collectors env cfgs cs). u (snd e)"
  using start_collectors_all [of cfgs "\<lambda>e. u (snd e)" env cs] by (auto simp: init_ok_def)

lemma start_runs:
  assumes "env_ok env" and "hc_target h = Some t"
    and "map_of (tgt_Hosts t) (hc_hostId h) = Some hs" and "collectors h = Some cs"
    and "\<forall>e \<in> set (start_collectors env (config_order env (host_Configs hs)) cs). u (snd e)"
    and "hc_service h" and "\<not> queue_nil h" and "queue_live (queue_obj h)"
    and "registry_ok (hc_registry h)" and "length (bootStages h) = 5" and "currentBootStage h = 0"
  shows "\<exists>h'. start env h = Inr h' \<and> host_ok u h' \<and> running h' = running h \<and> loops h' = Suc (loops h) \<and>
    currentBootStage h' = 0 \<and> sent h' = sent h \<and> hc_target h' = Some t \<and> hc_hostId h' = hc_hostId h \<and>
    collectors h' = Some (start_collectors env (config_order env (host_Configs hs)) cs)"
proof -
  let ?h1 = "h\<lparr>collectors := Some (start_collectors env (config_order env (host_Configs hs)) cs)\<rparr>"
  obtain bs q new where b: "newBootState env 0 ?h1 = Inr (bs, ?h1\<lparr>queue_obj := q\<rparr>)" "queue_live q"
    using newBootState_ok [of ?h1 env 0] assms by auto
  have "bootStages h \<noteq> []" using assms(10) by auto
  then show ?thesis
    using b assms by (auto simp: start_def Let_def host_ok_def)
qed

lemma start_ok:
  assumes "env_ok env" and "init_ok u env" and "hc_target h = Some t"
    and "map_of (tgt_Hosts t) (hc_hostId h) = Some hs" and "collectors h = Some cs"
    and "\<forall>e \<in> set cs. u (snd e)" and "hc_service h" and "\<not> queue_nil h" and "queue_live (queue_obj h)"
    and "registry_ok (hc_registry h)" and "length (bootStages h) = 5" and "currentBootStage h = 0"
  shows "\<exists>h'. start env h = Inr h' \<and> host_ok u h' \<and> running h' = running h \<and> loops h' = Suc (loops h) \<and>
    currentBootStage h' = 0 \<and> sent h' = sent h \<and> hc_target h' = Some t \<and> hc_hostId h' = hc_hostId h"
  using start_runs [OF assms(1,3-5) start_collectors_usable [OF assms(2,6)] assms(7-12)] by blast

lemma start_new_runs:
  fixes env :: "'c host_env"
  assumes "env_ok env" and "registry_ok reg" and "map_of (tgt_Hosts t) hid = Some hs"
    and "\<forall>e \<in> set (start_collectors env (config_order env (host_Configs hs)) []). u (snd e)"
  shows "\<exists>h. start env (newHostCollector reg (Some t) hid) = Inr h \<and> host_ok u h \<and> running h \<and> loops h = 1 \<and>
    currentBootStage h = 0 \<and> sent h = [] \<and> hc_target h = Some t \<and> hc_hostId h = hid \<and>
    collectors h = Some (start_collectors env (config_order env (host_Configs hs)) [])"
proof -
  let ?n = "newHostCollector reg (Some t) hid :: 'c host_collector"
  have live: "queue_live (NewJobsQueue (Some t) hid)"
    using NewJobsQueue_inv [of "Some t" hid] by (simp add: queue_live_def NewJobsQueue_def)
  have n: "hc_target ?n = Some t" "hc_hostId ?n = hid" "collectors ?n = Some []" "hc_service ?n"
    "\<not> queue_nil ?n" "queue_obj ?n = NewJobsQueue (Some t) hid" "hc_registry ?n = reg"
    "length (bootStages ?n) = 5" "currentBootStage ?n = 0" "running ?n" "loops ?n = 0" "sent ?n = []"
    by (simp_all add: newHostCollector_def)
  have "\<exists>h. start env ?n = Inr h \<and> host_ok u h \<and> running h = running ?n \<and> loops h = Suc (loops ?n) \<and>
    currentBootStage h = 0 \<and> sent h = sent ?n \<and> hc_target h = Some t \<and> hc_hostId h = hc_hostId ?n \<and>
    collectors h = Some (start_collectors env (config_order env (host_Configs hs)) [])"
    by (rule start_runs [OF assms(1) n(1) _ n(3) assms(4)]) (simp_all add: n assms(2,3) live)
  then show ?thesis by (simp add: n)
qed

lemma start_new_ok:
  assumes "env_ok env" and "init_ok u env" and "registry_ok reg" and "map_of (tgt_Hosts t) hid = Some hs"
  shows "\<exists>h. start env (newHostCollector reg (Some t) hid) = Inr h \<and> host_ok u h \<and> running h \<and> loops h = 1 \<and>
    currentBootStage h = 0 \<and> sent h = [] \<and> hc_target h = Some t \<and> hc_hostId h = hid"
  using start_new_runs [OF assms(1,3,4) start_collectors_usable [OF assms(2)]] by auto

text \<open>
  C11. The life of a host collector: for a target that has the host, a new collector starts, with one
  collection goroutine, and from there any number of rounds (at any times, with any results of the
  protocol calls that keep the contract of \<open>Exec\<close>, any draws and any admission events) go on without
  a panic. The boot stage never goes back and is at most 5, the messages to the parser only grow,
  no job leaves the queue, and the queue, the registry and the reached stages stay well-formed.
\<close>

theorem host_collector_life:
  assumes "env_ok env" and "init_ok u env" and "registry_ok reg" and "map_of (tgt_Hosts t) hid = Some hs"
    and "\<forall>k \<in> set (ks @ ks'). tick_ok u k"
  shows "\<exists>h0 h1 h2. start env (newHostCollector reg (Some t) hid) = Inr h0 \<and> loops h0 = 1 \<and>
    collect smooth env ks h0 = Inr h1 \<and> collect smooth env ks' h1 = Inr h2 \<and>
    host_ok u h1 \<and> host_ok u h2 \<and>
    currentBootStage h1 \<le> currentBootStage h2 \<and> currentBootStage h2 \<le> 5 \<and>
    (\<exists>msgs. sent h2 = sent h1 @ msgs) \<and> set (jobs (queue_obj h1)) \<subseteq> set (jobs (queue_obj h2))"
proof -
  obtain h0 where h0: "start env (newHostCollector reg (Some t) hid) = Inr h0" "host_ok u h0" "loops h0 = 1"
    using start_new_ok [OF assms(1-4)] by blast
  obtain h1 where h1: "collect smooth env ks h0 = Inr h1" "goes_on u h0 h1"
    using collect_runs [OF h0(2) assms(1), of ks smooth] assms(5) by (auto simp: runs_def)
  have ok1: "host_ok u h1" by (rule goes_on_ok [OF h1(2)])
  obtain h2 where h2: "collect smooth env ks' h1 = Inr h2" "goes_on u h1 h2"
    using collect_runs [OF ok1 assms(1), of ks' smooth] assms(5) by (auto simp: runs_def)
  show ?thesis using h0 h1(1) h2(1) ok1 h2(2) unfolding goes_on_def host_ok_def by blast
qed

text \<open>An environment and a protocol call to instantiate the hypotheses with.\<close>

definition demo_env :: "unit host_env" where
  "demo_env = \<lparr>rng = (\<lambda>xs. xs), host_order = (\<lambda>xs. xs), config_order = (\<lambda>xs. xs),
     GetPollarisByOid = (\<lambda>_. None), PostPollaris = (\<lambda>p reg. Inr reg), decode = (\<lambda>_. None),
     encode_string = (\<lambda>s. replicate (length s) 65), encode_status = (\<lambda>xs. replicate (length xs) 1),
     init_collector = (\<lambda>_. ((), None)), online = (\<lambda>_. True)\<rparr>"

definition demo_tick :: "int \<Rightarrow> bytes \<Rightarrow> unit tick" where
  "demo_tick now answer = \<lparr>tick_now = now, tick_start = now, tick_end = now + 1, tick_draw = (\<lambda>r n. 0),
     tick_exec = (\<lambda>c j. Inr (c, j\<lparr>Result := Some answer, ErrorCount := 0\<rparr>)), tick_woken = False\<rparr>"

lemma demo_env_ok: "env_ok demo_env"
  by (simp add: env_ok_def demo_env_def)

lemma demo_init_ok: "init_ok (\<lambda>_. True) demo_env"
  by (simp add: init_ok_def)

lemma demo_tick_ok: "tick_ok (\<lambda>_. True) (demo_tick now answer)"
  by (simp add: tick_ok_def exec_ok_def demo_tick_def no_draw)

theorem host_collector_life_witness:
  "\<exists>h0 h1 h2. start demo_env (newHostCollector demo_registry (Some demo_target) ''10.0.0.1'') = Inr h0 \<and>
     collect False demo_env [demo_tick 1700000000 [1, 2, 3]] h0 = Inr h1 \<and>
     collect False demo_env [demo_tick 1700000100 [1, 2, 3]] h1 = Inr h2 \<and> currentBootStage h2 \<le> 5"
proof -
  have hs: "map_of (tgt_Hosts demo_target) ''10.0.0.1'' =
      Some \<lparr>host_HostId = ''10.0.0.1'', host_Configs = [(1, demo_config)]\<rparr>"
    by (simp add: demo_target_def)
  have ticks: "\<forall>k \<in> set ([demo_tick 1700000000 [1, 2, 3]] @ [demo_tick 1700000100 [1, 2, 3]]).
      tick_ok (\<lambda>_. True) k"
    by (simp add: demo_tick_ok)
  show ?thesis
    using host_collector_life [OF demo_env_ok demo_init_ok demo_registry_ok hs ticks, of False] by blast
qed

section \<open>Boot stages\<close>

lemma jobComplete_keys [simp]: "fst ` set (jobNames (BootState_jobComplete j bs)) = fst ` set (jobNames bs)"
proof (cases "map_of (jobNames bs) (JobName j)")
  case None
  then show ?thesis by (simp add: BootState_jobComplete_def)
next
  case (Some b)
  then have "JobName j \<in> fst ` set (jobNames bs)" by (force dest: map_of_SomeD)
  then show ?thesis using Some by (auto simp: BootState_jobComplete_def dom_update)
qed

lemma jobComplete_go_map: "go_map (jobNames bs) \<Longrightarrow> go_map (jobNames (BootState_jobComplete j bs))"
  by (simp add: BootState_jobComplete_def split: option.split)

lemma jobComplete_lookup:
  "map_of (jobNames (BootState_jobComplete j bs)) n =
   (if n = JobName j \<and> map_of (jobNames bs) n \<noteq> None then Some True else map_of (jobNames bs) n)"
  by (auto simp: BootState_jobComplete_def split: option.split)

lemma isComplete_lookup:
  assumes "go_map (jobNames bs)"
  shows "isComplete bs \<longleftrightarrow> (\<forall>n. map_of (jobNames bs) n \<noteq> Some False)"
proof -
  have "isComplete bs \<longleftrightarrow> (\<forall>n. (n, False) \<notin> set (jobNames bs))"
    by (simp add: isComplete_def list_all_iff Ball_def split_paired_All) (metis (full_types))
  then show ?thesis by (simp add: map_of_Some_iff [OF assms])
qed

lemma stage_complete:
  assumes "go_map (jobNames bs)"
  shows "isComplete (fold BootState_jobComplete js bs) \<longleftrightarrow>
    (\<forall>n. map_of (jobNames bs) n = Some False \<longrightarrow> n \<in> JobName ` set js)"
  using assms
proof (induction js arbitrary: bs)
  case Nil
  then show ?case by (auto simp: isComplete_lookup)
next
  case (Cons j js)
  show ?case
    using Cons.IH [OF jobComplete_go_map [OF Cons.prems]] by (auto simp: jobComplete_lookup)
qed

text \<open>
  A boot stage is complete exactly when each of its job names has been reported by some finished
  job, whatever the outcome of that job was; other jobs do not count.
\<close>

theorem boot_stage_complete:
  assumes "go_map (jobNames bs)"
  shows "isComplete (fold BootState_jobComplete js bs) \<longleftrightarrow>
    (\<forall>n. map_of (jobNames bs) n = Some False \<longrightarrow> n \<in> JobName ` set js)"
  by (rule stage_complete [OF assms])

theorem boot_stage_complete_witness:
  "\<not> isComplete (fold BootState_jobComplete [demo_job ''a'']
     \<lparr>jobNames = [(''a'', False), (''b'', False)], boot_stage = 0\<rparr>)"
proof -
  have "go_map (jobNames \<lparr>jobNames = [(''a'', False), (''b'', False)], boot_stage = 0\<rparr>)"
    by (simp add: go_map_def)
  from boot_stage_complete [OF this, of "[demo_job ''a'']"] show ?thesis
    by (auto simp: demo_job_def)
qed

text \<open>
  Leaving the complete stages ends: the collector then stands at stage 5, or at a stage that has
  been built and is not complete. No stage is skipped without having been complete, and the jobs of
  the queue stay.
\<close>

theorem boot_advance_stops:
  assumes "host_ok u h" and "env_ok env" and "currentBootStage h < 5"
  shows "\<exists>h'. boot_advance env h = Inr h' \<and> host_ok u h' \<and>
    currentBootStage h \<le> currentBootStage h' \<and> currentBootStage h' \<le> 5 \<and>
    set (jobs (queue_obj h)) \<subseteq> set (jobs (queue_obj h')) \<and>
    (currentBootStage h' < 5 \<longrightarrow>
      (\<exists>bs. bootStages h' ! currentBootStage h' = Some bs \<and> \<not> isComplete bs))"
proof -
  obtain h' where "boot_advance env h = Inr h'" "goes_on u h h'"
    "currentBootStage h' < 5 \<longrightarrow> (\<exists>bs. bootStages h' ! currentBootStage h' = Some bs \<and> \<not> isComplete bs)"
    using boot_advance_runs [OF assms] by blast
  then show ?thesis unfolding goes_on_def host_ok_def by blast
qed

definition demo_host :: "unit host_collector" where
  "demo_host = (newHostCollector demo_registry (Some demo_target) ''10.0.0.1'')
     \<lparr>bootStages := [Some \<lparr>jobNames = [], boot_stage = 0\<rparr>, None, None, None, None], queue_obj := demo_queue\<rparr>"

lemma demo_host_ok: "host_ok (\<lambda>_. True) demo_host"
  by (simp add: host_ok_def demo_host_def newHostCollector_def demo_queue_live demo_registry_ok)

theorem boot_advance_stops_witness:
  "\<exists>h'. boot_advance demo_env demo_host = Inr h' \<and> currentBootStage h' \<le> 5"
  using boot_advance_stops [OF demo_host_ok demo_env_ok] by (auto simp: demo_host_def newHostCollector_def)

section \<open>Change detection and forwarding\<close>

text \<open>
  The verdict of \<open>jobHasChange\<close> on a job with a usable plan, and the cadence level it leaves: a
  job that is always sent keeps its level; otherwise a result raises the level by one until the last
  one, and the job counts as changed when a result appears, disappears or has another hash (an empty
  result, whose hash is zero, always counts as new).
\<close>

theorem jobHasChange_verdict:
  assumes "job_ok j" and "Cadence j = Some c"
  shows "\<exists>j' c'. jobHasChange j = Inr (Always j \<or> result_changed j, j') \<and>
    j' = j\<lparr>Cadence := Some c'\<rparr> \<and> plan_ok c' \<and> Cadences c' = Cadences c \<and>
    Current c' = (if \<not> Always j \<and> Result j \<noteq> None then min (Current c + 1) (int (length (Cadences c)) - 1)
                  else Current c)"
proof -
  have ok: "plan_ok c" using assms by (simp add: job_ok_def)
  then have lv: "Current c \<le> int (length (Cadences c)) - 1" by (simp add: plan_ok_def)
  have j: "j\<lparr>Cadence := Some c\<rparr> = j" using assms(2) by simp
  show ?thesis
  proof (cases "\<not> Always j \<and> Result j \<noteq> None \<and> Current c < int (length (Cadences c)) - 1")
    case True
    have "plan_ok (c\<lparr>Current := Current c + 1\<rparr>)"
      using ok True by (intro plan_ok_level) (auto simp: plan_ok_def)
    then show ?thesis
      using True assms by (intro exI [of _ "raise_level j"] exI [of _ "c\<lparr>Current := Current c + 1\<rparr>"])
        (simp add: jobHasChange_eq raise_level_def min_def)
  next
    case False
    then have "(if Always j then j else raise_level j) = j"
      using assms(2) by (auto simp: raise_level_def)
    then show ?thesis
      using False lv ok assms(1) j by (intro exI [of _ j] exI [of _ c]) (auto simp: jobHasChange_eq)
  qed
qed

theorem jobHasChange_verdict_witness:
  "\<exists>j'. jobHasChange ((demo_job ''ifTable'')\<lparr>Result := Some [1]\<rparr>) = Inr (True, j') \<and>
     (\<exists>c'. Cadence j' = Some c' \<and> Current c' = 1)"
proof -
  let ?j = "(demo_job ''ifTable'')\<lparr>Result := Some [1]\<rparr>"
  have "job_ok ?j" using demo_job_ok [of "''ifTable''"] by (simp add: job_ok_def)
  moreover have "Cadence ?j = Some demo_plan" by (simp add: demo_job_def)
  ultimately have "\<exists>j' c'. jobHasChange ?j = Inr (Always ?j \<or> result_changed ?j, j') \<and>
    j' = ?j\<lparr>Cadence := Some c'\<rparr> \<and> plan_ok c' \<and> Cadences c' = Cadences demo_plan \<and>
    Current c' = (if \<not> Always ?j \<and> Result ?j \<noteq> None
      then min (Current demo_plan + 1) (int (length (Cadences demo_plan)) - 1) else Current demo_plan)"
    by (rule jobHasChange_verdict)
  then show ?thesis
    by (auto simp: result_changed_def demo_job_def empty_job_def demo_plan_def)
qed

text \<open>The job a round has executed, ready for \<open>jobHasChange\<close>: its start stored the hash of the old result.\<close>

definition executed :: "cjob \<Rightarrow> int \<Rightarrow> int \<Rightarrow> bytes option \<Rightarrow> cjob" where
  "executed old t1 t2 new = MarkEnded t2 ((MarkStart t1 old)\<lparr>Result := new, ErrorCount := 0\<rparr>)"

text \<open>
  No single-byte change goes unnoticed: when a job without errors is executed again and its new
  result differs from the old one in one byte, \<open>jobHasChange\<close> reports a change; when the result is the
  same and its hash is not zero, it reports none (unless the job is always sent).
\<close>

theorem one_byte_change_reported:
  assumes "job_ok old" and "ErrorCount old = 0" and "Result old = Some (xs @ [a] @ ys)"
    and "\<not> Always old" and "hashBytes (Result old) \<noteq> 0"
  shows "map_sum id fst (jobHasChange (executed old t1 t2 (Some (xs @ [b] @ ys)))) = Inr (a \<noteq> b)"
proof -
  let ?j = "executed old t1 t2 (Some (xs @ [b] @ ys))"
  have ok: "job_ok ?j"
    using assms(1) by (simp add: executed_def MarkEnded_def MarkStart_def Let_def job_ok_def)
  have lh: "LastResultHash ?j = hashBytes (Some (xs @ [a] @ ys))" "Result ?j = Some (xs @ [b] @ ys)"
    "\<not> Always ?j"
    using assms by (simp_all add: executed_def MarkEnded_def MarkStart_def Let_def)
  have "hashBytes (Some (xs @ [b] @ ys)) \<noteq> hashBytes (Some (xs @ [a] @ ys)) \<longleftrightarrow> a \<noteq> b"
    using fnv1a_one_byte [of fnv_offset xs b ys a] by (auto simp: hashBytes_def)
  then show ?thesis
    using assms(3,5) lh jobHasChange_eq [OF ok] by (simp add: result_changed_def)
qed

theorem one_byte_change_reported_witness:
  "map_sum id fst (jobHasChange (executed ((demo_job ''systemMib'')\<lparr>Result := Some [1, 2, 3]\<rparr>)
     1700000000 1700000001 (Some [1, 9, 3]))) = Inr True"
proof -
  let ?old = "(demo_job ''systemMib'')\<lparr>Result := Some [1, 2, 3]\<rparr>"
  have "job_ok ?old" using demo_job_ok [of "''systemMib''"] by (simp add: job_ok_def)
  moreover have "hashBytes (Result ?old) \<noteq> 0"
    by (simp add: hashBytes_def fnv1a_def fnv_step_def fnv_offset_def fnv_prime_def)
  ultimately have "map_sum id fst (jobHasChange (executed ?old 1700000000 1700000001 (Some ([1] @ [9] @ [3])))) =
      Inr ((2::8 word) \<noteq> 9)"
    by (intro one_byte_change_reported) (simp_all add: demo_job_def empty_job_def)
  then show ?thesis by simp
qed

lemma insertCustomJobs_sent: "insertCustomJobs env n h = Inr h' \<Longrightarrow> sent h' = sent h"
  by (auto simp: insertCustomJobs_def bind_res_eq_Inr)

lemma bootDetailDevice_sent: "bootDetailDevice env j h = Inr h' \<Longrightarrow> sent h' = sent h"
  by (auto simp: bootDetailDevice_def Let_def bind_res_eq_Inr insertCustomJobs_sent
      split: if_splits option.splits)

text \<open>
  What completing a job sends: after an error nothing, and the cadence goes back to its first
  level; otherwise the job is sent to the parser of its links id exactly when it is always sent or has
  changed. (For \<open>systemMib\<close> the device detection follows, which sends nothing.)
\<close>

theorem jobComplete_sends:
  assumes "host_ok u h" and "env_ok env" and "job_ok (job_at r h)"
  shows "\<exists>h'. jobComplete env r h = Inr h' \<and>
    (let j = job_at r h in
     if Error j \<noteq> '''' then
       sent h' = sent h \<and> map_option Current (Cadence (job_at r h')) = Some 0
     else if Always j \<or> result_changed j then
       sent h' = sent h @ [(Parser (hc_registry h) (LinksId j), if Always j then j else raise_level j)]
     else sent h' = sent h)"
proof -
  let ?j = "job_at r h"
  have sv: "hc_service h" using assms(1) by (simp add: host_ok_def)
  obtain c where c: "Cadence ?j = Some c" using assms(3) by (rule job_okE)
  obtain h' where h': "jobComplete env r h = Inr h'"
    using jobComplete_runs [OF assms] by (auto simp: runs_def)
  have links: "LinksId (raise_level ?j) = LinksId ?j"
    by (simp add: raise_level_def split: option.split)
  show ?thesis
  proof (cases "Error ?j = ''''")
    case False
    then show ?thesis using sv c by (simp add: jobComplete_def)
  next
    case True
    have "sent h' = (if Always ?j \<or> result_changed ?j
        then sent h @ [(Parser (hc_registry h) (LinksId ?j), if Always ?j then ?j else raise_level ?j)]
        else sent h)"
      using h' sv True links
      by (auto simp: jobComplete_def jobHasChange_eq [OF assms(3)] Let_def dest: bootDetailDevice_sent
          split: if_splits)
    then show ?thesis using h' True by simp
  qed
qed

theorem jobComplete_sends_witness:
  "\<exists>h'. jobComplete demo_env 0 (put_job 0 ((demo_job ''systemMib'')\<lparr>Result := Some [1, 2, 3]\<rparr>) demo_host) = Inr h' \<and>
     map fst (sent h') = [(''Parser'', 0)]"
proof -
  let ?j = "(demo_job ''systemMib'')\<lparr>Result := Some [1, 2, 3]\<rparr>"
  let ?h = "put_job 0 ?j demo_host"
  have jok: "job_ok ?j" using demo_job_ok [of "''systemMib''"] by (simp add: job_ok_def)
  have "job_at 0 demo_host = demo_job ''systemMib''"
    by (simp add: job_at_def demo_host_def demo_queue_simps)
  then have "same_job (job_at 0 demo_host) ?j" by (simp add: same_job_def)
  then have ok: "host_ok (\<lambda>_. True) ?h"
    using put_job_ext [OF demo_host_ok _ jok] goes_on_ok by blast
  show ?thesis
    using jobComplete_sends [OF ok demo_env_ok, of 0] jok
    by (auto simp: Let_def result_changed_def demo_job_def empty_job_def demo_host_def
        newHostCollector_def demo_registry_def)
qed

section \<open>Limits of boot and stop\<close>

text \<open>A registry whose first boot stage has an enabled and a disabled poll.\<close>

definition off_plan :: cadence_plan where
  "off_plan = demo_plan\<lparr>Enabled := False\<rparr>"

definition part_pollaris :: pollaris where
  "part_pollaris = \<lparr>plrs_Name = ''mib2'', plrs_Order = None,
     plrs_Polling = [(''ifTable'', (demo_poll ''ifTable'')\<lparr>poll_Cadence := Some off_plan\<rparr>),
       (''systemMib'', demo_poll ''systemMib'')]\<rparr>"

definition part_registry :: registry where
  "part_registry = demo_registry\<lparr>PollarisByKey := (\<lambda>k. if fst k = ''mib2'' then Some part_pollaris else None),
     PollarisByGroup := (\<lambda>k. if fst k = ''Boot_Stage_00'' then Some [part_pollaris] else None)\<rparr>"

definition part_host :: "unit host_collector" where
  "part_host = (newHostCollector part_registry (Some demo_target) ''10.0.0.1'')
     \<lparr>collectors := Some [(L8PPSNMPV2, ())]\<rparr>"

definition queue_job_names :: "'c host_collector \<Rightarrow> string set" where
  "queue_job_names h = (\<lambda>r. JobName (job_at r h)) ` set (jobs (queue_obj h))"

lemma part_boot:
  "\<exists>h. newBootState demo_env 0 part_host =
      Inr (\<lparr>jobNames = [(''ifTable'', False), (''systemMib'', False)], boot_stage = 0\<rparr>, h) \<and>
    queue_job_names h = {''systemMib''}"
  by (simp add: newBootState_def part_host_def newHostCollector_def BootStages_def part_registry_def
      demo_registry_def part_pollaris_def demo_poll_def this_queue_def links_filter_def demo_target_def
      InsertJob_def newJobsForKey_def NewJobsQueue_def order_names_def demo_env_def new_job_def
      cloneCadence_def off_plan_def demo_plan_def insert_jobs.simps(2) insert_one_def JobKey_def
      put_queue_def queue_job_names_def job_at_def go_nth_def)

text \<open>
  A boot stage with a disabled poll never completes: the stage waits for every poll whose protocol
  has a collector, but the queue takes only the enabled ones, so no sequence of jobs of the queue,
  however long, completes the stage.
\<close>

theorem disabled_poll_stalls_boot:
  "\<exists>bs h. newBootState demo_env 0 part_host = Inr (bs, h) \<and> queue_job_names h = {''systemMib''} \<and>
    \<not> (\<exists>js. JobName ` set js \<subseteq> queue_job_names h \<and> isComplete (fold BootState_jobComplete js bs))"
proof -
  let ?bs = "\<lparr>jobNames = [(''ifTable'', False), (''systemMib'', False)], boot_stage = 0\<rparr>"
  obtain h where h: "newBootState demo_env 0 part_host = Inr (?bs, h)" "queue_job_names h = {''systemMib''}"
    using part_boot by blast
  have gm: "go_map (jobNames ?bs)" by (simp add: go_map_def)
  have off: "map_of (jobNames ?bs) ''ifTable'' = Some False" by simp
  have stuck: "\<not> isComplete (fold BootState_jobComplete js ?bs)"
    if sub: "JobName ` set js \<subseteq> {''systemMib''}" for js
  proof -
    have "''ifTable'' \<notin> JobName ` set js" by (rule contra_subsetD [OF sub]) simp
    then show ?thesis using off by (simp only: stage_complete [OF gm]) blast
  qed
  have "\<not> (\<exists>js. JobName ` set js \<subseteq> queue_job_names h \<and> isComplete (fold BootState_jobComplete js ?bs))"
    unfolding h(2) using stuck by blast
  with h show ?thesis by blast
qed

text \<open>
  A stop races with the collection loop: a round whose \<open>Pop\<close> falls between the shutdown of the
  queue and the clearing of the field panics, although one that falls after the whole stop is over
  quietly (it sees a nil queue, is told to wait -1 seconds, and the loop then ends).
\<close>

theorem stop_races_with_round:
  "collect_round smooth env k (stop_queue (stop_collectors (stop_running h))) =
     (if queue_nil h then Inr (stop_queue (stop_collectors (stop_running h))) else Inl NilDeref) \<and>
   (let h' = stop_fields (stop_queue (stop_collectors (stop_running h))) in
    collect_round smooth env k h' = Inr h' \<and> collect smooth env ks h' = Inr h')"
  by (cases ks) (simp_all add: collect_round_def this_queue_def stop_queue_def stop_collectors_def stop_running_def
      stop_fields_def Pop_def Shutdown_def put_queue_def Let_def)

text \<open>
  \<open>update\<close> rebuilds the boot stages but keeps the current stage: on a collector that has left the
  first stage and has not finished booting, the next completed job reads a stage that is nil and
  panics.
\<close>

theorem update_breaks_boot:
  assumes "0 < currentBootStage h" and "currentBootStage h < 5" and "update_host env h = Inr (h', False)"
  shows "boot_progress env r h' = Inl NilDeref"
proof -
  obtain t hs cs where t: "hc_target h = Some t" "map_of (tgt_Hosts t) (hc_hostId h) = Some hs"
    "collectors h = Some cs"
    using assms(3) by (auto simp: update_host_def bind_res_eq_Inr)
  obtain cs' failed where cs': "update_collectors env (config_order env (host_Configs hs)) cs = (cs', failed)"
    by force
  let ?h1 = "h\<lparr>collectors := Some cs', bootStages := replicate 5 None\<rparr>"
  obtain bs h2 where bs: "newBootState env 0 ?h1 = Inr (bs, h2)" "h' = h2\<lparr>bootStages := (bootStages h2)[0 := Some bs]\<rparr>"
    using assms(3) t cs' by (cases failed) (auto simp: update_host_def bind_res_eq_Inr)
  obtain q where "h2 = put_queue q ?h1" using newBootState_queue [OF bs(1)] by blast
  then have "length (bootStages h') = 5 \<and> currentBootStage h' = currentBootStage h \<and>
      bootStages h' ! currentBootStage h = None"
    using assms(1,2) bs(2) by simp
  then show ?thesis using assms(2) by (simp add: boot_progress_def)
qed

theorem update_breaks_boot_witness:
  "\<exists>h'. update_host demo_env (part_host\<lparr>currentBootStage := 2\<rparr>) = Inr (h', False) \<and>
     boot_progress demo_env 0 h' = Inl NilDeref"
proof -
  let ?h = "part_host\<lparr>currentBootStage := 2\<rparr>"
  have "\<exists>h'. update_host demo_env ?h = Inr (h', False)"
    by (simp add: update_host_def newBootState_def part_host_def newHostCollector_def BootStages_def
        part_registry_def demo_registry_def part_pollaris_def demo_poll_def this_queue_def links_filter_def
        demo_target_def InsertJob_def newJobsForKey_def NewJobsQueue_def order_names_def demo_env_def
        new_job_def cloneCadence_def off_plan_def demo_plan_def insert_jobs.simps(2) insert_one_def
        JobKey_def put_queue_def go_nth_def demo_config_def)
  then obtain h' where h': "update_host demo_env ?h = Inr (h', False)" by blast
  have "boot_progress demo_env 0 h' = Inl NilDeref"
    by (rule update_breaks_boot [OF _ _ h']) (simp_all add: part_host_def)
  with h' show ?thesis by blast
qed

end
