(* ===== verification/Boot_Waiting.thy ===== *)
theory Boot_Waiting
  imports Host_Collector_Theorems
begin

text \<open>
  What the boot sequence waits for: catalogs of Pollarises without ambiguities (\<open>catalog_ok\<close>), the jobs
  they know, the jobs that wait to report a name of the current stage, and that inserting jobs, building
  a stage and completing a job leave the waiting jobs waiting.
\<close>

section \<open>Catalogs\<close>

definition boot_pollaris :: "registry \<Rightarrow> pollaris \<Rightarrow> bool" where
  "boot_pollaris reg p \<longleftrightarrow> PollarisByKey reg (plrs_Name p, no_attrs) = Some p \<and>
     (case plrs_Order p of None \<Rightarrow> True
      | Some ns \<Rightarrow> length ns = length (plrs_Polling p) \<longrightarrow> set ns = fst ` set (plrs_Polling p)) \<and>
     (\<forall>e \<in> set (plrs_Polling p). poll_Name (snd e) = fst e \<and>
       (\<exists>c. poll_Cadence (snd e) = Some c \<and> Enabled c))"

text \<open>
  A catalog whose lookups agree with each other, whose intervals are at most \<open>B\<close>, whose job keys are
  unambiguous, and whose boot stages consist of enabled polls that are stored under their own names.
\<close>

definition catalog_ok :: "int \<Rightarrow> registry \<Rightarrow> bool" where
  "catalog_ok B reg \<longleftrightarrow> registry_ok reg \<and>
     (\<forall>n p. PollarisByKey reg (n, no_attrs) = Some p \<longrightarrow> plrs_Name p = n \<and>
        (\<forall>k. Poll reg n k = map_of (plrs_Polling p) k) \<and>
        (\<forall>e \<in> set (plrs_Polling p). \<forall>c. poll_Cadence (snd e) = Some c \<longrightarrow> (\<forall>v \<in> set (Cadences c). v \<le> B))) \<and>
     (\<forall>n k n' k'. Poll reg n k \<noteq> None \<and> Poll reg n' k' \<noteq> None \<and> JobKey n k = JobKey n' k' \<longrightarrow> n = n' \<and> k = k') \<and>
     (\<forall>s \<in> set BootStages. \<forall>ps. PollarisByGroup reg (s, no_attrs) = Some ps \<longrightarrow> (\<forall>p \<in> set ps. boot_pollaris reg p))"

definition keeps_polls :: "registry \<Rightarrow> registry \<Rightarrow> bool" where
  "keeps_polls reg reg' \<longleftrightarrow> (\<forall>n k pl. Poll reg n k = Some pl \<longrightarrow> Poll reg' n k = Some pl)"

text \<open>Posting a Pollaris leaves such a catalog, with the polls it had.\<close>

definition posts_ok :: "int \<Rightarrow> 'c host_env \<Rightarrow> bool" where
  "posts_ok B env \<longleftrightarrow> (\<forall>p reg. catalog_ok B reg \<longrightarrow>
     (\<exists>reg'. PostPollaris env p reg = Inr reg' \<and> catalog_ok B reg' \<and> keeps_polls reg reg'))"

lemma catalogD:
  assumes "catalog_ok B reg" and "PollarisByKey reg (n, no_attrs) = Some p"
  shows "plrs_Name p = n" and "Poll reg n k = map_of (plrs_Polling p) k" and "pollaris_ok p"
    and "map_of (plrs_Polling p) k = Some pl \<Longrightarrow> poll_Cadence pl = Some c \<Longrightarrow> v \<in> set (Cadences c) \<Longrightarrow> v \<le> B"
proof -
  have "\<forall>n p. PollarisByKey reg (n, no_attrs) = Some p \<longrightarrow> plrs_Name p = n \<and>
      (\<forall>k. Poll reg n k = map_of (plrs_Polling p) k) \<and>
      (\<forall>e \<in> set (plrs_Polling p). \<forall>c. poll_Cadence (snd e) = Some c \<longrightarrow> (\<forall>v \<in> set (Cadences c). v \<le> B))"
    using assms(1) unfolding catalog_ok_def by (elim conjE)
  from this [rule_format, OF assms(2)]
  have c: "plrs_Name p = n" "\<forall>k. Poll reg n k = map_of (plrs_Polling p) k"
    "\<forall>e \<in> set (plrs_Polling p). \<forall>c. poll_Cadence (snd e) = Some c \<longrightarrow> (\<forall>v \<in> set (Cadences c). v \<le> B)"
    by simp_all
  show "plrs_Name p = n" "Poll reg n k = map_of (plrs_Polling p) k" using c(1,2) by simp_all
  have "registry_ok reg" using assms(1) by (simp add: catalog_ok_def)
  then show "pollaris_ok p" by (rule registry_okD [OF _ assms(2)])
  show "map_of (plrs_Polling p) k = Some pl \<Longrightarrow> poll_Cadence pl = Some c \<Longrightarrow> v \<in> set (Cadences c) \<Longrightarrow> v \<le> B"
    using c(3) map_of_SomeD [of "plrs_Polling p" k pl] by fastforce
qed

lemma catalog_keys:
  "catalog_ok B reg \<Longrightarrow> Poll reg n k = Some x \<Longrightarrow> Poll reg n' k' = Some y \<Longrightarrow> JobKey n k = JobKey n' k' \<Longrightarrow>
   n = n' \<and> k = k'"
  unfolding catalog_ok_def by blast

lemma catalog_boot:
  "catalog_ok B reg \<Longrightarrow> s \<in> set BootStages \<Longrightarrow> PollarisByGroup reg (s, no_attrs) = Some ps \<Longrightarrow> p \<in> set ps \<Longrightarrow>
   boot_pollaris reg p"
  unfolding catalog_ok_def by blast

lemma catalog_registry: "catalog_ok B reg \<Longrightarrow> registry_ok reg"
  by (simp add: catalog_ok_def)

lemma keeps_polls_refl [simp]: "keeps_polls reg reg"
  by (simp add: keeps_polls_def)

lemma keeps_polls_trans: "keeps_polls a b \<Longrightarrow> keeps_polls b c \<Longrightarrow> keeps_polls a c"
  by (simp add: keeps_polls_def)

lemma order_names_all:
  assumes "boot_pollaris reg p" and "range_order ord"
  shows "set (order_names ord p) = fst ` set (plrs_Polling p)"
  using assms range_order_set [OF assms(2)]
  by (auto simp: order_names_def boot_pollaris_def split: option.splits)

section \<open>Jobs that the catalog knows, jobs that wait\<close>

text \<open>\<open>P\<close> is the set of protocols the host has a collector for.\<close>

definition known_job :: "registry \<Rightarrow> protocol set \<Rightarrow> int \<Rightarrow> cjob \<Rightarrow> bool" where
  "known_job reg P B j \<longleftrightarrow> (\<exists>pl c. Poll reg (PollarisName j) (JobName j) = Some pl \<and> Cadence j = Some c \<and>
     (\<forall>v \<in> set (Cadences c). v \<le> B) \<and> (poll_Protocol pl \<in> P \<longrightarrow> Enabled c))"

definition served :: "registry \<Rightarrow> protocol set \<Rightarrow> cjob \<Rightarrow> bool" where
  "served reg P j \<longleftrightarrow> (\<exists>pl. Poll reg (PollarisName j) (JobName j) = Some pl \<and> poll_Protocol pl \<in> P)"

definition queue_known :: "registry \<Rightarrow> protocol set \<Rightarrow> int \<Rightarrow> jobs_queue \<Rightarrow> bool" where
  "queue_known reg P B q \<longleftrightarrow> (\<forall>r \<in> set (jobs q). known_job reg P B (cell q r))"

definition waits :: "registry \<Rightarrow> protocol set \<Rightarrow> jobs_queue \<Rightarrow> string \<Rightarrow> ref \<Rightarrow> bool" where
  "waits reg P q n r \<longleftrightarrow> r \<in> set (jobs q) \<and> JobName (cell q r) = n \<and> Ended (cell q r) = 0 \<and>
     served reg P (cell q r)"

text \<open>Two states of a job with one name and one plan, up to its level and its drawn startups.\<close>

definition same_plan :: "cjob \<Rightarrow> cjob \<Rightarrow> bool" where
  "same_plan j j' \<longleftrightarrow> same_job j j' \<and>
     rel_option (\<lambda>c c'. Cadences c' = Cadences c \<and> Enabled c' = Enabled c) (Cadence j) (Cadence j')"

lemma same_plan_refl [simp]: "same_plan j j"
  by (simp add: same_plan_def option.rel_refl)

lemma same_plan_trans: "same_plan a b \<Longrightarrow> same_plan b c \<Longrightarrow> same_plan a c"
  by (auto simp: same_plan_def same_job_def rel_option_iff split: option.splits)

lemma same_plan_cadence: "same_job j j' \<Longrightarrow> Cadence j' = Cadence j \<Longrightarrow> same_plan j j'"
  by (simp add: same_plan_def option.rel_refl)

lemma same_plan_known: "same_plan j j' \<Longrightarrow> known_job reg P B j \<Longrightarrow> known_job reg P B j'"
  by (auto simp: same_plan_def known_job_def same_job_def rel_option_iff split: option.splits)

lemma same_plan_served: "same_plan j j' \<Longrightarrow> served reg P j' = served reg P j"
  by (simp add: same_plan_def served_def same_job_def)

lemma known_keeps: "known_job reg P B j \<Longrightarrow> keeps_polls reg reg' \<Longrightarrow> known_job reg' P B j"
  unfolding known_job_def keeps_polls_def by blast

lemma served_keeps: "served reg P j \<Longrightarrow> keeps_polls reg reg' \<Longrightarrow> served reg' P j"
  unfolding served_def keeps_polls_def by blast

text \<open>
  How a queue may develop while the jobs outside \<open>A\<close> wait: jobs are only appended, no job changes its
  plan, and those outside \<open>A\<close> that are due stay due.
\<close>

definition stays :: "ref set \<Rightarrow> jobs_queue \<Rightarrow> jobs_queue \<Rightarrow> bool" where
  "stays A q q' \<longleftrightarrow> (\<exists>new. jobs q' = jobs q @ new) \<and>
     (\<forall>r \<in> set (jobs q). same_plan (cell q r) (cell q' r) \<and>
       (r \<notin> A \<longrightarrow> Ended (cell q r) = 0 \<longrightarrow> Ended (cell q' r) = 0))"

lemma stays_refl [simp]: "stays A q q"
  by (simp add: stays_def)

lemma stays_trans:
  assumes "stays A a b" and "stays A b c"
  shows "stays A a c"
proof -
  obtain x y where x: "jobs b = jobs a @ x" "jobs c = jobs b @ y" using assms by (auto simp: stays_def)
  have "same_plan (cell a r) (cell c r) \<and> (r \<notin> A \<longrightarrow> Ended (cell a r) = 0 \<longrightarrow> Ended (cell c r) = 0)"
    if r: "r \<in> set (jobs a)" for r
  proof -
    have "r \<in> set (jobs b)" using r x by simp
    then show ?thesis using assms r same_plan_trans unfolding stays_def by blast
  qed
  then show ?thesis using x by (simp add: stays_def)
qed

lemma stays_mono: "stays A q q' \<Longrightarrow> A \<subseteq> A' \<Longrightarrow> stays A' q q'"
  unfolding stays_def by blast

lemma stays_waits: "stays A q q' \<Longrightarrow> waits reg P q n r \<Longrightarrow> r \<notin> A \<Longrightarrow> waits reg P q' n r"
  using same_plan_served unfolding stays_def waits_def
  by (fastforce simp: same_plan_def same_job_def)

lemma waits_keeps: "waits reg P q n r \<Longrightarrow> keeps_polls reg reg' \<Longrightarrow> waits reg' P q n r"
  by (auto simp: waits_def intro: served_keeps)

lemma set_cell_stays:
  "same_plan (cell q r) j \<Longrightarrow> r \<in> A \<or> (Ended (cell q r) = 0 \<longrightarrow> Ended j = 0) \<Longrightarrow> stays A q (set_cell r j q)"
  by (auto simp: stays_def)

lemma place_append: "r \<in> set xs \<Longrightarrow> place r (xs @ ys) = place r xs"
  by (auto simp: place_def takeWhile_append)

section \<open>What the queue does with them\<close>

lemma waiting_due:
  assumes "known_job reg P B (cell q r)" and "waits reg P q n r" and "job_ok (cell q r)"
    and "2 * B \<le> now" and "now < 2 ^ 62" and "random_source (rnd r)"
  shows "due smooth rnd now q r"
proof -
  obtain c where c: "Cadence (cell q r) = Some c" "\<forall>v \<in> set (Cadences c). v \<le> B" "Enabled c"
    using assms(1,2) by (auto simp: known_job_def waits_def served_def)
  have ok: "plan_ok c" using assms(3) c(1) by (simp add: job_ok_def)
  obtain v c' where v: "JobCadence smooth (rnd r) c = Inr (v, c')" "v < 2 * level_interval c"
    by (rule JobCadence_step [OF ok assms(6)])
  have "level_interval c \<in> set (Cadences c)"
    using plan_ok_nth(3) [OF ok] by (simp add: level_interval_def)
  then have lv: "level_interval c \<le> B" "0 < level_interval c"
    using c(2) level_interval_bounds [OF ok] by auto
  have "int64 (now - Ended (cell q r)) = now"
    using assms(2,4,5) lv by (subst int64_id) (simp_all add: waits_def)
  then show ?thesis using c v lv assms(4) by (simp add: due_def)
qed

lemma drawn_same_plan: "drawn q q' \<Longrightarrow> same_plan (cell q r) (cell q' r)"
proof -
  assume d: "drawn q q'"
  then have "rel_option plan_step (Cadence (cell q r)) (Cadence (cell q' r))" by (simp add: drawn_def)
  then have "rel_option (\<lambda>c c'. Cadences c' = Cadences c \<and> Enabled c' = Enabled c)
      (Cadence (cell q r)) (Cadence (cell q' r))"
    by (rule option.rel_mono_strong) (simp add: plan_step_def)
  then show ?thesis using drawn_cell(1,2) [OF d] by (simp add: same_plan_def same_job_def)
qed

lemma Pop_same_plan:
  assumes "queue_inv q" and "\<forall>r. random_source (rnd r)" and "Pop smooth rnd now (Some q) = Inr (x, Some q')"
  shows "same_plan (cell q r) (cell q' r)"
proof -
  have all: "\<forall>r \<in> set (jobs q). job_ok (cell q r)" using queue_invD(4) [OF assms(1)] by blast
  obtain w q1 where "pop_scan smooth rnd now (jobs q) 0 999999 q =
      Inr (first_due (due smooth rnd now q) (jobs q) 0, w, q1)" "drawn q q1"
    by (rule pop_scan_meets [OF queue_invD(1) [OF assms(1)] all assms(2), where smooth = smooth and now = now
        and i = 0 and wait = 999999])
  then have "cell q' = cell q1 \<or> q' = q" using assms(3) by (auto simp: Pop_def split: if_splits)
  then show ?thesis using drawn_same_plan [OF \<open>drawn q q1\<close>] by auto
qed

text \<open>Inserting one job that the catalog knows, and a run of them.\<close>

lemma insert_one_known:
  assumes "queue_inv q" and "queue_known reg P B q" and "known_job reg P B j"
  shows "queue_known reg P B (insert_one j q)" and "stays {} q (insert_one j q)"
proof -
  have old: "r \<noteq> fresh q" if "r \<in> set (jobs q)" for r using queue_invD(2) [OF assms(1) that] by simp
  have same: "same_plan i (i\<lparr>Started := 0, Ended := 0\<rparr>)" for i
    by (rule same_plan_cadence) (simp_all add: same_job_def)
  show "queue_known reg P B (insert_one j q)"
    using assms(2,3) old same_plan_known [OF same]
    by (auto simp: queue_known_def insert_one_def split: option.split)
  show "stays {} q (insert_one j q)"
    using old same by (auto simp: stays_def insert_one_def split: option.split)
qed

lemma insert_jobs_known:
  assumes "insert_jobs js q = Inr q'" and "queue_inv q" and "queue_known reg P B q"
    and "\<forall>j \<in> set js. job_ok j \<and> (\<forall>c. Cadence j = Some c \<longrightarrow> Enabled c \<longrightarrow> known_job reg P B j)"
  shows "queue_known reg P B q' \<and> stays {} q q'"
  using assms
proof (induction js arbitrary: q)
  case (Cons j js)
  obtain c where c: "Cadence j = Some c" "insert_jobs js (if \<not> Enabled c then q else insert_one j q) = Inr q'"
    using Cons.prems(1) unfolding insert_jobs_Cons by blast
  show ?case
  proof (cases "Enabled c")
    case False
    then show ?thesis using Cons.IH [of q] Cons.prems c by simp
  next
    case True
    have kn: "known_job reg P B j" using Cons.prems(4) c(1) True by simp
    have inv: "queue_inv (insert_one j q)" using Cons.prems by (simp add: insert_one_inv)
    note one = insert_one_known [OF Cons.prems(2,3) kn]
    have "queue_known reg P B q' \<and> stays {} (insert_one j q) q'"
      using Cons.IH [OF _ inv one(1)] c(2) True Cons.prems(4) by simp
    then show ?thesis using stays_trans [OF one(2)] by blast
  qed
qed simp

lemma made_from_known:
  assumes "catalog_ok B reg" and "PollarisByKey reg (n, no_attrs) = Some p" and "made_from p e"
    and "Cadence (snd e) = Some c" and "Enabled c"
  shows "known_job reg P B (snd e)"
proof -
  obtain pl where pl: "map_of (plrs_Polling p) (fst e) = Some pl" "Cadence (snd e) = cloneCadence (poll_Cadence pl)"
    "PollarisName (snd e) = plrs_Name p" "JobName (snd e) = fst e"
    using assms(3) by (auto simp: made_from_def)
  obtain d where d: "poll_Cadence pl = Some d" "Cadences c = Cadences d"
    using pl(2) assms(4) by (cases "poll_Cadence pl") (auto simp: cloneCadence_def)
  have "\<forall>v \<in> set (Cadences c). v \<le> B"
    using catalogD(4) [OF assms(1,2) pl(1) d(1)] d(2) by simp
  moreover have "Poll reg (PollarisName (snd e)) (JobName (snd e)) = Some pl"
    using catalogD(1,2) [OF assms(1,2)] pl by simp
  ultimately show ?thesis using assms(4,5) by (simp add: known_job_def)
qed

text \<open>
  Inserting a Pollaris by its name: the queue goes on, and a job waits for every enabled poll that the
  host has a collector for.
\<close>

lemma InsertJob_waits:
  assumes "queue_live q" and "catalog_ok B reg" and "range_order ord" and "queue_known reg P B q"
  obtains q' e where "InsertJob reg ord (n, no_attrs) (Some q) = Inr (Some q', e)" and "queue_live q'"
    and "queue_known reg P B q'" and "stays {} q q'"
    and "\<And>p k pl. PollarisByKey reg (n, no_attrs) = Some p \<Longrightarrow> k \<in> set (order_names ord p) \<Longrightarrow>
      k \<in> enabled_polls p \<Longrightarrow> map_of (plrs_Polling p) k = Some pl \<Longrightarrow> poll_Protocol pl \<in> P \<Longrightarrow>
      \<exists>r. waits reg P q' k r"
proof (cases "PollarisByKey reg (n, no_attrs)")
  case None
  have inv: "queue_inv q" "\<not> shutdown q" using assms(1) by (simp_all add: queue_live_def)
  show ?thesis
    by (rule that [OF InsertJob_unknown [OF inv None] assms(1,4)]) (simp_all add: None)
next
  case (Some p)
  have inv: "queue_inv q" "\<not> shutdown q" using assms(1) by (simp_all add: queue_live_def)
  note pok = catalogD(3) [OF assms(2) Some]
  obtain js where js: "newJobsForKey reg ord (n, no_attrs) q = Inr (Some js)" "go_map js"
    "fst ` set js = set (order_names ord p)" "\<forall>e \<in> set js. made_from p e"
    by (rule newJobsForKey_ok [OF inv Some pok assms(3)])
  obtain q' new where q': "InsertJob reg ord (n, no_attrs) (Some q) = Inr (Some q', None)" "queue_inv q'"
    "\<not> shutdown q'" "dom (jobsMap q') = wanted_keys ord p \<union> dom (jobsMap q)"
    "\<forall>k r. k \<in> wanted_keys ord p \<longrightarrow> jobsMap q' k = Some r \<longrightarrow> Ended (cell q' r) = 0"
    by (rule InsertJob_meets [OF inv Some pok assms(3)])
  let ?js = "map (\<lambda>n. the (map_of js n)) (ord (map fst js))"
  have run: "insert_jobs ?js q = Inr q'"
    using q'(1) js(1) inv(2) by (auto simp: InsertJob_def bind_res_eq_Inr)
  have "\<forall>j \<in> set ?js. job_ok j \<and> (\<forall>c. Cadence j = Some c \<longrightarrow> Enabled c \<longrightarrow> known_job reg P B j)"
    unfolding map_values [OF js(2) assms(3)] using js(4) made_from_known [OF assms(2) Some]
    by (auto simp: made_from_def)
  then have kn: "queue_known reg P B q'" "stays {} q q'"
    using insert_jobs_known [OF run inv(1) assms(4)] by blast+
  have "\<exists>r. waits reg P q' k r"
    if k: "k \<in> set (order_names ord p)" "k \<in> enabled_polls p" and pl: "map_of (plrs_Polling p) k = Some pl"
      "poll_Protocol pl \<in> P" for k pl
  proof -
    have key: "JobKey n k \<in> wanted_keys ord p"
      using k catalogD(1) [OF assms(2) Some] by (simp add: wanted_keys_def)
    then obtain r where r: "jobsMap q' (JobKey n k) = Some r" using q'(4) by (metis UnI1 domD)
    have mem: "r \<in> set (jobs q')" and kr: "key_of (cell q' r) = JobKey n k"
      using queue_invD(5,6) [OF q'(2) r] by simp_all
    have "known_job reg P B (cell q' r)" using kn(1) mem by (simp add: queue_known_def)
    then obtain x where "Poll reg (PollarisName (cell q' r)) (JobName (cell q' r)) = Some x"
      by (auto simp: known_job_def)
    moreover have poll: "Poll reg n k = Some pl" using catalogD(2) [OF assms(2) Some] pl(1) by simp
    ultimately have "PollarisName (cell q' r) = n \<and> JobName (cell q' r) = k"
      using catalog_keys [OF assms(2)] kr by blast
    then have "waits reg P q' k r"
      using mem q'(5) key r poll pl(2) by (auto simp: waits_def served_def)
    then show ?thesis by blast
  qed
  then show ?thesis
    using that [OF q'(1) _ kn] q'(2,3) Some by (auto simp: queue_live_def)
qed

section \<open>A new boot stage\<close>

lemma boot_polls_meets:
  "boot_polls cs es (names, has) = (names', has') \<Longrightarrow>
   fst ` set names' = fst ` set names \<union> {poll_Name (snd e) | e. e \<in> set es \<and> poll_Protocol (snd e) \<in> dom (map_of cs)} \<and>
   (has' \<longleftrightarrow> has \<or> (\<exists>e \<in> set es. poll_Protocol (snd e) \<in> dom (map_of cs))) \<and>
   (go_map names \<longrightarrow> go_map names') \<and> (Some True \<notin> range (map_of names) \<longrightarrow> Some True \<notin> range (map_of names'))"
proof (induction es arbitrary: names has)
  case (Cons e es)
  obtain k pl where e: "e = (k, pl)" by force
  show ?case
  proof (cases "map_of cs (poll_Protocol pl)")
    case None
    then show ?thesis using Cons.IH [of names has] Cons.prems e by auto
  next
    case (Some c)
    let ?names = "AList.update (poll_Name pl) False names"
    have run: "boot_polls cs es (?names, True) = (names', has')" using Cons.prems e Some by simp
    have "Some True \<notin> range (map_of names) \<longrightarrow> Some True \<notin> range (map_of ?names)"
      by (auto simp: update_conv')
    then show ?thesis using Cons.IH [OF run] e Some by (auto simp: dom_update)
  qed
qed simp

text \<open>Every name of a stage under construction waits.\<close>

definition names_wait :: "registry \<Rightarrow> protocol set \<Rightarrow> jobs_queue \<Rightarrow> (string \<times> bool) list \<Rightarrow> bool" where
  "names_wait reg P q names \<longleftrightarrow> go_map names \<and> Some True \<notin> range (map_of names) \<and>
     (\<forall>n \<in> fst ` set names. \<exists>r. waits reg P q n r)"

lemma names_wait_stays: "names_wait reg P q names \<Longrightarrow> stays {} q q' \<Longrightarrow> names_wait reg P q' names"
  using stays_waits unfolding names_wait_def by blast

lemma boot_pollaris_waits:
  assumes "boot_pollaris reg p" and "range_order ord" and "pollaris_ok p"
    and "e \<in> set (plrs_Polling p)" and "poll_Protocol (snd e) \<in> P"
    and q: "\<And>k pl. k \<in> set (order_names ord p) \<Longrightarrow> k \<in> enabled_polls p \<Longrightarrow>
      map_of (plrs_Polling p) k = Some pl \<Longrightarrow> poll_Protocol pl \<in> P \<Longrightarrow> \<exists>r. waits reg P q k r"
  shows "\<exists>r. waits reg P q (poll_Name (snd e)) r"
proof -
  have e: "poll_Name (snd e) = fst e" "\<exists>c. poll_Cadence (snd e) = Some c \<and> Enabled c"
    using assms(1,4) by (auto simp: boot_pollaris_def)
  have look: "map_of (plrs_Polling p) (fst e) = Some (snd e)"
    using assms(3,4) by (simp add: pollaris_ok_def map_of_Some_iff)
  have "fst e \<in> set (order_names ord p)" using order_names_all [OF assms(1,2)] assms(4) by simp
  moreover have "fst e \<in> enabled_polls p" using e(2) look by (auto simp: enabled_polls_def)
  ultimately show ?thesis using q look assms(5) e(1) by simp
qed

text \<open>One Pollaris of the stage: its job names are added, then it is inserted.\<close>

lemma boot_insert_waits:
  assumes "catalog_ok B reg" and "range_order ord" and "boot_pollaris reg p" and "queue_live q"
    and "queue_known reg (dom (map_of cs)) B q" and "names_wait reg (dom (map_of cs)) q names"
    and "boot_polls cs (plrs_Polling p) (names, False) = (names1, has)"
  shows "\<exists>q1 e. InsertJob reg ord (plrs_Name p, no_attrs) (Some q) = Inr (Some q1, e) \<and> queue_live q1 \<and>
    queue_known reg (dom (map_of cs)) B q1 \<and> stays {} q q1 \<and> names_wait reg (dom (map_of cs)) q1 names1"
proof -
  let ?P = "dom (map_of cs)"
  note m = boot_polls_meets [OF assms(7)]
  have look: "PollarisByKey reg (plrs_Name p, no_attrs) = Some p" using assms(3) by (simp add: boot_pollaris_def)
  obtain q1 e where q1: "InsertJob reg ord (plrs_Name p, no_attrs) (Some q) = Inr (Some q1, e)"
    "queue_live q1" "queue_known reg ?P B q1" "stays {} q q1"
    and new: "\<And>p' k pl. PollarisByKey reg (plrs_Name p, no_attrs) = Some p' \<Longrightarrow> k \<in> set (order_names ord p') \<Longrightarrow>
      k \<in> enabled_polls p' \<Longrightarrow> map_of (plrs_Polling p') k = Some pl \<Longrightarrow> poll_Protocol pl \<in> ?P \<Longrightarrow>
      \<exists>r. waits reg ?P q1 k r"
    by (rule InsertJob_waits [OF assms(4,1,2,5), where n = "plrs_Name p"]) blast
  note old = names_wait_stays [OF assms(6) q1(4), unfolded names_wait_def]
  have "\<exists>r. waits reg ?P q1 n r" if n: "n \<in> fst ` set names1" for n
  proof (cases "n \<in> fst ` set names")
    case True
    then show ?thesis using old by blast
  next
    case False
    then have "n \<in> {poll_Name (snd e) | e. e \<in> set (plrs_Polling p) \<and> poll_Protocol (snd e) \<in> ?P}"
      using n m [THEN conjunct1] by blast
    then obtain e where e: "e \<in> set (plrs_Polling p)" "poll_Protocol (snd e) \<in> ?P" and n: "n = poll_Name (snd e)"
      by blast
    show ?thesis
      unfolding n
      by (rule boot_pollaris_waits [OF assms(3,2) catalogD(3) [OF assms(1) look] e]) (rule new [OF look])
  qed
  then have "names_wait reg ?P q1 names1" using m old by (simp add: names_wait_def)
  with q1 show ?thesis by blast
qed

lemma boot_pollarises_waits:
  assumes "catalog_ok B reg" and "range_order ord" and "\<forall>p \<in> set ps. boot_pollaris reg p"
    and "queue_live q" and "queue_known reg (dom (map_of cs)) B q" and "names_wait reg (dom (map_of cs)) q names"
  shows "\<exists>names' q'. boot_pollarises reg ord cs flt ps (names, Some q) = Inr (names', Some q') \<and> queue_live q' \<and>
    queue_known reg (dom (map_of cs)) B q' \<and> stays {} q q' \<and> names_wait reg (dom (map_of cs)) q' names'"
  using assms(3-6)
proof (induction ps arbitrary: names q)
  case Nil
  then show ?case by simp
next
  case (Cons p ps)
  let ?P = "dom (map_of cs)"
  obtain names1 has where b: "boot_polls cs (plrs_Polling p) (names, False) = (names1, has)" by force
  have ps: "\<forall>p \<in> set ps. boot_pollaris reg p" and bp: "boot_pollaris reg p" using Cons.prems(1) by simp_all
  show ?case
  proof (cases "(flt \<noteq> None \<and> flt \<noteq> Some (plrs_Name p)) \<or> \<not> has")
    case True
    have "names_wait reg ?P q names1" if "\<not> has"
    proof -
      have e: "{poll_Name (snd e) | e. e \<in> set (plrs_Polling p) \<and> poll_Protocol (snd e) \<in> ?P} = {}"
        using that boot_polls_meets [OF b] by blast
      have "fst ` set names1 = fst ` set names"
        using boot_polls_meets [OF b, THEN conjunct1] unfolding e by blast
      then show ?thesis using boot_polls_meets [OF b, THEN conjunct2] Cons.prems(4) unfolding names_wait_def by metis
    qed
    then show ?thesis
      using True b Cons.IH [OF ps Cons.prems(2-4)] Cons.IH [OF ps Cons.prems(2,3), of names1] by (cases has) auto
  next
    case False
    obtain q1 e where q1: "InsertJob reg ord (plrs_Name p, no_attrs) (Some q) = Inr (Some q1, e)"
      "queue_live q1" "queue_known reg ?P B q1" "stays {} q q1" "names_wait reg ?P q1 names1"
      using boot_insert_waits [OF assms(1,2) bp Cons.prems(2-4) b] by blast
    obtain names' q' where q': "boot_pollarises reg ord cs flt ps (names1, Some q1) = Inr (names', Some q')"
      "queue_live q'" "queue_known reg ?P B q'" "stays {} q1 q'" "names_wait reg ?P q' names'"
      using Cons.IH [OF ps q1(2,3,5)] by blast
    have "boot_pollarises reg ord cs flt (p # ps) (names, Some q) = Inr (names', Some q')"
      using False b q1(1) q'(1) by (cases flt) auto
    then show ?thesis using q'(2,3,5) stays_trans [OF q1(4) q'(4)] by blast
  qed
qed

definition served_protocols :: "'c host_collector \<Rightarrow> protocol set" where
  "served_protocols h = (case collectors h of None \<Rightarrow> {} | Some cs \<Rightarrow> dom (map_of cs))"

abbreviation known_queue :: "int \<Rightarrow> 'c host_collector \<Rightarrow> bool" where
  "known_queue B h \<equiv> queue_known (hc_registry h) (served_protocols h) B (queue_obj h)"

abbreviation host_waits :: "'c host_collector \<Rightarrow> string \<Rightarrow> ref \<Rightarrow> bool" where
  "host_waits h \<equiv> waits (hc_registry h) (served_protocols h) (queue_obj h)"

lemma newBootState_waits:
  assumes "hc_service h" and "collectors h \<noteq> None" and "\<not> queue_nil h" and "queue_live (queue_obj h)"
    and "catalog_ok B (hc_registry h)" and "range_order (rng env)" and "known_queue B h" and "stage < 5"
  shows "\<exists>bs q. newBootState env stage h = Inr (bs, h\<lparr>queue_obj := q\<rparr>) \<and> queue_live q \<and>
    queue_known (hc_registry h) (served_protocols h) B q \<and> stays {} (queue_obj h) q \<and>
    names_wait (hc_registry h) (served_protocols h) q (jobNames bs)"
proof -
  obtain cs where cs: "collectors h = Some cs" using assms(2) by blast
  have P: "served_protocols h = dom (map_of cs)" using cs by (simp add: served_protocols_def)
  let ?name = "BootStages ! stage"
  have name: "go_nth BootStages (int stage) = Inr ?name" using assms(8) by simp
  have mem: "?name \<in> set BootStages" using assms(8) by simp
  show ?thesis
  proof (cases "PollarisByGroup (hc_registry h) (?name, no_attrs)")
    case None
    have "h\<lparr>queue_obj := queue_obj h\<rparr> = h" by simp
    then show ?thesis using None assms name by (force simp: newBootState_def names_wait_def)
  next
    case (Some ps)
    have bp: "\<forall>p \<in> set ps. boot_pollaris (hc_registry h) p" using catalog_boot [OF assms(5) mem Some] by blast
    have nw: "names_wait (hc_registry h) (dom (map_of cs)) (queue_obj h) []" by (simp add: names_wait_def)
    obtain names q where "boot_pollarises (hc_registry h) (rng env) cs (links_filter (hc_target h) ps) ps
        ([], Some (queue_obj h)) = Inr (names, Some q)" "queue_live q"
      "queue_known (hc_registry h) (dom (map_of cs)) B q" "stays {} (queue_obj h) q"
      "names_wait (hc_registry h) (dom (map_of cs)) q names"
      using boot_pollarises_waits [OF assms(5,6) bp assms(4) _ nw] assms(7) P by metis
    then show ?thesis
      using Some assms cs name P by (simp add: newBootState_def this_queue_def put_queue_def) blast
  qed
qed

text \<open>A stage without names has inserted nothing.\<close>

lemma boot_pollarises_nothing:
  "boot_pollarises reg ord cs flt ps (names, q) = Inr ([], q') \<Longrightarrow> names = [] \<and> q' = q"
proof (induction ps arbitrary: names q)
  case (Cons p ps)
  obtain names1 has where b: "boot_polls cs (plrs_Polling p) (names, False) = (names1, has)" by force
  note m = boot_polls_meets [OF b]
  show ?case
  proof (cases "(flt \<noteq> None \<and> flt \<noteq> Some (plrs_Name p)) \<or> \<not> has")
    case True
    then have "names1 = [] \<and> \<not> has \<and> q' = q \<or> names = [] \<and> q' = q"
      using Cons.prems Cons.IH [of names q] Cons.IH [of names1 q] b by (auto split: if_splits)
    moreover have "names1 = [] \<Longrightarrow> names = []" using m [THEN conjunct1] by auto
    ultimately show ?thesis using True by auto
  next
    case False
    then obtain q1 where "boot_pollarises reg ord cs flt ps (names1, q1) = Inr ([], q')"
      using Cons.prems b by (auto simp: bind_res_eq_Inr split: if_splits)
    then have "names1 = []" using Cons.IH by blast
    moreover have "poll_Name (snd e) \<in> fst ` set names1"
      if "e \<in> set (plrs_Polling p)" "poll_Protocol (snd e) \<in> dom (map_of cs)" for e
      using m [THEN conjunct1] that by blast
    ultimately have "\<not> has" using m [THEN conjunct2, THEN conjunct1] by (metis empty_iff image_empty list.set(1))
    then show ?thesis using False by simp
  qed
qed simp

lemma newBootState_nothing:
  assumes "newBootState env stage h = Inr (bs, h\<lparr>queue_obj := q\<rparr>)" and "jobNames bs = []" and "\<not> queue_nil h"
  shows "jobs q = jobs (queue_obj h)"
proof -
  have "h\<lparr>queue_obj := q\<rparr> = h \<or> h\<lparr>queue_obj := q\<rparr> = put_queue (this_queue h) h"
    using assms(1,2) unfolding newBootState_def
    by (auto simp: bind_res_eq_Inr dest!: boot_pollarises_nothing split: if_splits option.splits)
  then have "queue_obj (h\<lparr>queue_obj := q\<rparr>) = queue_obj h" using assms(3) by (auto simp: put_queue_def this_queue_def)
  then show ?thesis by simp
qed

section \<open>What a round leaves waiting\<close>

definition grows :: "ref set \<Rightarrow> int \<Rightarrow> 'c host_collector \<Rightarrow> 'c host_collector \<Rightarrow> bool" where
  "grows A B h h' \<longleftrightarrow> catalog_ok B (hc_registry h') \<and> known_queue B h' \<and>
     keeps_polls (hc_registry h) (hc_registry h') \<and> stays A (queue_obj h) (queue_obj h') \<and>
     bootStages h' = bootStages h \<and> currentBootStage h' = currentBootStage h \<and>
     served_protocols h' = served_protocols h"

lemma grows_trans: "grows A B a b \<Longrightarrow> grows A B b c \<Longrightarrow> grows A B a c"
  unfolding grows_def by (auto intro: stays_trans keeps_polls_trans)

lemma grows_mono: "grows A B h h' \<Longrightarrow> A \<subseteq> A' \<Longrightarrow> grows A' B h h'"
  unfolding grows_def using stays_mono by blast

lemma grows_known: "grows A B h h' \<Longrightarrow> known_queue B h'" "grows A B h h' \<Longrightarrow> catalog_ok B (hc_registry h')"
  unfolding grows_def by blast+

lemma grows_waits: "grows A B h h' \<Longrightarrow> host_waits h n r \<Longrightarrow> r \<notin> A \<Longrightarrow> host_waits h' n r"
  unfolding grows_def by (metis stays_waits waits_keeps)

lemma queue_known_keeps: "queue_known reg P B q \<Longrightarrow> keeps_polls reg reg' \<Longrightarrow> queue_known reg' P B q"
  unfolding queue_known_def using known_keeps by blast

lemma set_cell_known:
  "queue_known reg P B q \<Longrightarrow> same_plan (cell q r) j \<Longrightarrow> queue_known reg P B (set_cell r j q)"
  using same_plan_known by (auto simp: queue_known_def)

lemma put_job_grows:
  assumes "catalog_ok B (hc_registry h)" and "known_queue B h" and "same_plan (job_at r h) j"
    and "r \<in> A \<or> (Ended (job_at r h) = 0 \<longrightarrow> Ended j = 0)"
  shows "grows A B h (put_job r j h)"
  using assms set_cell_known [of _ _ _ "queue_obj h" r j] set_cell_stays [of "queue_obj h" r j A]
  by (simp add: grows_def put_job_def job_at_def served_protocols_def)

lemma insertCustomJobs_grows:
  assumes "catalog_ok B (hc_registry h)" and "known_queue B h" and "queue_live (queue_obj h)" and "\<not> queue_nil h"
    and "range_order (rng env)"
  shows "\<exists>h'. insertCustomJobs env n h = Inr h' \<and> grows {} B h h'"
proof -
  obtain q e where "InsertJob (hc_registry h) (rng env) (n, no_attrs) (Some (queue_obj h)) = Inr (Some q, e)"
    "queue_known (hc_registry h) (served_protocols h) B q" "stays {} (queue_obj h) q"
    by (rule InsertJob_waits [OF assms(3,1,5,2), where n = n]) blast
  then show ?thesis
    using assms by (simp add: insertCustomJobs_def this_queue_def put_queue_def grows_def served_protocols_def)
qed

lemma bootDetailDevice_grows:
  assumes "catalog_ok B (hc_registry h)" and "known_queue B h" and "queue_live (queue_obj h)" and "\<not> queue_nil h"
    and "range_order (rng env)" and "posts_ok B env" and "hc_service h"
  shows "\<exists>h'. bootDetailDevice env j h = Inr h' \<and> grows {} B h h'"
proof -
  let ?plrs = "GetPollarisByOid env (job_sysoid env j)"
  obtain reg where reg: "PostPollaris env ?plrs (hc_registry h) = Inr reg" "catalog_ok B reg"
    "keeps_polls (hc_registry h) reg"
    using assms(1,6) unfolding posts_ok_def by blast
  let ?h1 = "\<lambda>n. h\<lparr>hc_registry := reg, pollarisName := n\<rparr>"
  have kn: "queue_known reg (served_protocols h) B (queue_obj h)"
    by (rule queue_known_keeps [OF assms(2) reg(3)])
  have g1: "grows {} B h (h\<lparr>hc_registry := reg\<rparr>)" and g2: "grows {} B h (?h1 n)" for n
    using reg kn by (simp_all add: grows_def served_protocols_def)
  have "\<exists>h'. insertCustomJobs env n (?h1 n) = Inr h' \<and> grows {} B h h'" for n
    using insertCustomJobs_grows [of B "?h1 n" env n] grows_trans [OF g2 [of n]] grows_known [OF g2 [of n]] assms(3-5)
    by auto
  moreover have "grows {} B h h" using assms(1,2) by (simp add: grows_def)
  ultimately show ?thesis
    using reg(1) g1 by (simp add: bootDetailDevice_def Let_def split: option.split)
qed

lemma raise_level_same_plan: "same_plan j (raise_level j)" "Ended (raise_level j) = Ended j"
  by (auto simp: raise_level_def same_plan_def same_job_def option.rel_refl split: option.split)

lemma jobComplete_grows:
  assumes "catalog_ok B (hc_registry h)" and "known_queue B h" and "host_ok u h"
    and "range_order (rng env)" and "posts_ok B env" and "job_ok (job_at r h)"
  shows "\<exists>h'. jobComplete env r h = Inr h' \<and> grows {} B h h'"
proof -
  let ?j = "job_at r h"
  have ok: "hc_service h" "\<not> queue_nil h" "queue_live (queue_obj h)" using assms(3) by (simp_all add: host_ok_def)
  obtain c where c: "Cadence ?j = Some c" using assms(6) by (rule job_okE)
  show ?thesis
  proof (cases "Error ?j = ''''")
    case False
    have "same_plan ?j (?j\<lparr>Cadence := Some (c\<lparr>Current := 0\<rparr>)\<rparr>)"
      using c by (simp add: same_plan_def same_job_def)
    then have "grows {} B h (put_job r (?j\<lparr>Cadence := Some (c\<lparr>Current := 0\<rparr>)\<rparr>) h)"
      by (intro put_job_grows [OF assms(1,2)]) simp_all
    then show ?thesis using False ok c by (simp add: jobComplete_def)
  next
    case True
    let ?j' = "if Always ?j then ?j else raise_level ?j"
    have same: "same_plan ?j ?j'" "Ended ?j' = Ended ?j" "same_job ?j ?j'" "job_ok ?j'"
      using raise_level_same_plan [of ?j] raise_level_ok [OF assms(6)] assms(6) by auto
    let ?h1 = "put_job r ?j' h"
    have g1: "grows {} B h ?h1" by (rule put_job_grows [OF assms(1,2) same(1)]) (simp add: same(2))
    have live: "host_ok u ?h1" by (rule goes_on_ok [OF put_job_ext [OF assms(3) same(3,4)]])
    let ?h2 = "?h1\<lparr>sent := sent ?h1 @ [(Parser (hc_registry ?h1) (LinksId ?j'), ?j')]\<rparr>"
    have g2: "grows {} B h ?h2" using g1 by (simp add: grows_def served_protocols_def)
    have "\<exists>h'. bootDetailDevice env ?j' ?h2 = Inr h' \<and> grows {} B ?h2 h'"
      using bootDetailDevice_grows [OF grows_known(2,1) [OF g2], of env ?j'] g2 live assms(4,5)
      by (simp add: host_ok_def)
    then obtain h' where h': "bootDetailDevice env ?j' ?h2 = Inr h'" "grows {} B h h'"
      using grows_trans [OF g2] by blast
    then show ?thesis
      using True ok(1) g1 g2 by (auto simp: jobComplete_def jobHasChange_eq [OF assms(6)] Let_def)
  qed
qed

end
