(* ===== verification/Boot_Liveness.thy ===== *)
theory Boot_Liveness
  imports Boot_Waiting
begin

text \<open>
  The boot sequence completes. The proof has a measure that every round of the collection loop lowers:
  the stages ahead, then the names of the current stage that are not reported yet, then the place in
  the queue of a job that waits to report one of them. What it needs of the catalog of Pollarises is
  \<open>catalog_ok\<close>, each part of which excludes a stall that the code does have.
\<close>

section \<open>The invariant and the progress of the stages\<close>

definition unfinished :: "'c host_collector \<Rightarrow> string set" where
  "unfinished h = {n. \<exists>bs. bootStages h ! currentBootStage h = Some bs \<and> map_of (jobNames bs) n = Some False}"

lemma unfinished_stage: "bootStages h ! currentBootStage h = Some bs \<Longrightarrow> unfinished h = {n. map_of (jobNames bs) n = Some False}"
  by (simp add: unfinished_def)

lemma finite_unfinished [simp]: "finite (unfinished h)"
proof (cases "bootStages h ! currentBootStage h")
  case None
  then show ?thesis by (simp add: unfinished_def)
next
  case (Some bs)
  have "unfinished h \<subseteq> dom (map_of (jobNames bs))" using unfinished_stage [OF Some] by auto
  then show ?thesis by (rule finite_subset) (simp add: finite_dom_map_of)
qed

text \<open>
  The current stage is there and a job of the queue waits for every name it has not got yet;
  \<open>boot_inv\<close>: and there is such a name, unless all stages are behind.
\<close>

definition stage_waits :: "'c host_collector \<Rightarrow> bool" where
  "stage_waits h \<longleftrightarrow> (\<exists>bs. bootStages h ! currentBootStage h = Some bs \<and> go_map (jobNames bs)) \<and>
     (\<forall>n \<in> unfinished h. \<exists>r. host_waits h n r)"

definition boot_inv :: "('c \<Rightarrow> bool) \<Rightarrow> int \<Rightarrow> 'c host_collector \<Rightarrow> bool" where
  "boot_inv u B h \<longleftrightarrow> host_ok u h \<and> catalog_ok B (hc_registry h) \<and> known_queue B h \<and>
     (currentBootStage h < 5 \<longrightarrow> stage_waits h \<and> unfinished h \<noteq> {})"

lemma isComplete_unfinished:
  "bootStages h ! currentBootStage h = Some bs \<Longrightarrow> go_map (jobNames bs) \<Longrightarrow> isComplete bs \<longleftrightarrow> unfinished h = {}"
  by (simp add: unfinished_stage isComplete_lookup)

lemma grows_stage_waits:
  assumes "grows A B h h'" and "stage_waits h" and "\<forall>n \<in> unfinished h. \<forall>r \<in> A. \<not> host_waits h n r"
  shows "stage_waits h'" and "unfinished h' = unfinished h"
proof -
  have same: "bootStages h' = bootStages h" "currentBootStage h' = currentBootStage h"
    using assms(1) by (simp_all add: grows_def)
  then show un: "unfinished h' = unfinished h" by (simp add: unfinished_def)
  have "\<exists>r. host_waits h' n r" if n: "n \<in> unfinished h" for n
  proof -
    obtain r where r: "host_waits h n r" using assms(2) n unfolding stage_waits_def by blast
    then have "r \<notin> A" using assms(3) n by blast
    then show ?thesis using grows_waits [OF assms(1) r] by blast
  qed
  then show "stage_waits h'" using assms(2) un unfolding stage_waits_def same by simp
qed

lemma boot_advance_waits:
  assumes "host_ok u h" and "env_ok env" and "catalog_ok B (hc_registry h)" and "known_queue B h"
    and "currentBootStage h < 5" and "stage_waits h"
  shows "\<exists>h'. boot_advance env h = Inr h' \<and> boot_inv u B h' \<and> (currentBootStage h < currentBootStage h' \<or> h' = h)"
  using assms
proof (induction "5 - currentBootStage h" arbitrary: h rule: less_induct)
  case less
  let ?cur = "currentBootStage h"
  obtain bs where bs: "bootStages h ! ?cur = Some bs" "go_map (jobNames bs)"
    using less.prems(6) by (auto simp: stage_waits_def)
  have len: "length (bootStages h) = 5" using less.prems(1) by (simp add: host_ok_def)
  note step = boot_advance_at [OF less.prems(5) len bs(1), of env]
  have ord: "range_order (rng env)" using less.prems(2) by (simp add: env_ok_def)
  show ?case
  proof (cases "isComplete bs")
    case False
    then have "boot_inv u B h"
      using less.prems isComplete_unfinished [OF bs] by (simp add: boot_inv_def)
    then show ?thesis using step False by simp
  next
    case complete: True
    show ?thesis
    proof (cases "Suc ?cur < 5")
      case False
      then have s: "Suc ?cur = 5" using less.prems(5) by simp
      have "host_ok u (h\<lparr>currentBootStage := 5\<rparr>)"
        using less.prems(1) s by (auto simp: host_ok_def le_Suc_eq)
      then have "boot_inv u B (h\<lparr>currentBootStage := 5\<rparr>)"
        using less.prems(3,4) by (simp add: boot_inv_def served_protocols_def)
      then show ?thesis using step complete s by simp
    next
      case True
      let ?h1 = "h\<lparr>currentBootStage := Suc ?cur\<rparr>"
      have P: "served_protocols ?h1 = served_protocols h" by (simp add: served_protocols_def)
      obtain b q where b: "newBootState env (Suc ?cur) ?h1 = Inr (b, ?h1\<lparr>queue_obj := q\<rparr>)" "queue_live q"
        "queue_known (hc_registry h) (served_protocols h) B q" "stays {} (queue_obj h) q"
        "names_wait (hc_registry h) (served_protocols h) q (jobNames b)"
        using newBootState_waits [of ?h1 B env "Suc ?cur"] less.prems(1,3,4) ord True P by (auto simp: host_ok_def)
      let ?h2 = "?h1\<lparr>queue_obj := q, bootStages := (bootStages h)[Suc ?cur := Some b]\<rparr>"
      have P2: "served_protocols ?h2 = served_protocols h" by (simp add: served_protocols_def)
      have ok: "host_ok u ?h2"
        using less.prems(1) b(2) True by (auto simp: host_ok_def nth_list_update le_Suc_eq)
      have st: "bootStages ?h2 ! currentBootStage ?h2 = Some b" using True len by simp
      have "\<exists>r. host_waits ?h2 n r" if "n \<in> unfinished ?h2" for n
      proof -
        have "n \<in> fst ` set (jobNames b)"
          using that unfinished_stage [OF st] by (force dest: map_of_SomeD)
        then have "\<exists>r. waits (hc_registry h) (served_protocols h) q n r"
          using b(5) unfolding names_wait_def by blast
        then show ?thesis using P2 by simp
      qed
      then have "stage_waits ?h2" using st b(5) unfolding stage_waits_def names_wait_def by blast
      then have "\<exists>h'. boot_advance env ?h2 = Inr h' \<and> boot_inv u B h' \<and>
          (currentBootStage ?h2 < currentBootStage h' \<or> h' = ?h2)"
        using True ok less.prems(2,3) b(3) P2 by (intro less.hyps) simp_all
      moreover have "boot_advance env h = boot_advance env ?h2" using step complete True b(1) by simp
      ultimately show ?thesis by auto
    qed
  qed
qed

text \<open>A reported name is struck off, and the stages that are complete are left.\<close>

lemma boot_progress_waits:
  assumes "host_ok u h" and "env_ok env" and "catalog_ok B (hc_registry h)" and "known_queue B h"
    and "currentBootStage h < 5" and "\<exists>bs. bootStages h ! currentBootStage h = Some bs \<and> go_map (jobNames bs)"
    and "\<forall>n \<in> unfinished h - {JobName (job_at r h)}. \<exists>s. host_waits h n s"
  shows "\<exists>h'. boot_progress env r h = Inr h' \<and> boot_inv u B h' \<and> (currentBootStage h < currentBootStage h' \<or>
    currentBootStage h' = currentBootStage h \<and> unfinished h' = unfinished h - {JobName (job_at r h)} \<and>
    queue_obj h' = queue_obj h \<and> hc_registry h' = hc_registry h \<and> served_protocols h' = served_protocols h)"
proof -
  obtain bs where bs: "bootStages h ! currentBootStage h = Some bs" "go_map (jobNames bs)" using assms(6) by blast
  let ?bs = "BootState_jobComplete (job_at r h) bs"
  let ?h = "h\<lparr>bootStages := (bootStages h)[currentBootStage h := Some ?bs]\<rparr>"
  have P: "served_protocols ?h = served_protocols h" by (simp add: served_protocols_def)
  have len: "length (bootStages h) = 5" using assms(1) by (simp add: host_ok_def)
  have ok: "host_ok u ?h" using assms(1,5) by (auto simp: host_ok_def nth_list_update)
  have st: "bootStages ?h ! currentBootStage ?h = Some ?bs" using assms(5) len by simp
  have un: "unfinished ?h = unfinished h - {JobName (job_at r h)}"
    using unfinished_stage [OF st] unfinished_stage [OF bs(1)] by (auto simp: jobComplete_lookup)
  have "stage_waits ?h"
    using st jobComplete_go_map [OF bs(2)] assms(7) un P by (simp add: stage_waits_def)
  then obtain h' where h': "boot_advance env ?h = Inr h'" "boot_inv u B h'"
    "currentBootStage ?h < currentBootStage h' \<or> h' = ?h"
    using boot_advance_waits [OF ok assms(2), of B] assms(3-5) P by auto
  have "boot_progress env r h = boot_advance env ?h"
    using assms(5) len bs(1) by (simp add: boot_progress_def)
  then show ?thesis using h' un P by auto
qed

section \<open>A round\<close>

text \<open>
  What a round for the job \<open>r\<close> achieves: a stage is left, or a name is struck off, or \<open>r\<close> was not
  waited for and all that wait go on to.
\<close>

definition gets_on :: "ref \<Rightarrow> 'c host_collector \<Rightarrow> 'c host_collector \<Rightarrow> bool" where
  "gets_on r h h' \<longleftrightarrow> currentBootStage h < currentBootStage h' \<or>
     currentBootStage h' = currentBootStage h \<and> (unfinished h' \<subset> unfinished h \<or>
       unfinished h' = unfinished h \<and> (\<exists>new. jobs (queue_obj h') = jobs (queue_obj h) @ new) \<and>
       (\<forall>n \<in> unfinished h. \<forall>s. host_waits h n s \<longrightarrow> s \<noteq> r \<and> host_waits h' n s))"

definition booting :: "('c \<Rightarrow> bool) \<Rightarrow> int \<Rightarrow> 'c host_collector \<Rightarrow> bool" where
  "booting u B h \<longleftrightarrow> boot_inv u B h \<and> currentBootStage h < 5"

lemma bootingD:
  assumes "booting u B h"
  shows "host_ok u h" "catalog_ok B (hc_registry h)" "known_queue B h" "currentBootStage h < 5" "stage_waits h"
    "unfinished h \<noteq> {}"
  using assms by (simp_all add: booting_def boot_inv_def)

lemma reported_gets_on:
  assumes "booting u B h" and "env_ok env" and "posts_ok B env" and "grows {r} B h h1" and "host_ok u h1"
    and "job_ok (job_at r h1)" and "JobName (job_at r h1) = JobName (job_at r h)" and "r \<in> set (jobs (queue_obj h))"
  shows "\<exists>h'. bind_res (jobComplete env r h1) (boot_progress env r) = Inr h' \<and> boot_inv u B h' \<and> gets_on r h h'"
proof -
  note b = bootingD [OF assms(1)]
  have ord: "range_order (rng env)" using assms(2) by (simp add: env_ok_def)
  obtain h2 where h2: "jobComplete env r h1 = Inr h2" "grows {} B h1 h2"
    using jobComplete_grows [OF grows_known(2,1) [OF assms(4)] assms(5) ord assms(3,6)] by blast
  have ok2: "host_ok u h2"
    using jobComplete_runs [OF assms(5,2,6)] h2(1) by (simp add: goes_on_ok)
  have g: "grows {r} B h h2" using grows_trans [OF assms(4) grows_mono [OF h2(2)]] by simp
  have same: "bootStages h2 = bootStages h" "currentBootStage h2 = currentBootStage h"
    "served_protocols h2 = served_protocols h" and st: "stays {r} (queue_obj h) (queue_obj h2)"
    using g by (simp_all add: grows_def)
  have nm: "JobName (job_at r h2) = JobName (job_at r h)"
    using st assms(8) by (simp add: stays_def job_at_def same_plan_def same_job_def)
  have un: "unfinished h2 = unfinished h" using same by (simp add: unfinished_def)
  have stay: "s \<noteq> r \<and> host_waits h2 n s" if "host_waits h n s" "n \<noteq> JobName (job_at r h)" for n s
  proof -
    have "s \<noteq> r" using that by (auto simp: waits_def job_at_def)
    then show ?thesis using grows_waits [OF g that(1)] by simp
  qed
  have wait: "\<forall>n \<in> unfinished h2 - {JobName (job_at r h2)}. \<exists>s. host_waits h2 n s"
    using b(5) stay unfolding un nm stage_waits_def by blast
  have stage: "\<exists>bs. bootStages h2 ! currentBootStage h2 = Some bs \<and> go_map (jobNames bs)"
    using b(5) same by (simp add: stage_waits_def)
  have lt: "currentBootStage h2 < 5" using same b(4) by simp
  obtain h' where h': "boot_progress env r h2 = Inr h'" "boot_inv u B h'"
    "currentBootStage h2 < currentBootStage h' \<or>
     currentBootStage h' = currentBootStage h2 \<and> unfinished h' = unfinished h2 - {JobName (job_at r h2)} \<and>
     queue_obj h' = queue_obj h2 \<and> hc_registry h' = hc_registry h2 \<and> served_protocols h' = served_protocols h2"
    using boot_progress_waits [OF ok2 assms(2) grows_known(2,1) [OF g] lt stage wait] by blast
  have "gets_on r h h'"
  proof (cases "currentBootStage h2 < currentBootStage h'")
    case True
    then show ?thesis using same by (simp add: gets_on_def)
  next
    case False
    then have e: "currentBootStage h' = currentBootStage h" "unfinished h' = unfinished h - {JobName (job_at r h)}"
      "queue_obj h' = queue_obj h2" "hc_registry h' = hc_registry h2" "served_protocols h' = served_protocols h2"
      using h'(3) same un nm by auto
    show ?thesis
    proof (cases "JobName (job_at r h) \<in> unfinished h")
      case True
      then show ?thesis using e by (auto simp: gets_on_def)
    next
      case no: False
      have "s \<noteq> r \<and> host_waits h' n s" if n: "n \<in> unfinished h" and s: "host_waits h n s" for n s
      proof -
        have "n \<noteq> JobName (job_at r h)" using n no by auto
        then show ?thesis using stay [OF s] e by simp
      qed
      then show ?thesis using e no st by (auto simp: gets_on_def stays_def)
    qed
  qed
  then show ?thesis using h2(1) h'(1,2) by auto
qed

lemma executed_grows:
  assumes "booting u B h" and "r \<in> set (jobs (queue_obj h))" and "same_job (job_at r h) j"
    and "Cadence j = Cadence (job_at r h)"
  shows "grows {r} B h (put_job r j h)" and "host_ok u (put_job r j h)" and "job_ok j"
proof -
  note b = bootingD [OF assms(1)]
  show jok: "job_ok j" using host_ok_job [OF b(1) assms(2)] job_ok_cadence [OF assms(4)] by simp
  show "grows {r} B h (put_job r j h)"
    by (rule put_job_grows [OF b(2,3) same_plan_cadence [OF assms(3,4)]]) simp
  show "host_ok u (put_job r j h)" by (rule goes_on_ok [OF put_job_ext [OF b(1) assms(3) jok]])
qed

lemma collect_job_waits:
  assumes "booting u B h" and "running h" and "env_ok env" and "posts_ok B env" and "tick_ok u k"
    and "r \<in> set (jobs (queue_obj h))"
  shows "\<exists>h'. collect_job env k r h = Inr h' \<and> boot_inv u B h' \<and> gets_on r h h'"
proof -
  note b = bootingD [OF assms(1)]
  have "known_job (hc_registry h) (served_protocols h) B (job_at r h)"
    using b(3) assms(6) by (simp add: queue_known_def job_at_def)
  then obtain pl c where pl: "Poll (hc_registry h) (PollarisName (job_at r h)) (JobName (job_at r h)) = Some pl"
    and c: "Cadence (job_at r h) = Some c" "\<forall>v \<in> set (Cadences c). v \<le> B"
    by (auto simp: known_job_def)
  let ?s = "MarkStart (tick_start k) (job_at r h)"
  let ?h1 = "put_job r ?s h"
  have s: "same_job (job_at r h) ?s" "Cadence ?s = Cadence (job_at r h)" "PollarisName ?s = PollarisName (job_at r h)"
    "JobName ?s = JobName (job_at r h)"
    by (simp_all add: MarkStart_def Let_def same_job_def)
  note g1 = executed_grows [OF assms(1,6) s(1,2)]
  obtain cs where cs: "collectors h = Some cs" "\<forall>e \<in> set cs. u (snd e)" using b(1) by (auto simp: host_ok_def)
  have P: "served_protocols h = dom (map_of cs)" using cs by (simp add: served_protocols_def)
  show ?thesis
  proof (cases "map_of (staticJobs :: (string \<times> ('a host_env \<Rightarrow> 'a host_collector \<Rightarrow> cjob \<Rightarrow> cjob res)) list)
      (JobName ?s)")
    case stat: (Some sjob)
    obtain j where j: "sjob env ?h1 ?s = Inr j" "exec_frame ?s j" using static_do_ok [OF g1(2) stat] by blast
    let ?j = "MarkEnded (tick_end k) j"
    have j2: "same_job (job_at r h) ?j" "Cadence ?j = Cadence (job_at r h)" "JobName ?j = JobName (job_at r h)"
      using exec_frameD(1-3) [OF j(2)] s by (simp_all add: MarkEnded_def same_job_def)
    have put: "put_job r ?j ?h1 = put_job r ?j h" by (simp add: put_job_def set_cell_def)
    note g2 = executed_grows [OF assms(1,6) j2(1,2)]
    obtain h' where "bind_res (jobComplete env r (put_job r ?j h)) (boot_progress env r) = Inr h'"
      "boot_inv u B h'" "gets_on r h h'"
      using reported_gets_on [OF assms(1,3,4) g2(1,2)] g2(3) j2(3) assms(6) by auto
    then show ?thesis
      using pl stat j(1) put by (auto simp: collect_job_def collect_start_def Let_def bind_res_eq_Inr)
  next
    case stat: None
    show ?thesis
    proof (cases "map_of cs (poll_Protocol pl)")
      case (Some x)
      have "u x" using cs(2) map_of_SomeD [OF Some] by auto
      then obtain x' j where ex: "tick_exec k x ?s = Inr (x', j)" "u x'" "exec_frame ?s j"
        using assms(5) unfolding tick_ok_def exec_ok_def by blast
      let ?j = "MarkEnded (tick_end k) j"
      let ?h2 = "h\<lparr>collectors := Some (AList.update (poll_Protocol pl) x' cs)\<rparr>"
      have j2: "same_job (job_at r h) ?j" "Cadence ?j = Cadence (job_at r h)" "JobName ?j = JobName (job_at r h)"
        using exec_frameD(1-3) [OF ex(3)] s by (simp_all add: MarkEnded_def same_job_def)
      note g2 = executed_grows [OF assms(1,6) j2(1,2)]
      have dom: "served_protocols ?h2 = served_protocols h"
        using P Some by (auto simp: served_protocols_def update_conv' dom_def)
      have put: "put_job r ?j (?h1\<lparr>collectors := Some (AList.update (poll_Protocol pl) x' cs)\<rparr>) = put_job r ?j ?h2"
        "put_job r ?j ?h2 = (put_job r ?j h)\<lparr>collectors := Some (AList.update (poll_Protocol pl) x' cs)\<rparr>"
        by (simp_all add: put_job_def set_cell_def)
      have ok: "host_ok u (put_job r ?j ?h2)"
        unfolding put(2) using g2(2) set_update_snd [OF cs(2) ex(2)] by (simp add: host_ok_def)
      have gr: "grows {r} B h (put_job r ?j ?h2)"
        using g2(1) dom unfolding put(2) by (simp add: grows_def served_protocols_def put_job_def)
      obtain h' where h': "bind_res (jobComplete env r (put_job r ?j ?h2)) (boot_progress env r) = Inr h'"
        "boot_inv u B h'" "gets_on r h h'"
        using reported_gets_on [OF assms(1,3,4) gr ok] g2(3) j2(3) assms(6) by auto
      have start: "collect_start env (tick_start k) (tick_end k) r h = Inr (?h1, Some (poll_Protocol pl))"
        using pl stat cs(1) Some by (simp add: collect_start_def Let_def)
      have "collect_finish env (tick_end k) r (poll_Protocol pl) x' j ?h1 = Inr h'"
        using h'(1) put(1) cs(1) assms(2) by (simp add: collect_finish_def Let_def)
      then show ?thesis
        using start ex(1) Some cs(1) h'(2,3) by (simp add: collect_job_def)
    next
      case None
      let ?e = "MarkEnded (tick_end k) ?s"
      let ?d = "?e\<lparr>Cadence := Some (c\<lparr>Enabled := False\<rparr>)\<rparr>"
      have e: "Cadence ?e = Some c" using c(1) s(2) by (simp add: MarkEnded_def)
      have start: "collect_start env (tick_start k) (tick_end k) r h = Inr (put_job r ?d h, None)"
        using pl stat cs(1) None e
        by (simp add: collect_start_def Let_def DisableJob_def put_job_def set_cell_def job_at_def MarkEnded_def)
      have d: "same_job (job_at r h) ?d" "job_ok ?d"
        using s(1) c(1) host_ok_job [OF b(1) assms(6)] by (simp_all add: same_job_def MarkEnded_def job_ok_def)
      have ok: "host_ok u (put_job r ?d h)" by (rule goes_on_ok [OF put_job_ext [OF b(1) d]])
      have P': "served_protocols (put_job r ?d h) = served_protocols h" by (simp add: served_protocols_def)
      have "known_job (hc_registry h) (served_protocols h) B ?d"
        using pl c(2) None P s by (auto simp: known_job_def MarkEnded_def)
      then have kn: "known_queue B (put_job r ?d h)"
        using b(3) P' by (auto simp: queue_known_def put_job_def set_cell_def)
      have stay: "s \<noteq> r \<and> host_waits (put_job r ?d h) n s" if "host_waits h n s" for n s
      proof -
        have "\<not> served (hc_registry h) (served_protocols h) (job_at r h)" using pl None P by (auto simp: served_def)
        then have "s \<noteq> r" using that by (auto simp: waits_def job_at_def)
        then show ?thesis using that P' by (simp add: waits_def put_job_def set_cell_def)
      qed
      have un: "unfinished (put_job r ?d h) = unfinished h" by (simp add: unfinished_def)
      have "stage_waits (put_job r ?d h)"
        using b(5) stay un unfolding stage_waits_def by (metis put_job_frame(7,8))
      then have "boot_inv u B (put_job r ?d h)"
        using ok kn b(2,6) un by (simp add: boot_inv_def)
      moreover have "gets_on r h (put_job r ?d h)" using un stay by (simp add: gets_on_def)
      ultimately show ?thesis using start by (simp add: collect_job_def)
    qed
  qed
qed

definition tick_good :: "('c \<Rightarrow> bool) \<Rightarrow> int \<Rightarrow> 'c tick \<Rightarrow> bool" where
  "tick_good u B k \<longleftrightarrow> tick_ok u k \<and> 2 * B \<le> tick_now k \<and> tick_now k < 2 ^ 62"

lemma popped_booting:
  assumes "booting u B h" and "queue_inv q" and "\<not> shutdown q" and "set (jobs q) = set (jobs (queue_obj h))"
    and "\<forall>r. same_plan (cell (queue_obj h) r) (cell q r)" and "\<forall>r. Ended (cell q r) = Ended (cell (queue_obj h) r)"
  shows "booting u B (h\<lparr>queue_obj := q\<rparr>)" and "host_waits (h\<lparr>queue_obj := q\<rparr>) n s = host_waits h n s"
    and "unfinished (h\<lparr>queue_obj := q\<rparr>) = unfinished h"
proof -
  note b = bootingD [OF assms(1)]
  let ?h = "h\<lparr>queue_obj := q\<rparr>"
  have P: "served_protocols ?h = served_protocols h" by (simp add: served_protocols_def)
  show w: "host_waits ?h n s = host_waits h n s" for n s
  proof -
    have "served (hc_registry h) (served_protocols h) (cell q s) =
        served (hc_registry h) (served_protocols h) (cell (queue_obj h) s)"
      using assms(5) same_plan_served by blast
    moreover have "JobName (cell q s) = JobName (cell (queue_obj h) s)"
      using assms(5) by (simp add: same_plan_def same_job_def)
    ultimately show ?thesis using assms(4,6) P by (simp add: waits_def)
  qed
  show un: "unfinished ?h = unfinished h" by (simp add: unfinished_def)
  have "host_ok u ?h"
    using goes_on_ok [OF host_ok_queue [OF b(1), of q]] assms(2-4) by (simp add: queue_live_def)
  moreover have "known_queue B ?h"
    using b(3) assms(4,5) P same_plan_known by (simp add: queue_known_def) blast
  moreover have "stage_waits ?h" using b(5) w un by (simp add: stage_waits_def)
  ultimately show "booting u B ?h" using b(2,4,6) un by (simp add: booting_def boot_inv_def)
qed

text \<open>A round lowers the measure; \<open>s\<close> waits for the name \<open>n\<close>.\<close>

lemma round_gets_on:
  assumes "booting u B h" and "running h" and "env_ok env" and "posts_ok B env" and "tick_good u B k"
    and "n \<in> unfinished h" and "host_waits h n s"
  shows "\<exists>h'. collect_round smooth env k h = Inr h' \<and> boot_inv u B h' \<and> running h' \<and>
    (currentBootStage h < currentBootStage h' \<or>
     currentBootStage h' = currentBootStage h \<and> (unfinished h' \<subset> unfinished h \<or>
       unfinished h' = unfinished h \<and> host_waits h' n s \<and> place s (jobs (queue_obj h')) < place s (jobs (queue_obj h))))"
proof -
  note b = bootingD [OF assms(1)]
  let ?q = "queue_obj h" and ?d = "due smooth (tick_draw k) (tick_now k) (queue_obj h)"
  have live: "queue_inv ?q" "\<not> shutdown ?q" "\<not> queue_nil h" using b(1) by (simp_all add: host_ok_def queue_live_def)
  have tk: "tick_ok u k" "\<forall>r. random_source (tick_draw k r)" using assms(5) by (simp_all add: tick_good_def tick_ok_def)
  have s: "s \<in> set (jobs ?q)" using assms(7) by (simp add: waits_def)
  have "?d s"
    using b(3) s assms(5) tk(2) queue_invD(4) [OF live(1) s]
    by (intro waiting_due [where B = B, OF _ assms(7)]) (simp_all add: queue_known_def tick_good_def)
  then obtain r where r: "find ?d (jobs ?q) = Some r" "r = s \<or> r \<in> set (takeWhile (\<lambda>x. x \<noteq> s) (jobs ?q))"
    using find_before [OF s] by blast
  have mem: "r \<in> set (jobs ?q)" using r(1) by (auto simp: find_Some_iff)
  obtain w q1 where pop: "Pop smooth (tick_draw k) (tick_now k) (Some ?q) = Inr ((Some r, w), Some q1)"
    "queue_inv q1" "\<not> shutdown q1" "jobs q1 = remove1 r (jobs ?q) @ [r]" "\<forall>x. Ended (cell q1 x) = Ended (cell ?q x)"
    by (rule Pop_meets [OF live(1,2) tk(2), where smooth = smooth and now = "tick_now k"]) (use r(1) in simp)
  have set1: "set (jobs q1) = set (jobs ?q)" using pop(4) mem queue_invD(1) [OF live(1)] by auto
  have sp: "\<forall>x. same_plan (cell ?q x) (cell q1 x)" using Pop_same_plan [OF live(1) tk(2) pop(1)] by blast
  let ?h1 = "h\<lparr>queue_obj := q1\<rparr>"
  note h1 = popped_booting [OF assms(1) pop(2,3) set1 sp pop(5)]
  obtain h' where h': "collect_job env k r ?h1 = Inr h'" "boot_inv u B h'" "gets_on r ?h1 h'"
    using collect_job_waits [OF h1(1) _ assms(3,4) tk(1), of r] assms(2) mem set1 by auto
  have rnd: "collect_round smooth env k h = Inr h'"
    using pop(1) h'(1) live(3) by (simp add: collect_round_def this_queue_def put_queue_def Let_def)
  have "running h'"
    using collect_round_runs [OF b(1) assms(3) tk(1), of smooth] rnd assms(2) by (simp add: goes_on_def)
  moreover have "place s (jobs (queue_obj h')) < place s (jobs ?q)"
    if new: "jobs (queue_obj h') = jobs q1 @ new" and ne: "s \<noteq> r" for new
  proof -
    have before: "r \<in> set (takeWhile (\<lambda>x. x \<noteq> s) (jobs ?q))" using r(2) ne by simp
    have "place s (jobs q1 @ new) = place s (jobs q1)" using s set1 by (simp add: place_append)
    then show ?thesis using place_remove1 [OF s before, of "[r]"] pop(4) new by simp
  qed
  ultimately show ?thesis
    using rnd h'(2,3) assms(6,7) h1(2,3) unfolding gets_on_def by fastforce
qed

text \<open>Rounds until the last stage is left.\<close>

lemma rounds_complete:
  assumes "\<And>i. tick_good u B (ticks i)" and "env_ok env" and "posts_ok B env"
    and "booting u B h" and "running h" and "n \<in> unfinished h" and "host_waits h n s"
  shows "\<exists>m h'. collect smooth env (map ticks [i..<i + m]) h = Inr h' \<and> currentBootStage h' = 5"
  using assms(4-7)
proof (induction "(5 - currentBootStage h, card (unfinished h), place s (jobs (queue_obj h)))" arbitrary: h i n s
    rule: wf_induct_rule [OF wf_lex_prod [OF wf_less_than wf_lex_prod [OF wf_less_than wf_less_than]]])
  case (1 h s i n)
  obtain h1 where h1: "collect_round smooth env (ticks i) h = Inr h1" "boot_inv u B h1" "running h1"
    "currentBootStage h < currentBootStage h1 \<or>
     currentBootStage h1 = currentBootStage h \<and> (unfinished h1 \<subset> unfinished h \<or>
       unfinished h1 = unfinished h \<and> host_waits h1 n s \<and> place s (jobs (queue_obj h1)) < place s (jobs (queue_obj h)))"
    using round_gets_on [OF "1.prems"(1,2) assms(2,3) assms(1) "1.prems"(3,4)] by blast
  have le: "currentBootStage h1 \<le> 5" using h1(2) by (simp add: boot_inv_def host_ok_def)
  have cons: "collect smooth env (map ticks [i..<i + Suc m]) h = collect smooth env (map ticks [Suc i..<Suc i + m]) h1" for m
    using "1.prems"(2) h1(1) by (simp add: upt_conv_Cons del: upt_Suc)
  show ?case
  proof (cases "currentBootStage h1 < 5")
    case False
    then have "collect smooth env (map ticks [i..<i + Suc 0]) h = Inr h1 \<and> currentBootStage h1 = 5"
      using le cons [of 0] by simp
    then show ?thesis by blast
  next
    case True
    then have bt: "booting u B h1" using h1(2) by (simp add: booting_def)
    obtain n1 s1 where w: "n1 \<in> unfinished h1" "host_waits h1 n1 s1"
      and less: "((5 - currentBootStage h1, card (unfinished h1), place s1 (jobs (queue_obj h1))),
        (5 - currentBootStage h, card (unfinished h), place s (jobs (queue_obj h)))) \<in> less_than <*lex*> less_than <*lex*> less_than"
    proof (cases "currentBootStage h1 = currentBootStage h \<and> unfinished h1 = unfinished h")
      case True
      then show ?thesis using that [of n s] h1(4) "1.prems"(3) by auto
    next
      case False
      obtain n1 s1 where w: "n1 \<in> unfinished h1" "host_waits h1 n1 s1"
        using bootingD(5,6) [OF bt] unfolding stage_waits_def by blast
      have "currentBootStage h < currentBootStage h1 \<or>
          currentBootStage h1 = currentBootStage h \<and> card (unfinished h1) < card (unfinished h)"
        using h1(4) False by (auto intro: psubset_card_mono)
      moreover have "5 - currentBootStage h1 < 5 - currentBootStage h"
        if "currentBootStage h < currentBootStage h1"
        using that True by linarith
      ultimately show ?thesis using that [OF w] by auto
    qed
    obtain m h' where "collect smooth env (map ticks [Suc i..<Suc i + m]) h1 = Inr h'" "currentBootStage h' = 5"
      using "1.hyps" [OF less bt h1(3) w] by blast
    then show ?thesis using cons [of m] by metis
  qed
qed

section \<open>From the start to the end of the boot sequence\<close>

lemma start_new_booting:
  fixes env :: "'c host_env"
  assumes "env_ok env" and "init_ok u env" and "catalog_ok B reg" and "map_of (tgt_Hosts t) hid = Some hs"
    and "start env (newHostCollector reg (Some t) hid) = Inr h"
  shows "host_ok u h" and "running h" and "currentBootStage h = 0" and "unfinished h \<noteq> {} \<Longrightarrow> booting u B h"
    and "unfinished h = {} \<Longrightarrow> jobs (queue_obj h) = []"
proof -
  have ok: "host_ok u h \<and> running h \<and> currentBootStage h = 0"
    using start_new_ok [OF assms(1,2) catalog_registry [OF assms(3)] assms(4)] assms(5) by auto
  then show "host_ok u h" "running h" "currentBootStage h = 0" by simp_all
  let ?n = "newHostCollector reg (Some t) hid :: 'c host_collector"
  let ?cs = "start_collectors env (config_order env (host_Configs hs)) []"
  let ?h1 = "?n\<lparr>collectors := Some ?cs\<rparr>"
  have n: "hc_service ?h1" "\<not> queue_nil ?h1" "hc_registry ?h1 = reg" "queue_obj ?h1 = NewJobsQueue (Some t) hid"
    "collectors ?h1 = Some ?cs" "hc_target ?h1 = Some t" "hc_hostId ?h1 = hid" "bootStages ?h1 = replicate 5 None"
    by (simp_all add: newHostCollector_def)
  have live: "queue_live (queue_obj ?h1)" and jobs0: "jobs (queue_obj ?h1) = []"
    using NewJobsQueue_inv [of "Some t" hid] n(4) by (simp_all add: queue_live_def NewJobsQueue_def)
  have kn: "known_queue B ?h1" using jobs0 by (simp add: queue_known_def)
  have ord: "range_order (rng env)" using assms(1) by (simp add: env_ok_def)
  obtain bs q where bs: "newBootState env 0 ?h1 = Inr (bs, ?h1\<lparr>queue_obj := q\<rparr>)" "queue_known reg (served_protocols ?h1) B q"
    "names_wait reg (served_protocols ?h1) q (jobNames bs)"
    using newBootState_waits [of ?h1 B env 0] n(1-3,5) live assms(3) ord kn by auto
  have h: "h = (?h1\<lparr>queue_obj := q, bootStages := (replicate 5 None)[0 := Some bs]\<rparr>)
      \<lparr>admissionCh := list_ex (\<lambda>(k, cfg). cfg_Protocol cfg = L8PKubernetesAPI) (config_order env (host_Configs hs)),
       loops := 1\<rparr>"
    using assms(4,5) bs(1) by (simp add: start_def newHostCollector_def Let_def)
  have P: "served_protocols h = served_protocols ?h1" "hc_registry h = reg" "queue_obj h = q"
    "bootStages h ! currentBootStage h = Some bs"
    by (simp_all add: h served_protocols_def newHostCollector_def)
  have un: "unfinished h = fst ` set (jobNames bs)"
  proof -
    have "map_of (jobNames bs) n \<noteq> Some True" for n
      using bs(3) unfolding names_wait_def by (metis rangeI)
    then have "map_of (jobNames bs) n = Some False \<longleftrightarrow> n \<in> dom (map_of (jobNames bs))" for n
      by (metis (full_types) domD domI)
    then show ?thesis
      using unfinished_stage [OF P(4)] dom_map_of_conv_image_fst [of "jobNames bs"] by simp
  qed
  have "stage_waits h"
    using bs(3) P un unfolding stage_waits_def names_wait_def by auto
  then show "unfinished h \<noteq> {} \<Longrightarrow> booting u B h"
    using ok bs(2) P assms(3) by (simp add: booting_def boot_inv_def)
  show "unfinished h = {} \<Longrightarrow> jobs (queue_obj h) = []"
  proof -
    assume "unfinished h = {}"
    then have "jobNames bs = []" using un by simp
    then have "jobs q = jobs (queue_obj ?h1)" using newBootState_nothing [OF bs(1)] n(2) by simp
    then show ?thesis using jobs0 P(3) by simp
  qed
qed

lemma idle_round:
  assumes "jobs (queue_obj h) = []" and "host_ok u h"
  shows "collect_round smooth env k h = Inr h"
  using assms
  by (simp add: collect_round_def this_queue_def put_queue_def Let_def Pop_def Expedite_def moveToLast_def
      host_ok_def queue_live_def queue_inv_def)

lemma idle_rounds:
  "jobs (queue_obj h) = [] \<Longrightarrow> host_ok u h \<Longrightarrow> collect smooth env ks h = Inr h"
  by (induction ks) (simp_all add: idle_round)


lemma demo_catalog: "catalog_ok 300 demo_registry"
proof -
  have bp: "boot_pollaris demo_registry demo_pollaris"
    by (auto simp: boot_pollaris_def demo_registry_def demo_pollaris_def demo_poll_def demo_plan_def)
  have "map_of (plrs_Polling demo_pollaris) k \<noteq> None \<Longrightarrow> Poll demo_registry n k \<noteq> None \<Longrightarrow> n = ''mib2''" for n k
    by (simp add: demo_registry_def split: if_splits)
  then show ?thesis
    using bp demo_registry_ok
    by (auto simp: catalog_ok_def JobKey_def demo_registry_def demo_pollaris_def demo_poll_def demo_plan_def
        split: if_splits)
qed

lemma demo_start:
  "\<exists>h0. start demo_env (newHostCollector demo_registry (Some demo_target) ''10.0.0.1'') = Inr h0 \<and>
     bootStages h0 ! currentBootStage h0 = Some \<lparr>jobNames = [(''ifTable'', False), (''systemMib'', False)], boot_stage = 0\<rparr>"
  by (simp add: start_def newProtocolCollector_def demo_config_def known_protocol_def Let_def newBootState_def newHostCollector_def
      BootStages_def demo_registry_def demo_pollaris_def demo_poll_def this_queue_def links_filter_def demo_target_def
      InsertJob_def newJobsForKey_def NewJobsQueue_def order_names_def demo_env_def new_job_def cloneCadence_def demo_plan_def
      insert_jobs.simps(2) insert_one_def JobKey_def put_queue_def go_nth_def)


end
