(* ===== verification/Change_Reports.thy ===== *)
theory Change_Reports
  imports Host_Collector_Theorems
begin

text \<open>
  What reaches the parser. Over any rounds of the collection loop the messages about a job never repeat
  a result, and after a successful run the last message carries the current result, as far as the 64-bit
  hash tells results apart. The invariant compares the messages sent with the hash that the job carries;
  everything else that the loop does to a job (\<open>calm\<close>) keeps what the comparison reads.
\<close>

section \<open>Messages and the hash a job carries\<close>

definition messages :: "string \<Rightarrow> ((string \<times> int) \<times> cjob) list \<Rightarrow> 64 word list" where
  "messages K ms = map (\<lambda>m. hashBytes (Result (snd m))) (filter (\<lambda>m. key_of (snd m) = K) ms)"

text \<open>The hash that the next \<open>MarkStart\<close> leaves in the job: of its result, or the old one after a failure.\<close>

definition carried :: "cjob \<Rightarrow> 64 word" where
  "carried j = (if ErrorCount j = 0 then hashBytes (Result j) else LastResultHash j)"

definition latest :: "64 word list \<Rightarrow> 64 word" where
  "latest hs = (if hs = [] then 0 else last hs)"

text \<open>No two messages in a row have the same hash, except that empty results are always sent.\<close>

definition no_repeats :: "64 word list \<Rightarrow> bool" where
  "no_repeats hs \<longleftrightarrow> (\<forall>i. Suc i < length hs \<longrightarrow> hs ! Suc i = 0 \<or> hs ! Suc i \<noteq> hs ! i)"

lemma no_repeats_Nil [simp]: "no_repeats []"
  by (simp add: no_repeats_def)

lemma no_repeats_snoc: "no_repeats (hs @ [x]) \<longleftrightarrow> no_repeats hs \<and> (hs = [] \<or> x = 0 \<or> x \<noteq> last hs)"
proof (cases hs rule: rev_cases)
  case (snoc ys y)
  have "(\<forall>i. Suc i < length (hs @ [x]) \<longrightarrow> P i) \<longleftrightarrow> (\<forall>i. Suc i < length hs \<longrightarrow> P i) \<and> P (length ys)" for P
    using snoc by (auto simp: less_Suc_eq)
  then show ?thesis by (simp add: no_repeats_def nth_append snoc)
qed (simp add: no_repeats_def)

lemma latest_snoc [simp]: "latest (hs @ [x]) = x"
  by (simp add: latest_def)

section \<open>Steps that leave the reports alone\<close>

definition job_on :: "cjob \<Rightarrow> bool" where
  "job_on j \<longleftrightarrow> (case Cadence j of None \<Rightarrow> False | Some c \<Rightarrow> Enabled c)"

lemma job_on_iff: "job_on j \<longleftrightarrow> (\<exists>c. Cadence j = Some c \<and> Enabled c)"
  by (simp add: job_on_def split: option.split)

definition calm :: "cjob \<Rightarrow> cjob \<Rightarrow> bool" where
  "calm j j' \<longleftrightarrow> same_job j j' \<and> Always j' = Always j \<and> Result j' = Result j \<and> ErrorCount j' = ErrorCount j \<and>
     LastResultHash j' = LastResultHash j \<and> (job_on j' \<longrightarrow> job_on j)"

definition unreported :: "cjob \<Rightarrow> bool" where
  "unreported j \<longleftrightarrow> Result j = None \<and> ErrorCount j = 0 \<and> LastResultHash j = 0"

definition quiet :: "jobs_queue \<Rightarrow> jobs_queue \<Rightarrow> bool" where
  "quiet q q' \<longleftrightarrow> set (jobs q) \<subseteq> set (jobs q') \<and> (\<forall>r \<in> set (jobs q). calm (cell q r) (cell q' r)) \<and>
     (\<forall>r \<in> set (jobs q') - set (jobs q). unreported (cell q' r))"

lemma calm_refl [simp]: "calm j j"
  by (simp add: calm_def)

lemma calm_trans: "calm a b \<Longrightarrow> calm b c \<Longrightarrow> calm a c"
  by (simp add: calm_def same_job_def)

lemma calm_unreported: "calm a b \<Longrightarrow> unreported a \<Longrightarrow> unreported b"
  by (simp add: calm_def unreported_def)

lemma calm_times: "calm j (j\<lparr>Started := s, Ended := e\<rparr>)" "calm j (j\<lparr>Ended := e\<rparr>)"
  by (simp_all add: calm_def same_job_def job_on_iff)

lemma quiet_refl [simp]: "quiet q q"
  by (simp add: quiet_def)

lemma quiet_trans:
  assumes "quiet a b" and "quiet b c"
  shows "quiet a c"
proof -
  have "unreported (cell c r)" if "r \<in> set (jobs c)" "r \<notin> set (jobs a)" for r
    using that assms calm_unreported unfolding quiet_def by (metis Diff_iff)
  then show ?thesis using assms unfolding quiet_def by (meson DiffE calm_trans subset_iff)
qed

lemma quiet_set_cell: "calm (cell q r) j \<Longrightarrow> quiet q (set_cell r j q)"
  by (simp add: quiet_def)

lemma drawn_calm:
  assumes "drawn q q'"
  shows "calm (cell q r) (cell q' r)"
proof -
  have e: "(cell q' r)\<lparr>Cadence := None\<rparr> = (cell q r)\<lparr>Cadence := None\<rparr>"
    and p: "rel_option plan_step (Cadence (cell q r)) (Cadence (cell q' r))"
    using assms by (simp_all add: drawn_def)
  have "job_on (cell q' r) \<longrightarrow> job_on (cell q r)"
    using p by (auto simp: job_on_iff rel_option_iff plan_step_def split: option.splits)
  then show ?thesis
    using arg_cong [OF e, of Always] arg_cong [OF e, of Result] arg_cong [OF e, of ErrorCount]
      arg_cong [OF e, of LastResultHash] drawn_cell(1,2) [OF assms]
    by (simp add: calm_def same_job_def)
qed

lemma Pop_calm:
  assumes "queue_inv q" and "\<forall>r. random_source (rnd r)" and "Pop smooth rnd now (Some q) = Inr (x, Some q')"
  shows "calm (cell q r) (cell q' r)"
proof -
  have all: "\<forall>r \<in> set (jobs q). job_ok (cell q r)" using queue_invD(4) [OF assms(1)] by blast
  obtain w q1 where "pop_scan smooth rnd now (jobs q) 0 999999 q =
      Inr (first_due (due smooth rnd now q) (jobs q) 0, w, q1)" "drawn q q1"
    by (rule pop_scan_meets [OF queue_invD(1) [OF assms(1)] all assms(2), where smooth = smooth and now = now
        and i = 0 and wait = 999999])
  then have "cell q' = cell q1 \<or> q' = q" using assms(3) by (auto simp: Pop_def split: if_splits)
  then show ?thesis using drawn_calm [OF \<open>drawn q q1\<close>] by auto
qed

lemma insert_one_quiet:
  assumes "queue_inv q" and "unreported j"
  shows "quiet q (insert_one j q)"
proof -
  have "r \<noteq> fresh q" if "r \<in> set (jobs q)" for r using queue_invD(2) [OF assms(1) that] by simp
  then show ?thesis
    using assms(2) calm_times(1) by (auto simp: quiet_def insert_one_def split: option.split)
qed

lemma insert_jobs_quiet:
  assumes "insert_jobs js q = Inr q'" and "queue_inv q" and "\<forall>j \<in> set js. job_ok j \<and> unreported j"
  shows "quiet q q'"
  using assms
proof (induction js arbitrary: q)
  case (Cons j js)
  obtain c where c: "Cadence j = Some c" "insert_jobs js (if \<not> Enabled c then q else insert_one j q) = Inr q'"
    using Cons.prems(1) unfolding insert_jobs_Cons by blast
  let ?q = "if \<not> Enabled c then q else insert_one j q"
  have "queue_inv ?q" using Cons.prems by (simp add: insert_one_inv)
  then have "quiet ?q q'" using Cons.IH [OF c(2)] Cons.prems(3) by simp
  moreover have "quiet q ?q" using insert_one_quiet [OF Cons.prems(2)] Cons.prems(3) by simp
  ultimately show ?case by (rule quiet_trans [rotated])
qed simp

lemma build_jobs_unreported:
  "build_jobs q p ns acc = Inr js \<Longrightarrow> \<forall>e \<in> set acc. unreported (snd e) \<Longrightarrow> \<forall>e \<in> set js. unreported (snd e)"
proof (induction ns arbitrary: acc)
  case (Cons n ns)
  obtain pl j where j: "new_job q p n pl = Inr j" "build_jobs q p ns (AList.update n j acc) = Inr js"
    using Cons.prems(1) by (auto simp: bind_res_eq_Inr)
  have "unreported j" using j(1) by (auto simp: new_job_def bind_res_eq_Inr unreported_def empty_job_def)
  then have "\<forall>e \<in> set (AList.update n j acc). unreported (snd e)"
    by (rule set_update_snd [OF Cons.prems(2)])
  then show ?case using Cons.IH [OF j(2)] by blast
qed simp

lemma InsertJob_quiet:
  assumes "queue_live q" and "registry_ok reg" and "range_order ord"
    and "InsertJob reg ord key (Some q) = Inr (Some q', e)"
  shows "quiet q q'"
proof (cases "PollarisByKey reg key")
  case None
  then show ?thesis using assms(1,4) InsertJob_unknown [OF _ _ None] by (simp add: queue_live_def)
next
  case (Some p)
  have inv: "queue_inv q" "\<not> shutdown q" using assms(1) by (simp_all add: queue_live_def)
  obtain js where js: "newJobsForKey reg ord key q = Inr (Some js)" "go_map js" "\<forall>e \<in> set js. made_from p e"
    by (rule newJobsForKey_ok [OF inv Some registry_okD [OF assms(2) Some] assms(3)])
  have "\<forall>e \<in> set js. unreported (snd e)"
    using js(1) build_jobs_unreported [of q p "order_names ord p" "[]" js] Some queue_invD(7) [OF inv]
    by (auto simp: newJobsForKey_def bind_res_eq_Inr)
  then have "\<forall>j \<in> set (map (\<lambda>n. the (map_of js n)) (ord (map fst js))). job_ok j \<and> unreported j"
    unfolding map_values [OF js(2) assms(3)] using js(3) by (auto simp: made_from_def)
  moreover have "insert_jobs (map (\<lambda>n. the (map_of js n)) (ord (map fst js))) q = Inr q'"
    using assms(4) js(1) inv(2) by (auto simp: InsertJob_def bind_res_eq_Inr)
  ultimately show ?thesis using insert_jobs_quiet [OF _ inv(1)] by blast
qed

lemma expedite_loop_quiet:
  "expedite_loop rs q = Inr q' \<Longrightarrow> quiet q q'"
proof (induction rs arbitrary: q)
  case (Cons r rs)
  obtain c :: cadence_plan where c: "expedite_loop rs (if \<not> Enabled c then q else set_cell r ((cell q r)\<lparr>Ended := 0\<rparr>) q) = Inr q'"
    using Cons.prems by (auto simp: bind_res_eq_Inr)
  have "quiet q (if \<not> Enabled c then q else set_cell r ((cell q r)\<lparr>Ended := 0\<rparr>) q)"
    by (auto intro: quiet_set_cell calm_times)
  then show ?case using Cons.IH [OF c] quiet_trans by blast
qed simp

section \<open>The invariant\<close>

definition report_ok :: "'c host_collector \<Rightarrow> ref \<Rightarrow> bool" where
  "report_ok h r \<longleftrightarrow>
     (JobName (job_at r h) \<in> {''ipAddress'', ''deviceStatus''} \<longrightarrow> ErrorCount (job_at r h) = 0) \<and>
     (job_on (job_at r h) \<and> \<not> Always (job_at r h) \<longrightarrow>
       no_repeats (messages (key_of (job_at r h)) (sent h)) \<and>
       carried (job_at r h) = latest (messages (key_of (job_at r h)) (sent h)))"

definition sent_known :: "'c host_collector \<Rightarrow> bool" where
  "sent_known h \<longleftrightarrow> (\<forall>m \<in> set (sent h). \<exists>r \<in> set (jobs (queue_obj h)). key_of (job_at r h) = key_of (snd m))"

text \<open>All jobs but those in \<open>A\<close> agree with their messages.\<close>

definition reports_ok :: "ref set \<Rightarrow> 'c host_collector \<Rightarrow> bool" where
  "reports_ok A h \<longleftrightarrow> sent_known h \<and> (\<forall>r \<in> set (jobs (queue_obj h)) - A. report_ok h r)"

lemma queue_key_inj:
  "queue_inv q \<Longrightarrow> r \<in> set (jobs q) \<Longrightarrow> s \<in> set (jobs q) \<Longrightarrow> key_of (cell q r) = key_of (cell q s) \<Longrightarrow> r = s"
  using queue_invD(3) by (metis option.inject)

lemma quiet_reports:
  assumes "quiet (queue_obj h) (queue_obj h')" and "queue_inv (queue_obj h')" and "sent h' = sent h"
    and "reports_ok A h" and "A \<subseteq> set (jobs (queue_obj h))"
  shows "reports_ok A h'"
proof -
  let ?q = "queue_obj h" and ?q' = "queue_obj h'"
  have old: "calm (job_at r h) (job_at r h')" "r \<in> set (jobs ?q')" if "r \<in> set (jobs ?q)" for r
    using assms(1) that by (auto simp: quiet_def job_at_def)
  have key: "key_of (job_at r h') = key_of (job_at r h)" if "r \<in> set (jobs ?q)" for r
    using old [OF that] by (simp add: calm_def same_job_def)
  have known: "\<exists>r \<in> set (jobs ?q). key_of (job_at r h) = key_of (snd m)" if "m \<in> set (sent h)" for m
    using assms(4) that by (auto simp: reports_ok_def sent_known_def)
  then have "sent_known h'" using old(2) key unfolding sent_known_def assms(3) by metis
  moreover have "report_ok h' r" if r: "r \<in> set (jobs ?q')" "r \<notin> A" for r
  proof (cases "r \<in> set (jobs ?q)")
    case True
    then have "report_ok h r" using assms(4) r by (simp add: reports_ok_def)
    then show ?thesis
      using old(1) [OF True] key [OF True] assms(3) by (auto simp: report_ok_def calm_def same_job_def carried_def)
  next
    case False
    then have "unreported (job_at r h')" using assms(1) r by (simp add: quiet_def job_at_def)
    moreover have "messages (key_of (job_at r h')) (sent h) = []"
    proof -
      have "key_of (snd m) \<noteq> key_of (job_at r h')" if m: "m \<in> set (sent h)" for m
      proof
        assume e: "key_of (snd m) = key_of (job_at r h')"
        obtain s where s: "s \<in> set (jobs ?q)" "key_of (job_at s h) = key_of (snd m)" using known [OF m] by blast
        then have "key_of (cell ?q' s) = key_of (cell ?q' r)" using key e by (simp add: job_at_def)
        then have "s = r" by (rule queue_key_inj [OF assms(2) old(2) [OF s(1)] r(1)])
        then show False using s(1) False by simp
      qed
      then show ?thesis by (simp add: messages_def)
    qed
    ultimately show ?thesis using assms(3) by (simp add: report_ok_def unreported_def carried_def latest_def)
  qed
  ultimately show ?thesis by (simp add: reports_ok_def)
qed

lemma put_job_reports:
  assumes "reports_ok (insert r A) h" and "same_job (job_at r h) j"
  shows "reports_ok (insert r A) (put_job r j h)"
proof -
  have at: "job_at s (put_job r j h) = (if s = r then j else job_at s h)" for s
    by (simp add: job_at_def put_job_def)
  have "sent_known (put_job r j h)"
    using assms same_job_key [OF assms(2)] by (simp add: reports_ok_def sent_known_def at) metis
  then show ?thesis using assms(1) by (auto simp: reports_ok_def report_ok_def at)
qed

lemma reports_close:
  "reports_ok {r} h \<Longrightarrow> r \<in> set (jobs (queue_obj h)) \<Longrightarrow> report_ok h r \<Longrightarrow> reports_ok {} h"
  by (auto simp: reports_ok_def)

section \<open>Completion of a job\<close>

lemma insertCustomJobs_quiet:
  assumes "host_ok u h" and "env_ok env" and "insertCustomJobs env n h = Inr h'"
  shows "quiet (queue_obj h) (queue_obj h')"
proof -
  have live: "queue_live (queue_obj h)" "registry_ok (hc_registry h)" "\<not> queue_nil h" using assms(1) by (simp_all add: host_ok_def)
  have ord: "range_order (rng env)" using assms(2) by (simp add: env_ok_def)
  obtain q e new where "InsertJob (hc_registry h) (rng env) (n, no_attrs) (Some (queue_obj h)) = Inr (Some q, e)"
    using InsertJob_live [OF live(1,2) ord] by blast
  then show ?thesis
    using assms(3) live(3) InsertJob_quiet [OF live(1,2) ord]
    by (auto simp: insertCustomJobs_def this_queue_def put_queue_def)
qed

lemma bootDetailDevice_quiet:
  assumes "host_ok u h" and "env_ok env" and "bootDetailDevice env j h = Inr h'"
  shows "quiet (queue_obj h) (queue_obj h')"
proof -
  have ins: "quiet (queue_obj h) (queue_obj h'')"
    if "registry_ok reg" "insertCustomJobs env n (h\<lparr>hc_registry := reg, pollarisName := m\<rparr>) = Inr h''" for reg n m h''
    using insertCustomJobs_quiet [OF _ assms(2) that(2), of u] assms(1) that(1) by (simp add: host_ok_def)
  have reg: "PostPollaris env p (hc_registry h) = Inr reg \<Longrightarrow> registry_ok reg" for p reg
    using assms(1,2) unfolding env_ok_def host_ok_def by (metis sum.inject(2))
  let ?p = "GetPollarisByOid env (job_sysoid env j)"
  show ?thesis
  proof (cases "pollarisName h \<noteq> '''' \<or> job_sysoid env j = ''''")
    case True
    then show ?thesis using assms(3) by (cases "pollarisName h = ''''") (simp_all add: bootDetailDevice_def Let_def)
  next
    case False
    then obtain reg' where reg': "PostPollaris env ?p (hc_registry h) = Inr reg'"
      and h': "(case ?p of None \<Rightarrow> Inr (h\<lparr>hc_registry := reg'\<rparr>) | Some p \<Rightarrow>
        if plrs_Name p \<noteq> ''boot03''
        then insertCustomJobs env (plrs_Name p) (h\<lparr>hc_registry := reg', pollarisName := plrs_Name p\<rparr>)
        else Inr (h\<lparr>hc_registry := reg'\<rparr>)) = Inr h'"
      using assms(3) by (auto simp: bootDetailDevice_def Let_def bind_res_eq_Inr)
    then show ?thesis
      using ins [OF reg [OF reg']] by (cases ?p) (auto split: if_splits)
  qed
qed

text \<open>A job that has been run, ready for \<open>jobComplete\<close>: it carries the hash of the last message.\<close>

definition run_ok :: "'c host_collector \<Rightarrow> ref \<Rightarrow> bool" where
  "run_ok h r \<longleftrightarrow> (let j = job_at r h; hs = messages (key_of j) (sent h) in
     (JobName j \<in> {''ipAddress'', ''deviceStatus''} \<longrightarrow> ErrorCount j = 0) \<and>
     (Error j \<noteq> '''' \<longleftrightarrow> ErrorCount j \<noteq> 0) \<and>
     (job_on j \<and> \<not> Always j \<longrightarrow> no_repeats hs \<and> LastResultHash j = latest hs))"

lemma messages_snoc:
  "messages K (ms @ [m]) = (if key_of (snd m) = K then messages K ms @ [hashBytes (Result (snd m))] else messages K ms)"
  by (simp add: messages_def)

lemma raise_level_reports:
  "job_on (raise_level j) = job_on j" "Always (raise_level j) = Always j" "ErrorCount (raise_level j) = ErrorCount j"
  "PollarisName (raise_level j) = PollarisName j"
  by (auto simp: raise_level_def job_on_iff split: option.split)

lemma sent_reports:
  assumes "host_ok u h" and "r \<in> set (jobs (queue_obj h))" and "reports_ok {r} h" and "run_ok h r"
    and "Error (job_at r h) = ''''" and "j = (if Always (job_at r h) then job_at r h else raise_level (job_at r h))"
  shows "Always (job_at r h) \<or> result_changed (job_at r h) \<Longrightarrow>
      reports_ok {} ((put_job r j h)\<lparr>sent := sent h @ [(x, j)]\<rparr>)" (is "_ \<Longrightarrow> reports_ok {} ?h'")
    and "\<not> Always (job_at r h) \<and> \<not> result_changed (job_at r h) \<Longrightarrow> reports_ok {} (put_job r j h)"
proof -
  let ?j = "job_at r h" and ?hs = "messages (key_of (job_at r h)) (sent h)"
  have j: "same_job ?j j" "Result j = Result ?j" "Always j = Always ?j" "ErrorCount j = ErrorCount ?j"
    "job_on j = job_on ?j" "LastResultHash j = LastResultHash ?j"
    using assms(6) raise_level_reports [of ?j] by (simp_all add: same_job_def)
  have at: "job_at s (put_job r j h) = (if s = r then j else job_at s h)" for s by (simp add: job_at_def put_job_def)
  have put: "reports_ok {r} (put_job r j h)" by (rule put_job_reports [OF assms(3) j(1)])
  have ec: "ErrorCount ?j = 0" using assms(4,5) by (simp add: run_ok_def Let_def)
  have lh: "no_repeats ?hs \<and> LastResultHash ?j = latest ?hs" if "job_on ?j" "\<not> Always ?j"
    using assms(4) that by (simp add: run_ok_def Let_def)
  have key: "key_of j = key_of ?j" using same_job_key [OF j(1)] .
  show "reports_ok {} (put_job r j h)" if "\<not> Always ?j \<and> \<not> result_changed ?j"
  proof (rule reports_close [OF put])
    have "carried j = LastResultHash ?j"
      using that ec j by (auto simp: carried_def result_changed_def split: if_splits)
    then show "report_ok (put_job r j h) r" using lh key j ec by (simp add: report_ok_def at)
  qed (simp add: assms(2))
  show "reports_ok {} ?h'" if ch: "Always ?j \<or> result_changed ?j"
  proof -
    have inv: "queue_inv (queue_obj h)" using assms(1) by (simp add: host_ok_def queue_live_def)
    have at': "job_at s ?h' = (if s = r then j else job_at s h)" for s by (simp add: job_at_def put_job_def)
    have "sent_known ?h'"
      using put assms(2) by (auto simp: reports_ok_def sent_known_def at at')
    moreover have "report_ok ?h' s" if s: "s \<in> set (jobs (queue_obj h))" "s \<noteq> r" for s
    proof -
      have "key_of (job_at s h) \<noteq> key_of j"
        using queue_key_inj [OF inv s(1) assms(2)] s(2) key by (auto simp: job_at_def)
      moreover have "report_ok h s" using assms(3) s by (simp add: reports_ok_def)
      ultimately show ?thesis using s(2) by (simp add: report_ok_def at' messages_snoc)
    qed
    moreover have "report_ok ?h' r"
    proof -
      have "?hs = [] \<or> hashBytes (Result j) = 0 \<or> hashBytes (Result j) \<noteq> last ?hs" if "job_on ?j" "\<not> Always ?j"
        using lh [OF that] ch that(2) j(2) by (auto simp: result_changed_def latest_def split: if_splits)
      then show ?thesis
        using lh ec j key by (simp add: report_ok_def at' messages_snoc no_repeats_snoc carried_def)
    qed
    ultimately show ?thesis by (auto simp: reports_ok_def)
  qed
qed

lemma jobComplete_reports:
  assumes "host_ok u h" and "env_ok env" and "r \<in> set (jobs (queue_obj h))" and "reports_ok {r} h" and "run_ok h r"
    and "jobComplete env r h = Inr h'"
  shows "reports_ok {} h'"
proof -
  let ?j = "job_at r h"
  have sv: "hc_service h" using assms(1) by (simp add: host_ok_def)
  have jok: "job_ok ?j" by (rule host_ok_job [OF assms(1,3)])
  obtain c where c: "Cadence ?j = Some c" using jok by (rule job_okE)
  show ?thesis
  proof (cases "Error ?j = ''''")
    case False
    let ?i = "?j\<lparr>Cadence := Some (c\<lparr>Current := 0\<rparr>)\<rparr>"
    have h': "h' = put_job r ?i h" using False sv c assms(6) by (simp add: jobComplete_def)
    have at: "job_at r (put_job r ?i h) = ?i" by simp
    have "report_ok (put_job r ?i h) r"
      using assms(5) False c by (auto simp: report_ok_def run_ok_def Let_def carried_def job_on_iff)
    then show ?thesis
      unfolding h' using put_job_reports [OF assms(4), of ?i] assms(3)
      by (intro reports_close [of r]) (simp_all add: same_job_def)
  next
    case True
    let ?i = "if Always ?j then ?j else raise_level ?j"
    let ?h1 = "put_job r ?i h"
    let ?h2 = "?h1\<lparr>sent := sent h @ [(Parser (hc_registry h) (LinksId ?i), ?i)]\<rparr>"
    note rep = sent_reports [OF assms(1,3-5) True refl]
    have ok1: "host_ok u ?h1"
      using put_job_ext [OF assms(1), of r ?i] raise_level_ok [OF jok] jok goes_on_ok by auto
    have ok2: "host_ok u ?h2" using ok1 by (simp add: host_ok_def)
    have "jobComplete env r h = (if \<not> (Always ?j \<or> result_changed ?j) then Inr ?h1
        else if JobName ?i = ''systemMib'' then bootDetailDevice env ?i ?h2 else Inr ?h2)"
      unfolding jobComplete_def using sv True by (simp only: jobHasChange_eq [OF jok] bind_res_Inr Let_def) simp
    then consider (no) "\<not> Always ?j \<and> \<not> result_changed ?j" "h' = ?h1"
      | (yes) "Always ?j \<or> result_changed ?j" "h' = ?h2"
      | (boot) "Always ?j \<or> result_changed ?j" "bootDetailDevice env ?i ?h2 = Inr h'"
      using assms(6) by (metis sum.inject(2))
    then show ?thesis
    proof cases
      case no
      then show ?thesis using rep(2) by simp
    next
      case yes
      then show ?thesis using rep(1) by simp
    next
      case boot
      have "runs u ?h2 (bootDetailDevice env ?i ?h2)" by (rule bootDetailDevice_runs [OF ok2 assms(2)])
      then have "host_ok u h'" using boot(2) by (simp add: goes_on_ok)
      then have inv: "queue_inv (queue_obj h')" by (simp add: host_ok_def queue_live_def)
      show ?thesis
        by (rule quiet_reports [OF bootDetailDevice_quiet [OF ok2 assms(2) boot(2)] inv
              bootDetailDevice_sent [OF boot(2)] rep(1) [OF boot(1)]]) simp
    qed
  qed
qed

section \<open>Boot stages\<close>

lemma boot_pollarises_quiet:
  assumes "queue_live q" and "registry_ok reg" and "range_order ord"
    and "boot_pollarises reg ord cs flt ps (names, Some q) = Inr (names', Some q')"
  shows "quiet q q'"
  using assms(1,4)
proof (induction ps arbitrary: names q)
  case (Cons p ps)
  obtain names1 has where b: "boot_polls cs (plrs_Polling p) (names, False) = (names1, has)" by force
  obtain q1 e new where q1: "InsertJob reg ord (plrs_Name p, no_attrs) (Some q) = Inr (Some q1, e)" "queue_live q1"
    using InsertJob_live [OF Cons.prems(1) assms(2,3)] by blast
  have "quiet q q1" by (rule InsertJob_quiet [OF Cons.prems(1) assms(2,3) q1(1)])
  then show ?case
    using Cons.prems(2) Cons.IH [OF Cons.prems(1)] Cons.IH [OF q1(2)] b q1(1) quiet_trans
    by (auto split: if_splits)
qed simp

lemma newBootState_quiet:
  assumes "queue_live (queue_obj h)" and "registry_ok (hc_registry h)" and "\<not> queue_nil h"
    and "env_ok env" and "newBootState env stage h = Inr (bs, h')"
  shows "quiet (queue_obj h) (queue_obj h')"
proof -
  have ord: "range_order (rng env)" using assms(4) by (simp add: env_ok_def)
  have sv: "hc_service h" using assms(5) by (simp add: newBootState_def split: if_splits)
  obtain name where name: "go_nth BootStages (int stage) = Inr name"
    using assms(5) sv by (auto simp: newBootState_def bind_res_eq_Inr)
  note run = assms(5) [unfolded newBootState_def]
  show ?thesis
  proof (cases "PollarisByGroup (hc_registry h) (name, no_attrs)")
    case None
    then show ?thesis using run sv name by simp
  next
    case (Some ps)
    obtain cs where cs: "collectors h = Some cs" using run sv name Some by (cases "collectors h") simp_all
    obtain names q new where "boot_pollarises (hc_registry h) (rng env) cs (links_filter (hc_target h) ps) ps
        ([], Some (queue_obj h)) = Inr (names, Some q)"
      using boot_pollarises_ok [OF assms(1,2) ord] by blast
    moreover from this have "quiet (queue_obj h) q" by (rule boot_pollarises_quiet [OF assms(1,2) ord])
    ultimately show ?thesis using run sv name Some cs assms(3) by (auto simp: this_queue_def put_queue_def)
  qed
qed

lemma boot_advance_quiet:
  assumes "host_ok u h" and "env_ok env" and "currentBootStage h < 5" and "boot_advance env h = Inr h'"
  shows "quiet (queue_obj h) (queue_obj h') \<and> sent h' = sent h"
  using assms
proof (induction "5 - currentBootStage h" arbitrary: h rule: less_induct)
  case less
  let ?cur = "currentBootStage h"
  obtain bs where bs: "bootStages h ! ?cur = Some bs" using less.prems(1,3) by (auto simp: host_ok_def)
  have len: "length (bootStages h) = 5" using less.prems(1) by (simp add: host_ok_def)
  note step = less.prems(4) [unfolded boot_advance_at [OF less.prems(3) len bs, of env]]
  show ?case
  proof (cases "isComplete bs \<and> Suc ?cur < 5")
    case False
    then show ?thesis using step by (auto simp: Let_def split: if_splits)
  next
    case True
    let ?h1 = "h\<lparr>currentBootStage := Suc ?cur\<rparr>"
    obtain b q new where b: "newBootState env (Suc ?cur) ?h1 = Inr (b, ?h1\<lparr>queue_obj := q\<rparr>)" "queue_live q"
      using newBootState_ok [of ?h1 env "Suc ?cur"] less.prems(1,2) True by (auto simp: host_ok_def)
    let ?h2 = "?h1\<lparr>queue_obj := q, bootStages := (bootStages h)[Suc ?cur := Some b]\<rparr>"
    have ok: "host_ok u ?h2"
      using less.prems(1) b(2) True by (auto simp: host_ok_def nth_list_update le_Suc_eq)
    have "quiet (queue_obj h) q"
      using newBootState_quiet [OF _ _ _ less.prems(2) b(1)] less.prems(1) by (simp add: host_ok_def)
    moreover have "boot_advance env ?h2 = Inr h'" using step True b(1) by (simp add: Let_def)
    then have "quiet (queue_obj ?h2) (queue_obj h') \<and> sent h' = sent ?h2"
      using True less.prems(2) ok by (intro less.hyps) (simp_all, linarith?)
    ultimately show ?thesis using quiet_trans by auto
  qed
qed


lemma boot_progress_quiet:
  assumes "host_ok u h" and "env_ok env" and "boot_progress env r h = Inr h'"
  shows "quiet (queue_obj h) (queue_obj h') \<and> sent h' = sent h"
proof (cases "currentBootStage h < 5")
  case True
  then obtain bs where bs: "bootStages h ! currentBootStage h = Some bs" using assms(1) by (auto simp: host_ok_def)
  let ?h = "h\<lparr>bootStages := (bootStages h)[currentBootStage h := Some (BootState_jobComplete (job_at r h) bs)]\<rparr>"
  have ok: "host_ok u ?h" using assms(1) True by (auto simp: host_ok_def nth_list_update)
  have "boot_advance env ?h = Inr h'" using assms(1,3) True bs by (simp add: boot_progress_def host_ok_def)
  then show ?thesis using boot_advance_quiet [OF ok assms(2)] True by simp
next
  case False
  then show ?thesis using assms(1,3) by (simp add: boot_progress_def host_ok_def)
qed

section \<open>Rounds\<close>

text \<open>\<open>Exec\<close> counts an error exactly when it reports one; it is handed jobs without an error.\<close>

definition tick_reports :: "('c \<Rightarrow> bool) \<Rightarrow> 'c tick \<Rightarrow> bool" where
  "tick_reports u k \<longleftrightarrow> tick_ok u k \<and> (\<forall>c j c' j'. u c \<and> Error j = '''' \<and> tick_exec k c j = Inr (c', j') \<longrightarrow>
     (Error j' \<noteq> '''' \<longleftrightarrow> ErrorCount j' \<noteq> 0))"

lemma completed_reports:
  assumes "host_ok u h" and "env_ok env" and "r \<in> set (jobs (queue_obj h))" and "reports_ok {r} h" and "run_ok h r"
    and "bind_res (jobComplete env r h) (boot_progress env r) = Inr h'"
  shows "reports_ok {} h'"
proof -
  obtain h1 where h1: "jobComplete env r h = Inr h1" "boot_progress env r h1 = Inr h'"
    using assms(6) by (auto simp: bind_res_eq_Inr)
  have ok1: "host_ok u h1"
    using jobComplete_runs [OF assms(1,2) host_ok_job [OF assms(1,3)]] h1(1) by (simp add: goes_on_ok)
  have "host_ok u h'" using boot_progress_runs [OF ok1 assms(2)] h1(2) by (metis goes_on_ok runs_Inr)
  then have inv: "queue_inv (queue_obj h')" by (simp add: host_ok_def queue_live_def)
  have q: "quiet (queue_obj h1) (queue_obj h')" "sent h' = sent h1" using boot_progress_quiet [OF ok1 assms(2) h1(2)] by simp_all
  show ?thesis
    by (rule quiet_reports [OF q(1) inv q(2) jobComplete_reports [OF assms(1-5) h1(1)]]) simp
qed

text \<open>A job that was started and then run with the outcome \<open>j\<close>.\<close>

lemma run_job_ok:
  assumes "report_ok h r" and "exec_frame (MarkStart t1 (job_at r h)) j"
    and "Error j \<noteq> '''' \<longleftrightarrow> ErrorCount j \<noteq> 0"
    and "JobName j \<in> {''ipAddress'', ''deviceStatus''} \<Longrightarrow> ErrorCount j = ErrorCount (job_at r h)"
    and "job_at r h' = MarkEnded t2 j" and "sent h' = sent h"
  shows "run_ok h' r"
proof -
  let ?j = "MarkEnded t2 j" and ?o = "job_at r h"
  have s: "LastResultHash (MarkStart t1 ?o) = carried ?o" "JobName (MarkStart t1 ?o) = JobName ?o"
    "PollarisName (MarkStart t1 ?o) = PollarisName ?o" "Always (MarkStart t1 ?o) = Always ?o"
    "Cadence (MarkStart t1 ?o) = Cadence ?o"
    by (simp_all add: MarkStart_def Let_def carried_def)
  have e: "LastResultHash ?j = carried ?o" "JobName ?j = JobName ?o" "PollarisName ?j = PollarisName ?o"
    "Always ?j = Always ?o" "Cadence ?j = Cadence ?o" "Error ?j = Error j" "ErrorCount ?j = ErrorCount j" "JobName j = JobName ?o"
    using exec_frameD [OF assms(2)] s by (simp_all add: MarkEnded_def)
  show ?thesis
    unfolding run_ok_def Let_def assms(5,6)
    using assms(1,3,4) e by (auto simp: report_ok_def job_on_iff)
qed

lemma job_at_collectors [simp]: "job_at r (h\<lparr>collectors := cs\<rparr>) = job_at r h"
  by (simp add: job_at_def)

lemma collect_job_reports:
  assumes "host_ok u h" and "running h" and "env_ok env" and "tick_reports u k" and "reports_ok {} h"
    and "r \<in> set (jobs (queue_obj h))" and "collect_job env k r h = Inr h'"
  shows "reports_ok {} h'"
proof (cases "Poll (hc_registry h) (PollarisName (job_at r h)) (JobName (job_at r h))")
  case None
  then show ?thesis using assms(5,7) by (simp add: collect_job_def collect_start_def)
next
  case poll: (Some pl)
  let ?s = "MarkStart (tick_start k) (job_at r h)"
  let ?h1 = "put_job r ?s h"
  have rep: "report_ok h r" and but: "reports_ok {r} h" using assms(5,6) by (simp_all add: reports_ok_def)
  have s: "same_job (job_at r h) ?s" "Cadence ?s = Cadence (job_at r h)" "JobName ?s = JobName (job_at r h)"
    "ErrorCount ?s = ErrorCount (job_at r h)" "Error ?s = ''''"
    by (simp_all add: MarkStart_def Let_def same_job_def)
  have jok: "job_ok (job_at r h)" by (rule host_ok_job [OF assms(1,6)])
  have same: "same_job (job_at r h) (MarkEnded t j) \<and> job_ok (MarkEnded t j)" if "exec_frame ?s j" for t j
    using exec_frameD(1-3) [OF that] s jok by (simp add: MarkEnded_def same_job_def job_ok_def)
  have ok1: "host_ok u ?h1"
    using put_job_ext [OF assms(1) s(1)] MarkStart_ok(1) [OF jok] goes_on_ok by blast
  obtain cs where cs: "collectors h = Some cs" "\<forall>e \<in> set cs. u (snd e)" using assms(1) by (auto simp: host_ok_def)
  show ?thesis
  proof (cases "map_of (staticJobs :: (string \<times> ('a host_env \<Rightarrow> 'a host_collector \<Rightarrow> cjob \<Rightarrow> cjob res)) list)
      (JobName ?s)")
    case stat: (Some sjob)
    have nm: "JobName ?s \<in> {''ipAddress'', ''deviceStatus''}"
      using stat by (auto simp: staticJobs_def split: if_splits)
    obtain j where j: "sjob env ?h1 ?s = Inr j" "exec_frame ?s j" using static_do_ok [OF ok1 stat] by blast
    note ec = static_do_result [OF stat j(1)]
    let ?h2 = "put_job r (MarkEnded (tick_end k) j) h"
    have put: "put_job r (MarkEnded (tick_end k) j) ?h1 = ?h2" by (simp add: put_job_def set_cell_def)
    have ok2: "host_ok u ?h2"
      using put_job_ext [OF assms(1), of r] same [OF j(2)] goes_on_ok by blast
    have run: "run_ok ?h2 r"
    proof (rule run_job_ok [OF rep j(2)])
      show "Error j \<noteq> '''' \<longleftrightarrow> ErrorCount j \<noteq> 0" using ec s rep nm by (simp add: report_ok_def) blast
    qed (use ec s in simp_all)
    have "bind_res (jobComplete env r ?h2) (boot_progress env r) = Inr h'"
      using assms(7) poll stat j(1) put by (auto simp: collect_job_def collect_start_def Let_def bind_res_eq_Inr)
    then show ?thesis
      using completed_reports [OF ok2 assms(3) _ _ run] put_job_reports [OF but] same [OF j(2)] assms(6) by simp
  next
    case stat: None
    have nm: "JobName ?s \<notin> {''ipAddress'', ''deviceStatus''}"
      using stat by (auto simp: staticJobs_def split: if_splits)
    show ?thesis
    proof (cases "map_of cs (poll_Protocol pl)")
      case (Some x)
      have "u x" using cs(2) map_of_SomeD [OF Some] by auto
      then obtain x' j where ex: "tick_exec k x ?s = Inr (x', j)" "u x'" "exec_frame ?s j"
        using assms(4) unfolding tick_reports_def tick_ok_def exec_ok_def by blast
      have err: "Error j \<noteq> '''' \<longleftrightarrow> ErrorCount j \<noteq> 0"
        using assms(4) ex(1) \<open>u x\<close> s(5) unfolding tick_reports_def by blast
      let ?h2 = "put_job r (MarkEnded (tick_end k) j) (h\<lparr>collectors := Some (AList.update (poll_Protocol pl) x' cs)\<rparr>)"
      have put: "?h2 = (put_job r (MarkEnded (tick_end k) j) h)\<lparr>collectors := Some (AList.update (poll_Protocol pl) x' cs)\<rparr>"
        "put_job r (MarkEnded (tick_end k) j) (?h1\<lparr>collectors := Some (AList.update (poll_Protocol pl) x' cs)\<rparr>) = ?h2"
        by (simp_all add: put_job_def set_cell_def)
      have ok0: "host_ok u (put_job r (MarkEnded (tick_end k) j) h)"
        using put_job_ext [OF assms(1), of r] same [OF ex(3)] goes_on_ok by blast
      have ok2: "host_ok u ?h2"
        unfolding put(1) using ok0 set_update_snd [OF cs(2) ex(2)] by (simp add: host_ok_def)
      have "reports_ok {r} (put_job r (MarkEnded (tick_end k) j) h)"
        using put_job_reports [OF but] same [OF ex(3)] by blast
      then have rep2: "reports_ok {r} ?h2"
        unfolding put(1) by (simp add: reports_ok_def sent_known_def report_ok_def)
      have nmj: "JobName j \<notin> {''ipAddress'', ''deviceStatus''}" using nm exec_frameD(2) [OF ex(3)] by simp
      have run: "run_ok ?h2 r" by (rule run_job_ok [OF rep ex(3) err]) (use nmj in simp_all)
      have "collect_finish env (tick_end k) r (poll_Protocol pl) x' j ?h1 = Inr h'"
        using assms(7) poll stat cs(1) Some ex(1) by (simp add: collect_job_def collect_start_def Let_def)
      then have "bind_res (jobComplete env r ?h2) (boot_progress env r) = Inr h'"
        using put(2) cs(1) assms(2) by (simp add: collect_finish_def Let_def)
      then show ?thesis using completed_reports [OF ok2 assms(3) _ rep2 run] assms(6) by simp
    next
      case None
      obtain c where c: "Cadence (job_at r h) = Some c" using jok by (rule job_okE)
      let ?d = "(MarkEnded (tick_end k) ?s)\<lparr>Cadence := Some (c\<lparr>Enabled := False\<rparr>)\<rparr>"
      have h': "h' = put_job r ?d h"
        using assms(7) poll stat cs(1) None c s(2)
        by (simp add: collect_job_def collect_start_def Let_def DisableJob_def put_job_def set_cell_def job_at_def MarkEnded_def)
      have "reports_ok {r} h'" unfolding h' by (rule put_job_reports [OF but]) (simp add: s(1) same_job_def MarkEnded_def MarkStart_def Let_def)
      moreover have "report_ok h' r"
        unfolding h' using nm by (auto simp: report_ok_def job_on_iff MarkEnded_def)
      ultimately show ?thesis using assms(6) h' by (intro reports_close [of r]) simp_all
    qed
  qed
qed

lemma reports_frame:
  "queue_obj h' = queue_obj h \<Longrightarrow> sent h' = sent h \<Longrightarrow> reports_ok A h' = reports_ok A h"
  by (simp add: reports_ok_def sent_known_def report_ok_def job_at_def)

lemma collect_round_reports:
  assumes "host_ok u h" and "running h" and "env_ok env" and "tick_reports u k" and "reports_ok {} h"
    and "collect_round smooth env k h = Inr h'"
  shows "reports_ok {} h'"
proof -
  let ?q = "queue_obj h" and ?d = "due smooth (tick_draw k) (tick_now k) (queue_obj h)"
  have live: "queue_inv ?q" "\<not> shutdown ?q" "\<not> queue_nil h" using assms(1) by (simp_all add: host_ok_def queue_live_def)
  have rs: "\<forall>r. random_source (tick_draw k r)" using assms(4) by (simp add: tick_reports_def tick_ok_def)
  obtain w q1 where pop: "Pop smooth (tick_draw k) (tick_now k) (Some ?q) = Inr ((find ?d (jobs ?q), w), Some q1)"
    "queue_inv q1" "\<not> shutdown q1"
    "jobs q1 = (case find ?d (jobs ?q) of None \<Rightarrow> jobs ?q | Some r \<Rightarrow> remove1 r (jobs ?q) @ [r])"
    by (rule Pop_meets [OF live(1,2) rs, where smooth = smooth and now = "tick_now k"])
  have set1: "set (jobs q1) = set (jobs ?q)"
  proof (cases "find ?d (jobs ?q)")
    case (Some r)
    then have "r \<in> set (jobs ?q)" by (auto simp: find_Some_iff)
    then show ?thesis using pop(4) Some queue_invD(1) [OF live(1)] by auto
  qed (use pop(4) in simp)
  have "quiet ?q q1" using Pop_calm [OF live(1) rs pop(1)] set1 by (simp add: quiet_def)
  let ?h1 = "h\<lparr>queue_obj := q1\<rparr>"
  have rep1: "reports_ok {} ?h1"
    by (rule quiet_reports [OF _ _ _ assms(5)]) (use \<open>quiet ?q q1\<close> pop(2) in simp_all)
  have ok1: "host_ok u ?h1"
    using goes_on_ok [OF host_ok_queue [OF assms(1), of q1]] pop(2,3) set1 by (simp add: queue_live_def)
  show ?thesis
  proof (cases "find ?d (jobs ?q)")
    case (Some r)
    then have "r \<in> set (jobs (queue_obj ?h1))" using set1 by (auto simp: find_Some_iff)
    moreover have "collect_job env k r ?h1 = Inr h'"
      using assms(6) pop(1) Some live(3) by (simp add: collect_round_def this_queue_def put_queue_def Let_def)
    ultimately show ?thesis using collect_job_reports [OF ok1 _ assms(3,4) rep1] assms(2) by simp
  next
    case None
    have "\<exists>q2. quiet q1 q2 \<and> queue_inv q2 \<and> h' = ?h1\<lparr>queue_obj := q2\<rparr> \<or> h' = ?h1"
    proof (cases "admissionCh h \<and> tick_woken k")
      case True
      obtain q2 where q2: "expedite_loop (jobs q1) q1 = Inr q2" "queue_inv q2"
        by (rule expedite_loop_meets [OF pop(2) subset_refl])
      then have "h' = ?h1\<lparr>queue_obj := q2\<rparr>"
        using assms(6) pop(1,3) None live(3) True
        by (simp add: collect_round_def this_queue_def put_queue_def Let_def Expedite_def)
      then show ?thesis using q2 expedite_loop_quiet by blast
    next
      case False
      then show ?thesis
        using assms(6) pop(1) None live(3) by (auto simp: collect_round_def this_queue_def put_queue_def Let_def)
    qed
    then obtain q2 where "quiet q1 q2 \<and> queue_inv q2 \<and> h' = ?h1\<lparr>queue_obj := q2\<rparr> \<or> h' = ?h1" by blast
    then show ?thesis using rep1 quiet_reports [OF _ _ _ rep1, of h'] by auto
  qed
qed

lemma collect_reports:
  "host_ok u h \<Longrightarrow> running h \<Longrightarrow> env_ok env \<Longrightarrow> \<forall>k \<in> set ks. tick_reports u k \<Longrightarrow> reports_ok {} h \<Longrightarrow>
   \<exists>h'. collect smooth env ks h = Inr h' \<and> reports_ok {} h'"
proof (induction ks arbitrary: h)
  case (Cons k ks)
  have k: "tick_reports u k" "tick_ok u k" using Cons.prems(4) by (simp_all add: tick_reports_def)
  obtain h1 where h1: "collect_round smooth env k h = Inr h1" "goes_on u h h1"
    using collect_round_runs [OF Cons.prems(1,3) k(2)] by (auto simp: runs_def)
  have "host_ok u h1" "running h1" using h1(2) Cons.prems(2) by (simp_all add: goes_on_def)
  then have "\<exists>h'. collect smooth env ks h1 = Inr h' \<and> reports_ok {} h'"
    using Cons.IH [of h1] Cons.prems collect_round_reports [OF Cons.prems(1-3) k(1) Cons.prems(5) h1(1)] by simp
  then show ?case using Cons.prems(2) h1(1) by simp
qed simp

lemma start_reports:
  fixes env :: "'c host_env"
  assumes "env_ok env" and "registry_ok reg" and "start env (newHostCollector reg (Some t) hid) = Inr h"
    and "host_ok u h"
  shows "reports_ok {} h"
proof -
  let ?n = "newHostCollector reg (Some t) hid :: 'c host_collector"
  obtain cs bs h2 where b: "newBootState env 0 (?n\<lparr>collectors := Some cs\<rparr>) = Inr (bs, h2)"
    and h: "queue_obj h = queue_obj h2" "sent h = sent h2"
    using assms(3) by (auto simp: start_def Let_def bind_res_eq_Inr split: if_splits prod.splits)
  have "reports_ok {} (?n\<lparr>collectors := Some cs\<rparr>)"
    by (simp add: reports_ok_def sent_known_def newHostCollector_def NewJobsQueue_def)
  moreover have "quiet (queue_obj (?n\<lparr>collectors := Some cs\<rparr>)) (queue_obj h)"
    unfolding h
    by (rule newBootState_quiet [OF _ _ _ assms(1) b])
      (use NewJobsQueue_inv [of "Some t" hid] assms(2) in \<open>simp_all add: newHostCollector_def queue_live_def NewJobsQueue_def\<close>)
  moreover have "sent h = sent (?n\<lparr>collectors := Some cs\<rparr>)"
    using newBootState_queue [OF b] h(2) by auto
  ultimately show ?thesis
    using quiet_reports [of "?n\<lparr>collectors := Some cs\<rparr>" h "{}"] assms(4) by (simp add: host_ok_def queue_live_def)
qed


lemma demo_run:
  "(case start demo_env (newHostCollector demo_registry (Some demo_target) ''10.0.0.1'') of Inl e \<Rightarrow> None
     | Inr h0 \<Rightarrow> (case collect False demo_env [demo_tick 1700000000 [1, 2, 3], demo_tick 1700000100 [4]] h0 of
          Inl e \<Rightarrow> None
        | Inr h \<Rightarrow> Some (map (\<lambda>r. let j = job_at r h in (key_of j, job_on j, Always j, ErrorCount j, Result j))
            (jobs (queue_obj h))))) =
   Some [(''mib2systemMib'', True, False, 0, Some [1, 2, 3]), (''mib2ifTable'', True, False, 0, Some [4])]"
  by code_simp


end
