(* ===== verification/Table_Values.thy ===== *)
theory Table_Values
  imports Pollaris_Types
begin

text \<open>
  \<open>protocols/Utils.go\<close>: cells of the result tables and the keys of a result map. The rows of a table
  are made by \<open>SetValue\<close>, which always gives them a cell map; \<open>None\<close> stands for a nil map.
\<close>

record ctable =
  Rows :: "(int \<times> (int \<times> bytes option) list) list option"
  Columns :: "(int \<times> string) list option"

type_synonym cmap = "(string \<times> bytes) list"

section \<open>Operations\<close>

definition set_column :: "int \<Rightarrow> string \<Rightarrow> bytes option \<Rightarrow> ctable \<Rightarrow> ctable res" where
  "set_column col colName v tbl =
     (let cols = (case Columns tbl of None \<Rightarrow> [] | Some cols \<Rightarrow> cols);
          name = (case map_of cols col of None \<Rightarrow> '''' | Some n \<Rightarrow> n)
      in if v \<noteq> None \<and> name = '''' then
           (case Columns tbl of
              None \<Rightarrow> Inl NilMapWrite
            | Some cols \<Rightarrow> Inr (tbl\<lparr>Columns := Some (AList.update col colName cols)\<rparr>))
         else Inr tbl)"

definition put_cell :: "int \<Rightarrow> int \<Rightarrow> bytes option \<Rightarrow> ctable \<Rightarrow> ctable" where
  "put_cell row col v tbl =
     (let rows = (case Rows tbl of None \<Rightarrow> [] | Some rows \<Rightarrow> rows);
          rowData = (case map_of rows row of None \<Rightarrow> [] | Some d \<Rightarrow> d)
      in tbl\<lparr>Rows := Some (AList.update row (AList.update col v rowData) rows)\<rparr>)"

definition SetValue :: "int \<Rightarrow> int \<Rightarrow> string \<Rightarrow> bytes option \<Rightarrow> ctable option \<Rightarrow> ctable option res" where
  "SetValue row col colName v tbl =
     (case tbl of
        None \<Rightarrow> Inr None
      | Some tbl \<Rightarrow> bind_res (set_column col colName v (put_cell row col v tbl)) (\<lambda>tbl. Inr (Some tbl)))"

definition Keys :: "((string \<times> bytes) list \<Rightarrow> (string \<times> bytes) list) \<Rightarrow> cmap option \<Rightarrow> string list" where
  "Keys ord m = (case m of None \<Rightarrow> [] | Some data \<Rightarrow> map fst (ord data))"

section \<open>Laws\<close>

definition cell_at :: "ctable \<Rightarrow> int \<Rightarrow> int \<Rightarrow> bytes option option" where
  "cell_at tbl r c =
     (case Rows tbl of
        None \<Rightarrow> None
      | Some rows \<Rightarrow> (case map_of rows r of None \<Rightarrow> None | Some d \<Rightarrow> map_of d c))"

definition column_at :: "ctable \<Rightarrow> int \<Rightarrow> string" where
  "column_at tbl c =
     (case Columns tbl of
        None \<Rightarrow> ''''
      | Some cols \<Rightarrow> (case map_of cols c of None \<Rightarrow> '''' | Some n \<Rightarrow> n))"

lemma cell_put:
  "cell_at (put_cell row col v tbl) r c = (if r = row \<and> c = col then Some v else cell_at tbl r c)"
  by (auto simp: cell_at_def put_cell_def Let_def update_conv' split: option.split)

lemma column_put [simp]: "Columns (put_cell row col v tbl) = Columns tbl"
  by (simp add: put_cell_def Let_def)

text \<open>
  Writing a cell into a table that has a column map: exactly that cell changes; the name of its column
  is set unless the column has one already or the value is nil.
\<close>

lemma SetValue_meets:
  assumes "Columns tbl \<noteq> None"
  obtains tbl' where "SetValue row col colName v (Some tbl) = Inr (Some tbl')" and "Columns tbl' \<noteq> None"
    and "\<forall>r c. cell_at tbl' r c = (if r = row \<and> c = col then Some v else cell_at tbl r c)"
    and "\<forall>c. column_at tbl' c = (if c = col \<and> v \<noteq> None \<and> column_at tbl col = '''' then colName else column_at tbl c)"
proof -
  obtain cols where cols: "Columns tbl = Some cols" using assms by blast
  let ?t = "put_cell row col v tbl"
  let ?set = "v \<noteq> None \<and> column_at tbl col = ''''"
  let ?t' = "if ?set then ?t\<lparr>Columns := Some (AList.update col colName cols)\<rparr> else ?t"
  have "SetValue row col colName v (Some tbl) = Inr (Some ?t')"
    by (simp add: SetValue_def set_column_def Let_def cols column_at_def)
  moreover have "Columns ?t' \<noteq> None" by (simp add: cols)
  moreover have "cell_at ?t' r c = cell_at ?t r c" for r c by (simp add: cell_at_def)
  then have "\<forall>r c. cell_at ?t' r c = (if r = row \<and> c = col then Some v else cell_at tbl r c)"
    by (simp only: cell_put) blast
  moreover have "\<forall>c. column_at ?t' c = (if c = col \<and> ?set then colName else column_at tbl c)"
    by (simp add: column_at_def cols update_conv')
  ultimately show ?thesis using that by blast
qed

lemma SetValue_nil_columns: "Columns tbl = None \<Longrightarrow> SetValue row col colName (Some v) (Some tbl) = Inl NilMapWrite"
  by (simp add: SetValue_def set_column_def)

lemma Keys_perm:
  assumes "range_order ord" and "go_map m"
  shows "set (Keys ord (Some m)) = dom (map_of m) \<and> distinct (Keys ord (Some m))"
proof -
  have "mset (map fst (ord m)) = mset (map fst m)" using assms(1) by (simp add: range_order_def mset_map)
  then have "distinct (map fst (ord m))" using assms(2) mset_eq_imp_distinct_iff by (metis go_map_def)
  then show ?thesis
    by (simp add: Keys_def dom_map_of_conv_image_fst range_order_set [OF assms(1)])
qed

end
