(* ===== verification/Go_Strings.thy ===== *)
theory Go_Strings
  imports Go_Prelude "HOL-Library.Sublist" "HOL-Library.Char_ord" "HOL-Library.List_Lexorder"
begin

text \<open>
  What the collectors use of Go's package \<open>strings\<close> and of decimal formatting, on strings as lists of
  bytes: searching, splitting and joining, trimming (of the byte sequences of Unicode white space),
  case conversion (of ASCII letters; other bytes stay), replacing, and the decimal text of integers.
\<close>

section \<open>Searching\<close>

fun Index :: "string \<Rightarrow> string \<Rightarrow> nat option" where
  "Index [] sub = (if sub = [] then Some 0 else None)"
| "Index (c # cs) sub = (if prefix sub (c # cs) then Some 0 else map_option Suc (Index cs sub))"

lemma Index_split:
  "Index s sub = Some i \<Longrightarrow> s = take i s @ sub @ drop (i + length sub) s \<and> i + length sub \<le> length s"
proof (induction s arbitrary: i)
  case Nil
  then show ?case by (simp split: if_splits)
next
  case (Cons c cs)
  show ?case
  proof (cases "prefix sub (c # cs)")
    case True
    then obtain t where "c # cs = sub @ t" by (auto simp: prefix_def)
    moreover have "i = 0" using Cons.prems True by simp
    ultimately show ?thesis by simp
  next
    case False
    then obtain k where k: "Index cs sub = Some k" "i = Suc k" using Cons.prems by auto
    then show ?thesis using Cons.IH by simp
  qed
qed

lemma Index_append: "\<exists>i. Index (xs @ sub @ ys) sub = Some i \<and> i \<le> length xs"
proof (induction xs)
  case Nil
  show ?case
  proof (cases "sub @ ys")
    case (Cons a as)
    then have "prefix sub (a # as)" by (metis prefixI)
    then show ?thesis using Cons by simp
  qed simp
next
  case (Cons x xs)
  then obtain i where "Index (xs @ sub @ ys) sub = Some i" "i \<le> length xs" by blast
  then show ?case by simp
qed

lemma Index_char_None: "Index s [c] = None \<longleftrightarrow> c \<notin> set s"
  by (induction s) auto

lemma Index_char: "c \<notin> set xs \<Longrightarrow> Index (xs @ c # ys) [c] = Some (length xs)"
  by (induction xs) auto

definition Contains :: "string \<Rightarrow> string \<Rightarrow> bool" where
  "Contains s sub \<longleftrightarrow> Index s sub \<noteq> None"

definition LastIndex_char :: "string \<Rightarrow> char \<Rightarrow> nat option" where
  "LastIndex_char s c =
     (if c \<in> set s then Some (length s - 1 - length (takeWhile (\<lambda>x. x \<noteq> c) (rev s))) else None)"

lemma LastIndex_char_append:
  "c \<notin> set ys \<Longrightarrow> LastIndex_char (xs @ c # ys) c = Some (length xs)"
  by (simp add: LastIndex_char_def takeWhile_append)

lemma LastIndex_char_None: "LastIndex_char s c = None \<longleftrightarrow> c \<notin> set s"
  by (simp add: LastIndex_char_def)

section \<open>Splitting, joining, replacing, counting\<close>

function Split :: "string \<Rightarrow> string \<Rightarrow> string list" where
  "Split s sep =
     (if sep = [] then map (\<lambda>c. [c]) s
      else case Index s sep of
        None \<Rightarrow> [s]
      | Some i \<Rightarrow> take i s # Split (drop (i + length sep) s) sep)"
  by auto

termination
proof (relation "measure (\<lambda>(s, sep). length s)")
  fix s sep :: string and i :: nat
  assume "sep \<noteq> []" and "Index s sep = Some i"
  then show "((drop (i + length sep) s, sep), (s, sep)) \<in> measure (\<lambda>(s, sep). length s)"
    using Index_split [of s sep i] by (cases s) auto
qed simp

declare Split.simps [simp del]

definition SplitN2 :: "string \<Rightarrow> string \<Rightarrow> string list" where
  "SplitN2 s sep =
     (case Index s sep of None \<Rightarrow> [s] | Some i \<Rightarrow> [take i s, drop (i + length sep) s])"

fun Join :: "string \<Rightarrow> string list \<Rightarrow> string" where
  "Join sep [] = []"
| "Join sep [s] = s"
| "Join sep (s # t # ts) = s @ sep @ Join sep (t # ts)"

lemma Split_not_Nil [simp]: "sep \<noteq> [] \<Longrightarrow> Split s sep \<noteq> []"
  by (subst Split.simps) (simp split: option.split)

lemma Join_Cons: "ts \<noteq> [] \<Longrightarrow> Join sep (s # ts) = s @ sep @ Join sep ts"
  by (cases ts) auto

lemma Join_Split: "sep \<noteq> [] \<Longrightarrow> Join sep (Split s sep) = s"
proof (induction "length s" arbitrary: s rule: less_induct)
  case less
  show ?case
  proof (cases "Index s sep")
    case None
    then show ?thesis using less.prems by (simp add: Split.simps)
  next
    case (Some i)
    note sp = Index_split [OF Some]
    let ?t = "drop (i + length sep) s"
    have "length ?t < length s" using less.prems sp by (cases s) auto
    then have "Join sep (Split ?t sep) = ?t" by (rule less.hyps [OF _ less.prems])
    then show ?thesis
      using Some sp less.prems by (subst Split.simps) (simp add: Join_Cons)
  qed
qed

lemma Split_char_single: "c \<notin> set s \<Longrightarrow> Split s [c] = [s]"
  by (subst Split.simps) (simp add: Index_char_None [THEN iffD2])

lemma Split_char_Cons: "c \<notin> set s \<Longrightarrow> Split (s @ c # t) [c] = s # Split t [c]"
  by (subst Split.simps) (simp add: Index_char)

lemma Split_Join_char:
  "ss \<noteq> [] \<Longrightarrow> \<forall>s \<in> set ss. c \<notin> set s \<Longrightarrow> Split (Join [c] ss) [c] = ss"
proof (induction ss)
  case (Cons s ss)
  then show ?case
    by (cases ss) (auto simp: Split_char_single Split_char_Cons)
qed simp

lemma Split_char_parts:
  "p \<in> set (Split s [c]) \<Longrightarrow> c \<notin> set p"
proof (induction "length s" arbitrary: s rule: less_induct)
  case less
  show ?case
  proof (cases "Index s [c]")
    case None
    then have "c \<notin> set s" by (simp add: Index_char_None)
    then show ?thesis using less.prems by (simp add: Split_char_single)
  next
    case (Some i)
    have "c \<in> set s" using Some Index_char_None [of s c] by auto
    then obtain xs ys where s: "s = xs @ c # ys" "c \<notin> set xs" using split_list_first by metis
    then have "p = xs \<or> p \<in> set (Split ys [c])" using less.prems by (simp add: Split_char_Cons)
    then show ?thesis using less.hyps [of ys] s by auto
  qed
qed

definition HasPrefix :: "string \<Rightarrow> string \<Rightarrow> bool" where
  "HasPrefix s p \<longleftrightarrow> take (length p) s = p"

lemma HasPrefix_append [simp]: "HasPrefix (p @ s) p"
  by (simp add: HasPrefix_def)

function ReplaceAll :: "string \<Rightarrow> string \<Rightarrow> string \<Rightarrow> string" where
  "ReplaceAll s old new =
     (if old = [] then s
      else case Index s old of
        None \<Rightarrow> s
      | Some i \<Rightarrow> take i s @ new @ ReplaceAll (drop (i + length old) s) old new)"
  by auto

termination
proof (relation "measure (\<lambda>(s, old, new). length s)")
  fix s old new :: string and i :: nat
  assume "old \<noteq> []" and "Index s old = Some i"
  then show "((drop (i + length old) s, old, new), (s, old, new)) \<in> measure (\<lambda>(s, old, new). length s)"
    using Index_split [of s old i] by (cases s) auto
qed simp

declare ReplaceAll.simps [simp del]

function Count :: "string \<Rightarrow> string \<Rightarrow> nat" where
  "Count s sub =
     (if sub = [] then Suc (length s)
      else case Index s sub of
        None \<Rightarrow> 0
      | Some i \<Rightarrow> Suc (Count (drop (i + length sub) s) sub))"
  by auto

termination
proof (relation "measure (\<lambda>(s, sub). length s)")
  fix s sub :: string and i :: nat
  assume "sub \<noteq> []" and "Index s sub = Some i"
  then show "((drop (i + length sub) s, sub), (s, sub)) \<in> measure (\<lambda>(s, sub). length s)"
    using Index_split [of s sub i] by (cases s) auto
qed simp

declare Count.simps [simp del]

lemma Count_pos: "0 < Count s sub \<longleftrightarrow> Contains s sub"
proof (cases "sub = []")
  case True
  then show ?thesis by (subst Count.simps) (cases s; simp add: Contains_def)
next
  case False
  then show ?thesis by (subst Count.simps) (simp add: Contains_def split: option.split)
qed

section \<open>Trimming\<close>

text \<open>The UTF-8 sequences of the white space that \<open>TrimSpace\<close> removes.\<close>

definition spaces :: "string list" where
  "spaces = map (map char_of)
     ([[9], [10], [11], [12], [13], [32], [0xC2, 0x85], [0xC2, 0xA0], [0xE1, 0x9A, 0x80],
       [0xE2, 0x80, 0xA8], [0xE2, 0x80, 0xA9], [0xE2, 0x80, 0xAF], [0xE2, 0x81, 0x9F], [0xE3, 0x80, 0x80]]
      @ map (\<lambda>k. [0xE2, 0x80, k]) [0x80, 0x81, 0x82, 0x83, 0x84, 0x85, 0x86, 0x87, 0x88, 0x89, 0x8A :: nat])"

function strip :: "string list \<Rightarrow> string \<Rightarrow> string" where
  "strip ps s =
     (case find (\<lambda>p. p \<noteq> [] \<and> prefix p s) ps of None \<Rightarrow> s | Some p \<Rightarrow> strip ps (drop (length p) s))"
  by auto

termination
  by (relation "measure (\<lambda>(ps, s). length s)") (auto simp: find_Some_iff prefix_def)

declare strip.simps [simp del]

definition TrimSpace :: "string \<Rightarrow> string" where
  "TrimSpace s = rev (strip (map rev spaces) (rev (strip spaces s)))"

definition Trim_char :: "char \<Rightarrow> string \<Rightarrow> string" where
  "Trim_char c s = rev (dropWhile (\<lambda>x. x = c) (rev (dropWhile (\<lambda>x. x = c) s)))"

definition clean :: "string list \<Rightarrow> string \<Rightarrow> bool" where
  "clean ps s \<longleftrightarrow> (\<forall>p \<in> set ps. p \<noteq> [] \<longrightarrow> \<not> prefix p s)"

lemma strip_clean: "clean ps (strip ps s)"
proof (induction ps s rule: strip.induct)
  case (1 ps s)
  show ?case
  proof (cases "find (\<lambda>p. p \<noteq> [] \<and> prefix p s) ps")
    case None
    then have "strip ps s = s" by (subst strip.simps) simp
    then show ?thesis using None by (auto simp: clean_def find_None_iff)
  next
    case (Some p)
    then show ?thesis using "1.IH" [OF Some] by (subst strip.simps) simp
  qed
qed

lemma strip_id: "clean ps s \<Longrightarrow> strip ps s = s"
proof -
  assume "clean ps s"
  then have "find (\<lambda>p. p \<noteq> [] \<and> prefix p s) ps = None" by (auto simp: clean_def find_None_iff)
  then show ?thesis by (subst strip.simps) simp
qed

lemma strip_suffix: "suffix (strip ps s) s"
proof (induction ps s rule: strip.induct)
  case (1 ps s)
  show ?case
  proof (cases "find (\<lambda>p. p \<noteq> [] \<and> prefix p s) ps")
    case (Some p)
    have "suffix (drop (length p) s) s" by (rule suffix_drop)
    then show ?thesis using "1.IH" [OF Some] Some by (subst strip.simps) (auto intro: suffix_order.order_trans)
  qed (subst strip.simps, simp)
qed

lemma clean_prefix: "clean ps s \<Longrightarrow> prefix t s \<Longrightarrow> clean ps t"
  unfolding clean_def by (blast intro: prefix_order.order_trans)

definition trimmed :: "string \<Rightarrow> bool" where
  "trimmed s \<longleftrightarrow> clean spaces s \<and> clean (map rev spaces) (rev s)"

lemma TrimSpace_trimmed: "trimmed (TrimSpace s)"
proof -
  let ?l = "strip spaces s"
  have "suffix (strip (map rev spaces) (rev ?l)) (rev ?l)" by (rule strip_suffix)
  then have "prefix (TrimSpace s) ?l" by (simp add: TrimSpace_def suffix_to_prefix)
  then have "clean spaces (TrimSpace s)" by (rule clean_prefix [OF strip_clean])
  then show ?thesis by (simp add: trimmed_def TrimSpace_def strip_clean)
qed

lemma TrimSpace_id: "trimmed s \<Longrightarrow> TrimSpace s = s"
  by (simp add: trimmed_def TrimSpace_def strip_id)

lemma TrimSpace_idem [simp]: "TrimSpace (TrimSpace s) = TrimSpace s"
  by (rule TrimSpace_id [OF TrimSpace_trimmed])

lemma trimmed_Nil [simp]: "trimmed []"
  by (simp add: trimmed_def clean_def)

lemma trimmed_ascii:
  assumes "s \<noteq> []" and "list_all (\<lambda>c. 32 < (of_char c :: nat) \<and> (of_char c :: nat) < 128) [hd s, last s]"
  shows "trimmed s"
proof -
  have no: "\<not> prefix p s" if "p \<in> set spaces" for p
  proof
    assume "prefix p s"
    then obtain t where s: "s = p @ t" by (auto simp: prefix_def)
    have "p \<noteq> []" "of_char (hd p) \<le> (32::nat) \<or> (128::nat) \<le> of_char (hd p)"
      using that by (auto simp: spaces_def)
    then show False using s assms(2) by (auto simp: hd_append)
  qed
  have no': "\<not> prefix (rev p) (rev s)" if "p \<in> set spaces" for p
  proof
    assume "prefix (rev p) (rev s)"
    then obtain t where s: "s = t @ p" by (metis prefix_def rev_append rev_rev_ident)
    have "p \<noteq> []" "of_char (last p) \<le> (32::nat) \<or> (128::nat) \<le> of_char (last p)"
      using that by (auto simp: spaces_def)
    then show False using s assms(2) by auto
  qed
  show ?thesis using no no' by (auto simp: trimmed_def clean_def)
qed

section \<open>Case and numbers\<close>

definition lower_char :: "char \<Rightarrow> char" where
  "lower_char c = (let n = of_char c :: nat in if 65 \<le> n \<and> n \<le> 90 then char_of (n + 32) else c)"

definition upper_char :: "char \<Rightarrow> char" where
  "upper_char c = (let n = of_char c :: nat in if 97 \<le> n \<and> n \<le> 122 then char_of (n - 32) else c)"

lemma lower_char_idem [simp]: "lower_char (lower_char c) = lower_char c"
  by (simp add: lower_char_def Let_def)

lemma upper_char_idem [simp]: "upper_char (upper_char c) = upper_char c"
  by (auto simp: upper_char_def Let_def)

definition ToLower :: "string \<Rightarrow> string" where
  "ToLower s = map lower_char s"

definition ToUpper :: "string \<Rightarrow> string" where
  "ToUpper s = map upper_char s"

fun dec_nat :: "nat \<Rightarrow> string" where
  "dec_nat n = (if n < 10 then [char_of (48 + n)] else dec_nat (n div 10) @ [char_of (48 + n mod 10)])"

declare dec_nat.simps [simp del]

definition dec_int :: "int \<Rightarrow> string" where
  "dec_int i = (if i < 0 then ''-'' @ dec_nat (nat (- i)) else dec_nat (nat i))"

text \<open>\<open>strconv.Atoi\<close>: a sign and digits; the value is clamped to 64 bits with an error, else 0 with an error.\<close>

definition is_digit :: "char \<Rightarrow> bool" where
  "is_digit c \<longleftrightarrow> CHR ''0'' \<le> c \<and> c \<le> CHR ''9''"

definition digits_value :: "string \<Rightarrow> int" where
  "digits_value s = foldl (\<lambda>n c. 10 * n + (int (of_char c) - 48)) 0 s"

definition Atoi :: "string \<Rightarrow> int \<times> bool" where
  "Atoi s =
     (let neg = (case s of c # _ \<Rightarrow> c = CHR ''-'' | [] \<Rightarrow> False);
          ds = (case s of c # cs \<Rightarrow> if c = CHR ''-'' \<or> c = CHR ''+'' then cs else s | [] \<Rightarrow> []) in
      if ds = [] \<or> \<not> list_all is_digit ds then (0, False)
      else let v = (if neg then - digits_value ds else digits_value ds) in
        if v < - (2 ^ 63) then (- (2 ^ 63), False)
        else if 2 ^ 63 - 1 < v then (2 ^ 63 - 1, False)
        else (v, True))"

text \<open>\<open>TrimPrefix\<close> and the integer parsers with an explicit base.\<close>

definition TrimPrefix :: "string \<Rightarrow> string \<Rightarrow> string" where
  "TrimPrefix s p = (if HasPrefix s p then drop (length p) s else s)"

definition ParseInt64 :: "string \<Rightarrow> int option" where
  "ParseInt64 s = (case Atoi s of (v, ok) \<Rightarrow> if ok then Some v else None)"

definition ParseUint :: "string \<Rightarrow> nat \<Rightarrow> nat option" where
  "ParseUint s w =
     (if s \<noteq> [] \<and> list_all is_digit s \<and> digits_value s < 2 ^ w then Some (nat (digits_value s)) else None)"

section \<open>Decimal numbers\<close>

lemma digit_char: "n < 10 \<Longrightarrow> is_digit (char_of (48 + n :: nat)) \<and> of_char (char_of (48 + n :: nat)) = 48 + n"
proof -
  assume "n < 10"
  then have "n \<in> {0, 1, 2, 3, 4, 5, 6, 7, 8, 9}" by auto
  then show ?thesis by (auto simp: is_digit_def less_eq_char_def)
qed

lemma dec_nat_digits: "dec_nat n \<noteq> [] \<and> list_all is_digit (dec_nat n) \<and> digits_value (dec_nat n) = int n"
proof (induction n rule: less_induct)
  case (less n)
  show ?case
  proof (cases "n < 10")
    case True
    then show ?thesis using digit_char [of n] by (simp add: dec_nat.simps [of n] digits_value_def)
  next
    case False
    then have ih: "list_all is_digit (dec_nat (n div 10))" "digits_value (dec_nat (n div 10)) = int (n div 10)"
      using less.IH [of "n div 10"] by simp_all
    have "10 * (n div 10) + n mod 10 = n" by simp
    then have "10 * int (n div 10) + int (n mod 10) = int n" by linarith
    then show ?thesis using digit_char [of "n mod 10"] ih False
      by (simp add: dec_nat.simps [of n] digits_value_def)
  qed
qed

lemma digit_no_sign: "is_digit c \<Longrightarrow> c \<noteq> CHR ''-'' \<and> c \<noteq> CHR ''+'' \<and> c \<noteq> CHR ''.''"
  by (auto simp: is_digit_def less_eq_char_def)

lemma Atoi_dec_nat:
  assumes "int n < 2 ^ 63"
  shows "Atoi (dec_nat n) = (int n, True)"
proof -
  obtain c cs where c: "dec_nat n = c # cs" using dec_nat_digits [of n] by (cases "dec_nat n") auto
  then have "is_digit c" "list_all is_digit (c # cs)" "digits_value (c # cs) = int n"
    using dec_nat_digits [of n] by auto
  then show ?thesis using assms digit_no_sign [of c] by (simp add: Atoi_def c Let_def)
qed

lemma dec_nat_no_dot: "CHR ''.'' \<notin> set (dec_nat n)"
  using dec_nat_digits [of n] digit_no_sign by (auto simp: list_all_iff)

lemma Atoi_dec_int:
  assumes "- (2 ^ 63) \<le> i" and "i < 2 ^ 63"
  shows "Atoi (dec_int i) = (i, True)"
proof (cases "i < 0")
  case True
  have "dec_nat (nat (- i)) \<noteq> []" "list_all is_digit (dec_nat (nat (- i)))" "digits_value (dec_nat (nat (- i))) = - i"
    using dec_nat_digits [of "nat (- i)"] True by auto
  then show ?thesis using assms True by (simp add: Atoi_def dec_int_def Let_def)
next
  case False
  then show ?thesis using Atoi_dec_nat [of "nat i"] assms by (simp add: dec_int_def)
qed

lemma ParseInt64_dec: "- (2 ^ 63) \<le> i \<Longrightarrow> i < 2 ^ 63 \<Longrightarrow> ParseInt64 (dec_int i) = Some i"
  by (simp add: ParseInt64_def Atoi_dec_int)

lemma ParseUint_dec: "int n < 2 ^ w \<Longrightarrow> ParseUint (dec_nat n) w = Some n"
  using dec_nat_digits [of n] by (simp add: ParseUint_def)

lemma TrimPrefix_append [simp]: "TrimPrefix (p @ s) p = s"
  by (simp add: TrimPrefix_def)

text \<open>A text occurs in another only if its first character does.\<close>

lemma Contains_char: "Contains s (c # r) \<Longrightarrow> c \<in> set s"
  by (induction s) (auto simp: Contains_def split: if_splits)

lemma HasPrefix_prefix: "HasPrefix s p \<longleftrightarrow> prefix p s"
  by (metis HasPrefix_append HasPrefix_def prefixE take_is_prefix)

lemma Contains_Cons: "sub \<noteq> [] \<Longrightarrow> Contains (c # s) sub \<longleftrightarrow> HasPrefix (c # s) sub \<or> Contains s sub"
  by (auto simp: Contains_def HasPrefix_prefix)

lemma Contains_here: "Contains (sub @ s) sub"
  using Index_append [of "[]" sub s] by (auto simp: Contains_def)

lemma Contains_append: "Contains s sub \<Longrightarrow> Contains (t @ s) sub"
proof -
  assume "Contains s sub"
  then obtain i where "Index s sub = Some i" by (auto simp: Contains_def)
  then have "s = take i s @ sub @ drop (i + length sub) s" using Index_split by blast
  then have "t @ s = (t @ take i s) @ sub @ drop (i + length sub) s" by simp
  then show ?thesis using Index_append [of "t @ take i s" sub "drop (i + length sub) s"] by (auto simp: Contains_def)
qed

end
