(* ===== verification/Snmp.thy ===== *)
theory Snmp
  imports Table_Values Go_Strings Protocol_Collector "HOL-Library.List_Lexorder" "HOL-Library.Sublist"
begin

text \<open>
  \<open>protocols/snmp/SNMPv2.go\<close> and \<open>SNMPv2Walk.go\<close>: the SNMP collector, with its reconnections and
  retries. The SNMP library and the device are arguments: \<open>'w\<close> is the state of the network, and
  \<open>snmp_env\<close> says how an open, a Get and a GetNext are answered in it. An object identifier is its list
  of numbers; a value is its encoding, or the library's marker for an exception (\<open>BERType\<close>).

  An attempt runs in its own goroutine with a deadline. How many rounds of requests (a Get, a GetNext
  with its retry) fit before the deadline is \<open>se_budget\<close>; an attempt that needs more is the timeout
  case, where the session is closed under it.
  Here the abandoned goroutine is gone; what it can still do is in \<open>Snmp_Threads\<close>. A panic inside an attempt is recovered
  and becomes its error; one in the retry loop itself is not.
\<close>

type_synonym oid = "nat list"

datatype snmp_value = BERType | SnmpValue bytes

type_synonym pdu = "string \<times> bytes"

record 'w snmp_env =
  se_credential :: "string option"
  se_open :: "'w \<Rightarrow> 'w \<times> string option"
  se_parse :: "string \<Rightarrow> string + oid"
  se_show :: "oid \<Rightarrow> string"
  se_get :: "'w \<Rightarrow> oid \<Rightarrow> 'w \<times> (string + bytes)"
  se_getnext :: "'w \<Rightarrow> oid \<Rightarrow> 'w \<times> (string + (oid \<times> snmp_value))"
  se_budget :: "'w \<Rightarrow> nat"
  se_poll :: "string \<Rightarrow> string \<Rightarrow> string + poll"
  se_encode_map :: "cmap \<Rightarrow> bytes"
  se_encode_table :: "ctable \<Rightarrow> string + bytes"
  se_keys :: "cmap \<Rightarrow> cmap"
  se_seconds :: "int \<Rightarrow> string"

record 'w snmp_collector =
  sn_config :: host_protocol
  sn_session :: bool
  sn_connected :: bool
  sn_pollSuccess :: bool
  sn_world :: 'w

text \<open>What an attempt gives: its result, an error, or a panic (its text).\<close>

datatype 'a outcome = Fine 'a | Fails string | Panics string

section \<open>Names\<close>

definition normalizeOID :: "string \<Rightarrow> string" where
  "normalizeOID oid =
     (if HasPrefix oid ''iso.'' then ''.1.'' @ drop 4 oid
      else if \<not> HasPrefix oid ''.'' then ''.'' @ oid else oid)"

definition getRowAndColName :: "string \<Rightarrow> int \<times> string" where
  "getRowAndColName oid =
     (case LastIndex_char oid CHR ''.'' of
        None \<Rightarrow> (-1, '''')
      | Some i \<Rightarrow>
          (case LastIndex_char (take i oid) CHR ''.'' of
             None \<Rightarrow> (-1, '''')
           | Some k \<Rightarrow> (int32 (fst (Atoi (drop (Suc i) oid))), drop (Suc k) (take i oid))))"

section \<open>Connections\<close>

definition snmp_Init :: "host_protocol \<Rightarrow> 'w \<Rightarrow> 'w snmp_collector" where
  "snmp_Init conf w = \<lparr>sn_config = conf, sn_session = False, sn_connected = False, sn_pollSuccess = False, sn_world = w\<rparr>"

definition timeout_seconds :: "'w snmp_collector \<Rightarrow> int" where
  "timeout_seconds c = (if cfg_Timeout (sn_config c) = 0 then 60 else cfg_Timeout (sn_config c))"

definition snmp_Connect :: "'w snmp_env \<Rightarrow> 'w snmp_collector \<Rightarrow> ('w snmp_collector \<times> string option) res" where
  "snmp_Connect env c =
     (case se_credential env of
        None \<Rightarrow> Inl (Raised ''credential'')
      | Some _ \<Rightarrow>
          (case se_open env (sn_world c) of
             (w, Some err) \<Rightarrow>
               Inr (c\<lparr>sn_world := w\<rparr>,
                 Some (''failed to create SNMP session for '' @ cfg_Addr (sn_config c) @ '': '' @ err))
           | (w, None) \<Rightarrow> Inr (c\<lparr>sn_world := w, sn_session := True, sn_connected := True\<rparr>, None)))"

definition snmp_Disconnect :: "'w snmp_collector \<Rightarrow> 'w snmp_collector" where
  "snmp_Disconnect c = c\<lparr>sn_session := False, sn_connected := False\<rparr>"

definition reconnectSession :: "'w snmp_env \<Rightarrow> 'w snmp_collector \<Rightarrow> ('w snmp_collector \<times> string option) res" where
  "reconnectSession env c = snmp_Connect env (snmp_Disconnect c)"

definition snmp_Online :: "'w snmp_collector \<Rightarrow> bool" where
  "snmp_Online c \<longleftrightarrow> sn_connected c \<and> sn_pollSuccess c"

section \<open>One Get, one walk\<close>

text \<open>A result of \<open>None\<close> is the deadline.\<close>

definition snmpGet ::
  "'w snmp_env \<Rightarrow> string \<Rightarrow> 'w snmp_collector \<Rightarrow> 'w snmp_collector \<times> pdu outcome option" where
  "snmpGet env oid c =
     (if \<not> sn_session c then (c, Some (Fails ''SNMP session is not initialized''))
      else case se_parse env oid of
        Inl err \<Rightarrow> (c, Some (Fails (''failed to parse OID '' @ oid @ '': '' @ err)))
      | Inr parsedOid \<Rightarrow>
          if se_budget env (sn_world c) = 0 then (c, None)
          else case se_get env (sn_world c) parsedOid of
            (w, Inr v) \<Rightarrow> (c\<lparr>sn_world := w\<rparr>, Some (Fine (oid, v)))
          | (w, Inl err) \<Rightarrow>
              (case reconnectSession env (c\<lparr>sn_world := w\<rparr>) of
                 Inl (Raised p) \<Rightarrow> (snmp_Disconnect (c\<lparr>sn_world := w\<rparr>), Some (Panics p))
               | Inl p \<Rightarrow> (snmp_Disconnect (c\<lparr>sn_world := w\<rparr>), Some (Panics ''runtime error''))
               | Inr (c, Some reconnErr) \<Rightarrow>
                   (c, Some (Fails (''SNMP GET failed for OID '' @ oid @ '': '' @ err @
                     '' (reconnect also failed: '' @ reconnErr @ '')'')))
               | Inr (c, None) \<Rightarrow>
                   if se_budget env w \<le> 1 then (c, None)
                   else case se_get env (sn_world c) parsedOid of
                     (w, Inr v) \<Rightarrow> (c\<lparr>sn_world := w\<rparr>, Some (Fine (oid, v)))
                   | (w, Inl err) \<Rightarrow>
                       (c\<lparr>sn_world := w\<rparr>, Some (Fails (''SNMP GET failed for OID '' @ oid @ '' after reconnect: '' @ err)))))"

text \<open>\<open>GetNext\<close> with its reconnection: \<open>Fails\<close> is the end of the walk (\<open>break\<close>).\<close>

definition next_oid ::
  "'w snmp_env \<Rightarrow> oid \<Rightarrow> 'w snmp_collector \<Rightarrow> 'w snmp_collector \<times> (oid \<times> snmp_value) outcome" where
  "next_oid env cur c =
     (case se_getnext env (sn_world c) cur of
        (w, Inr nv) \<Rightarrow> (c\<lparr>sn_world := w\<rparr>, Fine nv)
      | (w, Inl err) \<Rightarrow>
          (case reconnectSession env (c\<lparr>sn_world := w\<rparr>) of
             Inl (Raised p) \<Rightarrow> (snmp_Disconnect (c\<lparr>sn_world := w\<rparr>), Panics p)
           | Inl p \<Rightarrow> (snmp_Disconnect (c\<lparr>sn_world := w\<rparr>), Panics ''runtime error'')
           | Inr (c, Some reconnErr) \<Rightarrow> (c, Fails reconnErr)
           | Inr (c, None) \<Rightarrow>
               (case se_getnext env (sn_world c) cur of
                  (w, Inr nv) \<Rightarrow> (c\<lparr>sn_world := w\<rparr>, Fine nv)
                | (w, Inl err) \<Rightarrow> (c\<lparr>sn_world := w\<rparr>, Fails err))))"

fun walk_loop ::
  "'w snmp_env \<Rightarrow> oid \<Rightarrow> nat \<Rightarrow> oid \<Rightarrow> pdu list \<Rightarrow> 'w snmp_collector \<Rightarrow>
   'w snmp_collector \<times> pdu list outcome option" where
  "walk_loop env root 0 cur pdus c = (c, None)"
| "walk_loop env root (Suc n) cur pdus c =
     (if \<not> sn_session c then (c, Some (Fails ''SNMP session was closed during walk''))
      else case next_oid env cur c of
        (c, Panics p) \<Rightarrow> (c, Some (Panics p))
      | (c, Fails _) \<Rightarrow> (c, Some (Fine pdus))
      | (c, Fine (o', v)) \<Rightarrow>
          if \<not> prefix root o' then (c, Some (Fine pdus))
          else case v of
            BERType \<Rightarrow> (c, Some (Fine pdus))
          | SnmpValue bs \<Rightarrow> walk_loop env root n o' (pdus @ [(se_show env o', bs)]) c)"

definition snmpWalk ::
  "'w snmp_env \<Rightarrow> string \<Rightarrow> 'w snmp_collector \<Rightarrow> 'w snmp_collector \<times> pdu list outcome option" where
  "snmpWalk env oid c =
     (if \<not> sn_session c then (c, Some (Fails ''SNMP session is not initialized''))
      else case se_parse env oid of
        Inl err \<Rightarrow> (c, Some (Fails (''failed to parse OID '' @ oid @ '': '' @ err)))
      | Inr root \<Rightarrow>
          (case walk_loop env root (se_budget env (sn_world c)) root [] c of
             (c, Some (Fine [])) \<Rightarrow> (c, Some (Fails (''SNMP walk found no results for OID '' @ oid)))
           | r \<Rightarrow> r))"

section \<open>Retries\<close>

definition attempt ::
  "string \<Rightarrow> ('w snmp_collector \<Rightarrow> 'w snmp_collector \<times> 'a outcome option) \<Rightarrow> 'w snmp_env \<Rightarrow>
   'w snmp_collector \<Rightarrow> 'w snmp_collector \<times> (string + 'a)" where
  "attempt kind body env c =
     (case body c of
        (c, None) \<Rightarrow>
          (c\<lparr>sn_session := False, sn_connected := False\<rparr>, Inl (''timeout after '' @ se_seconds env (timeout_seconds c)))
      | (c, Some (Fine x)) \<Rightarrow> (c\<lparr>sn_pollSuccess := True\<rparr>, Inr x)
      | (c, Some (Fails err)) \<Rightarrow> (c\<lparr>sn_pollSuccess := True\<rparr>, Inl err)
      | (c, Some (Panics p)) \<Rightarrow>
          (c\<lparr>sn_pollSuccess := True\<rparr>, Inl (''SNMP '' @ kind @ '' panic (session closed during operation): '' @ p)))"

text \<open>\<open>n\<close> more attempts after this one.\<close>

fun retry ::
  "string \<Rightarrow> ('w snmp_collector \<Rightarrow> 'w snmp_collector \<times> 'a outcome option) \<Rightarrow> 'w snmp_env \<Rightarrow> nat \<Rightarrow>
   'w snmp_collector \<Rightarrow> ('w snmp_collector \<times> (string + 'a)) res" where
  "retry kind body env 0 c = Inr (attempt kind body env c)"
| "retry kind body env (Suc n) c =
     (case attempt kind body env c of
        (c, Inr x) \<Rightarrow> Inr (c, Inr x)
      | (c, Inl err) \<Rightarrow>
          bind_res (reconnectSession env c) (\<lambda>(c, reconnErr).
            case reconnErr of
              Some _ \<Rightarrow> Inr (c, Inl err)
            | None \<Rightarrow> retry kind body env n c))"

section \<open>Jobs\<close>

definition host_text :: "'w snmp_collector \<Rightarrow> string \<Rightarrow> string \<Rightarrow> string" where
  "host_text c oid err =
     cfg_Addr (sn_config c) @ ''/'' @ dec_int (cfg_Port (sn_config c)) @ '' Oid:'' @ oid @ '' '' @ err"

definition snmp_fails :: "string \<Rightarrow> cjob \<Rightarrow> cjob" where
  "snmp_fails err job = job\<lparr>Error := err, Result := None, ErrorCount := ErrorCount job + 1\<rparr>"

definition get_job ::
  "'w snmp_env \<Rightarrow> poll \<Rightarrow> 'w snmp_collector \<Rightarrow> cjob \<Rightarrow> ('w snmp_collector \<times> cjob) res" where
  "get_job env pl c job =
     bind_res (retry ''GET'' (snmpGet env (poll_What pl)) env 9 c) (\<lambda>(c, r).
       case r of
         Inl err \<Rightarrow> Inr (c, snmp_fails (''SNMP Get Error Host:'' @ host_text c (poll_What pl) err) job)
       | Inr (name, v) \<Rightarrow>
           Inr (c, job\<lparr>ErrorCount := 0, Result := Some (se_encode_map env [(normalizeOID name, v)])\<rparr>))"

definition map_of_pdus :: "pdu list \<Rightarrow> cmap" where
  "map_of_pdus pdus = fold (\<lambda>(name, v) m. AList.update (normalizeOID name) v m) pdus []"

definition walk_job ::
  "'w snmp_env \<Rightarrow> poll \<Rightarrow> bool \<Rightarrow> 'w snmp_collector \<Rightarrow> cjob \<Rightarrow>
   ('w snmp_collector \<times> cjob \<times> cmap option) res" where
  "walk_job env pl encodeMap c job =
     bind_res (retry ''Walk'' (snmpWalk env (poll_What pl)) env 9 c) (\<lambda>(c, r).
       case r of
         Inl err \<Rightarrow>
           let head = (if Contains err ''timeout'' then ''SNMP Walk Timeout. Host:'' else ''SNMP Error Walk Host:'') in
           Inr (c, snmp_fails (head @ host_text c (poll_What pl) err) job, None)
       | Inr pdus \<Rightarrow>
           let m = map_of_pdus pdus; job = job\<lparr>ErrorCount := 0\<rparr> in
           Inr (c, if encodeMap then job\<lparr>Result := Some (se_encode_map env m)\<rparr> else job, Some m))"

text \<open>The cells of a table, from the keys of the map in some order.\<close>

fun table_cells :: "cmap \<Rightarrow> string list \<Rightarrow> ctable \<Rightarrow> ctable res" where
  "table_cells m [] tbl = Inr tbl"
| "table_cells m (key # keys) tbl =
     (case getRowAndColName key of (row, colName) \<Rightarrow>
        bind_res (SetValue row (int32 (fst (Atoi colName))) colName (map_of m key) (Some tbl))
          (\<lambda>t. bind_res (deref t) (table_cells m keys)))"

definition empty_table :: ctable where
  "empty_table = \<lparr>Rows = Some [], Columns = Some []\<rparr>"

definition table_job ::
  "'w snmp_env \<Rightarrow> poll \<Rightarrow> 'w snmp_collector \<Rightarrow> cjob \<Rightarrow> ('w snmp_collector \<times> cjob) res" where
  "table_job env pl c job =
     bind_res (walk_job env pl False c job) (\<lambda>(c, job, m).
       if Error job \<noteq> '''' then Inr (c, job)
       else
         bind_res (table_cells (case m of None \<Rightarrow> [] | Some m \<Rightarrow> m) (Keys (se_keys env) m) empty_table) (\<lambda>tbl.
           case se_encode_table env tbl of
             Inl err \<Rightarrow> Inr (c, job)
           | Inr bs \<Rightarrow> Inr (c, job\<lparr>Result := Some bs\<rparr>)))"

definition snmp_Exec ::
  "'w snmp_env \<Rightarrow> 'w snmp_collector \<Rightarrow> cjob \<Rightarrow> ('w snmp_collector \<times> cjob) res" where
  "snmp_Exec env c job =
     bind_res (if sn_connected c then Inr (c, None) else snmp_Connect env c) (\<lambda>(c, err).
       case err of
         Some e \<Rightarrow> Inr (c, snmp_fails e job)
       | None \<Rightarrow>
           (case se_poll env (PollarisName job) (JobName job) of
              Inl err \<Rightarrow> Inr (c, job)
            | Inr pl \<Rightarrow>
                (case poll_Operation pl of
                   L8C_Get \<Rightarrow> get_job env pl c job
                 | L8C_Map \<Rightarrow> bind_res (walk_job env pl True c job) (\<lambda>(c, job, _). Inr (c, job))
                 | L8C_Table \<Rightarrow> table_job env pl c job
                 | OtherOperation _ \<Rightarrow> Inr (c, job))))"

section \<open>The contract of Exec\<close>

text \<open>A collector can be used as long as the security service has its credential.\<close>

lemma reconnect_returns:
  "se_credential env \<noteq> None \<Longrightarrow> \<exists>c' err. reconnectSession env c = Inr (c', err)"
  by (auto simp: reconnectSession_def snmp_Connect_def split: prod.split option.split)

lemma snmp_Connect_returns:
  assumes "se_credential env \<noteq> None"
  shows "\<exists>c' err. snmp_Connect env c = Inr (c', err)"
proof -
  obtain w e where "se_open env (sn_world c) = (w, e)" by (cases "se_open env (sn_world c)")
  then show ?thesis using assms by (cases e) (auto simp: snmp_Connect_def)
qed

lemma retry_returns:
  "se_credential env \<noteq> None \<Longrightarrow> \<exists>r. retry kind body env n c = Inr r"
proof (induction n arbitrary: c)
  case (Suc n)
  obtain c1 r where a: "attempt kind body env c = (c1, r)" by (cases "attempt kind body env c")
  obtain c2 err where "reconnectSession env c1 = Inr (c2, err)" using reconnect_returns [OF Suc.prems] by blast
  then show ?case using Suc.IH [OF Suc.prems] a by (cases r; cases err) simp_all
qed simp

lemma table_cells_returns:
  "Columns tbl \<noteq> None \<Longrightarrow> \<exists>t. table_cells m keys tbl = Inr t"
proof (induction keys arbitrary: tbl)
  case (Cons key keys)
  obtain row col where rc: "getRowAndColName key = (row, col)" by (cases "getRowAndColName key")
  obtain t where "SetValue row (int32 (fst (Atoi col))) col (map_of m key) (Some tbl) = Inr (Some t)" "Columns t \<noteq> None"
    by (rule SetValue_meets [OF Cons.prems])
  then show ?case using Cons.IH by (simp add: rc)
qed simp

lemma frame_fails [simp]: "exec_frame i (snmp_fails err j) = exec_frame i j"
  by (simp add: snmp_fails_def)

lemma walk_job_returns:
  assumes "se_credential env \<noteq> None"
  shows "\<exists>c' j m. walk_job env pl b c job = Inr (c', j, m) \<and> exec_frame job j"
proof -
  obtain c' r where "retry ''Walk'' (snmpWalk env (poll_What pl)) env 9 c = Inr (c', r)"
    using retry_returns [OF assms] by (metis surj_pair)
  then show ?thesis by (cases r) (simp_all add: walk_job_def Let_def)
qed

lemma snmp_Exec_returns:
  assumes "se_credential env \<noteq> None"
  shows "\<exists>c' job'. snmp_Exec env c job = Inr (c', job') \<and> exec_frame job job'"
proof -
  obtain c1 e where con: "(if sn_connected c then Inr (c, None) else snmp_Connect env c) = Inr (c1, e)"
    using snmp_Connect_returns [OF assms, of c] by (cases "sn_connected c") auto
  show ?thesis
  proof (cases e)
    case None
    show ?thesis
    proof (cases "se_poll env (PollarisName job) (JobName job)")
      case (Inr pl)
      obtain c2 r where g: "retry ''GET'' (snmpGet env (poll_What pl)) env 9 c1 = Inr (c2, r)"
        using retry_returns [OF assms] by (metis surj_pair)
      have get: "\<exists>c' job'. get_job env pl c1 job = Inr (c', job') \<and> exec_frame job job'"
        by (cases r) (auto simp: get_job_def g)
      obtain c3 j m where w: "walk_job env pl False c1 job = Inr (c3, j, m)" "exec_frame job j"
        using walk_job_returns [OF assms] by blast
      obtain t where "table_cells (case m of None \<Rightarrow> [] | Some m \<Rightarrow> m) (Keys (se_keys env) m) empty_table = Inr t"
        using table_cells_returns [of empty_table] by (auto simp: empty_table_def)
      then have tbl: "\<exists>c' job'. table_job env pl c1 job = Inr (c', job') \<and> exec_frame job job'"
        using w by (auto simp: table_job_def split: sum.split)
      obtain c4 j' m' where "walk_job env pl True c1 job = Inr (c4, j', m')" "exec_frame job j'"
        using walk_job_returns [OF assms] by blast
      then show ?thesis
        using get tbl by (cases "poll_Operation pl") (simp_all add: snmp_Exec_def con None Inr)
    qed (simp add: snmp_Exec_def con None)
  qed (simp add: snmp_Exec_def con)
qed

definition snmp_usable :: "'w snmp_env \<Rightarrow> 'w snmp_collector \<Rightarrow> bool" where
  "snmp_usable env c \<longleftrightarrow> se_credential env \<noteq> None"

interpretation snmp: protocol_collector "snmp_Exec env" "snmp_usable env" for env
proof
  show "\<exists>c' j'. snmp_Exec env c j = Inr (c', j') \<and> snmp_usable env c' \<and> exec_frame j j'"
    if "snmp_usable env c" for c j
    using snmp_Exec_returns [of env c j] that by (auto simp: snmp_usable_def)
qed

end
