(* ===== verification/Snmp_Theorems.thy ===== *)
theory Snmp_Theorems
  imports Snmp
begin

text \<open>
  What SNMP collection delivers: the shape of every outcome of \<open>Exec\<close>, a walk against a device whose
  object identifiers are in lexicographic order (complete, or cut short by a failing request), the
  number of failures a Get survives, the cells of a table, and the canonical form of names.
\<close>

section \<open>Every outcome of a job\<close>

definition job_failed :: "cjob \<Rightarrow> cjob \<Rightarrow> bool" where
  "job_failed job job' \<longleftrightarrow> Error job' \<noteq> '''' \<and> Result job' = None \<and> ErrorCount job' = ErrorCount job + 1"

definition job_done :: "cjob \<Rightarrow> cjob \<Rightarrow> bool" where
  "job_done job job' \<longleftrightarrow> Error job' = Error job \<and> ErrorCount job' = 0"

lemma fails_failed [simp]: "err \<noteq> '''' \<Longrightarrow> job_failed job (snmp_fails err job)"
  by (simp add: job_failed_def snmp_fails_def)

lemma get_job_outcome:
  assumes "get_job env pl c job = Inr (c', job')"
  shows "job_failed job job' \<or> job_done job job' \<and> Result job' \<noteq> None"
proof -
  obtain c1 r where "retry ''GET'' (snmpGet env (poll_What pl)) env 9 c = Inr (c1, r)"
    using assms unfolding get_job_def by (elim bind_res_InrE) (metis surj_pair)
  then show ?thesis using assms
    by (cases r) (auto simp: get_job_def job_failed_def job_done_def snmp_fails_def)
qed

lemma walk_job_outcome:
  assumes "walk_job env pl b c job = Inr (c', job', m)"
  shows "(job_failed job job' \<and> m = None) \<or>
    (job_done job job' \<and> m \<noteq> None \<and> (b \<longrightarrow> Result job' \<noteq> None) \<and> (\<not> b \<longrightarrow> Result job' = Result job))"
proof -
  obtain c1 r where "retry ''Walk'' (snmpWalk env (poll_What pl)) env 9 c = Inr (c1, r)"
    using assms unfolding walk_job_def by (elim bind_res_InrE) (metis surj_pair)
  then show ?thesis using assms
    by (cases r) (auto simp: walk_job_def job_failed_def job_done_def snmp_fails_def Let_def split: if_splits)
qed

lemma table_job_outcome:
  assumes "table_job env pl c job = Inr (c', job')" and "Error job = ''''"
  shows "job_failed job job' \<or> job_done job job'"
proof -
  obtain c1 j1 m where w: "walk_job env pl False c job = Inr (c1, j1, m)"
    by (cases "walk_job env pl False c job") (use assms(1) in \<open>simp add: table_job_def\<close>, metis prod_cases3)
  from walk_job_outcome [OF w] show ?thesis
  proof
    assume "job_failed job j1 \<and> m = None"
    then show ?thesis using assms w by (simp add: table_job_def job_failed_def)
  next
    assume "job_done job j1 \<and> m \<noteq> None \<and> (False \<longrightarrow> Result j1 \<noteq> None) \<and> (\<not> False \<longrightarrow> Result j1 = Result job)"
    then have fin: "job_done job j1" "Error j1 = ''''" using assms(2) by (simp_all add: job_done_def)
    obtain t where t: "table_cells (case m of None \<Rightarrow> [] | Some m \<Rightarrow> m) (Keys (se_keys env) m) empty_table = Inr t"
      using table_cells_returns [of empty_table] by (auto simp: empty_table_def)
    show ?thesis
    proof (cases "se_encode_table env t")
      case (Inl e)
      then have "job' = j1" using assms(1) w t fin(2) by (simp add: table_job_def)
      then show ?thesis using fin by simp
    next
      case (Inr bs)
      then have "job' = j1\<lparr>Result := Some bs\<rparr>" using assms(1) w t fin(2) by (simp add: table_job_def)
      then show ?thesis using fin(1) by (simp add: job_done_def)
    qed
  qed
qed

text \<open>
  C22. A job that \<open>Exec\<close> gets with an empty error, as the collection loop hands it over, comes back in
  one of three ways, and nothing but its error, error count and result differs: it failed (an error
  text, no result, one more error), it was collected (no error, error count 0, and for a Get or a Map a
  result), or it is unchanged because its poll is unknown or its operation is none of the three. The
  collector itself never panics once the security service has its credential.
\<close>

theorem snmp_exec_outcome:
  assumes "se_credential env \<noteq> None" and "Error job = ''''"
  shows "\<exists>c' job'. snmp_Exec env c job = Inr (c', job') \<and> exec_frame job job' \<and>
    (job_failed job job' \<or> job_done job job' \<or> job' = job) \<and>
    (\<forall>pl. se_poll env (PollarisName job) (JobName job) = Inr pl \<and> poll_Operation pl \<in> {L8C_Get, L8C_Map} \<longrightarrow>
       Error job' = '''' \<longrightarrow> Result job' \<noteq> None \<and> ErrorCount job' = 0)"
proof -
  obtain c1 e where con: "(if sn_connected c then Inr (c, None) else snmp_Connect env c) = Inr (c1, e)"
    using snmp_Connect_returns [OF assms(1), of c] by (cases "sn_connected c") auto
  obtain c' job' where ex: "snmp_Exec env c job = Inr (c', job')" "exec_frame job job'"
    using snmp_Exec_returns [OF assms(1)] by blast
  have e_text: "e = Some t \<Longrightarrow> t \<noteq> ''''" for t
    using con by (auto simp: snmp_Connect_def split: if_splits option.splits prod.splits)
  have "(job_failed job job' \<or> job_done job job' \<or> job' = job) \<and>
    (\<forall>pl. se_poll env (PollarisName job) (JobName job) = Inr pl \<and> poll_Operation pl \<in> {L8C_Get, L8C_Map} \<longrightarrow>
       Error job' = '''' \<longrightarrow> Result job' \<noteq> None \<and> ErrorCount job' = 0)"
  proof (cases e)
    case (Some t)
    then have "job' = snmp_fails t job" using ex(1) con by (simp add: snmp_Exec_def)
    then show ?thesis using e_text [OF Some] by (simp add: snmp_fails_def job_failed_def)
  next
    case None
    show ?thesis
    proof (cases "se_poll env (PollarisName job) (JobName job)")
      case (Inl err)
      then show ?thesis using ex(1) con None by (simp add: snmp_Exec_def)
    next
      case (Inr pl)
      show ?thesis
      proof (cases "poll_Operation pl")
        case L8C_Get
        then have "get_job env pl c1 job = Inr (c', job')" using ex(1) con None Inr by (simp add: snmp_Exec_def)
        from get_job_outcome [OF this] show ?thesis using L8C_Get Inr by (auto simp: job_failed_def job_done_def)
      next
        case L8C_Map
        then obtain m where "walk_job env pl True c1 job = Inr (c', job', m)"
          using ex(1) con None Inr by (auto simp: snmp_Exec_def elim: bind_res_InrE)
        from walk_job_outcome [OF this] show ?thesis using L8C_Map Inr by (auto simp: job_failed_def job_done_def)
      next
        case L8C_Table
        then have "table_job env pl c1 job = Inr (c', job')" using ex(1) con None Inr by (simp add: snmp_Exec_def)
        from table_job_outcome [OF this assms(2)] show ?thesis using L8C_Table Inr by auto
      next
        case (OtherOperation n)
        then have "job' = job" using ex(1) con None Inr by (simp add: snmp_Exec_def)
        then show ?thesis using OtherOperation Inr by simp
      qed
    qed
  qed
  then show ?thesis using ex by blast
qed


section \<open>Walking a device\<close>

text \<open>
  A device as the walk sees it: its objects in increasing lexicographic order, and the identifiers
  after which a GetNext fails each time it is tried. A failing request, like an answer, leaves the
  device as it is; a new session can always be opened. After the last object the library gives its
  end marker.
\<close>

definition next_answer :: "(oid \<times> bytes) list \<Rightarrow> oid set \<Rightarrow> oid \<Rightarrow> string + (oid \<times> snmp_value)" where
  "next_answer mib bad o1 =
     (if o1 \<in> bad then Inl ''request timeout''
      else case filter (\<lambda>e. o1 < fst e) mib of [] \<Rightarrow> Inr (o1, BERType) | (o2, v) # _ \<Rightarrow> Inr (o2, SnmpValue v))"

definition serves :: "'w snmp_env \<Rightarrow> (oid \<times> bytes) list \<Rightarrow> oid set \<Rightarrow> bool" where
  "serves env mib bad \<longleftrightarrow> se_credential env \<noteq> None \<and> (\<forall>w. se_open env w = (w, None)) \<and>
     sorted_wrt (<) (map fst mib) \<and> (\<forall>w o1. se_getnext env w o1 = (w, next_answer mib bad o1)) \<and>
     (\<forall>w. length mib < se_budget env w)"

definition subtree :: "oid \<Rightarrow> (oid \<times> bytes) list \<Rightarrow> (oid \<times> bytes) list" where
  "subtree root mib = filter (\<lambda>e. root < fst e \<and> prefix root (fst e)) mib"

text \<open>The objects visited when requests fail after the identifiers in \<open>bad\<close>.\<close>

fun visited :: "oid set \<Rightarrow> oid \<Rightarrow> (oid \<times> bytes) list \<Rightarrow> (oid \<times> bytes) list" where
  "visited bad cur [] = []"
| "visited bad cur (e # es) = (if cur \<in> bad then [] else e # visited bad (fst e) es)"

lemma visited_all [simp]: "visited {} cur es = es"
  by (induction es arbitrary: cur) auto

lemma prefix_between:
  fixes root :: "nat list"
  assumes "a < b" "b < c" "prefix root a" "prefix root c"
  shows "prefix root b"
  using assms
proof (induction root arbitrary: a b c)
  case (Cons x root)
  obtain a' where a: "a = x # a'" "prefix root a'" using Cons.prems(3) by (cases a) auto
  obtain c' where c: "c = x # c'" "prefix root c'" using Cons.prems(4) by (cases c) auto
  obtain b' where b: "b = x # b'" "a' < b'" "b' < c'"
    using Cons.prems(1,2) a c by (cases b) auto
  show ?case using Cons.IH [OF b(2,3) a(2) c(2)] b(1) by simp
qed simp

lemma filter_above:
  fixes mib :: "(oid \<times> bytes) list"
  assumes "sorted_wrt (<) (map fst mib)" and "filter (\<lambda>e. cur < fst e) mib = x # rest"
  shows "filter (\<lambda>e. fst x < fst e) mib = rest"
  using assms
proof (induction mib)
  case (Cons e es)
  show ?case
  proof (cases "cur < fst e")
    case True
    then have "x = e" "filter (\<lambda>e. cur < fst e) es = rest" using Cons.prems(2) by auto
    moreover have "\<forall>a \<in> set es. fst e < fst a" using Cons.prems(1) by simp
    moreover have "filter (\<lambda>a. fst e < fst a) es = es" "filter (\<lambda>a. cur < fst a) es = es"
      using calculation(3) True by (auto simp: filter_id_conv intro: less_trans)
    ultimately show ?thesis by simp
  next
    case False
    then have f: "filter (\<lambda>e. cur < fst e) es = x # rest" using Cons.prems(2) by simp
    then have "x \<in> set es" by (metis filter_is_subset list.set_intros(1) subsetD)
    then have "\<not> fst x < fst e" using Cons.prems(1) by (auto dest: less_trans)
    then show ?thesis using Cons.IH f Cons.prems(1) by simp
  qed
qed simp

lemma filter_outside:
  fixes mib :: "(oid \<times> bytes) list"
  assumes "sorted_wrt (<) (map fst mib)" and "filter (\<lambda>e. cur < fst e) mib = x # rest"
    and "prefix root cur" and "\<not> prefix root (fst x)"
  shows "filter (\<lambda>e. cur < fst e \<and> prefix root (fst e)) mib = []"
proof -
  have x: "cur < fst x" using arg_cong [OF assms(2), of set] by auto
  have "\<not> prefix root (fst e)" if "e \<in> set mib" "cur < fst e" for e
  proof
    assume p: "prefix root (fst e)"
    have "e \<in> set (x # rest)" using that arg_cong [OF assms(2), of set] by auto
    moreover have "e \<noteq> x" using p assms(4) by blast
    ultimately have "e \<in> set (filter (\<lambda>e. fst x < fst e) mib)" using filter_above [OF assms(1,2)] by simp
    then have "fst x < fst e" by simp
    then show False using prefix_between [OF x _ assms(3) p] assms(4) by blast
  qed
  then show ?thesis by (auto simp: filter_empty_conv)
qed

lemma next_oid_serves:
  assumes "serves env mib bad" and "sn_session c" and "sn_connected c"
  shows "next_oid env cur c = (c, case next_answer mib bad cur of Inl e \<Rightarrow> Fails e | Inr nv \<Rightarrow> Fine nv)"
proof -
  have "reconnectSession env c = Inr (c, None)"
    using assms by (auto simp: reconnectSession_def snmp_Connect_def snmp_Disconnect_def serves_def)
  then show ?thesis using assms(1) by (auto simp: next_oid_def serves_def split: sum.split)
qed

abbreviation named :: "'w snmp_env \<Rightarrow> (oid \<times> bytes) list \<Rightarrow> pdu list" where
  "named env es \<equiv> map (\<lambda>e. (se_show env (fst e), snd e)) es"

lemma walk_loop_serves:
  assumes "serves env mib bad" and "sn_session c" and "sn_connected c" and "prefix root cur"
    and "length (filter (\<lambda>e. cur < fst e) mib) < n"
  shows "walk_loop env root n cur acc c =
    (c, Some (Fine (acc @ named env (visited bad cur (filter (\<lambda>e. cur < fst e \<and> prefix root (fst e)) mib)))))"
  using assms(4,5)
proof (induction n arbitrary: cur acc)
  case (Suc n)
  note srt = assms(1) [unfolded serves_def, THEN conjunct2, THEN conjunct2, THEN conjunct1]
  let ?below = "\<lambda>cur. filter (\<lambda>e. cur < fst e \<and> prefix root (fst e)) mib"
  show ?case
  proof (cases "cur \<in> bad")
    case True
    then have "visited bad cur (?below cur) = []" by (cases "?below cur") auto
    then show ?thesis using assms(2) True
      by (simp only: walk_loop.simps next_oid_serves [OF assms(1-3)]) (simp add: next_answer_def)
  next
    case good: False
    show ?thesis
    proof (cases "filter (\<lambda>e. cur < fst e) mib")
      case Nil
      then have "?below cur = []" by (auto simp: filter_empty_conv)
      then show ?thesis using assms(2) good Nil Suc.prems(1)
        by (simp only: walk_loop.simps next_oid_serves [OF assms(1-3)]) (simp add: next_answer_def)
    next
      case (Cons x rest)
      note above = filter_above [OF srt Cons]
      show ?thesis
      proof (cases "prefix root (fst x)")
        case False
        then show ?thesis using assms(2) good Cons filter_outside [OF srt Cons Suc.prems(1) False]
          by (cases x) (simp only: walk_loop.simps next_oid_serves [OF assms(1-3)], simp add: next_answer_def)
      next
        case True
        have "?below cur = filter (\<lambda>e. prefix root (fst e)) (x # rest)"
          by (simp only: Cons [symmetric] filter_filter)
        then have b: "?below cur = x # filter (\<lambda>e. prefix root (fst e)) rest" using True by simp
        have "?below (fst x) = filter (\<lambda>e. prefix root (fst e)) rest"
          by (simp only: above [symmetric] filter_filter)
        then have v: "visited bad cur (?below cur) = x # visited bad (fst x) (?below (fst x))" using b good by simp
        have "length (filter (\<lambda>e. fst x < fst e) mib) < n" using Suc.prems(2) Cons above by simp
        from Suc.IH [OF True this] show ?thesis using assms(2) good Cons True v
          by (cases x) (simp only: walk_loop.simps next_oid_serves [OF assms(1-3)], simp add: next_answer_def)
      qed
    qed
  qed
qed simp

text \<open>The whole walk, and the job that asks for it as a map.\<close>

lemma snmpWalk_serves:
  assumes "serves env mib bad" and "sn_session c" and "sn_connected c" and "se_parse env what = Inr root"
    and "visited bad root (subtree root mib) \<noteq> []"
  shows "snmpWalk env what c = (c, Some (Fine (named env (visited bad root (subtree root mib)))))"
proof -
  have "length mib < se_budget env (sn_world c)" using assms(1) by (simp add: serves_def)
  then have n: "length (filter (\<lambda>e. root < fst e) mib) < se_budget env (sn_world c)"
    using length_filter_le [of "\<lambda>e. root < fst e" mib] by linarith
  obtain p ps where ne: "named env (visited bad root (subtree root mib)) = p # ps"
    using assms(5) by (cases "visited bad root (subtree root mib)") auto
  from walk_loop_serves [OF assms(1-3) prefix_order.refl n, of "[]"] show ?thesis
    using assms(2,4) ne by (simp add: snmpWalk_def subtree_def)
qed

lemma map_of_pdus_distinct:
  assumes "distinct (map (\<lambda>p. normalizeOID (fst p)) pdus)"
  shows "map_of_pdus pdus = map (\<lambda>p. (normalizeOID (fst p), snd p)) pdus"
proof -
  have new: "k \<notin> fst ` set m \<Longrightarrow> AList.update k v m = m @ [(k, v)]" for k and v :: bytes and m
    by (induction m) auto
  have "fold (\<lambda>(name, v) m. AList.update (normalizeOID name) v m) pdus m =
      m @ map (\<lambda>p. (normalizeOID (fst p), snd p)) pdus"
    if "distinct (map fst m @ map (\<lambda>p. normalizeOID (fst p)) pdus)" for m
    using that
  proof (induction pdus arbitrary: m)
    case (Cons p ps)
    obtain k v where p: "p = (k, v)" by (cases p)
    have "normalizeOID k \<notin> fst ` set m" using Cons.prems by (auto simp: p)
    then have "AList.update (normalizeOID k) v m = m @ [(normalizeOID k, v)]" by (rule new)
    then show ?case using Cons.IH [of "m @ [(normalizeOID k, v)]"] Cons.prems by (simp add: p)
  qed simp
  from this [of "[]"] assms show ?thesis by (simp add: map_of_pdus_def)
qed

abbreviation collected :: "'w snmp_env \<Rightarrow> (oid \<times> bytes) list \<Rightarrow> cmap" where
  "collected env es \<equiv> map (\<lambda>e. (normalizeOID (se_show env (fst e)), snd e)) es"

lemma inj_on_show:
  assumes "inj_on (\<lambda>o1. normalizeOID (se_show env o1)) (fst ` set mib)" and "sorted_wrt (<) (map fst mib)"
  shows "distinct (map (\<lambda>p. normalizeOID (fst p)) (named env (subtree root mib)))"
proof -
  have "distinct (map fst mib)" using assms(2) strict_sorted_iff by blast
  then have d: "distinct (map fst (subtree root mib))" by (simp add: subtree_def distinct_map_filter)
  have "inj_on (\<lambda>o1. normalizeOID (se_show env o1)) (set (map fst (subtree root mib)))"
    by (rule inj_on_subset [OF assms(1)]) (auto simp: subtree_def)
  from d this have "distinct (map (\<lambda>o1. normalizeOID (se_show env o1)) (map fst (subtree root mib)))"
    by (simp add: distinct_map comp_inj_on)
  then show ?thesis by (simp add: comp_def)
qed

lemma map_of_pdus_part:
  assumes "sorted_wrt (<) (map fst mib)" and "inj_on (\<lambda>o1. normalizeOID (se_show env o1)) (fst ` set mib)"
    and "prefix es (subtree root mib)"
  shows "map_of_pdus (named env es) = collected env es"
proof -
  obtain zs where "subtree root mib = es @ zs" using assms(3) by (auto elim: prefixE)
  with inj_on_show [OF assms(2,1), of root]
  have "distinct (map (\<lambda>p. normalizeOID (fst p)) (named env (es @ zs)))" by (rule subst [rotated])
  then have "distinct (map (\<lambda>p. normalizeOID (fst p)) (named env es))" by simp
  from map_of_pdus_distinct [OF this] show ?thesis by (simp add: comp_def)
qed

lemma visited_prefix: "prefix (visited bad cur es) es"
  by (induction es arbitrary: cur) auto

lemma walk_job_serves:
  assumes "serves env mib bad" and "sn_session c" and "sn_connected c" and "se_parse env (poll_What pl) = Inr root"
    and "visited bad root (subtree root mib) \<noteq> []"
    and "inj_on (\<lambda>o1. normalizeOID (se_show env o1)) (fst ` set mib)"
  shows "walk_job env pl True c job = Inr (c\<lparr>sn_pollSuccess := True\<rparr>,
    job\<lparr>ErrorCount := 0, Result := Some (se_encode_map env (collected env (visited bad root (subtree root mib))))\<rparr>,
    Some (collected env (visited bad root (subtree root mib))))"
proof -
  let ?es = "visited bad root (subtree root mib)"
  have m: "map_of_pdus (named env ?es) = collected env ?es"
    by (rule map_of_pdus_part [OF _ assms(6) visited_prefix]) (use assms(1) in \<open>simp add: serves_def\<close>)
  have "attempt ''Walk'' (snmpWalk env (poll_What pl)) env c = (c\<lparr>sn_pollSuccess := True\<rparr>, Inr (named env ?es))"
    by (simp add: attempt_def snmpWalk_serves [OF assms(1-5)])
  then have "retry ''Walk'' (snmpWalk env (poll_What pl)) env 9 c = Inr (c\<lparr>sn_pollSuccess := True\<rparr>, Inr (named env ?es))"
    by (simp only: numeral_eq_Suc retry.simps prod.case sum.case)
  then show ?thesis by (simp add: walk_job_def Let_def m)
qed

text \<open>
  C18. Against a device whose GetNext answers with the lexicographically next object, a Map job
  collects exactly the objects below the requested identifier, each once, in order and under its
  canonical name, and reports success; the end of the device and the first object outside the subtree
  both end the walk.
\<close>

theorem walk_collects_subtree:
  assumes "serves env mib {}" and "sn_session c" and "sn_connected c"
    and "se_poll env (PollarisName job) (JobName job) = Inr pl" and "poll_Operation pl = L8C_Map"
    and "se_parse env (poll_What pl) = Inr root" and "subtree root mib \<noteq> []"
    and "inj_on (\<lambda>o1. normalizeOID (se_show env o1)) (fst ` set mib)"
  shows "snmp_Exec env c job = Inr (c\<lparr>sn_pollSuccess := True\<rparr>,
    job\<lparr>ErrorCount := 0, Result := Some (se_encode_map env (collected env (subtree root mib)))\<rparr>)"
  using walk_job_serves [OF assms(1-3,6) _ assms(8)] assms(3-5,7) by (simp add: snmp_Exec_def)

lemma visited_cut:
  "cur \<notin> bad \<Longrightarrow> fst ` set es1 \<inter> bad = {} \<Longrightarrow> o1 \<in> bad \<Longrightarrow>
   visited bad cur (es1 @ (o1, v) # es2) = es1 @ [(o1, v)]"
proof (induction es1 arbitrary: cur)
  case Nil
  then show ?case by (cases es2) auto
qed auto

text \<open>
  When the request after some object of the subtree keeps failing, the walk ends there and the job
  still reports success: error count 0, no error, and as its result the objects before the failure
  only, with nothing that tells them from a complete walk.
\<close>

theorem failing_walk_reported_complete:
  assumes "serves env mib bad" and "sn_session c" and "sn_connected c"
    and "se_poll env (PollarisName job) (JobName job) = Inr pl" and "poll_Operation pl = L8C_Map"
    and "se_parse env (poll_What pl) = Inr root" and "subtree root mib = es1 @ (o1, v) # es2"
    and "root \<notin> bad" and "fst ` set es1 \<inter> bad = {}" and "o1 \<in> bad"
    and "inj_on (\<lambda>o1. normalizeOID (se_show env o1)) (fst ` set mib)"
  shows "snmp_Exec env c job = Inr (c\<lparr>sn_pollSuccess := True\<rparr>,
    job\<lparr>ErrorCount := 0, Result := Some (se_encode_map env (collected env (es1 @ [(o1, v)])))\<rparr>)"
proof -
  have "visited bad root (subtree root mib) = es1 @ [(o1, v)]"
    using visited_cut [OF assms(8-10)] assms(7) by simp
  with walk_job_serves [OF assms(1-3,6) _ assms(11)] show ?thesis
    using assms(3-5) by (simp add: snmp_Exec_def)
qed

section \<open>A device to run it on\<close>

definition show_oid :: "oid \<Rightarrow> string" where
  "show_oid o1 = concat (map (\<lambda>n. ''.'' @ dec_nat n) o1)"

definition demo_mib :: "(oid \<times> bytes) list" where
  "demo_mib = [([1, 2], [0]), ([1, 3, 1], [5]), ([1, 3, 2], [6]), ([1, 3, 2, 7], [7]), ([1, 4], [9])]"

definition demo_snmp_poll :: "operation \<Rightarrow> string \<Rightarrow> poll" where
  "demo_snmp_poll op what = \<lparr>poll_Name = ''p'', poll_What = what, poll_Operation = op, poll_Protocol = L8PPSNMPV2,
     poll_Cadence = None, poll_Timeout = 0, poll_Always = False, poll_RespName = ''''\<rparr>"

definition demo_snmp :: "oid set \<Rightarrow> unit snmp_env" where
  "demo_snmp bad = \<lparr>se_credential = Some ''public'', se_open = \<lambda>w. (w, None), se_parse = \<lambda>_. Inr [1, 3],
     se_show = show_oid, se_get = \<lambda>w o1. (w, Inl ''none''), se_getnext = \<lambda>w o1. (w, next_answer demo_mib bad o1),
     se_budget = \<lambda>_. 100, se_poll = \<lambda>_ _. Inr (demo_snmp_poll L8C_Map ''1.3''),
     se_encode_map = concat \<circ> map snd, se_encode_table = \<lambda>_. Inr [], se_keys = \<lambda>m. m, se_seconds = dec_int\<rparr>"

definition demo_session :: "unit snmp_collector" where
  "demo_session = \<lparr>sn_config = \<lparr>cfg_Protocol = L8PPSNMPV2, cfg_Addr = ''10.0.0.1'', cfg_Port = 161,
     cfg_CredId = '''', cfg_Timeout = 5, cfg_HttpPrefix = '''', cfg_Prompt = [], cfg_Ainfo = None, cfg_Cert = '''', cfg_Terminal = '''',
     cfg_TerminalCommands = None\<rparr>,
     sn_session = True, sn_connected = True, sn_pollSuccess = False, sn_world = ()\<rparr>"

lemma demo_session_flags: "sn_session demo_session" "sn_connected demo_session"
  by (simp_all add: demo_session_def)

lemma demo_serves: "serves (demo_snmp bad) demo_mib bad"
  by (simp add: serves_def demo_snmp_def demo_mib_def)

lemma demo_subtree: "subtree [1, 3] demo_mib = [([1, 3, 1], [5]), ([1, 3, 2], [6]), ([1, 3, 2, 7], [7])]"
  by (simp add: subtree_def demo_mib_def)

lemma demo_encode: "se_encode_map (demo_snmp bad) m = concat (map snd m)"
  by (simp add: demo_snmp_def)

lemma demo_inj: "inj_on (\<lambda>o1. normalizeOID (se_show (demo_snmp bad) o1)) (fst ` set demo_mib)"
  by (simp add: demo_mib_def demo_snmp_def show_oid_def normalizeOID_def HasPrefix_def dec_nat.simps)

theorem snmp_exec_outcome_witness:
  "\<exists>c' job'. snmp_Exec (demo_snmp {[1, 3]}) demo_session empty_job = Inr (c', job') \<and> exec_frame empty_job job'"
proof -
  have "se_credential (demo_snmp {[1, 3]}) \<noteq> None" "Error empty_job = ''''"
    by (simp_all add: demo_snmp_def empty_job_def)
  from snmp_exec_outcome [OF this, of demo_session] show ?thesis by blast
qed

theorem walk_collects_subtree_witness:
  "\<exists>c'. snmp_Exec (demo_snmp {}) demo_session empty_job =
     Inr (c', empty_job\<lparr>ErrorCount := 0, Result := Some [5, 6, 7]\<rparr>)"
proof -
  have "se_poll (demo_snmp {}) (PollarisName empty_job) (JobName empty_job) = Inr (demo_snmp_poll L8C_Map ''1.3'')"
    "poll_Operation (demo_snmp_poll L8C_Map ''1.3'') = L8C_Map"
    "se_parse (demo_snmp {}) (poll_What (demo_snmp_poll L8C_Map ''1.3'')) = Inr [1, 3]" "subtree [1, 3] demo_mib \<noteq> []"
    by (simp_all add: demo_snmp_def demo_snmp_poll_def demo_subtree del: One_nat_def)
  from walk_collects_subtree [OF demo_serves demo_session_flags this demo_inj] show ?thesis
    by (simp only: demo_subtree demo_encode) auto
qed

theorem failing_walk_reported_complete_witness:
  "\<exists>c'. snmp_Exec (demo_snmp {[1, 3, 2]}) demo_session empty_job =
     Inr (c', empty_job\<lparr>ErrorCount := 0, Result := Some [5, 6]\<rparr>)"
proof -
  let ?env = "demo_snmp {[1, 3, 2]}"
  have "se_poll ?env (PollarisName empty_job) (JobName empty_job) = Inr (demo_snmp_poll L8C_Map ''1.3'')"
    "poll_Operation (demo_snmp_poll L8C_Map ''1.3'') = L8C_Map"
    "se_parse ?env (poll_What (demo_snmp_poll L8C_Map ''1.3'')) = Inr [1, 3]"
    "subtree [1, 3] demo_mib = [([1, 3, 1], [5])] @ ([1, 3, 2], [6]) # [([1, 3, 2, 7], [7])]"
    "[1, 3] \<notin> {[1, 3, 2 :: nat]}" "fst ` set [([1, 3, 1], [5 :: 8 word])] \<inter> {[1, 3, 2 :: nat]} = {}"
    "[1, 3, 2] \<in> {[1, 3, 2 :: nat]}"
    by (simp_all add: demo_snmp_def demo_snmp_poll_def demo_subtree del: One_nat_def)
  from failing_walk_reported_complete [OF demo_serves demo_session_flags this demo_inj] show ?thesis
    by (simp only: demo_encode) auto
qed

section \<open>Retries of a Get\<close>

text \<open>A device whose first \<open>k\<close> requests fail; the state of the network counts the requests.\<close>

definition flaky :: "nat \<Rightarrow> bytes \<Rightarrow> nat snmp_env \<Rightarrow> bool" where
  "flaky k v env \<longleftrightarrow> se_credential env \<noteq> None \<and> (\<forall>w. se_open env w = (w, None)) \<and> (\<forall>w. 2 \<le> se_budget env w) \<and>
     (\<forall>w o1. se_get env w o1 = (Suc w, if w < k then Inl ''request timeout'' else Inr v))"

lemma snmpGet_flaky:
  assumes "flaky k v env" and "sn_session c" and "sn_connected c" and "se_parse env what = Inr o1"
  shows "\<exists>t. snmpGet env what c =
    (let w = sn_world c in
     if k \<le> w then (c\<lparr>sn_world := Suc w\<rparr>, Some (Fine (what, v)))
     else if k \<le> Suc w then (c\<lparr>sn_world := Suc (Suc w)\<rparr>, Some (Fine (what, v)))
     else (c\<lparr>sn_world := Suc (Suc w)\<rparr>, Some (Fails t)))"
proof -
  have b: "se_budget env w \<noteq> 0" "\<not> se_budget env w \<le> Suc 0" for w
  proof -
    have "2 \<le> se_budget env w" using assms(1) by (simp add: flaky_def)
    then show "se_budget env w \<noteq> 0" "\<not> se_budget env w \<le> Suc 0" by linarith+
  qed
  have r: "reconnectSession env (c\<lparr>sn_world := w\<rparr>) = Inr (c\<lparr>sn_world := w\<rparr>, None)" for w
    using assms by (auto simp: reconnectSession_def snmp_Connect_def snmp_Disconnect_def flaky_def)
  have g: "se_get env w o1 = (Suc w, if w < k then Inl ''request timeout'' else Inr v)" for w
    using assms(1) by (simp add: flaky_def)
  show ?thesis using assms(2,4) by (auto simp: snmpGet_def b r g Let_def not_le)
qed

lemma retry_flaky:
  assumes "flaky k v env" and "se_parse env what = Inr o1"
  shows "sn_session c \<Longrightarrow> sn_connected c \<Longrightarrow>
    \<exists>c' r. retry ''GET'' (snmpGet env what) env n c = Inr (c', r) \<and>
      (if k < sn_world c + 2 * Suc n then r = Inr (what, v) else \<exists>t. r = Inl t)"
proof (induction n arbitrary: c)
  case 0
  obtain t where "snmpGet env what c = (let w = sn_world c in
     if k \<le> w then (c\<lparr>sn_world := Suc w\<rparr>, Some (Fine (what, v)))
     else if k \<le> Suc w then (c\<lparr>sn_world := Suc (Suc w)\<rparr>, Some (Fine (what, v)))
     else (c\<lparr>sn_world := Suc (Suc w)\<rparr>, Some (Fails t)))" using snmpGet_flaky [OF assms(1) 0 assms(2)] by blast
  then show ?case by (auto simp: attempt_def Let_def)
next
  case (Suc n)
  obtain t where g: "snmpGet env what c = (let w = sn_world c in
     if k \<le> w then (c\<lparr>sn_world := Suc w\<rparr>, Some (Fine (what, v)))
     else if k \<le> Suc w then (c\<lparr>sn_world := Suc (Suc w)\<rparr>, Some (Fine (what, v)))
     else (c\<lparr>sn_world := Suc (Suc w)\<rparr>, Some (Fails t)))" using snmpGet_flaky [OF assms(1) Suc.prems assms(2)] by blast
  show ?case
  proof (cases "k \<le> Suc (sn_world c)")
    case True
    then show ?thesis by (auto simp: attempt_def Let_def g)
  next
    case False
    let ?c = "c\<lparr>sn_world := Suc (Suc (sn_world c)), sn_pollSuccess := True\<rparr>"
    have a: "attempt ''GET'' (snmpGet env what) env c = (?c, Inl t)" using False by (simp add: attempt_def Let_def g)
    have "reconnectSession env ?c = Inr (?c, None)"
      using assms Suc.prems by (auto simp: reconnectSession_def snmp_Connect_def snmp_Disconnect_def flaky_def)
    then have "retry ''GET'' (snmpGet env what) env (Suc n) c = retry ''GET'' (snmpGet env what) env n ?c"
      by (simp add: a)
    moreover have "(k < sn_world ?c + 2 * Suc n) = (k < sn_world c + 2 * Suc (Suc n))" by simp
    ultimately show ?thesis using Suc.IH [of ?c] Suc.prems by simp
  qed
qed

text \<open>
  A Get survives exactly 19 failing requests in a row: ten attempts of two requests each. With at
  most 19 failures the job ends with the value of the object under its canonical name and error count
  0; with 20 or more it ends with an error, no result and one more error.
\<close>

theorem get_survives_19_failures:
  assumes "flaky k v env" and "sn_session c" and "sn_connected c" and "sn_world c = 0"
    and "se_poll env (PollarisName job) (JobName job) = Inr pl" and "poll_Operation pl = L8C_Get"
    and "se_parse env (poll_What pl) = Inr o1"
  shows "\<exists>c' job'. snmp_Exec env c job = Inr (c', job') \<and>
    (if k \<le> 19 then job' = job\<lparr>ErrorCount := 0, Result := Some (se_encode_map env [(normalizeOID (poll_What pl), v)])\<rparr>
     else job_failed job job')"
proof -
  obtain c' r where r: "retry ''GET'' (snmpGet env (poll_What pl)) env 9 c = Inr (c', r)"
    "if k < 20 then r = Inr (poll_What pl, v) else \<exists>t. r = Inl t"
    using retry_flaky [OF assms(1,7,2,3), of 9] assms(4) by auto
  then show ?thesis using assms(3,5,6) by (cases "k < 20") (auto simp: snmp_Exec_def get_job_def)
qed

definition demo_flaky :: "nat \<Rightarrow> nat snmp_env" where
  "demo_flaky k = \<lparr>se_credential = Some ''public'', se_open = \<lambda>w. (w, None), se_parse = \<lambda>_. Inr [1, 3, 1],
     se_show = show_oid, se_get = \<lambda>w o1. (Suc w, if w < k then Inl ''request timeout'' else Inr [5]),
     se_getnext = \<lambda>w o1. (w, Inl ''none''), se_budget = \<lambda>_. 100, se_poll = \<lambda>_ _. Inr (demo_snmp_poll L8C_Get ''1.3.1''),
     se_encode_map = concat \<circ> map snd, se_encode_table = \<lambda>_. Inr [], se_keys = \<lambda>m. m, se_seconds = dec_int\<rparr>"

definition counting_session :: "nat snmp_collector" where
  "counting_session = \<lparr>sn_config = sn_config demo_session, sn_session = True, sn_connected = True,
     sn_pollSuccess = False, sn_world = 0\<rparr>"

theorem get_survives_19_failures_witness:
  "(\<exists>c'. snmp_Exec (demo_flaky 19) counting_session empty_job =
      Inr (c', empty_job\<lparr>ErrorCount := 0, Result := Some [5]\<rparr>)) \<and>
   (\<exists>c' job'. snmp_Exec (demo_flaky 20) counting_session empty_job = Inr (c', job') \<and> ErrorCount job' = 1)"
proof -
  have f: "flaky k [5] (demo_flaky k)" for k by (simp add: flaky_def demo_flaky_def)
  have c: "sn_session counting_session" "sn_connected counting_session" "sn_world counting_session = 0"
    by (simp_all add: counting_session_def)
  have p: "se_poll (demo_flaky k) (PollarisName empty_job) (JobName empty_job) = Inr (demo_snmp_poll L8C_Get ''1.3.1'')"
    "poll_Operation (demo_snmp_poll L8C_Get ''1.3.1'') = L8C_Get"
    "se_parse (demo_flaky k) (poll_What (demo_snmp_poll L8C_Get ''1.3.1'')) = Inr [1, 3, 1]" for k
    by (simp_all add: demo_flaky_def demo_snmp_poll_def)
  from get_survives_19_failures [OF f c p, of 19] get_survives_19_failures [OF f c p, of 20]
  show ?thesis by (simp add: job_failed_def empty_job_def demo_flaky_def) blast
qed

end
