(* ===== verification/Ssh.thy ===== *)
theory Ssh
  imports Go_Strings Protocol_Collector
begin

text \<open>
  \<open>protocols/ssh/Ssh.go\<close>: the collector that types commands into an interactive shell. The network, the
  SSH library and the clock are arguments: \<open>'w\<close> is their state, \<open>ssh_env\<close> says how each call is
  answered in it. \<open>sse_arrived\<close> is one cycle of the waiting loop: what the background reader has queued,
  and the world after the cycle's sleep. The reader is started by \<open>Connect\<close> and runs only while
  \<open>running\<close> holds; while it does not run, nothing is queued.
\<close>

record 'w ssh_env =
  sse_credential :: "(string \<times> string) option"
  sse_dial :: "'w \<Rightarrow> 'w \<times> string option"
  sse_session :: "'w \<Rightarrow> 'w \<times> string option"
  sse_pty :: "'w \<Rightarrow> 'w \<times> string option"
  sse_shell :: "'w \<Rightarrow> 'w \<times> string option"
  sse_write :: "'w \<Rightarrow> string \<Rightarrow> 'w \<times> string option"
  sse_arrived :: "'w \<Rightarrow> 'w \<times> string list"
  sse_now :: "'w \<Rightarrow> int"
  sse_poll :: "string \<Rightarrow> string \<Rightarrow> string + poll"
  sse_encode :: "string \<Rightarrow> bytes"
  sse_error :: "string list \<Rightarrow> string"

record 'w ssh_collector =
  sh_config :: host_protocol
  sh_client :: bool
  sh_session :: bool
  sh_in :: bool
  sh_reader :: bool
  sh_running :: bool
  sh_connected :: bool
  sh_pollOnce :: bool
  sh_world :: 'w

section \<open>Life cycle\<close>

definition ssh_Init :: "host_protocol \<Rightarrow> 'w \<Rightarrow> 'w ssh_collector" where
  "ssh_Init conf w = \<lparr>sh_config = (if cfg_Prompt conf = [] then conf\<lparr>cfg_Prompt := [''#'']\<rparr> else conf),
     sh_client = False, sh_session = False, sh_in = False, sh_reader = False, sh_running = True,
     sh_connected = False, sh_pollOnce = False, sh_world = w\<rparr>"

fun ssh_writes :: "'w ssh_env \<Rightarrow> string list \<Rightarrow> 'w \<Rightarrow> 'w" where
  "ssh_writes env [] w = w"
| "ssh_writes env (cmd # cmds) w = ssh_writes env cmds (fst (sse_write env w cmd))"

definition ssh_hostport :: "'w ssh_collector \<Rightarrow> string" where
  "ssh_hostport c = cfg_Addr (sh_config c) @ ''/'' @ dec_int (cfg_Port (sh_config c))"

text \<open>From the session on: the terminal, the shell, its first commands, the reader.\<close>

definition ssh_start_shell :: "'w ssh_env \<Rightarrow> 'w ssh_collector \<Rightarrow> 'w ssh_collector \<times> string option" where
  "ssh_start_shell env c =
     (case (if cfg_Terminal (sh_config c) = ''vt100'' then sse_pty env (sh_world c) else (sh_world c, None)) of
        (w, Some err) \<Rightarrow>
          (c\<lparr>sh_world := w\<rparr>, Some (sse_error env [''Ssh terminal vt100 Error Host:'', ssh_hostport c, err]))
      | (w, None) \<Rightarrow>
          (case sse_shell env w of
             (w, Some err) \<Rightarrow>
               (c\<lparr>sh_in := True, sh_world := w\<rparr>, Some (sse_error env [''Ssh Shell Error Host:'', ssh_hostport c, err]))
           | (w, None) \<Rightarrow>
               (c\<lparr>sh_in := True, sh_reader := sh_running c, sh_connected := True,
                  sh_world := ssh_writes env (case cfg_TerminalCommands (sh_config c) of None \<Rightarrow> [] | Some cmds \<Rightarrow> cmds) w\<rparr>,
                None)))"

definition ssh_Connect :: "'w ssh_env \<Rightarrow> 'w ssh_collector \<Rightarrow> ('w ssh_collector \<times> string option) res" where
  "ssh_Connect env c =
     (case sse_credential env of
        None \<Rightarrow> Inl (Raised ''credential'')
      | Some _ \<Rightarrow>
          (case sse_dial env (sh_world c) of
             (w, Some err) \<Rightarrow>
               Inr (c\<lparr>sh_world := w\<rparr>, Some (sse_error env [''Ssh Dial Error Host:'', ssh_hostport c, err]))
           | (w, None) \<Rightarrow>
               (case sse_session env w of
                  (w, Some err) \<Rightarrow>
                    Inr (c\<lparr>sh_client := True, sh_world := w\<rparr>,
                      Some (sse_error env [''Ssh Session Error Host:'', ssh_hostport c, err]))
                | (w, None) \<Rightarrow> Inr (ssh_start_shell env (c\<lparr>sh_client := True, sh_session := True, sh_world := w\<rparr>)))))"

definition ssh_Disconnect :: "'w ssh_collector \<Rightarrow> 'w ssh_collector" where
  "ssh_Disconnect c =
     c\<lparr>sh_running := False, sh_reader := False, sh_in := False, sh_session := False, sh_client := False,
       sh_connected := False\<rparr>"

definition ssh_Online :: "'w ssh_collector \<Rightarrow> bool" where
  "ssh_Online c \<longleftrightarrow> sh_connected c \<or> \<not> sh_pollOnce c"

section \<open>Prompts\<close>

definition setInitialPrompt :: "string \<Rightarrow> 'w ssh_collector \<Rightarrow> 'w ssh_collector res" where
  "setInitialPrompt str c =
     (case LastIndex_char str CHR 0x0A of
        None \<Rightarrow> Inr c
      | Some i \<Rightarrow>
          (case cfg_Prompt (sh_config c) of
             [] \<Rightarrow> Inl IndexOutOfRange
           | _ # ps \<Rightarrow> Inr (c\<lparr>sh_config := (sh_config c)\<lparr>cfg_Prompt := drop (Suc i) str # ps\<rparr>\<rparr>)))"

definition hasPrompt :: "string list \<Rightarrow> string \<Rightarrow> nat \<Rightarrow> bool" where
  "hasPrompt prompts data cnt =
     (case prompts of
        [p] \<Rightarrow> cnt \<le> Count data p
      | [p, q] \<Rightarrow> cnt \<le> Count data p \<or> cnt \<le> Count data q
      | _ \<Rightarrow> list_ex (\<lambda>p. cnt \<le> Count data p) prompts)"

section \<open>Running a command\<close>

definition ssh_cycle :: "'w ssh_env \<Rightarrow> bool \<Rightarrow> 'w \<Rightarrow> 'w \<times> string" where
  "ssh_cycle env reader w = (case sse_arrived env w of (w', chunks) \<Rightarrow> (w', if reader then concat chunks else []))"

partial_function (option) exec_loop ::
  "'w ssh_env \<Rightarrow> bool \<Rightarrow> string list \<Rightarrow> int \<Rightarrow> int \<Rightarrow> 'w \<Rightarrow> string \<Rightarrow> nat \<Rightarrow> nat \<Rightarrow> ('w \<times> string) option" where
  "exec_loop env reader prompts timeout start w buf cycles lastSize =
     (if sse_now env w - start \<le> timeout \<and> \<not> hasPrompt prompts buf 1 \<and> cycles < 5 then
        (let (w', data) = ssh_cycle env reader w;
             buf' = buf @ data
         in exec_loop env reader prompts timeout start w' buf'
              (if lastSize = length buf' then Suc cycles else cycles) (length buf'))
      else Some (w, buf))"

declare exec_loop.simps [code]

text \<open>The command and its carriage return. Clearing the queue drops what has arrived so far.\<close>

definition ssh_type :: "'w ssh_env \<Rightarrow> string \<Rightarrow> 'w ssh_collector \<Rightarrow> 'w ssh_collector \<times> (string \<times> string) option" where
  "ssh_type env cmd c =
     (if cmd = '''' then (c, None)
      else case sse_write env (fst (sse_arrived env (sh_world c))) cmd of
        (w, Some err) \<Rightarrow>
          (c\<lparr>sh_world := w\<rparr>,
           Some (''Ssh Write Error Host:'' @ cfg_Addr (sh_config c) @ '':'' @ dec_int (cfg_Port (sh_config c)), err))
      | (w, None) \<Rightarrow>
          (case sse_write env w [CHR 0x0A] of
             (w, Some err) \<Rightarrow>
               (c\<lparr>sh_world := w\<rparr>, Some (err, sse_error env [''Ssh Write Error Host:'', cfg_Addr (sh_config c), '':'',
                  dec_int (cfg_Port (sh_config c)), err]))
           | (w, None) \<Rightarrow> (c\<lparr>sh_world := w\<rparr>, None)))"

text \<open>The result and, where there is one, the error; \<open>None\<close> when the loop does not end.\<close>

definition ssh_exec ::
  "'w ssh_env \<Rightarrow> string \<Rightarrow> int \<Rightarrow> 'w ssh_collector \<Rightarrow> ('w ssh_collector \<times> string \<times> string option) res option" where
  "ssh_exec env cmd timeout c =
     (let c = c\<lparr>sh_pollOnce := True\<rparr> in
      case (if sh_connected c then Inr (c, None) else ssh_Connect env c) of
        Inl p \<Rightarrow> Some (Inl p)
      | Inr (c, Some err) \<Rightarrow> Some (Inr (c, err, Some err))
      | Inr (c, None) \<Rightarrow>
          (case ssh_type env cmd c of
             (c, Some (res, err)) \<Rightarrow> Some (Inr (c, res, Some err))
           | (c, None) \<Rightarrow>
               (case exec_loop env (sh_reader c) (cfg_Prompt (sh_config c)) timeout (sse_now env (sh_world c))
                       (sh_world c) [] 0 0 of
                  None \<Rightarrow> None
                | Some (w, buf) \<Rightarrow> Some (Inr (c\<lparr>sh_world := w\<rparr>, buf, None)))))"

section \<open>Jobs\<close>

definition after_echo :: "string \<Rightarrow> string \<Rightarrow> string" where
  "after_echo what result =
     (let index = (case Index result what of None \<Rightarrow> length what | Some i \<Rightarrow> i + length what + 1) in
      if index < length result then drop index result else result)"

fun cut_prompt :: "string list \<Rightarrow> string \<Rightarrow> string" where
  "cut_prompt [] result = result"
| "cut_prompt (p # ps) result = (case Index result p of Some i \<Rightarrow> take i result | None \<Rightarrow> cut_prompt ps result)"

definition clean_result :: "string \<Rightarrow> string list \<Rightarrow> string \<Rightarrow> string" where
  "clean_result what prompts result =
     cut_prompt prompts (Trim_char CHR 0x0D (Trim_char CHR '' '' (Trim_char CHR 0x0A (after_echo what result))))"

definition ssh_Exec :: "'w ssh_env \<Rightarrow> 'w ssh_collector \<Rightarrow> cjob \<Rightarrow> ('w ssh_collector \<times> cjob) res option" where
  "ssh_Exec env c job =
     (case sse_poll env (PollarisName job) (JobName job) of
        Inl err \<Rightarrow> Some (Inr (c, job))
      | Inr pl \<Rightarrow>
          (case ssh_exec env (poll_What pl) (Timeout job) c of
             None \<Rightarrow> None
           | Some (Inl p) \<Rightarrow> Some (Inl p)
           | Some (Inr (c, result, Some e)) \<Rightarrow>
               Some (Inr (c, job\<lparr>Result := None, Error := e, ErrorCount := ErrorCount job + 1\<rparr>))
           | Some (Inr (c, result, None)) \<Rightarrow>
               Some (Inr (c, job\<lparr>ErrorCount := 0,
                 Result := Some (sse_encode env (clean_result (poll_What pl) (cfg_Prompt (sh_config c)) result))\<rparr>))))"

end
