(* ===== verification/Ssh_Theorems.thy ===== *)
theory Ssh_Theorems
  imports Ssh
begin

text \<open>
  When a command ends, what the waiting loop returns, the contract of \<open>Exec\<close>, the clean-up of a
  transcript, and what becomes of a session that has ended.
\<close>

section \<open>Prompts\<close>

lemma hasPrompt_iff: "hasPrompt prompts data n \<longleftrightarrow> (\<exists>p \<in> set prompts. n \<le> Count data p)"
  by (auto simp: hasPrompt_def list_ex_iff split: list.split)

lemma hasPrompt_one: "hasPrompt prompts data 1 \<longleftrightarrow> (\<exists>p \<in> set prompts. Contains data p)"
  by (simp add: hasPrompt_iff Suc_le_eq Count_pos)

section \<open>The waiting loop\<close>

text \<open>The world, the data and the buffer after \<open>n\<close> cycles, and how many of them brought nothing.\<close>

definition world_at :: "'w ssh_env \<Rightarrow> bool \<Rightarrow> 'w \<Rightarrow> nat \<Rightarrow> 'w" where
  "world_at env reader w n = ((\<lambda>w. fst (ssh_cycle env reader w)) ^^ n) w"

definition data_at :: "'w ssh_env \<Rightarrow> bool \<Rightarrow> 'w \<Rightarrow> nat \<Rightarrow> string" where
  "data_at env reader w n = snd (ssh_cycle env reader (world_at env reader w n))"

definition output_at :: "'w ssh_env \<Rightarrow> bool \<Rightarrow> 'w \<Rightarrow> nat \<Rightarrow> string" where
  "output_at env reader w n = concat (map (data_at env reader w) [0..<n])"

definition idle_at :: "'w ssh_env \<Rightarrow> bool \<Rightarrow> 'w \<Rightarrow> nat \<Rightarrow> nat" where
  "idle_at env reader w n = length (filter (\<lambda>i. data_at env reader w i = []) [0..<n])"

definition stops_at :: "'w ssh_env \<Rightarrow> bool \<Rightarrow> string list \<Rightarrow> int \<Rightarrow> 'w \<Rightarrow> nat \<Rightarrow> bool" where
  "stops_at env reader prompts timeout w n \<longleftrightarrow>
     timeout < sse_now env (world_at env reader w n) - sse_now env w \<or>
     (\<exists>p \<in> set prompts. Contains (output_at env reader w n) p) \<or> 5 \<le> idle_at env reader w n"

lemma world_at_0 [simp]: "world_at env reader w 0 = w"
  by (simp add: world_at_def)

lemma ssh_cycle_at:
  "ssh_cycle env reader (world_at env reader w n) = (world_at env reader w (Suc n), data_at env reader w n)"
  by (simp add: world_at_def data_at_def)

lemma output_at_Suc: "output_at env reader w (Suc n) = output_at env reader w n @ data_at env reader w n"
  by (simp add: output_at_def)

lemma idle_at_Suc:
  "idle_at env reader w (Suc n) =
     (if output_at env reader w (Suc n) = output_at env reader w n then Suc (idle_at env reader w n) else idle_at env reader w n)"
  by (simp add: idle_at_def output_at_Suc)

lemma exec_loop_from:
  assumes "k \<le> n" and "\<forall>i. k \<le> i \<and> i < n \<longrightarrow> \<not> stops_at env reader prompts timeout w i" and "stops_at env reader prompts timeout w n"
  shows "exec_loop env reader prompts timeout (sse_now env w) (world_at env reader w k) (output_at env reader w k)
      (idle_at env reader w k) (length (output_at env reader w k)) = Some (world_at env reader w n, output_at env reader w n)"
  using assms
proof (induction "n - k" arbitrary: k)
  case 0
  then have "stops_at env reader prompts timeout w k" "k = n" by simp_all
  then show ?case by (subst exec_loop.simps) (auto simp: stops_at_def hasPrompt_one [unfolded One_nat_def])
next
  case (Suc d)
  then have go: "\<not> stops_at env reader prompts timeout w k" by simp
  have idle: "(if length (output_at env reader w k) = length (output_at env reader w (Suc k))
      then Suc (idle_at env reader w k) else idle_at env reader w k) = idle_at env reader w (Suc k)"
    by (simp add: idle_at_Suc output_at_Suc)
  have "exec_loop env reader prompts timeout (sse_now env w) (world_at env reader w k) (output_at env reader w k)
      (idle_at env reader w k) (length (output_at env reader w k)) =
    exec_loop env reader prompts timeout (sse_now env w) (world_at env reader w (Suc k)) (output_at env reader w (Suc k))
      (idle_at env reader w (Suc k)) (length (output_at env reader w (Suc k)))"
    by (subst exec_loop.simps)
      (use go in \<open>simp only: stops_at_def hasPrompt_one ssh_cycle_at Let_def prod.case idle output_at_Suc [symmetric]
        not_le not_less de_Morgan_disj if_True simp_thms\<close>)
  also have "\<dots> = Some (world_at env reader w n, output_at env reader w n)"
    using Suc.hyps(1) [of "Suc k"] Suc.hyps(2) Suc.prems by simp
  finally show ?case .
qed

text \<open>A clock that passes every bound as the cycles go on.\<close>

definition clock_runs :: "'w ssh_env \<Rightarrow> bool" where
  "clock_runs env \<longleftrightarrow> (\<forall>reader w t. \<exists>n. t < sse_now env (world_at env reader w n))"

lemma exec_loop_returns:
  assumes "clock_runs env"
  shows "\<exists>n. stops_at env reader prompts timeout w n \<and> (\<forall>i<n. \<not> stops_at env reader prompts timeout w i) \<and>
    exec_loop env reader prompts timeout (sse_now env w) w [] 0 0 = Some (world_at env reader w n, output_at env reader w n)"
proof -
  obtain m where "timeout + sse_now env w < sse_now env (world_at env reader w m)"
    using assms unfolding clock_runs_def by blast
  then have "stops_at env reader prompts timeout w m" by (simp add: stops_at_def)
  then obtain n where n: "stops_at env reader prompts timeout w n" "\<forall>i<n. \<not> stops_at env reader prompts timeout w i"
    using exists_least_iff [of "stops_at env reader prompts timeout w"] by blast
  have "output_at env reader w 0 = []" "idle_at env reader w 0 = 0" by (simp_all add: output_at_def idle_at_def)
  then show ?thesis using exec_loop_from [of 0 n env reader prompts timeout w] n by auto
qed

text \<open>
  C20. Typing a command and waiting returns exactly the output of the cycles up to the first one at
  which the time limit has passed, some prompt occurs in the output, or five cycles in all, not five in
  a row, brought nothing; whichever it was, the wait reports no error. If the clock goes on, there is
  such a cycle.
\<close>

theorem ssh_wait_first_stop:
  assumes "clock_runs env" and "sh_connected c" and "ssh_type env cmd (c\<lparr>sh_pollOnce := True\<rparr>) = (c1, None)"
  shows "\<exists>n. let w = sh_world c1; stops = stops_at env (sh_reader c1) (cfg_Prompt (sh_config c1)) timeout w in
    stops n \<and> (\<forall>i<n. \<not> stops i) \<and>
    ssh_exec env cmd timeout c =
      Some (Inr (c1\<lparr>sh_world := world_at env (sh_reader c1) w n\<rparr>, output_at env (sh_reader c1) w n, None))"
proof -
  obtain n where "stops_at env (sh_reader c1) (cfg_Prompt (sh_config c1)) timeout (sh_world c1) n"
    "\<forall>i<n. \<not> stops_at env (sh_reader c1) (cfg_Prompt (sh_config c1)) timeout (sh_world c1) i"
    "exec_loop env (sh_reader c1) (cfg_Prompt (sh_config c1)) timeout (sse_now env (sh_world c1)) (sh_world c1) [] 0 0 =
       Some (world_at env (sh_reader c1) (sh_world c1) n, output_at env (sh_reader c1) (sh_world c1) n)"
    using exec_loop_returns [OF assms(1)] by blast
  then show ?thesis using assms(2,3) by (auto simp: ssh_exec_def Let_def)
qed

section \<open>The contract of Exec\<close>

lemma ssh_Connect_returns:
  assumes "sse_credential env \<noteq> None"
  shows "\<exists>c' e. ssh_Connect env c = Inr (c', e)"
proof -
  obtain w e where d: "sse_dial env (sh_world c) = (w, e)" by (cases "sse_dial env (sh_world c)")
  obtain w' e' where s: "sse_session env w = (w', e')" by (cases "sse_session env w")
  show ?thesis using assms d s
    by (cases e; cases e'; cases "ssh_start_shell env (c\<lparr>sh_client := True, sh_session := True, sh_world := w'\<rparr>)")
      (auto simp: ssh_Connect_def)
qed

lemma ssh_exec_returns:
  assumes "sse_credential env \<noteq> None" and "clock_runs env"
  shows "\<exists>c' res e. ssh_exec env cmd timeout c = Some (Inr (c', res, e))"
proof -
  let ?c = "c\<lparr>sh_pollOnce := True\<rparr>"
  obtain c1 e where con: "(if sh_connected ?c then Inr (?c, None) else ssh_Connect env ?c) = Inr (c1, e)"
    using ssh_Connect_returns [OF assms(1), of ?c] by (cases "sh_connected ?c") auto
  obtain c2 r where ty: "ssh_type env cmd c1 = (c2, r)" by (cases "ssh_type env cmd c1")
  obtain w buf where "exec_loop env (sh_reader c2) (cfg_Prompt (sh_config c2)) timeout (sse_now env (sh_world c2))
      (sh_world c2) [] 0 0 = Some (w, buf)"
    using exec_loop_returns [OF assms(2)] by blast
  then show ?thesis using con ty by (cases e; cases r) (auto simp: ssh_exec_def Let_def)
qed

lemma ssh_exec_outcome_aux:
  assumes "sse_credential env \<noteq> None" and "clock_runs env"
  shows "\<exists>c' job'. ssh_Exec env c job = Some (Inr (c', job')) \<and> exec_frame job job' \<and>
    (case sse_poll env (PollarisName job) (JobName job) of
       Inl _ \<Rightarrow> job' = job \<and> c' = c
     | Inr _ \<Rightarrow> Result job' = None \<and> ErrorCount job' = ErrorCount job + 1 \<or>
         Result job' \<noteq> None \<and> ErrorCount job' = 0 \<and> Error job' = Error job)"
proof (cases "sse_poll env (PollarisName job) (JobName job)")
  case (Inr pl)
  obtain c' res e where "ssh_exec env (poll_What pl) (Timeout job) c = Some (Inr (c', res, e))"
    using ssh_exec_returns [OF assms] by blast
  then show ?thesis by (cases e) (simp_all add: ssh_Exec_def Inr)
qed (simp add: ssh_Exec_def)

text \<open>
  Every job comes back, and nothing but its error, error count and result differs: it is unchanged
  when its poll is unknown, else it failed (no result, one more error) or it has a result and error
  count 0. The credential must be known and the clock must go on.
\<close>

theorem ssh_exec_outcome:
  assumes "sse_credential env \<noteq> None" and "clock_runs env"
  shows "\<exists>c' job'. ssh_Exec env c job = Some (Inr (c', job')) \<and> exec_frame job job' \<and>
    (case sse_poll env (PollarisName job) (JobName job) of
       Inl _ \<Rightarrow> job' = job \<and> c' = c
     | Inr _ \<Rightarrow> Result job' = None \<and> ErrorCount job' = ErrorCount job + 1 \<or>
         Result job' \<noteq> None \<and> ErrorCount job' = 0 \<and> Error job' = Error job)"
  by (rule ssh_exec_outcome_aux [OF assms])

text \<open>The interface's \<open>Exec\<close>; a call that does not return is told apart from one that does.\<close>

definition ssh_Exec_res :: "'w ssh_env \<Rightarrow> 'w ssh_collector \<Rightarrow> cjob \<Rightarrow> ('w ssh_collector \<times> cjob) res" where
  "ssh_Exec_res env c job = (case ssh_Exec env c job of Some r \<Rightarrow> r | None \<Rightarrow> Inl (Raised ''does not return''))"

definition ssh_usable :: "'w ssh_env \<Rightarrow> 'w ssh_collector \<Rightarrow> bool" where
  "ssh_usable env c \<longleftrightarrow> sse_credential env \<noteq> None \<and> clock_runs env"

interpretation ssh: protocol_collector "ssh_Exec_res env" "ssh_usable env" for env
proof
  show "\<exists>c' j'. ssh_Exec_res env c j = Inr (c', j') \<and> ssh_usable env c' \<and> exec_frame j j'"
    if u: "ssh_usable env c" for c j
  proof -
    obtain c' j' where "ssh_Exec env c j = Some (Inr (c', j'))" "exec_frame j j'"
      using ssh_exec_outcome_aux [of env c j] u by (auto simp: ssh_usable_def)
    then show ?thesis using u by (simp add: ssh_Exec_res_def ssh_usable_def)
  qed
qed

section \<open>Silence, lost sessions\<close>

lemma exec_loop_silent:
  assumes "\<forall>i<5. data_at env reader w i = []" and "\<forall>i<5. sse_now env (world_at env reader w i) - sse_now env w \<le> timeout"
    and "[] \<notin> set prompts"
  shows "exec_loop env reader prompts timeout (sse_now env w) w [] 0 0 = Some (world_at env reader w 5, [])"
proof -
  have d: "map (data_at env reader w) [0..<n] = replicate n []" if "n \<le> 5" for n
    by (rule nth_equalityI) (use that assms(1) in auto)
  have out: "output_at env reader w n = []" if "n \<le> 5" for n
    unfolding output_at_def d [OF that] by simp
  have idle: "idle_at env reader w n = n" if "n \<le> 5" for n
  proof -
    have "filter (\<lambda>i. data_at env reader w i = []) [0..<n] = [0..<n]"
      using that assms(1) by (simp add: filter_id_conv)
    then show ?thesis by (simp add: idle_at_def)
  qed
  have nop: "\<not> (\<exists>p \<in> set prompts. Contains [] p)" using assms(3) by (auto simp: Contains_def split: if_splits)
  have "\<not> stops_at env reader prompts timeout w i" if "i < 5" for i
    using that assms(2) nop by (simp add: stops_at_def out idle not_less)
  moreover have "stops_at env reader prompts timeout w 5" by (simp add: stops_at_def idle)
  ultimately show ?thesis
    using exec_loop_from [of 0 5 env reader prompts timeout w] by (simp add: out idle)
qed

lemma clean_nothing: "[] \<notin> set prompts \<Longrightarrow> clean_result what prompts [] = []"
proof -
  assume "[] \<notin> set prompts"
  then have "cut_prompt prompts [] = []" by (induction prompts) auto
  moreover have "after_echo what [] = []" by (simp add: after_echo_def Let_def)
  ultimately show ?thesis by (simp add: clean_result_def Trim_char_def)
qed

lemma ssh_Exec_silent:
  assumes "sse_poll env (PollarisName job) (JobName job) = Inr pl" and "sh_connected c"
    and "ssh_type env (poll_What pl) (c\<lparr>sh_pollOnce := True\<rparr>) = (c1, None)"
    and "\<forall>i<5. data_at env (sh_reader c1) (sh_world c1) i = []"
    and "\<forall>i<5. sse_now env (world_at env (sh_reader c1) (sh_world c1) i) - sse_now env (sh_world c1) \<le> Timeout job"
    and "[] \<notin> set (cfg_Prompt (sh_config c1))"
  shows "ssh_Exec env c job = Some (Inr (c1\<lparr>sh_world := world_at env (sh_reader c1) (sh_world c1) 5\<rparr>,
    job\<lparr>ErrorCount := 0, Result := Some (sse_encode env [])\<rparr>))"
  using exec_loop_silent [OF assms(4-6)] assms(1-3) clean_nothing [OF assms(6)]
  by (simp add: ssh_Exec_def ssh_exec_def Let_def)

text \<open>
  A device that answers nothing during five cycles of the wait, half a second, has its command
  ended there, however long the time limit of the job is, and the job reports success with an empty
  result.
\<close>

theorem silent_command_succeeds_empty:
  assumes "sse_poll env (PollarisName job) (JobName job) = Inr pl" and "sh_connected c"
    and "ssh_type env (poll_What pl) (c\<lparr>sh_pollOnce := True\<rparr>) = (c1, None)"
    and "\<forall>i<5. data_at env (sh_reader c1) (sh_world c1) i = []"
    and "\<forall>i<5. sse_now env (world_at env (sh_reader c1) (sh_world c1) i) - sse_now env (sh_world c1) \<le> Timeout job"
    and "[] \<notin> set (cfg_Prompt (sh_config c1))"
  shows "\<exists>c'. ssh_Exec env c job = Some (Inr (c', job\<lparr>ErrorCount := 0, Result := Some (sse_encode env [])\<rparr>)) \<and>
    sh_world c' = world_at env (sh_reader c1) (sh_world c1) 5"
  using ssh_Exec_silent [OF assms] by simp

text \<open>
  A connected collector whose session is gone, so that every write fails, fails every job and stays
  connected: it never dials again.
\<close>

theorem lost_session_stays_connected:
  assumes "sse_poll env (PollarisName job) (JobName job) = Inr pl" and "poll_What pl \<noteq> ''''"
    and "\<forall>w s. snd (sse_write env w s) \<noteq> None" and "sh_connected c"
  shows "\<exists>c' e. ssh_Exec env c job = Some (Inr (c', job\<lparr>Result := None, Error := e, ErrorCount := ErrorCount job + 1\<rparr>)) \<and>
    sh_connected c' \<and> ssh_Online c' \<and> sh_client c' = sh_client c"
proof -
  obtain w e where "sse_write env (fst (sse_arrived env (sh_world c))) (poll_What pl) = (w, Some e)"
    using assms(3) by (metis option.exhaust surj_pair snd_conv)
  then show ?thesis using assms(1,2,4) by (simp add: ssh_Exec_def ssh_exec_def ssh_type_def ssh_Online_def Let_def) blast
qed

lemma ssh_Connect_opens:
  assumes "sse_credential env \<noteq> None"
    and "\<forall>w. snd (sse_dial env w) = None \<and> snd (sse_session env w) = None \<and> snd (sse_pty env w) = None \<and>
      snd (sse_shell env w) = None \<and> (\<forall>s. snd (sse_write env w s) = None)"
  shows "\<exists>c1. ssh_Connect env c = Inr (c1, None) \<and> sh_connected c1 \<and> sh_reader c1 = sh_running c \<and>
    sh_config c1 = sh_config c"
proof -
  obtain w1 where w1: "sse_dial env (sh_world c) = (w1, None)" using assms(2) by (metis prod.collapse)
  obtain w2 where w2: "sse_session env w1 = (w2, None)" using assms(2) by (metis prod.collapse)
  let ?d = "c\<lparr>sh_client := True, sh_session := True, sh_world := w2\<rparr>"
  obtain w3 where w3: "(if cfg_Terminal (sh_config ?d) = ''vt100'' then sse_pty env (sh_world ?d) else (sh_world ?d, None)) = (w3, None)"
    using assms(2) by (metis prod.collapse)
  obtain w4 where w4: "sse_shell env w3 = (w4, None)" using assms(2) by (metis prod.collapse)
  have "\<exists>c1. ssh_start_shell env ?d = (c1, None) \<and> sh_connected c1 \<and> sh_reader c1 = sh_running c \<and> sh_config c1 = sh_config c"
    by (simp only: ssh_start_shell_def w3 w4 prod.case option.case) simp
  then show ?thesis using assms(1) w1 w2 by (auto simp: ssh_Connect_def)
qed

text \<open>
  A collector that was disconnected connects again for its next job, but its reader does not start,
  for \<open>Disconnect\<close> has cleared \<open>running\<close> and nothing sets it again: whatever the device answers, the job
  reports success with an empty result.
\<close>

theorem reconnected_reader_is_dead:
  assumes "sse_poll env (PollarisName job) (JobName job) = Inr pl" and "sse_credential env \<noteq> None"
    and "\<forall>w. snd (sse_dial env w) = None \<and> snd (sse_session env w) = None \<and> snd (sse_pty env w) = None \<and>
      snd (sse_shell env w) = None \<and> (\<forall>s. snd (sse_write env w s) = None)"
    and "\<forall>w i. i < 5 \<longrightarrow> sse_now env (world_at env False w i) - sse_now env w \<le> Timeout job"
    and "[] \<notin> set (cfg_Prompt (sh_config c))"
  shows "\<exists>c'. ssh_Exec env (ssh_Disconnect c) job =
    Some (Inr (c', job\<lparr>ErrorCount := 0, Result := Some (sse_encode env [])\<rparr>)) \<and> sh_connected c'"
proof -
  let ?c = "(ssh_Disconnect c)\<lparr>sh_pollOnce := True\<rparr>"
  obtain c1 where c1: "ssh_Connect env ?c = Inr (c1, None)" "\<not> sh_reader c1" "sh_connected c1"
    "cfg_Prompt (sh_config c1) = cfg_Prompt (sh_config c)"
    using ssh_Connect_opens [OF assms(2,3), of ?c] that by (auto simp: ssh_Disconnect_def)
  obtain c2 where c2: "ssh_type env (poll_What pl) c1 = (c2, None)" "\<not> sh_reader c2" "sh_connected c2"
    "cfg_Prompt (sh_config c2) = cfg_Prompt (sh_config c)"
  proof (cases "poll_What pl = ''''")
    case True
    then show ?thesis using that [of c1] c1 by (simp add: ssh_type_def)
  next
    case False
    obtain w1 where w1: "sse_write env (fst (sse_arrived env (sh_world c1))) (poll_What pl) = (w1, None)"
      using assms(3) by (metis prod.collapse)
    obtain w2 where w2: "sse_write env w1 [CHR 0x0A] = (w2, None)" using assms(3) by (metis prod.collapse)
    show ?thesis using that [of "c1\<lparr>sh_world := w2\<rparr>"] c1 w1 w2 False by (simp add: ssh_type_def)
  qed
  have "data_at env False w i = []" for w i by (simp add: data_at_def ssh_cycle_def split: prod.split)
  then have "exec_loop env False (cfg_Prompt (sh_config c)) (Timeout job) (sse_now env (sh_world c2)) (sh_world c2) [] 0 0 =
      Some (world_at env False (sh_world c2) 5, [])"
    using exec_loop_silent [of env False "sh_world c2" "Timeout job" "cfg_Prompt (sh_config c)"] assms(4,5) by blast
  moreover have "\<not> sh_connected ?c" by (simp add: ssh_Disconnect_def)
  ultimately show ?thesis using assms(1) c1 c2 clean_nothing [OF assms(5)]
    by (simp add: ssh_Exec_def ssh_exec_def Let_def)
qed

section \<open>Cleaning a transcript\<close>

definition edge :: "char \<Rightarrow> bool" where
  "edge c \<longleftrightarrow> c \<noteq> CHR 0x0A \<and> c \<noteq> CHR '' '' \<and> c \<noteq> CHR 0x0D"

lemma Trim_char_id: "s \<noteq> [] \<Longrightarrow> hd s \<noteq> c \<Longrightarrow> last s \<noteq> c \<Longrightarrow> Trim_char c s = s"
  by (simp add: Trim_char_def dropWhile_eq_self_iff [THEN iffD2] hd_rev)

lemma Trim_char_Cons [simp]: "Trim_char c (c # s) = Trim_char c s"
  by (simp add: Trim_char_def)

lemma Trim_char_snoc [simp]: "s \<noteq> [] \<Longrightarrow> hd s \<noteq> c \<Longrightarrow> Trim_char c (s @ [c]) = Trim_char c s"
  by (cases s) (simp_all add: Trim_char_def)

lemma Index_here [simp]: "Index (s @ t) s = Some 0"
  by (cases s; cases t) auto

lemma after_echo_echo: "t \<noteq> [] \<Longrightarrow> after_echo what (what @ c # t) = t"
  by (simp add: after_echo_def Let_def)

text \<open>
  C31. From the transcript of a command, its echo, a line break, the body and the prompt, the clean-up
  leaves exactly the body, provided the echo is there, the prompt occurs first at the end, and body and
  prompt have no white space at their outer ends.
\<close>

theorem clean_transcript:
  assumes "body \<noteq> []" and "edge (hd body)" and "p \<noteq> []" and "edge (last p)"
    and "Index (body @ p) p = Some (length body)"
  shows "clean_result what [p] (what @ [CHR 0x0D, CHR 0x0A] @ body @ p) = body"
proof -
  have "after_echo what (what @ CHR 0x0D # CHR 0x0A # body @ p) = CHR 0x0A # body @ p"
    by (rule after_echo_echo) simp
  moreover have "Trim_char c (body @ p) = body @ p" if "c \<in> {CHR 0x0A, CHR '' '', CHR 0x0D}" for c
    using assms that by (intro Trim_char_id) (auto simp: edge_def)
  ultimately show ?thesis using assms(5) by (simp add: clean_result_def)
qed

text \<open>
  A prompt that ends with a space ends the wait but is never cut from the result: its space is
  trimmed before it is searched for.
\<close>

theorem spaced_prompt_kept:
  assumes "body \<noteq> []" and "edge (hd body)" and "q \<noteq> []" and "edge (last q)"
    and "\<not> Contains (body @ q) (q @ '' '')"
  shows "hasPrompt [q @ '' ''] (what @ [CHR 0x0D, CHR 0x0A] @ body @ q @ '' '') 1 \<and>
    clean_result what [q @ '' ''] (what @ [CHR 0x0D, CHR 0x0A] @ body @ q @ '' '') = body @ q"
proof -
  have "Contains ((what @ [CHR 0x0D, CHR 0x0A] @ body) @ (q @ '' '') @ []) (q @ '' '')"
    by (rule Contains_append [OF Contains_here])
  then have has: "hasPrompt [q @ '' ''] (what @ [CHR 0x0D, CHR 0x0A] @ body @ q @ '' '') 1" by (simp add: hasPrompt_one [unfolded One_nat_def])
  have echo: "after_echo what (what @ CHR 0x0D # CHR 0x0A # body @ q @ '' '') = CHR 0x0A # body @ q @ '' ''"
    by (rule after_echo_echo) simp
  have t1: "Trim_char CHR 0x0A (body @ q @ '' '') = body @ q @ '' ''"
    using assms by (intro Trim_char_id) (auto simp: edge_def)
  have t2: "Trim_char c (body @ q) = body @ q" if "c \<in> {CHR 0x0A, CHR '' '', CHR 0x0D}" for c
    using assms that by (intro Trim_char_id) (auto simp: edge_def)
  have t3: "Trim_char CHR '' '' (body @ q @ '' '') = body @ q"
    using Trim_char_snoc [of "body @ q" "CHR '' ''"] t2 [of "CHR '' ''"] assms(1,2) by (simp add: edge_def)
  have "Index (body @ q) (q @ '' '') = None" using assms(5) by (simp add: Contains_def)
  then have "clean_result what [q @ '' ''] (what @ CHR 0x0D # CHR 0x0A # body @ q @ '' '') = body @ q"
    using echo t1 t2 t3 by (simp add: clean_result_def)
  then show ?thesis using has by simp
qed

text \<open>
  When the command is not echoed, as in the vt100 mode that \<open>Connect\<close> asks for, the clean-up drops
  as many characters of the answer as the command has.
\<close>

theorem missing_echo_drops_output:
  assumes "\<not> Contains result what" and "length what < length result"
  shows "clean_result what prompts result = clean_result '''' prompts (CHR 0x0A # drop (length what) result)"
proof -
  have "after_echo what result = drop (length what) result"
    using assms by (simp add: after_echo_def Let_def Contains_def)
  moreover have "after_echo '''' (CHR 0x0A # drop (length what) result) = drop (length what) result"
    using assms(2) after_echo_echo [of "drop (length what) result" "''''"] by simp
  ultimately show ?thesis by (simp add: clean_result_def)
qed

section \<open>A device to run it on\<close>

text \<open>The world counts the cycles, one second each; the device answers in the fourth one, or never.\<close>

definition demo_ssh :: "bool \<Rightarrow> bool \<Rightarrow> nat ssh_env" where
  "demo_ssh answers writable = \<lparr>sse_credential = Some (''admin'', ''admin''), sse_dial = \<lambda>w. (w, None),
     sse_session = \<lambda>w. (w, None), sse_pty = \<lambda>w. (w, None), sse_shell = \<lambda>w. (w, None),
     sse_write = \<lambda>w s. (w, if writable then None else Some ''EOF''),
     sse_arrived = \<lambda>w. (Suc w, if answers \<and> w = 3 then [''up r1#''] else []), sse_now = int,
     sse_poll = \<lambda>_ _. Inr \<lparr>poll_Name = ''p'', poll_What = ''show'', poll_Operation = L8C_Get, poll_Protocol = L8PSSH,
       poll_Cadence = None, poll_Timeout = 0, poll_Always = False, poll_RespName = ''''\<rparr>,
     sse_encode = map of_char, sse_error = concat\<rparr>"

definition demo_shell :: "nat ssh_collector" where
  "demo_shell = (ssh_Init \<lparr>cfg_Protocol = L8PSSH, cfg_Addr = ''10.0.0.1'', cfg_Port = 22, cfg_CredId = '''',
     cfg_Timeout = 5, cfg_HttpPrefix = '''', cfg_Prompt = [''#''], cfg_Ainfo = None, cfg_Cert = '''', cfg_Terminal = '''',
     cfg_TerminalCommands = None\<rparr> 0)\<lparr>sh_connected := True, sh_reader := True\<rparr>"

definition patient_job :: cjob where
  "patient_job = empty_job\<lparr>Timeout := 60\<rparr>"

lemma demo_world: "world_at (demo_ssh a b) reader w n = w + n"
  by (induction n) (simp_all add: world_at_def ssh_cycle_def demo_ssh_def)

lemma demo_now: "sse_now (demo_ssh a b) w = int w"
  by (simp add: demo_ssh_def)

lemma demo_clock: "clock_runs (demo_ssh a b)"
  unfolding clock_runs_def demo_world demo_now
proof (intro allI)
  fix w t
  show "\<exists>n. t < int (w + n)" by (rule exI [of _ "nat (t + 1)"]) linarith
qed

lemma demo_data: "data_at (demo_ssh False b) reader w n = []"
  by (simp add: data_at_def ssh_cycle_def demo_ssh_def)

lemma demo_typed:
  "ssh_type (demo_ssh a True) ''show'' (demo_shell\<lparr>sh_pollOnce := True\<rparr>) =
     (demo_shell\<lparr>sh_pollOnce := True, sh_world := 1\<rparr>, None)"
  by (simp add: ssh_type_def demo_ssh_def demo_shell_def ssh_Init_def)

lemma demo_ssh_poll: "sse_poll (demo_ssh a b) (PollarisName j) (JobName j) = Inr (case sse_poll (demo_ssh a b) '''' '''' of Inr p \<Rightarrow> p)"
    "poll_What (case sse_poll (demo_ssh a b) '''' '''' of Inr p \<Rightarrow> p) = ''show''"
  by (simp_all add: demo_ssh_def)

theorem ssh_wait_first_stop_witness:
  "\<exists>n. ssh_exec (demo_ssh True True) ''show'' 60 demo_shell =
     Some (Inr (demo_shell\<lparr>sh_pollOnce := True, sh_world := Suc n\<rparr>, output_at (demo_ssh True True) True 1 n, None)) \<and> n \<le> 61"
proof -
  have c: "sh_connected demo_shell" by (simp add: demo_shell_def)
  obtain n where n: "\<forall>i<n. \<not> stops_at (demo_ssh True True) True [''#''] 60 1 i"
    "ssh_exec (demo_ssh True True) ''show'' 60 demo_shell =
     Some (Inr (demo_shell\<lparr>sh_pollOnce := True, sh_world := Suc n\<rparr>, output_at (demo_ssh True True) True 1 n, None))"
    using ssh_wait_first_stop [OF demo_clock c demo_typed, of True 60]
    by (auto simp: Let_def demo_world demo_shell_def ssh_Init_def)
  have "stops_at (demo_ssh True True) True [''#''] 60 1 61" by (simp add: stops_at_def demo_world demo_now)
  then have "n \<le> 61" using n(1) by (metis not_less)
  then show ?thesis using n(2) by blast
qed

theorem ssh_exec_outcome_witness:
  "\<exists>c' job'. ssh_Exec (demo_ssh True True) demo_shell patient_job = Some (Inr (c', job')) \<and> exec_frame patient_job job'"
proof -
  have "sse_credential (demo_ssh True True) \<noteq> None" by (simp add: demo_ssh_def)
  from ssh_exec_outcome [OF this demo_clock, of demo_shell patient_job] show ?thesis by blast
qed

theorem silent_command_succeeds_empty_witness:
  "\<exists>c'. ssh_Exec (demo_ssh False True) demo_shell patient_job =
     Some (Inr (c', patient_job\<lparr>ErrorCount := 0, Result := Some []\<rparr>)) \<and> sh_world c' = 6"
proof -
  let ?c = "demo_shell\<lparr>sh_pollOnce := True, sh_world := 1\<rparr>"
  have h: "sh_connected demo_shell" "[] \<notin> set (cfg_Prompt (sh_config ?c))" "sh_world ?c = 1" "sse_encode (demo_ssh False True) [] = []"
    "Timeout patient_job = 60"
    by (simp_all add: demo_shell_def ssh_Init_def demo_ssh_def patient_job_def)
  have "\<exists>c'. ssh_Exec (demo_ssh False True) demo_shell patient_job =
      Some (Inr (c', patient_job\<lparr>ErrorCount := 0, Result := Some (sse_encode (demo_ssh False True) [])\<rparr>)) \<and>
    sh_world c' = world_at (demo_ssh False True) (sh_reader ?c) (sh_world ?c) 5"
    by (rule silent_command_succeeds_empty [OF demo_ssh_poll(1) h(1) _ _ _ h(2)])
      (simp_all add: demo_ssh_poll(2) demo_typed demo_data demo_world demo_now h(5))
  then show ?thesis by (simp add: demo_world h(3,4))
qed

theorem lost_session_stays_connected_witness:
  "\<exists>c' e. ssh_Exec (demo_ssh True False) demo_shell empty_job =
     Some (Inr (c', empty_job\<lparr>Result := None, Error := e, ErrorCount := 1\<rparr>)) \<and> sh_connected c'"
proof -
  have h: "poll_What (case sse_poll (demo_ssh True False) '''' '''' of Inr p \<Rightarrow> p) \<noteq> ''''"
    "\<forall>w s. snd (sse_write (demo_ssh True False) w s) \<noteq> None" "sh_connected demo_shell"
    by (simp_all add: demo_ssh_def demo_shell_def)
  have "ErrorCount empty_job + 1 = 1" by (simp add: empty_job_def)
  then show ?thesis using lost_session_stays_connected [OF demo_ssh_poll(1) h, of empty_job] by auto
qed

theorem reconnected_reader_is_dead_witness:
  "\<exists>c'. ssh_Exec (demo_ssh True True) (ssh_Disconnect demo_shell) patient_job =
     Some (Inr (c', patient_job\<lparr>ErrorCount := 0, Result := Some []\<rparr>)) \<and> sh_connected c'"
proof -
  have h: "sse_credential (demo_ssh True True) \<noteq> None"
    "\<forall>w. snd (sse_dial (demo_ssh True True) w) = None \<and> snd (sse_session (demo_ssh True True) w) = None \<and>
       snd (sse_pty (demo_ssh True True) w) = None \<and> snd (sse_shell (demo_ssh True True) w) = None \<and>
       (\<forall>s. snd (sse_write (demo_ssh True True) w s) = None)"
    "\<forall>w i. i < 5 \<longrightarrow> sse_now (demo_ssh True True) (world_at (demo_ssh True True) False w i) - sse_now (demo_ssh True True) w \<le> Timeout patient_job"
    "[] \<notin> set (cfg_Prompt (sh_config demo_shell))" "sse_encode (demo_ssh True True) [] = []"
    by (simp_all add: demo_world demo_now patient_job_def demo_shell_def ssh_Init_def) (simp_all add: demo_ssh_def)
  then show ?thesis using reconnected_reader_is_dead [OF demo_ssh_poll(1) h(1-4)] by simp
qed

theorem clean_transcript_witness:
  "clean_result ''show'' [''r1#''] (''show'' @ [CHR 0x0D, CHR 0x0A] @ ''up'' @ ''r1#'') = ''up''"
  by (rule clean_transcript) (simp_all add: edge_def)

theorem spaced_prompt_kept_witness:
  "hasPrompt [''r1#'' @ '' ''] (''show'' @ [CHR 0x0D, CHR 0x0A] @ ''up'' @ ''r1#'' @ '' '') 1 \<and>
    clean_result ''show'' [''r1#'' @ '' ''] (''show'' @ [CHR 0x0D, CHR 0x0A] @ ''up'' @ ''r1#'' @ '' '') = ''up'' @ ''r1#''"
  by (rule spaced_prompt_kept) (simp_all add: edge_def Contains_def)

theorem missing_echo_drops_output_witness:
  "clean_result ''show'' [''#''] ''version 7#'' = ''ion 7''"
proof -
  have "\<not> Contains ''version 7#'' ''show''" "length ''show'' < length ''version 7#''" by (simp_all add: Contains_def)
  from missing_echo_drops_output [OF this, of "[''#'']"] show ?thesis
    by (simp add: clean_result_def after_echo_def Trim_char_def Let_def)
qed

end
