(* ===== verification/Device_Hosts.thy ===== *)
theory Device_Hosts
  imports Host_Collector_Theorems Snmp_Theorems Ssh_Theorems
begin

text \<open>
  The collection loop on the collectors it is meant for: a network device that is polled through SNMP
  and through SSH. A collector is one of the two; \<open>newProtocolCollector\<close> initialises it by the protocol
  of its configuration and the loop's \<open>Exec\<close> calls its own. Hosts with other protocols are outside
  this theory; \<open>No_Device\<close> stands for their collectors, which none of the hosts considered has.
\<close>

datatype 'w device_collector = Snmp_Device "'w snmp_collector" | Ssh_Device "'w ssh_collector" | No_Device

definition device_init :: "'w \<Rightarrow> host_protocol \<Rightarrow> 'w device_collector \<times> string option" where
  "device_init w conf =
     (case cfg_Protocol conf of
        L8PPSNMPV2 \<Rightarrow> (Snmp_Device (snmp_Init conf w), None)
      | L8PSSH \<Rightarrow> (Ssh_Device (ssh_Init conf w), None)
      | _ \<Rightarrow> (No_Device, None))"

fun device_Exec ::
  "'w snmp_env \<Rightarrow> 'w ssh_env \<Rightarrow> 'w device_collector \<Rightarrow> cjob \<Rightarrow> ('w device_collector \<times> cjob) res" where
  "device_Exec se he (Snmp_Device c) job = bind_res (snmp_Exec se c job) (\<lambda>(c, job). Inr (Snmp_Device c, job))"
| "device_Exec se he (Ssh_Device c) job = bind_res (ssh_Exec_res he c job) (\<lambda>(c, job). Inr (Ssh_Device c, job))"
| "device_Exec se he No_Device job = Inr (No_Device, job)"

fun device_Online :: "'w device_collector \<Rightarrow> bool" where
  "device_Online (Snmp_Device c) = snmp_Online c"
| "device_Online (Ssh_Device c) = ssh_Online c"
| "device_Online No_Device = False"

fun device_usable :: "'w snmp_env \<Rightarrow> 'w ssh_env \<Rightarrow> 'w device_collector \<Rightarrow> bool" where
  "device_usable se he (Snmp_Device c) = snmp_usable se c"
| "device_usable se he (Ssh_Device c) = ssh_usable he c"
| "device_usable se he No_Device = True"

interpretation device: protocol_collector "device_Exec se he" "device_usable se he" for se he
proof
  show "\<exists>c' j'. device_Exec se he c j = Inr (c', j') \<and> device_usable se he c' \<and> exec_frame j j'"
    if u: "device_usable se he c" for c j
  proof (cases c)
    case (Snmp_Device d)
    obtain d' j' where "snmp_Exec se d j = Inr (d', j')" "snmp_usable se d'" "exec_frame j j'"
      using snmp.exec_returns [of se d j] u Snmp_Device by auto
    then show ?thesis by (simp add: Snmp_Device)
  next
    case (Ssh_Device d)
    obtain d' j' where "ssh_Exec_res he d j = Inr (d', j')" "ssh_usable he d'" "exec_frame j j'"
      using ssh.exec_returns [of he d j] u Ssh_Device by auto
    then show ?thesis by (simp add: Ssh_Device)
  qed simp
qed

definition device_ready :: "'w snmp_env \<Rightarrow> 'w ssh_env \<Rightarrow> bool" where
  "device_ready se he \<longleftrightarrow> se_credential se \<noteq> None \<and> sse_credential he \<noteq> None \<and> clock_runs he"

lemma device_init_usable: "device_ready se he \<Longrightarrow> device_usable se he (fst (device_init w conf))"
  by (simp add: device_init_def device_ready_def snmp_usable_def ssh_usable_def split: protocol.split)

text \<open>
  The loop on a device host: when the credentials are known and the clock goes on, a host whose
  configurations are SNMP and SSH starts, and any number of rounds, each polling the device with
  whatever it answers, whether or not it can be reached, goes on without a panic; the boot stages and
  the messages only grow.
\<close>

theorem device_host_life:
  assumes "device_ready se he" and "env_ok env" and "init_collector env = device_init w"
    and "online env = device_Online" and "registry_ok reg" and "map_of (tgt_Hosts t) hid = Some hs"
    and "\<forall>c \<in> snd ` set (host_Configs hs). cfg_Protocol c \<in> {L8PPSNMPV2, L8PSSH}"
    and "\<forall>k \<in> set ks. tick_exec k = device_Exec se he \<and> (\<forall>r. random_source (tick_draw k r))"
  shows "\<exists>h0 h1. start env (newHostCollector reg (Some t) hid) = Inr h0 \<and> collect smooth env ks h0 = Inr h1 \<and>
    currentBootStage h0 \<le> currentBootStage h1 \<and> currentBootStage h1 \<le> 5 \<and> (\<exists>msgs. sent h1 = sent h0 @ msgs)"
proof -
  let ?u = "device_usable se he"
  have init: "init_ok ?u env" using device_init_usable [OF assms(1)] by (simp add: init_ok_def assms(3))
  obtain h0 where h0: "start env (newHostCollector reg (Some t) hid) = Inr h0" "host_ok ?u h0"
    using start_new_ok [OF assms(2) init assms(5,6)] by blast
  have "\<forall>k \<in> set ks. tick_ok ?u k" using assms(8) device.contract [of se he] by (simp add: tick_ok_def)
  then obtain h1 where "collect smooth env ks h0 = Inr h1" "goes_on ?u h0 h1"
    using collect_runs [OF h0(2) assms(2), of ks smooth] by (auto simp: runs_def)
  then show ?thesis using h0(1) unfolding goes_on_def host_ok_def by blast
qed

definition demo_device_env :: "nat device_collector host_env" where
  "demo_device_env = \<lparr>rng = (\<lambda>xs. xs), host_order = (\<lambda>xs. xs), config_order = (\<lambda>xs. xs),
     GetPollarisByOid = (\<lambda>_. None), PostPollaris = (\<lambda>p reg. Inr reg), decode = (\<lambda>_. None),
     encode_string = (\<lambda>s. replicate (length s) 65), encode_status = (\<lambda>xs. replicate (length xs) 1),
     init_collector = device_init 0, online = device_Online\<rparr>"

definition demo_device_tick :: "int \<Rightarrow> nat device_collector tick" where
  "demo_device_tick now = \<lparr>tick_now = now, tick_start = now, tick_end = now + 1, tick_draw = (\<lambda>r n. 0),
     tick_exec = device_Exec (demo_flaky 3) (demo_ssh True True), tick_woken = False\<rparr>"

theorem device_host_life_witness:
  "\<exists>h0 h1. start demo_device_env (newHostCollector demo_registry (Some demo_target) ''10.0.0.1'') = Inr h0 \<and>
     collect False demo_device_env [demo_device_tick 1700000000, demo_device_tick 1700000100] h0 = Inr h1 \<and>
     currentBootStage h1 \<le> 5"
proof -
  have hs: "map_of (tgt_Hosts demo_target) ''10.0.0.1'' = Some \<lparr>host_HostId = ''10.0.0.1'', host_Configs = [(1, demo_config)]\<rparr>"
    by (simp add: demo_target_def)
  have ready: "device_ready (demo_flaky 3) (demo_ssh True True)"
    using demo_clock by (simp add: device_ready_def) (simp add: demo_flaky_def demo_ssh_def)
  have env: "env_ok demo_device_env" "init_collector demo_device_env = device_init 0" "online demo_device_env = device_Online"
    by (simp_all add: env_ok_def demo_device_env_def)
  have cfgs: "\<forall>c \<in> snd ` set (host_Configs \<lparr>host_HostId = ''10.0.0.1'', host_Configs = [(1, demo_config)]\<rparr>).
      cfg_Protocol c \<in> {L8PPSNMPV2, L8PSSH}"
    by (simp add: demo_config_def)
  have ticks: "\<forall>k \<in> set [demo_device_tick 1700000000, demo_device_tick 1700000100].
      tick_exec k = device_Exec (demo_flaky 3) (demo_ssh True True) \<and> (\<forall>r. random_source (tick_draw k r))"
    by (simp add: demo_device_tick_def no_draw)
  show ?thesis
    using device_host_life [OF ready env demo_registry_ok hs cfgs ticks, of False] by blast
qed

end
