(* ===== verification/Message_Origin.thy ===== *)
theory Message_Origin
  imports Boot_Waiting
begin

text \<open>
  What a round of the collection loop does beside the queue and the stages: which collectors it changes,
  and where what it sends comes from. A message of the loop reports a static job, or a result that the
  collector of the poll's protocol has just returned without an error.
\<close>

section \<open>What completing a job and leaving stages change\<close>

text \<open>The parts of a host that the boot sequence does not touch.\<close>

definition aside :: "'c host_collector \<Rightarrow> 'c host_collector \<Rightarrow> bool" where
  "aside h h' \<longleftrightarrow> collectors h' = collectors h \<and> sent h' = sent h \<and> hc_registry h' = hc_registry h"

lemma boot_advance_aside: "boot_advance env h = Inr h' \<Longrightarrow> aside h h'"
proof (induction env h arbitrary: h' rule: boot_advance.induct)
  case (1 env h)
  let ?n = "Suc (currentBootStage h)"
  obtain bs where bs: "go_nth (bootStages h) (int (currentBootStage h)) = Inr (Some bs)"
    "(if \<not> isComplete bs then Inr h
      else let n = ?n in
        if length (bootStages h) \<le> n then Inr (h\<lparr>currentBootStage := n\<rparr>)
        else bind_res (newBootState env n (h\<lparr>currentBootStage := n\<rparr>)) (\<lambda>bh.
          boot_advance env ((snd bh)\<lparr>bootStages := (bootStages (snd bh))[n := Some (fst bh)]\<rparr>))) = Inr h'"
    using "1.prems" [unfolded boot_advance.simps [of env h]]
    by (auto simp: bind_res_eq_Inr simp del: boot_advance.simps)
  show ?case
  proof (cases "isComplete bs \<and> \<not> length (bootStages h) \<le> ?n")
    case True
    then obtain nb g where g: "newBootState env ?n (h\<lparr>currentBootStage := ?n\<rparr>) = Inr (nb, g)"
      "boot_advance env (g\<lparr>bootStages := (bootStages g)[?n := Some nb]\<rparr>) = Inr h'"
      using bs(2) by (auto simp: bind_res_eq_Inr Let_def simp del: boot_advance.simps)
    have "aside (g\<lparr>bootStages := (bootStages g)[?n := Some nb]\<rparr>) h'"
      using "1.IH" [OF bs(1), of bs ?n "(nb, g)"] True g by (simp del: boot_advance.simps)
    moreover have "aside h (g\<lparr>bootStages := (bootStages g)[?n := Some nb]\<rparr>)"
      using newBootState_queue [OF g(1)] by (auto simp: aside_def)
    ultimately show ?thesis by (simp add: aside_def)
  qed (use bs(2) in \<open>auto simp: aside_def Let_def simp del: boot_advance.simps split: if_splits\<close>)
qed

lemma boot_progress_aside: "boot_progress env r h = Inr h' \<Longrightarrow> aside h h'"
  by (auto simp: aside_def boot_progress_def bind_res_eq_Inr split: if_splits dest!: boot_advance_aside)

text \<open>Posting a Pollaris loses no poll.\<close>

definition posts_keep :: "'c host_env \<Rightarrow> bool" where
  "posts_keep env \<longleftrightarrow> (\<forall>p reg reg'. PostPollaris env p reg = Inr reg' \<longrightarrow> keeps_polls reg reg')"

lemma insertCustomJobs_aside: "insertCustomJobs env name h = Inr h' \<Longrightarrow> aside h h'"
  by (auto simp: aside_def insertCustomJobs_def bind_res_eq_Inr)

lemma bootDetailDevice_keeps:
  assumes "bootDetailDevice env j h = Inr h'"
  shows "collectors h' = collectors h \<and> sent h' = sent h \<and> (posts_keep env \<longrightarrow> keeps_polls (hc_registry h) (hc_registry h'))"
  using assms
  by (auto simp: bootDetailDevice_def Let_def bind_res_eq_Inr posts_keep_def aside_def split: if_splits option.splits
      dest!: insertCustomJobs_aside)

lemma jobHasChange_result:
  "jobHasChange j = Inr (b, j') \<Longrightarrow> same_job j j' \<and> Result j' = Result j"
  by (auto simp: jobHasChange_def same_job_def bind_res_eq_Inr Let_def split: if_splits)

text \<open>A job that is completed is sent as it is, if it has no error, or not at all.\<close>

definition completes :: "'c host_env \<Rightarrow> cjob \<Rightarrow> 'c host_collector \<Rightarrow> 'c host_collector \<Rightarrow> bool" where
  "completes env j h h' \<longleftrightarrow> collectors h' = collectors h \<and>
     (posts_keep env \<longrightarrow> keeps_polls (hc_registry h) (hc_registry h')) \<and>
     (sent h' = sent h \<or> Error j = '''' \<and>
       (\<exists>x j'. sent h' = sent h @ [(x, j')] \<and> same_job j j' \<and> Result j' = Result j))"

lemma jobComplete_completes:
  assumes "jobComplete env r h = Inr h'"
  shows "completes env (job_at r h) h h'"
proof -
  consider (stopped) "h' = h" | (failed) j where "h' = put_job r j h"
    | (none) b j where "jobHasChange (job_at r h) = Inr (b, j)" "h' = put_job r j h"
    | (sends) b j g where "Error (job_at r h) = ''''" "jobHasChange (job_at r h) = Inr (b, j)"
        "g = (put_job r j h)\<lparr>sent := sent h @ [(Parser (hc_registry h) (LinksId j), j)]\<rparr>"
        "h' = g \<or> bootDetailDevice env j g = Inr h'"
    using assms by (auto simp: jobComplete_def Let_def bind_res_eq_Inr split: if_splits)
  then show ?thesis
  proof cases
    case sends
    have "collectors h' = collectors g \<and> sent h' = sent g \<and>
        (posts_keep env \<longrightarrow> keeps_polls (hc_registry g) (hc_registry h'))"
      using sends(4) bootDetailDevice_keeps [of env j g h'] by auto
    then show ?thesis using sends(1,3) jobHasChange_result [OF sends(2)] by (auto simp: completes_def put_job_def)
  qed (simp_all add: completes_def put_job_def)
qed

lemma completed_progress:
  assumes "bind_res (jobComplete env r h) (boot_progress env r) = Inr h'"
  shows "completes env (job_at r h) h h'"
  using assms
  by (auto simp: bind_res_eq_Inr completes_def aside_def dest!: jobComplete_completes boot_progress_aside)

section \<open>Where messages come from\<close>

text \<open>
  A property \<open>P\<close> of the collectors with the protocol they are stored under that every protocol call keeps,
  and a property \<open>G\<close> of protocol, names and result that holds whenever such a call returns without an error.
\<close>

definition each :: "(protocol \<times> 'c \<Rightarrow> bool) \<Rightarrow> 'c host_collector \<Rightarrow> bool" where
  "each P h \<longleftrightarrow> (\<forall>cs. collectors h = Some cs \<longrightarrow> (\<forall>e \<in> set cs. P e))"

definition call_keeps :: "(protocol \<times> 'c \<Rightarrow> bool) \<Rightarrow> 'c tick \<Rightarrow> bool" where
  "call_keeps P k \<longleftrightarrow> (\<forall>p c j c' j'. P (p, c) \<and> tick_exec k c j = Inr (c', j') \<longrightarrow> P (p, c'))"

definition call_gives ::
  "(protocol \<times> 'c \<Rightarrow> bool) \<Rightarrow> (protocol \<Rightarrow> string \<Rightarrow> string \<Rightarrow> bytes option \<Rightarrow> bool) \<Rightarrow> 'c tick \<Rightarrow> bool" where
  "call_gives P G k \<longleftrightarrow> (\<forall>p c j c' j'. P (p, c) \<and> tick_exec k c j = Inr (c', j') \<longrightarrow>
     same_job j j' \<and> (Error j' = '''' \<longrightarrow> G p (PollarisName j') (JobName j') (Result j')))"

definition given ::
  "(protocol \<Rightarrow> string \<Rightarrow> string \<Rightarrow> bytes option \<Rightarrow> bool) \<Rightarrow> registry \<Rightarrow> cjob \<Rightarrow> bool" where
  "given G reg j \<longleftrightarrow> JobName j \<in> {''ipAddress'', ''deviceStatus''} \<or>
     (\<exists>pl. Poll reg (PollarisName j) (JobName j) = Some pl \<and>
       G (poll_Protocol pl) (PollarisName j) (JobName j) (Result j))"

text \<open>What was sent between two states, and that no poll was lost in between.\<close>

definition told ::
  "(protocol \<Rightarrow> string \<Rightarrow> string \<Rightarrow> bytes option \<Rightarrow> bool) \<Rightarrow> 'c host_collector \<Rightarrow> 'c host_collector \<Rightarrow> bool" where
  "told G h h' \<longleftrightarrow> keeps_polls (hc_registry h) (hc_registry h') \<and>
     (\<exists>ms. sent h' = sent h @ ms \<and> (\<forall>m \<in> set ms. given G (hc_registry h') (snd m)))"

lemma given_keeps: "given G reg j \<Longrightarrow> keeps_polls reg reg' \<Longrightarrow> given G reg' j"
  unfolding given_def keeps_polls_def by blast

lemma told_same: "sent h' = sent h \<Longrightarrow> hc_registry h' = hc_registry h \<Longrightarrow> told G h h'"
  by (simp add: told_def)

lemma told_trans:
  assumes "told G a b" and "told G b c"
  shows "told G a c"
proof -
  obtain ms1 ms2 where ms: "sent b = sent a @ ms1" "sent c = sent b @ ms2" "\<forall>m \<in> set ms1. given G (hc_registry b) (snd m)"
    "\<forall>m \<in> set ms2. given G (hc_registry c) (snd m)" and keep: "keeps_polls (hc_registry b) (hc_registry c)"
    using assms unfolding told_def by blast
  have "given G (hc_registry c) (snd m)" if "m \<in> set (ms1 @ ms2)" for m
    using that ms(3,4) given_keeps [OF _ keep] by auto
  moreover have "sent c = sent a @ ms1 @ ms2" using ms(1,2) by simp
  ultimately show ?thesis using assms keeps_polls_trans unfolding told_def by blast
qed

lemma completes_told:
  assumes "completes env j h h'" and "posts_keep env" and "Error j = '''' \<Longrightarrow> given G (hc_registry h) j"
  shows "told G h h'"
proof -
  have keep: "keeps_polls (hc_registry h) (hc_registry h')" using assms(1,2) by (simp add: completes_def)
  consider "sent h' = sent h" | x j' where "Error j = ''''" "sent h' = sent h @ [(x, j')]" "same_job j j'" "Result j' = Result j"
    using assms(1) by (auto simp: completes_def)
  then show ?thesis
  proof cases
    case 2
    have "given G (hc_registry h) j'" using assms(3) [OF 2(1)] 2(3,4) by (simp add: given_def same_job_def)
    then show ?thesis using 2(2) keep given_keeps by (auto simp: told_def)
  qed (use keep in \<open>simp add: told_def\<close>)
qed

lemma collect_start_told:
  assumes "collect_start env t1 t2 r h = Inr (h1, call)"
  shows "collectors h1 = collectors h" and "posts_keep env \<Longrightarrow> told G h h1"
    and "call = Some p \<Longrightarrow> hc_registry h1 = hc_registry h \<and> sent h1 = sent h \<and>
      (\<exists>pl. Poll (hc_registry h1) (PollarisName (job_at r h1)) (JobName (job_at r h1)) = Some pl \<and> poll_Protocol pl = p)"
proof -
  have "collectors h1 = collectors h \<and> (posts_keep env \<longrightarrow> told G h h1) \<and>
    (\<forall>p. call = Some p \<longrightarrow> hc_registry h1 = hc_registry h \<and> sent h1 = sent h \<and>
      (\<exists>pl. Poll (hc_registry h1) (PollarisName (job_at r h1)) (JobName (job_at r h1)) = Some pl \<and> poll_Protocol pl = p))"
  proof (cases "Poll (hc_registry h) (PollarisName (job_at r h)) (JobName (job_at r h))")
    case None
    then show ?thesis using assms by (simp add: collect_start_def told_same)
  next
    case poll: (Some pl)
    let ?s = "MarkStart t1 (job_at r h)"
    have names: "PollarisName ?s = PollarisName (job_at r h)" "JobName ?s = JobName (job_at r h)"
      by (simp_all add: MarkStart_def Let_def)
    show ?thesis
    proof (cases "map_of (staticJobs :: (string \<times> ('a host_env \<Rightarrow> 'a host_collector \<Rightarrow> cjob \<Rightarrow> cjob res)) list) (JobName ?s)")
      case (Some sjob)
      obtain j h2 where j: "sjob env (put_job r ?s h) ?s = Inr j"
        "bind_res (jobComplete env r (put_job r (MarkEnded t2 j) (put_job r ?s h))) (boot_progress env r) = Inr h2"
        "h1 = h2" "call = None"
        using assms poll Some by (auto simp: collect_start_def Let_def bind_res_eq_Inr)
      have "JobName j \<in> {''ipAddress'', ''deviceStatus''}"
        using Some exec_frameD(2) [of ?s j] static_do_result [OF Some j(1)] by (auto simp: staticJobs_def split: if_splits)
      then have g: "given G reg (MarkEnded t2 j)" for reg by (simp add: given_def MarkEnded_def)
      have "completes env (MarkEnded t2 j) (put_job r (MarkEnded t2 j) (put_job r ?s h)) h1"
        using completed_progress [OF j(2)] j(3) by simp
      moreover from this have "posts_keep env \<longrightarrow> told G (put_job r (MarkEnded t2 j) (put_job r ?s h)) h1"
        using completes_told g by blast
      ultimately show ?thesis using j(4) by (simp add: completes_def told_def)
    next
      case None
      then show ?thesis
        using assms poll names
        by (auto simp: collect_start_def Let_def bind_res_eq_Inr told_same split: option.splits)
    qed
  qed
  then show "collectors h1 = collectors h" "posts_keep env \<Longrightarrow> told G h h1"
    "call = Some p \<Longrightarrow> hc_registry h1 = hc_registry h \<and> sent h1 = sent h \<and>
      (\<exists>pl. Poll (hc_registry h1) (PollarisName (job_at r h1)) (JobName (job_at r h1)) = Some pl \<and> poll_Protocol pl = p)"
    by blast+
qed

section \<open>Rounds\<close>

lemma each_same: "each P h \<Longrightarrow> collectors h' = collectors h \<Longrightarrow> each P h'"
  by (simp add: each_def)

lemma collect_finish_told:
  assumes "each P h" and "P (p, c')" and "collect_finish env t2 r p c' j' h = Inr h'"
  shows "each P h'"
    and "posts_keep env \<Longrightarrow> (Error j' = '''' \<Longrightarrow> given G (hc_registry h) j') \<Longrightarrow> told G h h'"
proof -
  let ?h1 = "put_job r (MarkEnded t2 j') (h\<lparr>collectors := map_option (AList.update p c') (collectors h)\<rparr>)"
  have each1: "each P ?h1" using assms(1,2) set_update_subset [of p c'] by (fastforce simp: each_def)
  have "h' = ?h1 \<or> completes env (MarkEnded t2 j') ?h1 h'"
    using assms(3) completed_progress [of env r ?h1 h'] by (auto simp: collect_finish_def Let_def split: if_splits)
  moreover have "completes env (MarkEnded t2 j') ?h1 h' \<Longrightarrow> told G h h'"
    if "posts_keep env" "Error j' = '''' \<Longrightarrow> given G (hc_registry h) j'"
    using completes_told [of env "MarkEnded t2 j'" ?h1 h' G] that by (simp add: given_def MarkEnded_def told_def)
  ultimately show "each P h'"
    and "posts_keep env \<Longrightarrow> (Error j' = '''' \<Longrightarrow> given G (hc_registry h) j') \<Longrightarrow> told G h h'"
    using each1 each_same [OF each1, of h'] by (auto simp: completes_def told_same)
qed

lemma collect_job_told:
  assumes "each P h" and "call_keeps P k" and "collect_job env k r h = Inr h'"
  shows "each P h'" and "posts_keep env \<Longrightarrow> call_gives P G k \<Longrightarrow> told G h h'"
proof -
  obtain h1 call where st: "collect_start env (tick_start k) (tick_end k) r h = Inr (h1, call)"
    "(case call of None \<Rightarrow> Inr h1
      | Some p \<Rightarrow> bind_res (deref (map_of (the (collectors h1)) p)) (\<lambda>c.
          bind_res (tick_exec k c (job_at r h1)) (\<lambda>(c', j'). collect_finish env (tick_end k) r p c' j' h1))) = Inr h'"
    using assms(3) by (auto simp: collect_job_def bind_res_eq_Inr)
  note start = collect_start_told [OF st(1)]
  have h1: "each P h1" by (rule each_same [OF assms(1) start(1)])
  have "each P h' \<and> (posts_keep env \<and> call_gives P G k \<longrightarrow> told G h h')"
  proof (cases call)
    case None
    then show ?thesis using st(2) h1 start(2) by simp
  next
    case (Some p)
    obtain c c' j' where c: "map_of (the (collectors h1)) p = Some c" "tick_exec k c (job_at r h1) = Inr (c', j')"
      "collect_finish env (tick_end k) r p c' j' h1 = Inr h'"
      using st(2) by (auto simp: Some bind_res_eq_Inr)
    obtain pl where pl: "Poll (hc_registry h1) (PollarisName (job_at r h1)) (JobName (job_at r h1)) = Some pl"
      "poll_Protocol pl = p"
      using start(3) [OF Some] by blast
    show ?thesis
    proof (cases "collectors h1")
      case cs: (Some cs)
      have pc: "P (p, c)" using h1 map_of_SomeD [OF c(1)] by (auto simp: each_def cs)
      then have pc': "P (p, c')" using assms(2) c(2) unfolding call_keeps_def by blast
      note fin = collect_finish_told [OF h1 pc' c(3)]
      have "given G (hc_registry h1) j'" if "call_gives P G k" "Error j' = ''''"
        using that pc c(2) pl unfolding call_gives_def given_def same_job_def by metis
      then have "told G h1 h'" if "posts_keep env" "call_gives P G k" using fin(2) that by blast
      then show ?thesis using fin(1) start(2) told_trans by blast
    next
      case None
      then have False using st(1) Some by (auto simp: collect_start_def Let_def bind_res_eq_Inr split: option.splits)
      then show ?thesis ..
    qed
  qed
  then show "each P h'" "posts_keep env \<Longrightarrow> call_gives P G k \<Longrightarrow> told G h h'" by blast+
qed

lemma collect_round_told:
  assumes "each P h" and "call_keeps P k" and "collect_round smooth env k h = Inr h'"
  shows "each P h'" and "posts_keep env \<Longrightarrow> call_gives P G k \<Longrightarrow> told G h h'"
proof -
  have q: "each P (put_queue q h)" for q by (rule each_same [OF assms(1)]) simp
  obtain job w q where "Pop smooth (tick_draw k) (tick_now k) (this_queue h) = Inr ((job, w), q)"
    and rest: "(let h1 = put_queue q h in
       case job of Some r \<Rightarrow> collect_job env k r h1
       | None \<Rightarrow> (if admissionCh h1 \<and> tick_woken k
            then bind_res (Expedite (this_queue h1)) (\<lambda>q. Inr (put_queue q h1)) else Inr h1)) = Inr h'"
    using assms(3) by (auto simp: collect_round_def bind_res_eq_Inr)
  have "each P h' \<and> (posts_keep env \<and> call_gives P G k \<longrightarrow> told G h h')"
  proof (cases job)
    case (Some r)
    then have "collect_job env k r (put_queue q h) = Inr h'" using rest by (simp add: Let_def)
    note job = collect_job_told [OF q assms(2) this]
    have "told G h (put_queue q h)" by (rule told_same) simp_all
    then show ?thesis using job told_trans by blast
  next
    case None
    then have "collectors h' = collectors h \<and> sent h' = sent h \<and> hc_registry h' = hc_registry h"
      using rest by (auto simp: Let_def bind_res_eq_Inr split: if_splits)
    then show ?thesis using each_same [OF assms(1)] told_same by blast
  qed
  then show "each P h'" "posts_keep env \<Longrightarrow> call_gives P G k \<Longrightarrow> told G h h'" by blast+
qed

lemma collect_told:
  "each P h \<Longrightarrow> \<forall>k \<in> set ks. call_keeps P k \<Longrightarrow> collect smooth env ks h = Inr h' \<Longrightarrow>
   each P h' \<and> (posts_keep env \<and> (\<forall>k \<in> set ks. call_gives P G k) \<longrightarrow> told G h h')"
proof (induction ks arbitrary: h)
  case (Cons k ks)
  show ?case
  proof (cases "running h")
    case True
    then obtain h1 where h1: "collect_round smooth env k h = Inr h1" "collect smooth env ks h1 = Inr h'"
      using Cons.prems(3) by (auto simp: bind_res_eq_Inr)
    have "call_keeps P k" using Cons.prems(2) by simp
    note round = collect_round_told [OF Cons.prems(1) this h1(1)]
    have "each P h' \<and> (posts_keep env \<and> (\<forall>k \<in> set ks. call_gives P G k) \<longrightarrow> told G h1 h')"
      by (rule Cons.IH [OF round(1) _ h1(2)]) (use Cons.prems(2) in simp)
    then show ?thesis using round(2) told_trans by (metis list.set_intros)
  qed (use Cons.prems in \<open>simp add: told_same\<close>)
qed (simp add: told_same)

lemma start_registry:
  assumes "start env h = Inr h'"
  shows "hc_registry h' = hc_registry h"
proof -
  obtain cs bs g where g: "newBootState env 0 (h\<lparr>collectors := cs\<rparr>) = Inr (bs, g)" "hc_registry h' = hc_registry g"
    using assms by (auto simp: start_def Let_def bind_res_eq_Inr split: if_splits)
  then show ?thesis using newBootState_queue [OF g(1)] by auto
qed

end
