(* ===== verification/Rest.thy ===== *)
theory Rest
  imports Go_Strings Protocol_Collector Table_Values
begin

text \<open>
  \<open>protocols/rest/RestCollector.go\<close>: requests to a REST interface, with an optional login session. The
  HTTP library and the servers are arguments: \<open>'w\<close> is their state, \<open>re_do\<close> answers a request of a client
  in it, \<open>re_build\<close> is the check of a request when it is made, \<open>re_find\<close> the submatches of a pattern.
  The body of an answer is what could be read of it and the error, if reading stopped early.
\<close>

datatype rest_client = SessionClient "(string \<times> string) list" | InsecureClient

record http_request =
  rq_method :: string
  rq_url :: string
  rq_body :: "string option"
  rq_headers :: "(string \<times> string) list"

record http_response =
  rs_code :: int
  rs_status :: string
  rs_body :: "string \<times> string option"
  rs_path :: "string option"

datatype json_field = JFalse | JOther

record 'w rest_env =
  re_build :: "http_request \<Rightarrow> string option"
  re_do :: "rest_client \<Rightarrow> 'w \<Rightarrow> http_request \<Rightarrow> 'w \<times> (string + http_response)"
  re_json :: "string \<Rightarrow> string + (string \<rightharpoonup> json_field)"
  re_compiles :: "string \<Rightarrow> bool"
  re_find :: "string \<Rightarrow> string \<Rightarrow> string list"
  re_poll :: "string \<Rightarrow> string \<Rightarrow> string + poll"
  re_encode :: "string \<Rightarrow> bytes"
  re_encode_map :: "cmap \<Rightarrow> bytes"
  re_cookie_order :: "(string \<times> string) list \<Rightarrow> (string \<times> string) list"

record 'w rest_collector =
  rc_httpClient :: "rest_client option"
  rc_hostProtocol :: "host_protocol option"
  rc_connected :: bool
  rc_baseURL :: string
  rc_csrfToken :: string
  rc_csrfRegex :: "string option"
  rc_world :: 'w

definition new_rest :: "'w \<Rightarrow> 'w rest_collector" where
  "new_rest w = \<lparr>rc_httpClient = None, rc_hostProtocol = None, rc_connected = False, rc_baseURL = '''',
     rc_csrfToken = '''', rc_csrfRegex = None, rc_world = w\<rparr>"

section \<open>Initialisation\<close>

definition rest_Init ::
  "'w rest_env \<Rightarrow> host_protocol \<Rightarrow> 'w rest_collector \<Rightarrow> ('w rest_collector \<times> string option) res" where
  "rest_Init env conf c =
     (case cfg_Ainfo conf of
        None \<Rightarrow> Inr (c, Some ''host rest auth info connection info is nil'')
      | Some ainfo \<Rightarrow>
          let c = c\<lparr>rc_hostProtocol := Some conf,
                rc_baseURL := ''https://'' @ cfg_Addr conf @ '':'' @ dec_int (cfg_Port conf) @ cfg_HttpPrefix conf\<rparr>
          in if SessionAuth ainfo then
               let c = c\<lparr>rc_httpClient := Some (SessionClient (re_cookie_order env (PresetCookies ainfo)))\<rparr>
               in if CsrfPattern ainfo = '''' then Inr (c, None)
                  else if \<not> re_compiles env (CsrfPattern ainfo) then Inl (Raised ''regexp'')
                  else Inr (c\<lparr>rc_csrfRegex := Some (CsrfPattern ainfo)\<rparr>, None)
             else Inr (c\<lparr>rc_httpClient := Some InsecureClient\<rparr>, None))"

definition rest_Disconnect :: "'w rest_collector \<Rightarrow> 'w rest_collector" where
  "rest_Disconnect c =
     c\<lparr>rc_httpClient := None, rc_hostProtocol := None, rc_connected := False, rc_csrfToken := '''', rc_csrfRegex := None\<rparr>"

definition rest_Online :: "'w rest_collector \<Rightarrow> bool" where
  "rest_Online c \<longleftrightarrow> True"

section \<open>Requests\<close>

text \<open>\<open>poll.What\<close>: method, endpoint, body, content type.\<close>

definition parseWhat :: "poll \<Rightarrow> string + (string \<times> string \<times> string \<times> string)" where
  "parseWhat pl =
     (case Split (poll_What pl) ''::'' of
        m # e # b # rest \<Rightarrow>
          if m \<notin> {''GET'', ''POST'', ''PUT'', ''PATCH'', ''DELETE''} then Inl (''invalid What method: '' @ m)
          else Inr (m, e, b, case rest of t # _ \<Rightarrow> if t \<noteq> '''' then t else ''application/json'' | [] \<Rightarrow> ''application/json'')
      | _ \<Rightarrow> Inl ''invalid What format'')"

definition http_do ::
  "'w rest_env \<Rightarrow> http_request \<Rightarrow> 'w rest_collector \<Rightarrow> ('w rest_collector \<times> (string + http_response)) res" where
  "http_do env rq c =
     bind_res (deref (rc_httpClient c)) (\<lambda>client.
       case re_do env client (rc_world c) rq of (w, r) \<Rightarrow> Inr (c\<lparr>rc_world := w\<rparr>, r))"

definition get_request :: "string \<Rightarrow> http_request" where
  "get_request url = \<lparr>rq_method = ''GET'', rq_url = url, rq_body = None, rq_headers = []\<rparr>"

section \<open>Sessions\<close>

definition take_token :: "'w rest_env \<Rightarrow> http_response \<Rightarrow> 'w rest_collector \<Rightarrow> 'w rest_collector" where
  "take_token env resp c =
     (case rc_csrfRegex c of
        None \<Rightarrow> c
      | Some pattern \<Rightarrow>
          (case re_find env pattern (fst (rs_body resp)) of
             _ # token # _ \<Rightarrow> c\<lparr>rc_csrfToken := token\<rparr>
           | _ \<Rightarrow> c))"

definition refreshCSRF :: "'w rest_env \<Rightarrow> host_protocol \<Rightarrow> auth_info \<Rightarrow> 'w rest_collector \<Rightarrow> 'w rest_collector res" where
  "refreshCSRF env conf ainfo c =
     (if CsrfSource ainfo = '''' \<or> rc_csrfRegex c = None then Inr c
      else bind_res (http_do env (get_request (''https://'' @ cfg_Addr conf @ CsrfSource ainfo)) c) (\<lambda>(c, r).
        case r of Inl _ \<Rightarrow> Inr c | Inr resp \<Rightarrow> Inr (take_token env resp c)))"

definition login_request :: "host_protocol \<Rightarrow> auth_info \<Rightarrow> http_request" where
  "login_request conf ainfo =
     (let scheme = ''https://'' @ cfg_Addr conf in
      \<lparr>rq_method = ''POST'', rq_url = scheme @ AuthPath ainfo,
       rq_body = Some (ReplaceAll (ReplaceAll (AuthBody ainfo) ''{{user}}'' (ApiUser ainfo)) ''{{pass}}'' (ApiKey ainfo)),
       rq_headers = [(''Content-Type'', ''application/json''), (''Origin'', scheme), (''Referer'', scheme @ ''/'')]\<rparr>)"

definition login_refused :: "'w rest_env \<Rightarrow> auth_info \<Rightarrow> http_response \<Rightarrow> string option" where
  "login_refused env ainfo resp =
     (case snd (rs_body resp) of
        Some err \<Rightarrow> Some (''session login read failed: '' @ err)
      | None \<Rightarrow>
          if rs_code resp \<noteq> 200 then Some (''session login returned status '' @ rs_status resp)
          else if AuthResp ainfo = '''' then None
          else case re_json env (fst (rs_body resp)) of
            Inl err \<Rightarrow> Some (''session login parse failed: '' @ err)
          | Inr result \<Rightarrow>
              (case result (AuthResp ainfo) of
                 Some JOther \<Rightarrow> None
               | _ \<Rightarrow> Some ''session login auth response check failed''))"

definition visit_session_page ::
  "'w rest_env \<Rightarrow> host_protocol \<Rightarrow> auth_info \<Rightarrow> 'w rest_collector \<Rightarrow> ('w rest_collector \<times> string option) res" where
  "visit_session_page env conf ainfo c =
     (if SessionPage ainfo = '''' then Inr (c, None)
      else bind_res (http_do env (get_request (''https://'' @ cfg_Addr conf @ SessionPage ainfo)) c) (\<lambda>(c, r).
        case r of
          Inl err \<Rightarrow> Inr (c, Some (''session page fetch failed: '' @ err))
        | Inr resp \<Rightarrow> Inr (take_token env resp c, None)))"

definition sessionLogin ::
  "'w rest_env \<Rightarrow> host_protocol \<Rightarrow> auth_info \<Rightarrow> 'w rest_collector \<Rightarrow> ('w rest_collector \<times> string option) res" where
  "sessionLogin env conf ainfo c =
     (case re_build env (login_request conf ainfo) of
        Some err \<Rightarrow> Inr (c, Some (''session login request build failed: '' @ err))
      | None \<Rightarrow>
          bind_res (http_do env (login_request conf ainfo) c) (\<lambda>(c, r).
            case r of
              Inl err \<Rightarrow> Inr (c, Some (''session login request failed: '' @ err))
            | Inr resp \<Rightarrow>
                (case login_refused env ainfo resp of
                   Some err \<Rightarrow> Inr (c, Some err)
                 | None \<Rightarrow>
                     bind_res (visit_session_page env conf ainfo c) (\<lambda>(c, err).
                       case err of
                         Some e \<Rightarrow> Inr (c, Some e)
                       | None \<Rightarrow>
                           if CsrfSource ainfo \<noteq> '''' \<and> CsrfSource ainfo \<noteq> SessionPage ainfo
                           then bind_res (refreshCSRF env conf ainfo c) (\<lambda>c. Inr (c, None))
                           else Inr (c, None)))))"

definition check_url :: "host_protocol \<Rightarrow> auth_info \<Rightarrow> string" where
  "check_url conf ainfo =
     ''https://'' @ cfg_Addr conf @ (if SessionPage ainfo = '''' then ''/'' else SessionPage ainfo)"

definition session_expired :: "auth_info \<Rightarrow> http_response \<Rightarrow> bool" where
  "session_expired ainfo resp \<longleftrightarrow>
     (case rs_path resp of
        None \<Rightarrow> False
      | Some reqPath \<Rightarrow> SessionPage ainfo \<noteq> '''' \<and> \<not> HasPrefix reqPath (SessionPage ainfo))"

definition EnsureSession ::
  "'w rest_env \<Rightarrow> host_protocol \<Rightarrow> auth_info \<Rightarrow> 'w rest_collector \<Rightarrow> ('w rest_collector \<times> string option) res" where
  "EnsureSession env conf ainfo c =
     (if \<not> SessionAuth ainfo then Inr (c, None)
      else bind_res (http_do env (get_request (check_url conf ainfo)) c) (\<lambda>(c, r).
        case r of
          Inl _ \<Rightarrow> sessionLogin env conf ainfo c
        | Inr resp \<Rightarrow> if session_expired ainfo resp then sessionLogin env conf ainfo c else Inr (c, None)))"

definition rest_Connect :: "'w rest_env \<Rightarrow> 'w rest_collector \<Rightarrow> ('w rest_collector \<times> string option) res" where
  "rest_Connect env c =
     bind_res (deref (rc_hostProtocol c)) (\<lambda>conf. bind_res (deref (cfg_Ainfo conf)) (\<lambda>ainfo.
       if \<not> SessionAuth ainfo then Inr (c\<lparr>rc_connected := True\<rparr>, None)
       else bind_res (sessionLogin env conf ainfo c) (\<lambda>(c, err).
         case err of Some e \<Rightarrow> Inr (c, Some e) | None \<Rightarrow> Inr (c\<lparr>rc_connected := True\<rparr>, None))))"

section \<open>Jobs\<close>

definition rest_fails :: "string \<Rightarrow> cjob \<Rightarrow> cjob" where
  "rest_fails err job = job\<lparr>ErrorCount := ErrorCount job + 1, Error := err\<rparr>"

definition data_request ::
  "host_protocol \<Rightarrow> auth_info \<Rightarrow> 'w rest_collector \<Rightarrow> cjob \<Rightarrow> string \<times> string \<times> string \<times> string \<Rightarrow> http_request" where
  "data_request conf ainfo c job what =
     (case what of (m, e, b, t) \<Rightarrow>
       \<lparr>rq_method = m,
        rq_url = rc_baseURL c @ (if TargetId job \<noteq> '''' then ReplaceAll e ''$symbol'' (TargetId job) else e),
        rq_body = (if b \<noteq> '''' then Some b else None),
        rq_headers =
          [(''Content-Type'', t), (''Accept'', ''application/json''),
           (''User-Agent'', ''Mozilla/5.0 (X11; Linux x86_64) AppleWebKit/537.36'')] @
          (if rc_csrfToken c \<noteq> '''' then [(''X-CSRF-Token'', rc_csrfToken c)] else []) @
          (if SessionAuth ainfo then [(''X-Requested-With'', ''XMLHttpRequest''), (''Origin'', ''https://'' @ cfg_Addr conf)] else [])\<rparr>)"

definition job_answered :: "'w rest_env \<Rightarrow> string + http_response \<Rightarrow> cjob \<Rightarrow> cjob" where
  "job_answered env r job =
     (case r of
        Inl err \<Rightarrow> rest_fails err job
      | Inr resp \<Rightarrow>
          (case snd (rs_body resp) of
             Some err \<Rightarrow> rest_fails err job
           | None \<Rightarrow>
               if rs_code resp < 200 \<or> 300 \<le> rs_code resp
               then rest_fails (''HTTP '' @ dec_int (rs_code resp) @ '': '' @ fst (rs_body resp)) job
               else job\<lparr>ErrorCount := 0,
                 Result := Some (re_encode_map env [(''json'', re_encode env (fst (rs_body resp)))])\<rparr>))"

definition rest_Exec :: "'w rest_env \<Rightarrow> 'w rest_collector \<Rightarrow> cjob \<Rightarrow> ('w rest_collector \<times> cjob) res" where
  "rest_Exec env c job =
     bind_res (deref (rc_hostProtocol c)) (\<lambda>conf. bind_res (deref (cfg_Ainfo conf)) (\<lambda>ainfo.
       bind_res (if SessionAuth ainfo then EnsureSession env conf ainfo c else Inr (c, None)) (\<lambda>(c, err).
         case err of
           Some e \<Rightarrow> Inr (c, rest_fails (''session keepalive failed: '' @ e) job)
         | None \<Rightarrow>
             let c = c\<lparr>rc_connected := True\<rparr> in
             (case re_poll env (PollarisName job) (JobName job) of
                Inl err \<Rightarrow> Inr (c, rest_fails err job)
              | Inr pl \<Rightarrow>
                  (case parseWhat pl of
                     Inl err \<Rightarrow> Inr (c, rest_fails err job)
                   | Inr what \<Rightarrow>
                       let rq = data_request conf ainfo c job what in
                       (case re_build env rq of
                          Some err \<Rightarrow> Inr (c, rest_fails err job)
                        | None \<Rightarrow> bind_res (http_do env rq c) (\<lambda>(c, r). Inr (c, job_answered env r job))))))))"

end
