(* ===== verification/Rest_Theorems.thy ===== *)
theory Rest_Theorems
  imports Rest
begin

text \<open>
  The contract of \<open>Exec\<close>, the reading of a poll's description, the request that is sent for it, and
  what the session check does and does not do.
\<close>

section \<open>The contract of Exec\<close>

text \<open>What \<open>Init\<close> leaves when it succeeds, and every operation but \<open>Disconnect\<close> keeps.\<close>

definition rest_ready :: "'w rest_collector \<Rightarrow> bool" where
  "rest_ready c \<longleftrightarrow> rc_httpClient c \<noteq> None \<and> (\<exists>conf ainfo. rc_hostProtocol c = Some conf \<and> cfg_Ainfo conf = Some ainfo)"

definition keeps_ready :: "'w rest_collector \<Rightarrow> 'w rest_collector \<Rightarrow> bool" where
  "keeps_ready c c' \<longleftrightarrow> rc_httpClient c' = rc_httpClient c \<and> rc_hostProtocol c' = rc_hostProtocol c \<and>
     rc_baseURL c' = rc_baseURL c \<and> rc_csrfRegex c' = rc_csrfRegex c"

lemma keeps_ready_refl [simp]: "keeps_ready c c"
  by (simp add: keeps_ready_def)

lemma keeps_ready_trans: "keeps_ready a b \<Longrightarrow> keeps_ready b c \<Longrightarrow> keeps_ready a c"
  by (simp add: keeps_ready_def)

lemma keeps_ready_token [simp]: "keeps_ready c (take_token env resp d) = keeps_ready c d"
  by (simp add: keeps_ready_def take_token_def split: option.split list.split)

lemma keeps_client: "keeps_ready c c' \<Longrightarrow> rc_httpClient c \<noteq> None \<Longrightarrow> rc_httpClient c' \<noteq> None"
  by (simp add: keeps_ready_def)

lemma http_do_returns:
  assumes "rc_httpClient c \<noteq> None"
  obtains c' r where "http_do env rq c = Inr (c', r)" and "keeps_ready c c'"
proof -
  obtain client where client: "rc_httpClient c = Some client" using assms by blast
  obtain w r where "re_do env client (rc_world c) rq = (w, r)" by (cases "re_do env client (rc_world c) rq")
  then have "http_do env rq c = Inr (c\<lparr>rc_world := w\<rparr>, r)" by (simp add: http_do_def client)
  then show ?thesis by (rule that) (simp add: keeps_ready_def)
qed

lemma refreshCSRF_returns:
  assumes "rc_httpClient c \<noteq> None"
  shows "\<exists>c'. refreshCSRF env conf ainfo c = Inr c' \<and> keeps_ready c c'"
proof -
  obtain c1 r where "http_do env (get_request (''https://'' @ cfg_Addr conf @ CsrfSource ainfo)) c = Inr (c1, r)" "keeps_ready c c1"
    by (rule http_do_returns [OF assms])
  then show ?thesis by (cases r) (auto simp: refreshCSRF_def)
qed

lemma visit_session_page_returns:
  assumes "rc_httpClient c \<noteq> None"
  shows "\<exists>c' e. visit_session_page env conf ainfo c = Inr (c', e) \<and> keeps_ready c c'"
proof -
  obtain c1 r where "http_do env (get_request (''https://'' @ cfg_Addr conf @ SessionPage ainfo)) c = Inr (c1, r)" "keeps_ready c c1"
    by (rule http_do_returns [OF assms])
  then show ?thesis by (cases r) (auto simp: visit_session_page_def)
qed

lemma sessionLogin_returns:
  assumes "rc_httpClient c \<noteq> None"
  shows "\<exists>c' e. sessionLogin env conf ainfo c = Inr (c', e) \<and> keeps_ready c c'"
proof -
  obtain c1 r where r: "http_do env (login_request conf ainfo) c = Inr (c1, r)" "keeps_ready c c1"
    by (rule http_do_returns [OF assms])
  obtain c2 e2 where v: "visit_session_page env conf ainfo c1 = Inr (c2, e2)" "keeps_ready c1 c2"
    using visit_session_page_returns [OF keeps_client [OF r(2) assms]] by blast
  obtain c3 where f: "refreshCSRF env conf ainfo c2 = Inr c3" "keeps_ready c2 c3"
    using refreshCSRF_returns [OF keeps_client [OF v(2) keeps_client [OF r(2) assms]]] by blast
  note k = r(2) keeps_ready_trans [OF r(2) v(2)] keeps_ready_trans [OF keeps_ready_trans [OF r(2) v(2)] f(2)]
  show ?thesis
  proof (cases "re_build env (login_request conf ainfo)")
    case None
    show ?thesis
    proof (cases r)
      case (Inr resp)
      then show ?thesis using None r v f k
        by (cases "login_refused env ainfo resp"; cases e2) (simp_all add: sessionLogin_def)
    qed (simp add: sessionLogin_def None r(1) k)
  qed (simp add: sessionLogin_def)
qed

lemma EnsureSession_returns:
  assumes "rc_httpClient c \<noteq> None"
  shows "\<exists>c' e. EnsureSession env conf ainfo c = Inr (c', e) \<and> keeps_ready c c'"
proof -
  obtain c1 r where r: "http_do env (get_request (check_url conf ainfo)) c = Inr (c1, r)" "keeps_ready c c1"
    by (rule http_do_returns [OF assms])
  obtain c2 e2 where "sessionLogin env conf ainfo c1 = Inr (c2, e2)" "keeps_ready c1 c2"
    using sessionLogin_returns [OF keeps_client [OF r(2) assms]] by blast
  then show ?thesis using r keeps_ready_trans [OF r(2)] by (cases r) (auto simp: EnsureSession_def)
qed

lemma frame_rest_fails [simp]: "exec_frame i (rest_fails err j) = exec_frame i j"
  by (simp add: rest_fails_def)

definition rest_failed :: "cjob \<Rightarrow> cjob \<Rightarrow> bool" where
  "rest_failed job job' \<longleftrightarrow> ErrorCount job' = ErrorCount job + 1 \<and> Result job' = Result job"

definition rest_done :: "'w rest_env \<Rightarrow> cjob \<Rightarrow> cjob \<Rightarrow> bool" where
  "rest_done env job job' \<longleftrightarrow>
     (\<exists>body. job' = job\<lparr>ErrorCount := 0, Result := Some (re_encode_map env [(''json'', re_encode env body)])\<rparr>)"

lemma rest_failed_fails [simp]: "rest_failed job (rest_fails err job)"
  by (simp add: rest_failed_def rest_fails_def)

lemma job_answered_outcome:
  "exec_frame job (job_answered env r job) \<and>
   (rest_failed job (job_answered env r job) \<or> rest_done env job (job_answered env r job))"
proof (cases r)
  case (Inr resp)
  show ?thesis
  proof (cases "snd (rs_body resp)")
    case None
    show ?thesis
      by (cases "rs_code resp < 200 \<or> 300 \<le> rs_code resp") (auto simp: job_answered_def Inr None rest_done_def)
  qed (simp add: job_answered_def Inr)
qed (simp add: job_answered_def)

lemma rest_exec_outcome_aux:
  assumes "rest_ready c"
  shows "\<exists>c' job'. rest_Exec env c job = Inr (c', job') \<and> rest_ready c' \<and> exec_frame job job' \<and>
    (rest_failed job job' \<or> rest_done env job job')"
proof -
  obtain conf ainfo where h: "rc_httpClient c \<noteq> None" "rc_hostProtocol c = Some conf" "cfg_Ainfo conf = Some ainfo"
    using assms by (auto simp: rest_ready_def)
  obtain c1 e where e: "(if SessionAuth ainfo then EnsureSession env conf ainfo c else Inr (c, None)) = Inr (c1, e)" "keeps_ready c c1"
    using EnsureSession_returns [OF h(1), of env conf ainfo] by (cases "SessionAuth ainfo") auto
  let ?c = "c1\<lparr>rc_connected := True\<rparr>"
  have ready: "rest_ready d" if "keeps_ready c d" for d using that h by (auto simp: rest_ready_def keeps_ready_def)
  have kc: "keeps_ready c ?c" using e(2) by (simp add: keeps_ready_def)
  show ?thesis
  proof (cases e)
    case (Some t)
    then show ?thesis using h(2,3) e ready [OF e(2)] by (simp add: rest_Exec_def)
  next
    case None
    note ex = rest_Exec_def [of env c job] h(2,3) e(1) None
    show ?thesis
    proof (cases "re_poll env (PollarisName job) (JobName job)")
      case (Inr pl)
      show ?thesis
      proof (cases "parseWhat pl")
        case what: (Inr what)
        show ?thesis
        proof (cases "re_build env (data_request conf ainfo ?c job what)")
          case build: None
          obtain c2 r where r: "http_do env (data_request conf ainfo ?c job what) ?c = Inr (c2, r)" "keeps_ready ?c c2"
            by (rule http_do_returns [OF keeps_client [OF kc h(1)]])
          have "rest_ready c2" by (rule ready [OF keeps_ready_trans [OF kc r(2)]])
          then show ?thesis using job_answered_outcome [of job env r] by (simp add: ex Inr what build r(1))
        qed (simp add: ex Inr what ready [OF kc])
      qed (simp add: ex Inr ready [OF kc])
    qed (simp add: ex ready [OF kc])
  qed
qed


interpretation rest: protocol_collector "rest_Exec env" rest_ready for env
proof
  show "\<exists>c' j'. rest_Exec env c j = Inr (c', j') \<and> rest_ready c' \<and> exec_frame j j'" if "rest_ready c" for c j
    using rest_exec_outcome_aux that by blast
qed

section \<open>Reading a poll\<close>

text \<open>A part that does not contain the separator, nor ends with half of it.\<close>

definition plain_part :: "string \<Rightarrow> bool" where
  "plain_part p \<longleftrightarrow> \<not> Contains (p @ '':'') ''::''"

lemma Index_plain:
  assumes "plain_part p"
  shows "Index (p @ ''::'' @ rest) ''::'' = Some (length p)"
  using assms
proof (induction p)
  case (Cons c p)
  have p: "plain_part p" using Cons.prems Contains_append [of "p @ '':''" "''::''" "[c]"] by (auto simp: plain_part_def)
  have "\<not> prefix ''::'' (c # p @ ''::'' @ rest)"
  proof
    assume "prefix ''::'' (c # p @ ''::'' @ rest)"
    then have "prefix ''::'' (c # p @ '':'')" by (cases p) auto
    then have "Contains (c # p @ '':'') ''::''" by (subst Contains_Cons) (auto simp: HasPrefix_prefix)
    then show False using Cons.prems by (simp add: plain_part_def)
  qed
  then show ?case using Cons.IH [OF p] by simp
qed simp

lemma Index_plain_None: "plain_part p \<Longrightarrow> Index p ''::'' = None"
proof (rule ccontr)
  assume p: "plain_part p" and "Index p ''::'' \<noteq> None"
  then obtain i where "Index p ''::'' = Some i" by blast
  then have "p = take i p @ ''::'' @ drop (i + 2) p" using Index_split [of p "''::''" i] by simp
  then have "p @ '':'' = take i p @ ''::'' @ drop (i + 2) p @ '':''"
    by (metis append.assoc)
  moreover have "Contains (take i p @ ''::'' @ drop (i + 2) p @ '':'') ''::''"
    by (rule Contains_append [OF Contains_here])
  ultimately have "Contains (p @ '':'') ''::''" by (simp only:)
  then show False using p by (simp add: plain_part_def)
qed

lemma Split_plain: "plain_part p \<Longrightarrow> Split (p @ ''::'' @ rest) ''::'' = p # Split rest ''::''"
  by (subst Split.simps) (simp only: Index_plain, simp)

lemma Split_plain_last: "plain_part p \<Longrightarrow> Split p ''::'' = [p]"
  by (subst Split.simps) (simp add: Index_plain_None)

definition rest_methods :: "string set" where
  "rest_methods = {''GET'', ''POST'', ''PUT'', ''PATCH'', ''DELETE''}"

text \<open>
  C40. The description of a poll is read back part by part, for every method the collector knows, with
  JSON as the content type unless the fourth part names another; any other method is refused.
\<close>

theorem parseWhat_parts:
  assumes "plain_part m" and "plain_part e" and "plain_part b" and "plain_part t"
  shows "parseWhat (pl\<lparr>poll_What := m @ ''::'' @ e @ ''::'' @ b\<rparr>) =
      (if m \<in> rest_methods then Inr (m, e, b, ''application/json'') else Inl (''invalid What method: '' @ m)) \<and>
    parseWhat (pl\<lparr>poll_What := m @ ''::'' @ e @ ''::'' @ b @ ''::'' @ t\<rparr>) =
      (if m \<in> rest_methods then Inr (m, e, b, if t = '''' then ''application/json'' else t)
       else Inl (''invalid What method: '' @ m)) \<and>
    parseWhat (pl\<lparr>poll_What := m @ ''::'' @ e\<rparr>) = Inl ''invalid What format''"
proof -
  have three: "Split (m @ ''::'' @ e @ ''::'' @ b) ''::'' = [m, e, b]"
    and four: "Split (m @ ''::'' @ e @ ''::'' @ b @ ''::'' @ t) ''::'' = [m, e, b, t]"
    and two: "Split (m @ ''::'' @ e) ''::'' = [m, e]"
    using assms by (simp_all only: Split_plain Split_plain_last)
  have what: "poll_What (pl\<lparr>poll_What := s\<rparr>) = s" for s by simp
  show ?thesis
    by (simp only: parseWhat_def what three four two list.case rest_methods_def) simp
qed

text \<open>
  A body that contains the separator is cut at it, and what follows becomes the content type of the
  request.
\<close>

theorem separator_in_body_cuts_it:
  assumes "plain_part e" and "plain_part b1" and "plain_part b2" and "b2 \<noteq> ''''"
    and "poll_What pl = ''POST'' @ ''::'' @ e @ ''::'' @ (b1 @ ''::'' @ b2)"
  shows "parseWhat pl = Inr (''POST'', e, b1, b2)"
proof -
  have "plain_part ''POST''" by (simp add: plain_part_def Contains_def)
  then have "Split (poll_What pl) ''::'' = [''POST'', e, b1, b2]"
    using assms by (simp only: append.assoc Split_plain Split_plain_last)
  then show ?thesis using assms(4) by (simp add: parseWhat_def)
qed

section \<open>The request of a job\<close>

text \<open>
  Without a login session, a job whose description is in order sends exactly one request, to the
  address, port and prefix of its host with its own target in the endpoint, and its result is the
  answer to that request: the body of a 2xx answer, else the error with its status.
\<close>

theorem rest_request_exact:
  assumes "rc_httpClient c = Some client" and "rc_hostProtocol c = Some conf" and "cfg_Ainfo conf = Some ainfo"
    and "\<not> SessionAuth ainfo" and "rc_csrfToken c = ''''" and "re_poll env (PollarisName job) (JobName job) = Inr pl"
    and "parseWhat pl = Inr (m, e, b, t)" and "TargetId job \<noteq> ''''"
    and "rq = \<lparr>rq_method = m, rq_url = rc_baseURL c @ ReplaceAll e ''$symbol'' (TargetId job),
      rq_body = (if b = '''' then None else Some b),
      rq_headers = [(''Content-Type'', t), (''Accept'', ''application/json''),
        (''User-Agent'', ''Mozilla/5.0 (X11; Linux x86_64) AppleWebKit/537.36'')]\<rparr>"
    and "re_build env rq = None" and "re_do env client (rc_world c) rq = (w, r)"
  shows "rest_Exec env c job = Inr (c\<lparr>rc_connected := True, rc_world := w\<rparr>, job_answered env r job)"
proof -
  have rq: "data_request conf ainfo (c\<lparr>rc_connected := True\<rparr>) job (m, e, b, t) = rq"
    using assms(4,5,8,9) by (simp add: data_request_def)
  show ?thesis using assms(1-4,6,7,10,11) by (simp add: rest_Exec_def Let_def rq http_do_def)
qed

section \<open>What the session check misses\<close>

lemma login_is_no_data: "data_request conf ainfo c job what \<noteq> login_request conf' ainfo'"
proof
  assume "data_request conf ainfo c job what = login_request conf' ainfo'"
  then have "rq_headers (data_request conf ainfo c job what) = rq_headers (login_request conf' ainfo')" by simp
  then show False by (cases what) (simp add: data_request_def login_request_def Let_def)
qed

text \<open>
  Nothing but the session check ever logs in, and with no session page it logs in only when the
  server cannot be reached: a collector with session login whose requests are answered sends its data
  requests without a login.
\<close>

theorem session_without_page_never_logs_in:
  assumes "rest_ready c" and "rc_hostProtocol c = Some conf" and "cfg_Ainfo conf = Some ainfo"
    and "SessionAuth ainfo" and "SessionPage ainfo = ''''"
    and "\<forall>client w rq. \<exists>resp. re_do env client w rq = (w @ [rq], Inr resp)"
  shows "\<exists>c' job' sent. rest_Exec env c job = Inr (c', job') \<and> rc_world c' = rc_world c @ sent \<and>
    hd sent = get_request (''https://'' @ cfg_Addr conf @ ''/'') \<and> login_request conf ainfo \<notin> set sent"
proof -
  obtain client where client: "rc_httpClient c = Some client" using assms(1) by (auto simp: rest_ready_def)
  let ?check = "get_request (''https://'' @ cfg_Addr conf @ ''/'')"
  have http: "\<exists>resp. http_do env rq d = Inr (d\<lparr>rc_world := rc_world d @ [rq]\<rparr>, Inr resp)"
    if "rc_httpClient d = Some client" for d rq
  proof -
    obtain resp where "re_do env client (rc_world d) rq = (rc_world d @ [rq], Inr resp)" using assms(6) by blast
    then show ?thesis using that by (simp add: http_do_def)
  qed
  let ?c1 = "c\<lparr>rc_world := rc_world c @ [?check]\<rparr>"
  have url: "check_url conf ainfo = ''https://'' @ cfg_Addr conf @ ''/''" by (simp add: check_url_def assms(5))
  obtain resp where "http_do env ?check c = Inr (?c1, Inr resp)" using http [OF client] by blast
  then have en: "EnsureSession env conf ainfo c = Inr (?c1, None)"
    using assms(4,5) by (simp add: EnsureSession_def url session_expired_def split: option.split)
  let ?c2 = "?c1\<lparr>rc_connected := True\<rparr>"
  have check: "login_request conf ainfo \<noteq> ?check" by (simp add: login_request_def get_request_def Let_def)
  show ?thesis
  proof (cases "re_poll env (PollarisName job) (JobName job)")
    case (Inl err)
    then show ?thesis using assms(2-4) en check by (auto simp: rest_Exec_def Let_def intro!: exI [of _ "[?check]"])
  next
    case (Inr pl)
    show ?thesis
    proof (cases "parseWhat pl")
      case (Inl err)
      then show ?thesis using assms(2-4) en check Inr by (auto simp: rest_Exec_def Let_def intro!: exI [of _ "[?check]"])
    next
      case what: (Inr what)
      show ?thesis
      proof (cases "re_build env (data_request conf ainfo ?c2 job what)")
        case (Some err)
        then show ?thesis using assms(2-4) en check Inr what
          by (auto simp: rest_Exec_def Let_def intro!: exI [of _ "[?check]"])
      next
        case None
        let ?rq = "data_request conf ainfo ?c2 job what"
        obtain resp2 where "http_do env ?rq ?c2 = Inr (?c2\<lparr>rc_world := rc_world ?c2 @ [?rq]\<rparr>, Inr resp2)"
          using http [of ?c2 ?rq] client by auto
        then show ?thesis using assms(2-4) en check Inr what None login_is_no_data [of conf ainfo ?c2 job what conf ainfo]
          by (auto simp: rest_Exec_def Let_def intro!: exI [of _ "[?check, ?rq]"])
      qed
    qed
  qed
qed

text \<open>
  A host without authentication data makes \<open>Init\<close> return an error, but the collector it leaves is
  put to use all the same, and its first job panics.
\<close>

theorem rest_without_auth_panics:
  assumes "cfg_Ainfo conf = None"
  shows "\<exists>c e. rest_Init env conf (new_rest w) = Inr (c, Some e) \<and> rest_Exec env c job = Inl NilDeref"
  using assms by (simp add: rest_Init_def rest_Exec_def new_rest_def)

lemma rest_Init_ready:
  assumes "rest_Init env conf (new_rest w) = Inr (c, None)"
  shows "rest_ready c"
  using assms by (auto simp: rest_Init_def rest_ready_def Let_def split: option.splits if_splits)

text \<open>The login and the session check go to the default port, the data requests to the configured one.\<close>

lemma session_ignores_port:
  "login_request (conf\<lparr>cfg_Port := p\<rparr>) ainfo = login_request conf ainfo"
  "check_url (conf\<lparr>cfg_Port := p\<rparr>) ainfo = check_url conf ainfo"
  by (simp_all add: login_request_def check_url_def Let_def)

section \<open>A server to run it on\<close>

definition demo_ainfo :: "bool \<Rightarrow> auth_info" where
  "demo_ainfo session = \<lparr>SessionAuth = session, AuthBody = ''{{user}}:{{pass}}'', ApiUser = ''u'', ApiKey = ''k'', AuthPath = ''/login'',
     AuthResp = '''', SessionPage = '''', CsrfSource = '''', CsrfPattern = '''', PresetCookies = [], NeedAuth = False,
     AuthUserField = '''', AuthPassField = '''', AuthToken = '''', IsApiKey = False\<rparr>"

definition demo_rest_host :: "bool \<Rightarrow> host_protocol" where
  "demo_rest_host session = \<lparr>cfg_Protocol = L8PRESTAPI, cfg_Addr = ''api'', cfg_Port = 8443, cfg_CredId = '''', cfg_Timeout = 5,
     cfg_HttpPrefix = '''', cfg_Prompt = [], cfg_Ainfo = Some (demo_ainfo session), cfg_Cert = '''', cfg_Terminal = '''',
     cfg_TerminalCommands = None\<rparr>"

definition demo_rest_poll :: poll where
  "demo_rest_poll = \<lparr>poll_Name = ''p'', poll_What = ''GET'' @ ''::'' @ ''/v1'' @ ''::'' @ '''', poll_Operation = L8C_Get,
     poll_Protocol = L8PRESTAPI, poll_Cadence = None, poll_Timeout = 0, poll_Always = False, poll_RespName = ''''\<rparr>"

definition demo_rest :: "http_request list rest_env" where
  "demo_rest = \<lparr>re_build = \<lambda>_. None,
     re_do = \<lambda>_ w rq. (w @ [rq], Inr \<lparr>rs_code = 200, rs_status = ''200 OK'', rs_body = (''{}'', None), rs_path = None\<rparr>),
     re_json = \<lambda>_. Inr (\<lambda>_. None), re_compiles = \<lambda>_. True, re_find = \<lambda>_ _. [], re_poll = \<lambda>_ _. Inr demo_rest_poll,
     re_encode = map of_char, re_encode_map = concat \<circ> map snd, re_cookie_order = \<lambda>m. m\<rparr>"

definition demo_rest_collector :: "bool \<Rightarrow> http_request list rest_collector" where
  "demo_rest_collector session = \<lparr>rc_httpClient = Some InsecureClient, rc_hostProtocol = Some (demo_rest_host session),
     rc_connected = False, rc_baseURL = ''https://api:8443'', rc_csrfToken = '''', rc_csrfRegex = None, rc_world = []\<rparr>"

lemma demo_rest_ready: "rest_ready (demo_rest_collector s)"
  by (simp add: rest_ready_def demo_rest_collector_def demo_rest_host_def)


lemma demo_parts: "plain_part ''POST''" "plain_part ''GET''" "plain_part ''/v1''" "plain_part ''''" "plain_part ''::1'' = False" "plain_part ''x''"
  by (simp_all add: plain_part_def Contains_def)

theorem parseWhat_parts_witness:
  "parseWhat (demo_rest_poll\<lparr>poll_What := ''GET'' @ ''::'' @ ''/v1'' @ ''::'' @ ''''\<rparr>) = Inr (''GET'', ''/v1'', '''', ''application/json'')"
  using parseWhat_parts [OF demo_parts(2,3,4,4), of demo_rest_poll] by (simp add: rest_methods_def)

theorem separator_in_body_cuts_it_witness:
  "parseWhat (demo_rest_poll\<lparr>poll_What := ''POST'' @ ''::'' @ ''/v1'' @ ''::'' @ (''x'' @ ''::'' @ ''x'')\<rparr>) =
     Inr (''POST'', ''/v1'', ''x'', ''x'')"
  by (rule separator_in_body_cuts_it [OF demo_parts(3,6,6)]) simp_all

theorem rest_request_exact_witness:
  "rest_Exec demo_rest (demo_rest_collector False) (empty_job\<lparr>TargetId := ''t''\<rparr>) =
     Inr ((demo_rest_collector False)\<lparr>rc_connected := True,
       rc_world := [\<lparr>rq_method = ''GET'', rq_url = ''https://api:8443'' @ ReplaceAll ''/v1'' ''$symbol'' ''t'', rq_body = None,
         rq_headers = [(''Content-Type'', ''application/json''), (''Accept'', ''application/json''),
           (''User-Agent'', ''Mozilla/5.0 (X11; Linux x86_64) AppleWebKit/537.36'')]\<rparr>]\<rparr>,
       empty_job\<lparr>TargetId := ''t'', ErrorCount := 0, Result := Some (map of_char ''{}'')\<rparr>)"
proof -
  have w: "parseWhat demo_rest_poll = Inr (''GET'', ''/v1'', '''', ''application/json'')"
    by (simp only: parseWhat_def demo_rest_poll_def poll.simps Split_plain [OF demo_parts(2)] Split_plain [OF demo_parts(3)]
      Split_plain_last [OF demo_parts(4)]) simp
  have "rest_Exec demo_rest (demo_rest_collector False) (empty_job\<lparr>TargetId := ''t''\<rparr>) =
     Inr ((demo_rest_collector False)\<lparr>rc_connected := True,
       rc_world := [\<lparr>rq_method = ''GET'', rq_url = ''https://api:8443'' @ ReplaceAll ''/v1'' ''$symbol'' ''t'', rq_body = None,
         rq_headers = [(''Content-Type'', ''application/json''), (''Accept'', ''application/json''),
           (''User-Agent'', ''Mozilla/5.0 (X11; Linux x86_64) AppleWebKit/537.36'')]\<rparr>]\<rparr>,
       job_answered demo_rest (Inr \<lparr>rs_code = 200, rs_status = ''200 OK'', rs_body = (''{}'', None), rs_path = None\<rparr>)
         (empty_job\<lparr>TargetId := ''t''\<rparr>))"
    by (rule rest_request_exact [where pl = demo_rest_poll and ainfo = "demo_ainfo False" and conf = "demo_rest_host False" and client = InsecureClient, OF _ _ _ _ _ _ w])
      (simp_all add: demo_rest_collector_def demo_rest_host_def demo_ainfo_def demo_rest_def)
  then show ?thesis by (simp add: job_answered_def demo_rest_def)
qed

theorem session_without_page_never_logs_in_witness:
  "\<exists>c' job' sent. rest_Exec demo_rest (demo_rest_collector True) empty_job = Inr (c', job') \<and> rc_world c' = sent \<and>
    login_request (demo_rest_host True) (demo_ainfo True) \<notin> set sent"
proof -
  have h: "rc_hostProtocol (demo_rest_collector True) = Some (demo_rest_host True)" "cfg_Ainfo (demo_rest_host True) = Some (demo_ainfo True)"
    "SessionAuth (demo_ainfo True)" "SessionPage (demo_ainfo True) = ''''"
    "\<forall>client w rq. \<exists>resp. re_do demo_rest client w rq = (w @ [rq], Inr resp)" "rc_world (demo_rest_collector True) = []"
    by (simp_all add: demo_rest_collector_def demo_rest_host_def demo_ainfo_def demo_rest_def)
  show ?thesis using session_without_page_never_logs_in [OF demo_rest_ready h(1-5), of empty_job] h(6) by auto
qed

theorem rest_without_auth_panics_witness:
  "\<exists>c e. rest_Init demo_rest ((demo_rest_host False)\<lparr>cfg_Ainfo := None\<rparr>) (new_rest []) = Inr (c, Some e) \<and>
     rest_Exec demo_rest c empty_job = Inl NilDeref"
  by (rule rest_without_auth_panics) simp

end
