(* ===== verification/Kubectl.thy ===== *)
theory Kubectl
  imports Common Protocol_Collector Go_Strings
begin

text \<open>
  \<open>protocols/k8s/Kubernetes.go\<close>: jobs run through \<open>kubectl\<close>. The files of the working directory are a
  map from paths to contents that all collectors of the process share; the rest of the system, and
  what running a script in it gives, are arguments. A script is run with the files as they are then.
\<close>

type_synonym files = "string \<rightharpoonup> string"

record 'w kube_env =
  ke_credential :: "string \<Rightarrow> (string \<times> string) option"
  ke_decode :: "string \<Rightarrow> string + string"
  ke_refuses :: "string \<Rightarrow> string option"
  ke_uuid :: "'w \<Rightarrow> 'w \<times> string"
  ke_bash :: "files \<Rightarrow> 'w \<Rightarrow> string \<Rightarrow> 'w \<times> string \<times> string option"
  ke_poll :: "string \<Rightarrow> string \<Rightarrow> string + poll"
  ke_encode :: "string \<Rightarrow> bytes"

record kubectl =
  kc_resources :: bool
  kc_config :: "host_protocol option"
  kc_kubeConfig :: string
  kc_context :: string
  kc_connected :: bool

definition new_kubectl :: kubectl where
  "new_kubectl = \<lparr>kc_resources = False, kc_config = None, kc_kubeConfig = '''', kc_context = '''', kc_connected = False\<rparr>"

definition write_file :: "'w kube_env \<Rightarrow> string \<Rightarrow> string \<Rightarrow> files \<Rightarrow> files \<times> string option" where
  "write_file env path content fs =
     (case ke_refuses env path of Some err \<Rightarrow> (fs, Some err) | None \<Rightarrow> (fs(path \<mapsto> content), None))"

definition remove_file :: "string \<Rightarrow> files \<Rightarrow> files" where
  "remove_file path fs = fs(path := None)"

definition kubectl_Init ::
  "'w kube_env \<Rightarrow> host_protocol \<Rightarrow> files \<Rightarrow> kubectl \<Rightarrow> (kubectl \<times> files \<times> string option) res" where
  "kubectl_Init env config fs c =
     (let c = c\<lparr>kc_resources := True, kc_config := Some config\<rparr> in
      case ke_credential env (cfg_CredId config) of
        None \<Rightarrow> Inl (Raised ''credential'')
      | Some (ctxt, kubeconfig) \<Rightarrow>
          let c = c\<lparr>kc_context := ctxt, kc_kubeConfig := ''.kubeadm-'' @ ctxt\<rparr> in
          (case ke_decode env kubeconfig of
             Inl err \<Rightarrow> Inr (c, fs, Some err)
           | Inr content \<Rightarrow>
               (case write_file env (kc_kubeConfig c) content fs of (fs, err) \<Rightarrow> Inr (c, fs, err))))"

definition kubectl_script :: "kubectl \<Rightarrow> poll \<Rightarrow> cjob \<Rightarrow> string" where
  "kubectl_script c pl job =
     ''kubectl --kubeconfig='' @ kc_kubeConfig c @ '' --context='' @ kc_context c @ '' '' @
     ReplaceArguments (poll_What pl) job @ [CHR 0x0A]"

definition kubectl_Exec ::
  "'w kube_env \<Rightarrow> files \<Rightarrow> 'w \<Rightarrow> kubectl \<Rightarrow> cjob \<Rightarrow> (files \<times> 'w \<times> cjob) res" where
  "kubectl_Exec env fs w c job =
     (if \<not> kc_resources c then Inl NilDeref
      else case ke_poll env (PollarisName job) (JobName job) of
        Inl err \<Rightarrow> Inr (fs, w, job)
      | Inr pl \<Rightarrow>
          (case ke_uuid env w of (w, uuid) \<Rightarrow>
             let path = ''./'' @ uuid @ ''.sh'';
                 fs = fst (write_file env path (kubectl_script c pl job) fs)
             in case ke_bash env fs w path of (w, out, e) \<Rightarrow>
                  let job = (case e of
                        Some err \<Rightarrow> job\<lparr>Error := err, ErrorCount := ErrorCount job + 1\<rparr>
                      | None \<Rightarrow> job\<lparr>ErrorCount := 0\<rparr>)
                  in Inr (remove_file path fs, w, job\<lparr>Result := Some (ke_encode env out)\<rparr>)))"

definition kubectl_Connect :: "kubectl \<Rightarrow> kubectl" where
  "kubectl_Connect c = c"

definition kubectl_Disconnect :: "files \<Rightarrow> kubectl \<Rightarrow> kubectl \<times> files" where
  "kubectl_Disconnect fs c =
     (c\<lparr>kc_kubeConfig := '''', kc_resources := False, kc_config := None, kc_context := '''', kc_connected := False\<rparr>,
      if kc_kubeConfig c \<noteq> '''' then remove_file (kc_kubeConfig c) fs else fs)"

definition kubectl_Online :: "kubectl \<Rightarrow> bool" where
  "kubectl_Online c \<longleftrightarrow> kc_connected c"

section \<open>Running a job\<close>

text \<open>The collector with the files and the system it works in, as the interface's \<open>Exec\<close> sees it.\<close>

definition kubectl_exec :: "'w kube_env \<Rightarrow> kubectl \<times> files \<times> 'w \<Rightarrow> cjob \<Rightarrow> ((kubectl \<times> files \<times> 'w) \<times> cjob) res" where
  "kubectl_exec env s job =
     (case s of (c, fs, w) \<Rightarrow> bind_res (kubectl_Exec env fs w c job) (\<lambda>(fs, w, job). Inr ((c, fs, w), job)))"

definition kubectl_ready :: "kubectl \<times> files \<times> 'w \<Rightarrow> bool" where
  "kubectl_ready s \<longleftrightarrow> kc_resources (fst s)"

lemma kubectl_Exec_known:
  assumes "kc_resources c" and "ke_poll env (PollarisName job) (JobName job) = Inr pl"
    and "ke_uuid env w = (w1, uuid)" and "ke_refuses env (''./'' @ uuid @ ''.sh'') = None"
    and "ke_bash env (fs(''./'' @ uuid @ ''.sh'' \<mapsto> kubectl_script c pl job)) w1 (''./'' @ uuid @ ''.sh'') = (w2, out, e)"
  shows "kubectl_Exec env fs w c job = Inr (fs(''./'' @ uuid @ ''.sh'' := None), w2,
    (case e of Some err \<Rightarrow> job\<lparr>Error := err, ErrorCount := ErrorCount job + 1\<rparr> | None \<Rightarrow> job\<lparr>ErrorCount := 0\<rparr>)
      \<lparr>Result := Some (ke_encode env out)\<rparr>)"
  using assms by (simp add: kubectl_Exec_def write_file_def remove_file_def Let_def)

text \<open>
  A job runs exactly one script: \<open>kubectl\<close> with the collector's own configuration file and context
  and the arguments of the job filled in; the script is in place while it runs and gone afterwards, so
  that the files are as before; the job has the output as its result, and the error if there was one.
\<close>

theorem kubectl_runs_script:
  assumes "kc_resources c" and "ke_poll env (PollarisName job) (JobName job) = Inr pl"
    and "ke_uuid env w = (w1, uuid)" and "ke_refuses env (''./'' @ uuid @ ''.sh'') = None" and "fs (''./'' @ uuid @ ''.sh'') = None"
    and "ke_bash env (fs(''./'' @ uuid @ ''.sh'' \<mapsto>
        ''kubectl --kubeconfig='' @ kc_kubeConfig c @ '' --context='' @ kc_context c @ '' '' @
        ReplaceArguments (poll_What pl) job @ [CHR 0x0A])) w1 (''./'' @ uuid @ ''.sh'') = (w2, out, e)"
  shows "kubectl_exec env (c, fs, w) job = Inr ((c, fs, w2),
    (case e of Some err \<Rightarrow> job\<lparr>Error := err, ErrorCount := ErrorCount job + 1\<rparr> | None \<Rightarrow> job\<lparr>ErrorCount := 0\<rparr>)
      \<lparr>Result := Some (ke_encode env out)\<rparr>)"
proof -
  have "fs(''./'' @ uuid @ ''.sh'' := None) = fs" using assms(5) by (simp add: fun_upd_idem_iff)
  then show ?thesis
    using kubectl_Exec_known [OF assms(1-4), folded kubectl_script_def] assms(6) [folded kubectl_script_def]
    by (simp add: kubectl_exec_def)
qed

lemma kubectl_exec_returns:
  assumes "kc_resources c"
  shows "\<exists>fs' w' job'. kubectl_exec env (c, fs, w) job = Inr ((c, fs', w'), job') \<and> exec_frame job job'"
proof (cases "ke_poll env (PollarisName job) (JobName job)")
  case (Inr pl)
  obtain w1 uuid where u: "ke_uuid env w = (w1, uuid)" by (cases "ke_uuid env w")
  let ?path = "''./'' @ uuid @ ''.sh''"
  let ?fs = "fst (write_file env ?path (kubectl_script c pl job) fs)"
  obtain w2 out e where b: "ke_bash env ?fs w1 ?path = (w2, out, e)" by (cases "ke_bash env ?fs w1 ?path")
  then show ?thesis using assms u Inr by (cases e) (auto simp: kubectl_exec_def kubectl_Exec_def Let_def)
qed (simp add: kubectl_exec_def kubectl_Exec_def assms)

interpretation kubectl: protocol_collector "kubectl_exec env" kubectl_ready for env
proof
  show "\<exists>s' j'. kubectl_exec env s j = Inr (s', j') \<and> kubectl_ready s' \<and> exec_frame j j'" if r: "kubectl_ready s" for s j
  proof -
    obtain c fs w where s: "s = (c, fs, w)" by (cases s)
    show ?thesis using kubectl_exec_returns [of c env fs w j] r by (auto simp: s kubectl_ready_def)
  qed
qed

section \<open>The shared configuration file\<close>

lemma kubectl_Init_ok:
  assumes "ke_credential env (cfg_CredId config) = Some (ctxt, kubeconfig)" and "ke_decode env kubeconfig = Inr content"
    and "ke_refuses env (''.kubeadm-'' @ ctxt) = None"
  shows "kubectl_Init env config fs new_kubectl =
    Inr (\<lparr>kc_resources = True, kc_config = Some config, kc_kubeConfig = ''.kubeadm-'' @ ctxt, kc_context = ctxt,
      kc_connected = False\<rparr>, fs(''.kubeadm-'' @ ctxt \<mapsto> content), None)"
  using assms by (simp add: kubectl_Init_def new_kubectl_def write_file_def Let_def)

text \<open>
  The name of a configuration file is made of the context alone: when two hosts use contexts of one
  name, the second one's initialisation replaces the configuration the first one runs with, and
  disconnecting the first removes the file the second one's scripts name.
\<close>

theorem kubeconfig_shared_by_context:
  assumes "ke_credential env (cfg_CredId conf1) = Some (ctxt, k1)" and "ke_credential env (cfg_CredId conf2) = Some (ctxt, k2)"
    and "ke_decode env k1 = Inr cont1" and "ke_decode env k2 = Inr cont2" and "ke_refuses env (''.kubeadm-'' @ ctxt) = None"
  shows "\<exists>a b fs1 fs2 fs3. kubectl_Init env conf1 fs new_kubectl = Inr (a, fs1, None) \<and>
    kubectl_Init env conf2 fs1 new_kubectl = Inr (b, fs2, None) \<and> kubectl_Disconnect fs2 a = (new_kubectl, fs3) \<and>
    fs2 (kc_kubeConfig a) = Some cont2 \<and> kc_resources b \<and> fs3 (kc_kubeConfig b) = None"
  using kubectl_Init_ok [OF assms(1,3,5), of fs] kubectl_Init_ok [OF assms(2,4,5)]
  by (simp add: kubectl_Disconnect_def remove_file_def new_kubectl_def)

section \<open>Being online\<close>

datatype kubectl_event = Kube_Init host_protocol | Kube_Exec cjob | Kube_Connect | Kube_Disconnect

inductive kubectl_step ::
  "'w kube_env \<Rightarrow> kubectl \<times> files \<times> 'w \<Rightarrow> kubectl_event \<Rightarrow> kubectl \<times> files \<times> 'w \<Rightarrow> bool"
  for env :: "'w kube_env" where
  kube_init: "kubectl_Init env config fs c = Inr (c', fs', err) \<Longrightarrow> kubectl_step env (c, fs, w) (Kube_Init config) (c', fs', w)"
| kube_exec: "kubectl_exec env s job = Inr (s', job') \<Longrightarrow> kubectl_step env s (Kube_Exec job) s'"
| kube_connect: "kubectl_step env (c, fs, w) Kube_Connect (kubectl_Connect c, fs, w)"
| kube_disconnect: "kubectl_Disconnect fs c = (c', fs') \<Longrightarrow> kubectl_step env (c, fs, w) Kube_Disconnect (c', fs', w)"

inductive_cases kubectl_stepE: "kubectl_step env s ev s'"

lemma kubectl_step_offline:
  assumes "\<not> kc_connected (fst s)" and "kubectl_step env s ev s'"
  shows "\<not> kc_connected (fst s')"
  using assms(2)
proof (cases rule: kubectl_step.cases)
  case (kube_init config fs c c' fs' err w)
  then show ?thesis using assms(1)
    by (auto simp: kubectl_Init_def Let_def split: option.splits sum.splits prod.splits)
next
  case (kube_exec job job')
  then show ?thesis using assms(1) by (auto simp: kubectl_exec_def split: prod.splits elim!: bind_res_InrE)
next
  case (kube_connect c fs w)
  then show ?thesis using assms(1) by (simp add: kubectl_Connect_def)
next
  case (kube_disconnect fs c c' fs' w)
  then show ?thesis by (auto simp: kubectl_Disconnect_def)
qed

interpretation kube_offline: invariant_system "\<lambda>s. fst s = new_kubectl" "kubectl_step env" "\<lambda>s. \<not> kc_connected (fst s)" for env
  by unfold_locales (auto simp: new_kubectl_def dest: kubectl_step_offline)

text \<open>
  No sequence of initialisations, connections, jobs and disconnections ever makes the collector
  report that it is online, so a host polled through \<open>kubectl\<close> is always reported down.
\<close>

theorem kubectl_never_online:
  assumes "reach (\<lambda>s. fst s = new_kubectl) (kubectl_step env) (c, fs, w)"
  shows "\<not> kubectl_Online c"
  using kube_offline.reach_inv [OF assms] by (simp add: kubectl_Online_def)

section \<open>A system to run it on\<close>

definition demo_kube :: "unit kube_env" where
  "demo_kube = \<lparr>ke_credential = \<lambda>cred. Some (''prod'', cred), ke_decode = Inr, ke_refuses = \<lambda>_. None,
     ke_uuid = \<lambda>w. (w, ''42''), ke_bash = \<lambda>fs w path. (w, case fs path of Some s \<Rightarrow> s | None \<Rightarrow> '''', None),
     ke_poll = \<lambda>_ _. Inr \<lparr>poll_Name = ''p'', poll_What = ''get pods'', poll_Operation = L8C_Get, poll_Protocol = L8PKubectl,
       poll_Cadence = None, poll_Timeout = 0, poll_Always = False, poll_RespName = ''''\<rparr>,
     ke_encode = map of_char\<rparr>"

definition demo_kube_host :: "string \<Rightarrow> host_protocol" where
  "demo_kube_host cred = \<lparr>cfg_Protocol = L8PKubectl, cfg_Addr = '''', cfg_Port = 0, cfg_CredId = cred, cfg_Timeout = 0,
     cfg_HttpPrefix = '''', cfg_Prompt = [], cfg_Ainfo = None, cfg_Cert = '''', cfg_Terminal = '''', cfg_TerminalCommands = None\<rparr>"

definition demo_kubectl :: kubectl where
  "demo_kubectl = \<lparr>kc_resources = True, kc_config = Some (demo_kube_host ''a''), kc_kubeConfig = ''.kubeadm-prod'',
     kc_context = ''prod'', kc_connected = False\<rparr>"

theorem kubectl_runs_script_witness:
  "kubectl_exec demo_kube (demo_kubectl, Map.empty, ()) empty_job = Inr ((demo_kubectl, Map.empty, ()),
     empty_job\<lparr>ErrorCount := 0,
       Result := Some (map of_char (''kubectl --kubeconfig=.kubeadm-prod --context=prod get pods'' @ [CHR 0x0A]))\<rparr>)"
proof -
  let ?pl = "\<lparr>poll_Name = ''p'', poll_What = ''get pods'', poll_Operation = L8C_Get, poll_Protocol = L8PKubectl,
       poll_Cadence = None, poll_Timeout = 0, poll_Always = False, poll_RespName = ''''\<rparr>"
  let ?out = "''kubectl --kubeconfig=.kubeadm-prod --context=prod get pods'' @ [CHR 0x0A]"
  have "kubectl_exec demo_kube (demo_kubectl, Map.empty, ()) empty_job = Inr ((demo_kubectl, Map.empty, ()),
    (case None of Some err \<Rightarrow> empty_job\<lparr>Error := err, ErrorCount := ErrorCount empty_job + 1\<rparr> | None \<Rightarrow> empty_job\<lparr>ErrorCount := 0\<rparr>)
      \<lparr>Result := Some (ke_encode demo_kube ?out)\<rparr>)"
    by (rule kubectl_runs_script [where pl = ?pl and uuid = "''42''" and ?w1.0 = "()" and ?w2.0 = "()"])
      (simp_all add: demo_kube_def demo_kubectl_def ReplaceArguments_def empty_job_def)
  then show ?thesis by (simp add: demo_kube_def)
qed

theorem kubeconfig_shared_by_context_witness:
  "\<exists>a b fs1 fs2 fs3. kubectl_Init demo_kube (demo_kube_host ''a'') Map.empty new_kubectl = Inr (a, fs1, None) \<and>
    kubectl_Init demo_kube (demo_kube_host ''b'') fs1 new_kubectl = Inr (b, fs2, None) \<and>
    kubectl_Disconnect fs2 a = (new_kubectl, fs3) \<and> fs2 (kc_kubeConfig a) = Some ''b'' \<and> kc_resources b \<and> fs3 (kc_kubeConfig b) = None"
  by (rule kubeconfig_shared_by_context [where ctxt = "''prod''" and ?k1.0 = "''a''" and ?k2.0 = "''b''" and ?cont1.0 = "''a''"])
    (simp_all add: demo_kube_def demo_kube_host_def)

theorem kubectl_never_online_witness:
  "\<exists>c fs. kubectl_Init demo_kube (demo_kube_host ''a'') Map.empty new_kubectl = Inr (c, fs, None) \<and> \<not> kubectl_Online c"
proof -
  obtain c fs where i: "kubectl_Init demo_kube (demo_kube_host ''a'') Map.empty new_kubectl = Inr (c, fs, None)"
    by (simp add: kubectl_Init_def demo_kube_def demo_kube_host_def new_kubectl_def write_file_def Let_def)
  have "reach (\<lambda>s. fst s = new_kubectl) (kubectl_step demo_kube) (new_kubectl, Map.empty, ())" by (rule reach_start) simp
  from kubectl_never_online [OF reach_step [OF this kube_init [OF i]]] show ?thesis using i by blast
qed

end
