(* ===== verification/Graphql.thy ===== *)
theory Graphql
  imports Protocol_Collector
begin

text \<open>
  \<open>protocols/graphql/GraphSqlCollector.go\<close>: queries through the GraphQL client library. The library and
  the servers are arguments; \<open>'w\<close> is their state. An answer is given by what \<open>proto.Marshal\<close> makes of it, \<open>None\<close>
  where it fails.
\<close>

record graphql_config =
  gq_Host :: string
  gq_Port :: int
  gq_Https :: bool
  gq_TokenRequired :: bool
  gq_CertFileName :: string
  gq_Prefix :: string
  gq_NeedAuth :: bool
  gq_BodyType :: string
  gq_UserField :: string
  gq_PassField :: string
  gq_RespType :: string
  gq_TokenField :: string
  gq_AuthPath :: string
  gq_ApiKey :: string
  gq_ApiUser :: string
  gq_IsAPIKey :: bool

record 'w graphql_env =
  ge_credential :: "string \<Rightarrow> (string \<times> string) option"
  ge_refuses :: "graphql_config \<Rightarrow> string option"
  ge_auth :: "graphql_config \<Rightarrow> 'w \<Rightarrow> string \<Rightarrow> string \<Rightarrow> 'w \<times> string option"
  ge_query :: "graphql_config \<Rightarrow> 'w \<Rightarrow> string \<Rightarrow> string \<Rightarrow> 'w \<times> (string + bytes option)"
  ge_poll :: "string \<Rightarrow> string \<Rightarrow> string + poll"

record 'w graphql_collector =
  gc_client :: "graphql_config option"
  gc_hostProtocol :: "host_protocol option"
  gc_resources :: bool
  gc_connected :: bool
  gc_world :: 'w

definition new_graphql :: "'w \<Rightarrow> 'w graphql_collector" where
  "new_graphql w = \<lparr>gc_client = None, gc_hostProtocol = None, gc_resources = False, gc_connected = False, gc_world = w\<rparr>"

definition client_config :: "host_protocol \<Rightarrow> auth_info \<Rightarrow> graphql_config" where
  "client_config conf ainfo = \<lparr>gq_Host = cfg_Addr conf, gq_Port = cfg_Port conf, gq_Https = True, gq_TokenRequired = False,
     gq_CertFileName = cfg_Cert conf, gq_Prefix = cfg_HttpPrefix conf, gq_NeedAuth = NeedAuth ainfo,
     gq_BodyType = AuthBody ainfo, gq_UserField = AuthUserField ainfo, gq_PassField = AuthPassField ainfo,
     gq_RespType = AuthResp ainfo, gq_TokenField = AuthToken ainfo, gq_AuthPath = AuthPath ainfo,
     gq_ApiKey = ApiKey ainfo, gq_ApiUser = ApiUser ainfo, gq_IsAPIKey = IsApiKey ainfo\<rparr>"

definition graphql_Init ::
  "'w graphql_env \<Rightarrow> host_protocol \<Rightarrow> 'w graphql_collector \<Rightarrow> ('w graphql_collector \<times> string option) res" where
  "graphql_Init env conf c =
     bind_res (deref (cfg_Ainfo conf)) (\<lambda>ainfo.
       let config = client_config conf ainfo in
       case ge_refuses env config of
         Some err \<Rightarrow> Inr (c, Some err)
       | None \<Rightarrow> Inr (c\<lparr>gc_hostProtocol := Some conf, gc_client := Some config, gc_resources := True\<rparr>, None))"

definition graphql_Connect ::
  "'w graphql_env \<Rightarrow> 'w graphql_collector \<Rightarrow> ('w graphql_collector \<times> string option) res" where
  "graphql_Connect env c =
     bind_res (if gc_resources c then Inr () else Inl NilDeref) (\<lambda>_.
     bind_res (deref (gc_hostProtocol c)) (\<lambda>conf.
       case ge_credential env (cfg_CredId conf) of
         None \<Rightarrow> Inl (Raised ''credential'')
       | Some (username, password) \<Rightarrow>
           bind_res (deref (gc_client c)) (\<lambda>client.
             case ge_auth env client (gc_world c) username password of (w, err) \<Rightarrow> Inr (c\<lparr>gc_world := w\<rparr>, err))))"

definition graphql_fails :: "string \<Rightarrow> cjob \<Rightarrow> cjob" where
  "graphql_fails err job = job\<lparr>ErrorCount := ErrorCount job + 1, Error := err\<rparr>"

definition graphql_query ::
  "'w graphql_env \<Rightarrow> 'w graphql_collector \<Rightarrow> cjob \<Rightarrow> ('w graphql_collector \<times> cjob) res" where
  "graphql_query env c job =
     (case ge_poll env (PollarisName job) (JobName job) of
        Inl err \<Rightarrow> Inr (c, graphql_fails err job)
      | Inr pl \<Rightarrow>
          bind_res (deref (gc_client c)) (\<lambda>client.
            case ge_query env client (gc_world c) (poll_What pl) (poll_RespName pl) of
              (w, Inl err) \<Rightarrow> Inr (c\<lparr>gc_world := w\<rparr>, graphql_fails err job)
            | (w, Inr resp) \<Rightarrow> Inr (c\<lparr>gc_world := w\<rparr>, job\<lparr>ErrorCount := 0, Result := resp\<rparr>)))"

definition graphql_Exec ::
  "'w graphql_env \<Rightarrow> 'w graphql_collector \<Rightarrow> cjob \<Rightarrow> ('w graphql_collector \<times> cjob) res" where
  "graphql_Exec env c job =
     bind_res (if gc_connected c then Inr (c, None) else graphql_Connect env c) (\<lambda>(c, err).
       case err of
         Some e \<Rightarrow> Inr (c, graphql_fails e job)
       | None \<Rightarrow> graphql_query env c job)"

definition graphql_Disconnect :: "'w graphql_collector \<Rightarrow> 'w graphql_collector" where
  "graphql_Disconnect c = c\<lparr>gc_client := None, gc_hostProtocol := None, gc_resources := False, gc_connected := False\<rparr>"

definition graphql_Online :: "'w graphql_collector \<Rightarrow> bool" where
  "graphql_Online c \<longleftrightarrow> True"

section \<open>The contract of Exec\<close>

text \<open>A collector whose \<open>Init\<close> succeeded and whose credential is known.\<close>

definition graphql_ready :: "'w graphql_env \<Rightarrow> 'w graphql_collector \<Rightarrow> bool" where
  "graphql_ready env c \<longleftrightarrow> gc_resources c \<and> gc_client c \<noteq> None \<and> \<not> gc_connected c \<and>
     (\<exists>conf. gc_hostProtocol c = Some conf \<and> ge_credential env (cfg_CredId conf) \<noteq> None)"

lemma graphql_query_returns:
  assumes "graphql_ready env c"
  shows "\<exists>c' job'. graphql_query env c job = Inr (c', job') \<and> graphql_ready env c' \<and> exec_frame job job' \<and>
    (ErrorCount job' = ErrorCount job + 1 \<and> Result job' = Result job \<or> ErrorCount job' = 0 \<and> Error job' = Error job)"
proof (cases "ge_poll env (PollarisName job) (JobName job)")
  case (Inl err)
  then show ?thesis using assms by (simp add: graphql_query_def graphql_fails_def)
next
  case (Inr pl)
  obtain client where client: "gc_client c = Some client" using assms by (auto simp: graphql_ready_def)
  obtain w r where q: "ge_query env client (gc_world c) (poll_What pl) (poll_RespName pl) = (w, r)"
    by (cases "ge_query env client (gc_world c) (poll_What pl) (poll_RespName pl)")
  have "graphql_ready env (c\<lparr>gc_world := w\<rparr>)" using assms by (simp add: graphql_ready_def)
  then show ?thesis using q client Inr by (cases r) (simp_all add: graphql_query_def graphql_fails_def)
qed

lemma graphql_Connect_returns:
  assumes "graphql_ready env c"
  obtains conf client u p where "gc_hostProtocol c = Some conf" "gc_client c = Some client"
    "ge_credential env (cfg_CredId conf) = Some (u, p)"
    "graphql_Connect env c = Inr (c\<lparr>gc_world := fst (ge_auth env client (gc_world c) u p)\<rparr>, snd (ge_auth env client (gc_world c) u p))"
proof -
  obtain conf client u p where h: "gc_hostProtocol c = Some conf" "gc_client c = Some client"
    "ge_credential env (cfg_CredId conf) = Some (u, p)" "gc_resources c"
    using assms by (auto simp: graphql_ready_def)
  moreover have "graphql_Connect env c = Inr (c\<lparr>gc_world := fst (ge_auth env client (gc_world c) u p)\<rparr>,
      snd (ge_auth env client (gc_world c) u p))"
    using h by (simp add: graphql_Connect_def split: prod.split)
  ultimately show ?thesis using that by blast
qed

lemma graphql_exec_returns:
  assumes "graphql_ready env c"
  shows "\<exists>c' job'. graphql_Exec env c job = Inr (c', job') \<and> graphql_ready env c' \<and> exec_frame job job' \<and>
    (ErrorCount job' = ErrorCount job + 1 \<and> Result job' = Result job \<or> ErrorCount job' = 0 \<and> Error job' = Error job)"
proof -
  obtain conf client u p where con: "graphql_Connect env c =
      Inr (c\<lparr>gc_world := fst (ge_auth env client (gc_world c) u p)\<rparr>, snd (ge_auth env client (gc_world c) u p))"
    by (rule graphql_Connect_returns [OF assms])
  let ?c = "c\<lparr>gc_world := fst (ge_auth env client (gc_world c) u p)\<rparr>"
  have ready: "graphql_ready env ?c" using assms by (simp add: graphql_ready_def)
  have "\<not> gc_connected c" using assms by (simp add: graphql_ready_def)
  then show ?thesis using con ready graphql_query_returns [OF ready, of job]
    by (cases "snd (ge_auth env client (gc_world c) u p)") (simp_all add: graphql_Exec_def graphql_fails_def)
qed

interpretation graphql: protocol_collector "graphql_Exec env" "graphql_ready env" for env
  using graphql_exec_returns by unfold_locales blast

text \<open>
  A collector whose initialisation succeeded and whose credential is known answers every job
  without a panic: it failed, with one more error and its result untouched, or succeeded, with error
  count 0; nothing else of the job but its error and result changes.
\<close>

theorem graphql_exec_outcome:
  assumes "graphql_ready env c"
  shows "\<exists>c' job'. graphql_Exec env c job = Inr (c', job') \<and> graphql_ready env c' \<and> exec_frame job job' \<and>
    (ErrorCount job' = ErrorCount job + 1 \<and> Result job' = Result job \<or> ErrorCount job' = 0 \<and> Error job' = Error job)"
  by (rule graphql_exec_returns [OF assms])

section \<open>Authentication\<close>

lemma graphql_Exec_logs_in:
  assumes "graphql_ready env c" and "\<forall>client w u p. fst (ge_auth env client w u p) = Suc w"
    and "\<forall>client w what resp. fst (ge_query env client w what resp) = w"
  shows "\<exists>c' job'. graphql_Exec env c job = Inr (c', job') \<and> graphql_ready env c' \<and> gc_world c' = Suc (gc_world c)"
proof -
  obtain conf client u p where con: "graphql_Connect env c =
      Inr (c\<lparr>gc_world := fst (ge_auth env client (gc_world c) u p)\<rparr>, snd (ge_auth env client (gc_world c) u p))"
    by (rule graphql_Connect_returns [OF assms(1)])
  let ?c = "c\<lparr>gc_world := Suc (gc_world c)\<rparr>"
  have ready: "graphql_ready env ?c" using assms(1) by (simp add: graphql_ready_def)
  obtain c' job' where q: "graphql_query env ?c job = Inr (c', job')" "graphql_ready env c'"
    using graphql_query_returns [OF ready] by blast
  have "gc_world c' = Suc (gc_world c)"
  proof (cases "ge_poll env (PollarisName job) (JobName job)")
    case (Inr pl)
    obtain cl where cl: "gc_client c = Some cl" using assms(1) by (auto simp: graphql_ready_def)
    obtain r where "ge_query env cl (Suc (gc_world c)) (poll_What pl) (poll_RespName pl) = (Suc (gc_world c), r)"
      using assms(3) by (metis prod.collapse)
    then show ?thesis using q(1) Inr cl by (cases r) (auto simp: graphql_query_def)
  qed (use q(1) in \<open>auto simp: graphql_query_def\<close>)
  then show ?thesis
    using con q ready assms(1,2) by (cases "snd (ge_auth env client (gc_world c) u p)") (auto simp: graphql_Exec_def graphql_ready_def)
qed

text \<open>
  \<open>Connect\<close> never records that it succeeded, so every job authenticates again before its query:
  \<open>n\<close> jobs make \<open>n\<close> logins, whatever their outcome. (The world counts the logins.)
\<close>

theorem graphql_logs_in_for_every_job:
  assumes "graphql_ready env c" and "\<forall>client w u p. fst (ge_auth env client w u p) = Suc w"
    and "\<forall>client w what resp. fst (ge_query env client w what resp) = w"
  shows "\<exists>c' js'. graphql.exec_all env c js = Inr (c', js') \<and> gc_world c' = gc_world c + length js"
  using assms(1)
proof (induction js arbitrary: c)
  case (Cons j js)
  obtain c1 j1 where j1: "graphql_Exec env c j = Inr (c1, j1)" "graphql_ready env c1" "gc_world c1 = Suc (gc_world c)"
    using graphql_Exec_logs_in [OF Cons.prems assms(2,3)] by blast
  then show ?case using Cons.IH [OF j1(2)] by auto
qed simp

text \<open>
  A host without authentication data makes \<open>Init\<close> panic here, where the REST collector returns an
  error for it.
\<close>

theorem graphql_init_needs_auth:
  "graphql_Init env (conf\<lparr>cfg_Ainfo := None\<rparr>) c = Inl NilDeref"
  by (simp add: graphql_Init_def)

section \<open>A server to run it on\<close>

definition demo_graphql :: "nat graphql_env" where
  "demo_graphql = \<lparr>ge_credential = \<lambda>_. Some (''u'', ''p''), ge_refuses = \<lambda>_. None, ge_auth = \<lambda>_ w _ _. (Suc w, None),
     ge_query = \<lambda>_ w what _. (w, Inr (Some (map of_char what))),
     ge_poll = \<lambda>_ _. Inr \<lparr>poll_Name = ''p'', poll_What = ''{a}'', poll_Operation = L8C_Get, poll_Protocol = L8PGraphQL,
       poll_Cadence = None, poll_Timeout = 0, poll_Always = False, poll_RespName = ''''\<rparr>\<rparr>"

definition demo_graphql_auth :: auth_info where
  "demo_graphql_auth = \<lparr>SessionAuth = False, AuthBody = '''', ApiUser = ''u'', ApiKey = ''k'', AuthPath = '''',
     AuthResp = '''', SessionPage = '''', CsrfSource = '''', CsrfPattern = '''', PresetCookies = [], NeedAuth = True,
     AuthUserField = '''', AuthPassField = '''', AuthToken = '''', IsApiKey = True\<rparr>"

definition demo_graphql_collector :: "nat graphql_collector" where
  "demo_graphql_collector =
     (let conf = \<lparr>cfg_Protocol = L8PGraphQL, cfg_Addr = ''api'', cfg_Port = 443, cfg_CredId = '''', cfg_Timeout = 5,
        cfg_HttpPrefix = '''', cfg_Prompt = [], cfg_Ainfo = Some demo_graphql_auth, cfg_Cert = '''', cfg_Terminal = '''',
        cfg_TerminalCommands = None\<rparr>
      in \<lparr>gc_client = Some (client_config conf demo_graphql_auth), gc_hostProtocol = Some conf, gc_resources = True,
         gc_connected = False, gc_world = 0\<rparr>)"

lemma demo_graphql_ready: "graphql_ready demo_graphql demo_graphql_collector"
  by (simp add: graphql_ready_def demo_graphql_def demo_graphql_collector_def Let_def)

theorem graphql_exec_outcome_witness:
  "\<exists>c' job'. graphql_Exec demo_graphql demo_graphql_collector empty_job = Inr (c', job') \<and> exec_frame empty_job job'"
  using graphql_exec_outcome [OF demo_graphql_ready, of empty_job] by blast

theorem graphql_logs_in_for_every_job_witness:
  "\<exists>c' js'. graphql.exec_all demo_graphql demo_graphql_collector [empty_job, empty_job] = Inr (c', js') \<and> gc_world c' = 2"
proof -
  have h: "\<forall>client w u p. fst (ge_auth demo_graphql client w u p) = Suc w"
    "\<forall>client w what resp. fst (ge_query demo_graphql client w what resp) = w" "gc_world demo_graphql_collector = 0"
    by (simp_all add: demo_graphql_def demo_graphql_collector_def Let_def)
  show ?thesis
    using graphql_logs_in_for_every_job [OF demo_graphql_ready h(1,2), of "[empty_job, empty_job]"] h(3) by auto
qed

end
