(* ===== verification/K8s_Values.thy ===== *)
theory K8s_Values
  imports Go_Strings
begin

text \<open>
  The dynamically typed values of decoded Kubernetes objects, and how \<open>protocols/k8sclient\<close> reads
  them: the path lookup of \<open>Result.go\<close> and the text of a value (\<open>fmt.Sprint\<close>). A number that is not
  an integer is kept as what the code observes of it: its text and its truncation.
\<close>

datatype jval =
    JNull
  | JBool bool
  | JInt int
  | JFloat string int
  | JStr string
  | JList "jval list"
  | JObj "(string \<times> jval) list"

text \<open>\<open>fmt.Sprint\<close>: nil, booleans, numbers, strings, slices, and maps in the order of their keys.\<close>

fun Sprint :: "jval \<Rightarrow> string" where
  "Sprint JNull = ''<nil>''"
| "Sprint (JBool b) = (if b then ''true'' else ''false'')"
| "Sprint (JInt i) = dec_int i"
| "Sprint (JFloat t i) = t"
| "Sprint (JStr s) = s"
| "Sprint (JList vs) = ''['' @ Join '' '' (map Sprint vs) @ '']''"
| "Sprint (JObj kvs) =
     ''map['' @ Join '' '' (map (\<lambda>(k, t). k @ '':'' @ t) (sort_key fst (map (\<lambda>(k, v). (k, Sprint v)) kvs)))
     @ '']''"

definition stringify :: "jval \<Rightarrow> string" where
  "stringify v = (case v of JNull \<Rightarrow> '''' | _ \<Rightarrow> Sprint v)"

fun nestedValue :: "jval \<Rightarrow> string list \<Rightarrow> jval option" where
  "nestedValue v [] = Some v"
| "nestedValue (JObj kvs) (k # ks) =
     (case map_of kvs k of None \<Rightarrow> None | Some v \<Rightarrow> nestedValue v ks)"
| "nestedValue v (k # ks) = None"

definition nestedMap :: "jval \<Rightarrow> string list \<Rightarrow> (string \<times> jval) list option" where
  "nestedMap v path = (case nestedValue v path of Some (JObj kvs) \<Rightarrow> Some kvs | _ \<Rightarrow> None)"

definition nestedSlice :: "jval \<Rightarrow> string list \<Rightarrow> jval list option" where
  "nestedSlice v path = (case nestedValue v path of Some (JList vs) \<Rightarrow> Some vs | _ \<Rightarrow> None)"

definition toInt :: "jval \<Rightarrow> int option" where
  "toInt v = (case v of JFloat t i \<Rightarrow> Some i | JInt i \<Rightarrow> Some i | _ \<Rightarrow> None)"

definition intOr :: "jval \<Rightarrow> int \<Rightarrow> string list \<Rightarrow> int" where
  "intOr v fallback path =
     (case nestedValue v path of
        None \<Rightarrow> fallback
      | Some w \<Rightarrow> (case toInt w of None \<Rightarrow> fallback | Some i \<Rightarrow> i))"

text \<open>A type assertion to string, with the zero value when it fails.\<close>

definition as_string :: "jval option \<Rightarrow> string" where
  "as_string v = (case v of Some (JStr s) \<Rightarrow> s | _ \<Rightarrow> '''')"

section \<open>Laws\<close>

lemma nestedValue_append:
  "nestedValue v (p @ q) = (case nestedValue v p of None \<Rightarrow> None | Some w \<Rightarrow> nestedValue w q)"
  by (induction v p rule: nestedValue.induct) (auto split: option.split)

lemma stringify_string [simp]: "stringify (JStr s) = s"
  by (simp add: stringify_def)

end
