(* ===== verification/K8s_Cache.thy ===== *)
theory K8s_Cache
  imports K8s_Values
begin

text \<open>
  \<open>protocols/k8sclient/Cache.go\<close>: the cache of normalised Kubernetes objects, as an association list
  with distinct keys. The read-write lock makes each operation one step. The contract of a keyed store,
  from which the cascades and the reaper are proved, is the locale \<open>object_store\<close>.
\<close>

record cached_object =
  co_GVR :: string
  co_Namespace :: string
  co_Name :: string
  co_UID :: string
  co_ResourceVersion :: string
  co_Operation :: string
  co_Object :: jval
  co_Related :: "jval list"
  co_ObservedAt :: int

type_synonym cache = "(string \<times> cached_object) list"

section \<open>Operations\<close>

definition NewCollectorCache :: cache where
  "NewCollectorCache = []"

definition cacheKey :: "string \<Rightarrow> string \<Rightarrow> string \<Rightarrow> string" where
  "cacheKey gvr namespace name = gvr @ ''::'' @ namespace @ ''::'' @ name"

definition key_of_object :: "cached_object \<Rightarrow> string" where
  "key_of_object obj = cacheKey (co_GVR obj) (co_Namespace obj) (co_Name obj)"

definition stamp :: "int \<Rightarrow> cached_object \<Rightarrow> cached_object" where
  "stamp now obj = (if co_ObservedAt obj = 0 then obj\<lparr>co_ObservedAt := now\<rparr> else obj)"

definition Upsert :: "int \<Rightarrow> cached_object option \<Rightarrow> cache \<Rightarrow> cache" where
  "Upsert now obj c =
     (case obj of None \<Rightarrow> c | Some obj \<Rightarrow> AList.update (key_of_object obj) (stamp now obj) c)"

definition Cache_Delete :: "string \<Rightarrow> string \<Rightarrow> string \<Rightarrow> cache \<Rightarrow> cache" where
  "Cache_Delete gvr namespace name c = AList.delete (cacheKey gvr namespace name) c"

definition Cache_Get :: "string \<Rightarrow> string \<Rightarrow> string \<Rightarrow> cache \<Rightarrow> cached_object option" where
  "Cache_Get gvr namespace name c = map_of c (cacheKey gvr namespace name)"

text \<open>One requirement \<open>key=value\<close> of a selector; an empty one holds.\<close>

definition selector_part :: "(string \<times> jval) list \<Rightarrow> string \<Rightarrow> bool" where
  "selector_part labels part =
     (let part = TrimSpace part in
      if part = '''' then True
      else case SplitN2 part ''='' of
        [k, v] \<Rightarrow>
          (case map_of labels (TrimSpace k) of
             None \<Rightarrow> False
           | Some actual \<Rightarrow> stringify actual = TrimSpace v)
      | _ \<Rightarrow> False)"

definition matchesSelector :: "cached_object \<Rightarrow> string \<Rightarrow> bool" where
  "matchesSelector obj selector =
     (let selector = TrimSpace selector in
      if selector = '''' then True
      else case nestedValue (co_Object obj) [''metadata'', ''labels''] of
        Some (JObj labels) \<Rightarrow> list_all (selector_part labels) (Split selector '','')
      | _ \<Rightarrow> False)"

definition Cache_List ::
  "(cache \<Rightarrow> cache) \<Rightarrow> string \<Rightarrow> string \<Rightarrow> string \<Rightarrow> cache \<Rightarrow> cached_object list" where
  "Cache_List ord gvr namespace selector c =
     filter (\<lambda>obj. (gvr = '''' \<or> co_GVR obj = gvr) \<and> (namespace = '''' \<or> co_Namespace obj = namespace) \<and>
         matchesSelector obj selector)
       (map snd (ord c))"

section \<open>The contract of a keyed store\<close>

text \<open>
  What a client relies on: a value is found under its own key, a removal removes just that key, and the
  entries are exactly what can be found. The clients remove all entries of a list.
\<close>

locale object_store =
  fixes lookup :: "'s \<Rightarrow> 'k \<Rightarrow> 'v option"
    and put :: "'v \<Rightarrow> 's \<Rightarrow> 's"
    and remove :: "'k \<Rightarrow> 's \<Rightarrow> 's"
    and entries :: "'s \<Rightarrow> 'v set"
    and key :: "'v \<Rightarrow> 'k"
    and ok :: "'s \<Rightarrow> bool"
  assumes lookup_put: "ok s \<Longrightarrow> lookup (put v s) k = (if k = key v then Some v else lookup s k)"
    and lookup_remove: "ok s \<Longrightarrow> lookup (remove k s) k' = (if k' = k then None else lookup s k')"
    and entries_lookup: "ok s \<Longrightarrow> entries s = {v. \<exists>k. lookup s k = Some v}"
    and lookup_key: "ok s \<Longrightarrow> lookup s k = Some v \<Longrightarrow> key v = k"
    and put_ok: "ok s \<Longrightarrow> ok (put v s)"
    and remove_ok: "ok s \<Longrightarrow> ok (remove k s)"
begin

lemma found: "ok s \<Longrightarrow> v \<in> entries s \<longleftrightarrow> lookup s (key v) = Some v"
  by (auto simp: entries_lookup dest: lookup_key)

lemma remove_all_ok: "ok s \<Longrightarrow> ok (fold remove ks s)"
  by (induction ks arbitrary: s) (simp_all add: remove_ok)

lemma lookup_remove_all:
  "ok s \<Longrightarrow> lookup (fold remove ks s) k = (if k \<in> set ks then None else lookup s k)"
  by (induction ks arbitrary: s) (simp_all add: remove_ok lookup_remove)

lemma entries_remove_all: "ok s \<Longrightarrow> entries (fold remove ks s) = {v \<in> entries s. key v \<notin> set ks}"
  by (auto simp: entries_lookup remove_all_ok lookup_remove_all dest: lookup_key split: if_splits)

lemma entries_put: "ok s \<Longrightarrow> entries (put v s) = insert v {w \<in> entries s. key w \<noteq> key v}"
  by (auto simp: entries_lookup put_ok lookup_put dest: lookup_key split: if_splits)

end

section \<open>The cache is a keyed store\<close>

definition cache_ok :: "cache \<Rightarrow> bool" where
  "cache_ok c \<longleftrightarrow> go_map c \<and> (\<forall>e \<in> set c. fst e = key_of_object (snd e))"

definition cache_put :: "cached_object \<Rightarrow> cache \<Rightarrow> cache" where
  "cache_put obj c = AList.update (key_of_object obj) obj c"

definition cache_entries :: "cache \<Rightarrow> cached_object set" where
  "cache_entries c = snd ` set c"

lemma cache_ok_put: "cache_ok c \<Longrightarrow> cache_ok (cache_put obj c)"
  using set_update_subset [of "key_of_object obj" obj c] by (auto simp: cache_ok_def cache_put_def)

lemma set_delete_subset: "set (AList.delete k c) \<subseteq> set c"
  by (auto simp: AList.delete_eq)

lemma cache_ok_delete: "cache_ok c \<Longrightarrow> cache_ok (AList.delete k c)"
  using set_delete_subset [of k c] by (auto simp: cache_ok_def)

lemma cache_ok_lookup: "cache_ok c \<Longrightarrow> map_of c k = Some obj \<Longrightarrow> key_of_object obj = k"
  using map_of_SomeD [of c k obj] by (auto simp: cache_ok_def)

interpretation cc: object_store map_of cache_put AList.delete cache_entries key_of_object cache_ok
proof
  fix c :: cache and v k k'
  assume c: "cache_ok c"
  then show "map_of (cache_put v c) k = (if k = key_of_object v then Some v else map_of c k)"
    by (simp add: cache_put_def)
  show "map_of (AList.delete k c) k' = (if k' = k then None else map_of c k')" by simp
  show "cache_entries c = {v. \<exists>k. map_of c k = Some v}"
  proof -
    have "go_map c" using c by (simp add: cache_ok_def)
    then show ?thesis by (force simp: cache_entries_def map_of_Some_iff)
  qed
  show "map_of c k = Some v \<Longrightarrow> key_of_object v = k" using c by (rule cache_ok_lookup)
  show "cache_ok (cache_put v c)" using c by (rule cache_ok_put)
  show "cache_ok (AList.delete k c)" using c by (rule cache_ok_delete)
qed

lemma stamp_key [simp]: "key_of_object (stamp now obj) = key_of_object obj"
  by (simp add: stamp_def key_of_object_def)

lemma Upsert_put: "Upsert now (Some obj) c = cache_put (stamp now obj) c"
  by (simp add: Upsert_def cache_put_def)

lemma Cache_Delete_remove: "Cache_Delete g n m = AList.delete (cacheKey g n m)"
  by (rule ext) (simp add: Cache_Delete_def)

lemma Upsert_ok: "cache_ok c \<Longrightarrow> cache_ok (Upsert now obj c)"
  by (cases obj) (simp add: Upsert_def, simp add: Upsert_put cache_ok_put)

section \<open>Reading back\<close>

definition no_colon :: "string \<Rightarrow> bool" where
  "no_colon s \<longleftrightarrow> CHR '':'' \<notin> set s"

lemma first_at_iff:
  "x \<notin> set a \<Longrightarrow> x \<notin> set a' \<Longrightarrow> a @ x # b = a' @ x # b' \<longleftrightarrow> a = a' \<and> b = b'"
proof (induction a arbitrary: a')
  case Nil
  then show ?case by (cases a') auto
next
  case (Cons y a)
  then show ?case by (cases a') auto
qed

lemma cacheKey_eq_iff:
  assumes "no_colon g" and "no_colon n" and "no_colon g'" and "no_colon n'"
  shows "cacheKey g n m = cacheKey g' n' m' \<longleftrightarrow> g = g' \<and> n = n' \<and> m = m'"
proof -
  have split_at: "a @ ''::'' @ b = a' @ ''::'' @ b' \<longleftrightarrow> a = a' \<and> b = b'"
    if "no_colon a" "no_colon a'" for a a' b b' :: string
    using that by (simp add: no_colon_def first_at_iff)
  show ?thesis unfolding cacheKey_def by (simp only: split_at [OF assms(1,3)] split_at [OF assms(2,4)])
qed

definition object_named :: "cached_object \<Rightarrow> bool" where
  "object_named obj \<longleftrightarrow> no_colon (co_GVR obj) \<and> no_colon (co_Namespace obj)"

text \<open>
  C29. The cache is a store by resource, namespace and name, for resources and namespaces without a
  colon: a get after an upsert returns the stored object (stamped with the time unless it has one)
  under exactly its own coordinates, a get after a delete misses exactly there, and every other
  coordinate reads as before.
\<close>

theorem Cache_reads_back:
  assumes "object_named obj" and "no_colon g" and "no_colon n" and "no_colon g'" and "no_colon n'"
  shows "Cache_Get g n m (Upsert now (Some obj) c) =
      (if g = co_GVR obj \<and> n = co_Namespace obj \<and> m = co_Name obj then Some (stamp now obj)
       else Cache_Get g n m c) \<and>
    Cache_Get g n m (Cache_Delete g' n' m' c) =
      (if g = g' \<and> n = n' \<and> m = m' then None else Cache_Get g n m c)"
proof -
  have up: "cacheKey g n m = key_of_object obj \<longleftrightarrow> g = co_GVR obj \<and> n = co_Namespace obj \<and> m = co_Name obj"
    using assms by (simp add: key_of_object_def cacheKey_eq_iff object_named_def)
  have del: "cacheKey g n m = cacheKey g' n' m' \<longleftrightarrow> g = g' \<and> n = n' \<and> m = m'"
    by (rule cacheKey_eq_iff [OF assms(2-5)])
  have "Cache_Get g n m (Upsert now (Some obj) c) =
      (if cacheKey g n m = key_of_object obj then Some (stamp now obj) else Cache_Get g n m c)"
    by (simp add: Cache_Get_def Upsert_def)
  moreover have "Cache_Get g n m (Cache_Delete g' n' m' c) =
      (if cacheKey g n m = cacheKey g' n' m' then None else Cache_Get g n m c)"
    by (simp add: Cache_Get_def Cache_Delete_def)
  ultimately show ?thesis by (simp only: up del simp_thms)
qed

definition demo_pod :: cached_object where
  "demo_pod = \<lparr>co_GVR = ''v1/pods'', co_Namespace = ''shop'', co_Name = ''web-0'', co_UID = ''u1'',
     co_ResourceVersion = ''7'', co_Operation = ''ADD'',
     co_Object = JObj [(''metadata'', JObj [(''labels'', JObj [(''app'', JStr ''web'')])])],
     co_Related = [], co_ObservedAt = 0\<rparr>"

theorem Cache_reads_back_witness:
  "Cache_Get ''v1/pods'' ''shop'' ''web-0'' (Upsert 1700 (Some demo_pod) NewCollectorCache) =
     Some (demo_pod\<lparr>co_ObservedAt := 1700\<rparr>)"
  using Cache_reads_back [of demo_pod "''v1/pods''" "''shop''" "''v1/pods''" "''shop''" "''web-0''" 1700]
  by (simp add: object_named_def no_colon_def demo_pod_def stamp_def)

lemma cache_values_distinct:
  assumes "cache_ok c"
  shows "distinct (map snd c)"
proof -
  have "map fst c = map (key_of_object \<circ> snd) c"
    using assms by (auto simp: cache_ok_def)
  moreover have "distinct (map fst c)" using assms by (simp add: cache_ok_def go_map_def)
  ultimately show ?thesis by (metis distinct_map map_map)
qed

lemma Cache_List_listed:
  assumes "cache_ok c" and "range_order ord"
  shows "set (Cache_List ord g ns sel c) = {obj \<in> cache_entries c.
      (g = '''' \<or> co_GVR obj = g) \<and> (ns = '''' \<or> co_Namespace obj = ns) \<and> matchesSelector obj sel} \<and>
    distinct (Cache_List ord g ns sel c)"
proof -
  have "mset (map snd (ord c)) = mset (map snd c)"
    using assms(2) by (simp add: range_order_def mset_map)
  then have "distinct (map snd (ord c))"
    using cache_values_distinct [OF assms(1)] mset_eq_imp_distinct_iff by blast
  then show ?thesis
    by (auto simp: Cache_List_def cache_entries_def range_order_set [OF assms(2)])
qed

text \<open>
  A listing returns, in whatever order the map is visited, exactly the cached objects of the
  resource and the namespace (an empty one stands for all) that the label selector accepts, each once.
\<close>

theorem Cache_List_exact:
  assumes "cache_ok c" and "range_order ord"
  shows "set (Cache_List ord g ns sel c) = {obj \<in> cache_entries c.
      (g = '''' \<or> co_GVR obj = g) \<and> (ns = '''' \<or> co_Namespace obj = ns) \<and> matchesSelector obj sel} \<and>
    distinct (Cache_List ord g ns sel c)"
  by (rule Cache_List_listed [OF assms])

theorem Cache_List_exact_witness:
  "set (Cache_List rev ''v1/pods'' '''' '''' (Upsert 1700 (Some demo_pod) NewCollectorCache)) =
     {demo_pod\<lparr>co_ObservedAt := 1700\<rparr>}"
proof -
  let ?c = "Upsert 1700 (Some demo_pod) NewCollectorCache"
  have c: "cache_ok ?c" by (rule Upsert_ok) (simp add: NewCollectorCache_def cache_ok_def)
  have e: "cache_entries ?c = {demo_pod\<lparr>co_ObservedAt := 1700\<rparr>}"
    by (simp add: Upsert_def NewCollectorCache_def cache_entries_def stamp_def demo_pod_def)
  have m: "matchesSelector obj ''''" for obj
    by (simp add: matchesSelector_def TrimSpace_id Let_def)
  have g: "co_GVR (demo_pod\<lparr>co_ObservedAt := 1700\<rparr>) = ''v1/pods''" by (simp add: demo_pod_def)
  show ?thesis
    using Cache_List_exact [OF c range_order_rev, of "''v1/pods''" "''''" "''''"] m g by (auto simp: e)
qed

end
