(* ===== verification/K8s_Gvr.thy ===== *)
theory K8s_Gvr
  imports Go_Strings
begin

text \<open>
  \<open>protocols/k8sclient/GVR.go\<close>, \<open>parseGVR\<close> of \<open>Reaper.go\<close> and \<open>GvrLinksMap.go\<close>: resource names as
  text, their two parsers, and the table from resources to links ids.
\<close>

record gvr =
  Group :: string
  Version :: string
  Resource :: string

definition slash :: string where
  "slash = ''/''"

definition ParseGVR :: "string \<Rightarrow> string + gvr" where
  "ParseGVR raw =
     (let raw = TrimSpace raw in
      case Split raw slash of
        [v, r] \<Rightarrow> Inr \<lparr>Group = '''', Version = v, Resource = r\<rparr>
      | [g, v, r] \<Rightarrow> Inr \<lparr>Group = g, Version = v, Resource = r\<rparr>
      | _ \<Rightarrow> Inl (''invalid gvr '' @ raw))"

definition parseGVR :: "string \<Rightarrow> gvr" where
  "parseGVR gvrText =
     (let parts = Split gvrText slash; n = length parts in
      if n = 2 then \<lparr>Group = '''', Version = parts ! 0, Resource = parts ! 1\<rparr>
      else if n = 3 then \<lparr>Group = parts ! 0, Version = parts ! 1, Resource = parts ! 2\<rparr>
      else if 3 \<le> n then \<lparr>Group = Join slash (take (n - 2) parts), Version = parts ! (n - 2),
        Resource = parts ! (n - 1)\<rparr>
      else \<lparr>Group = '''', Version = '''', Resource = ''''\<rparr>)"

text \<open>The text of a resource, as \<open>handleAdmissionEvent\<close> builds it.\<close>

definition gvr_text :: "string \<Rightarrow> string \<Rightarrow> string \<Rightarrow> string" where
  "gvr_text g v r = (if g \<noteq> '''' then g @ ''/'' @ v @ ''/'' @ r else v @ ''/'' @ r)"

definition gvrToLinksId :: "(string \<times> string) list" where
  "gvrToLinksId =
    [(''v1/pods'', ''K8sPod''), (''apps/v1/deployments'', ''K8sDeploy''),
     (''apps/v1/statefulsets'', ''K8sSts''), (''apps/v1/daemonsets'', ''K8sDs''),
     (''apps/v1/replicasets'', ''K8sRs''), (''batch/v1/jobs'', ''K8sJob''),
     (''batch/v1/cronjobs'', ''K8sCj''), (''v1/services'', ''K8sSvc''),
     (''v1/configmaps'', ''K8sCm''), (''v1/secrets'', ''K8sSec''),
     (''v1/namespaces'', ''K8sNs''), (''v1/nodes'', ''K8sNode''),
     (''v1/persistentvolumes'', ''K8sPv''), (''v1/persistentvolumeclaims'', ''K8sPvc''),
     (''v1/endpoints'', ''K8sEp''), (''v1/events'', ''K8sEvt''),
     (''v1/serviceaccounts'', ''K8sSa''), (''v1/limitranges'', ''K8sLr''),
     (''v1/resourcequotas'', ''K8sRq''),
     (''networking.k8s.io/v1/ingresses'', ''K8sIng''),
     (''networking.k8s.io/v1/ingressclasses'', ''K8sIngCl''),
     (''networking.k8s.io/v1/networkpolicies'', ''K8sNetPol''),
     (''policy/v1/poddisruptionbudgets'', ''K8sPdb''),
     (''storage.k8s.io/v1/storageclasses'', ''K8sScl''),
     (''autoscaling/v2/horizontalpodautoscalers'', ''K8sHpa''),
     (''discovery.k8s.io/v1/endpointslices'', ''K8sEpSl''),
     (''rbac.authorization.k8s.io/v1/roles'', ''K8sRole''),
     (''rbac.authorization.k8s.io/v1/rolebindings'', ''K8sRb''),
     (''rbac.authorization.k8s.io/v1/clusterroles'', ''K8sCr''),
     (''rbac.authorization.k8s.io/v1/clusterrolebindings'', ''K8sCrb''),
     (''apiextensions.k8s.io/v1/customresourcedefinitions'', ''K8sCrd''),
     (''management.loft.sh/v1/virtualclusterinstances'', ''K8sVCl''),
     (''networking.istio.io/v1alpha3/envoyfilters'', ''IstioEf''),
     (''networking.istio.io/v1beta1/virtualservices'', ''IstioVs''),
     (''networking.istio.io/v1beta1/destinationrules'', ''IstioDr''),
     (''networking.istio.io/v1beta1/gateways'', ''IstioGw''),
     (''networking.istio.io/v1beta1/serviceentries'', ''IstioSe''),
     (''networking.istio.io/v1beta1/sidecars'', ''IstioSc''),
     (''security.istio.io/v1beta1/authorizationpolicies'', ''IstioAp''),
     (''security.istio.io/v1beta1/peerauthentications'', ''IstioPa'')]"

definition GVRToLinksId :: "string \<Rightarrow> string" where
  "GVRToLinksId gvrText = (case map_of gvrToLinksId gvrText of None \<Rightarrow> '''' | Some l \<Rightarrow> l)"

section \<open>Laws\<close>

definition part_ok :: "string \<Rightarrow> bool" where
  "part_ok s \<longleftrightarrow> CHR ''/'' \<notin> set s"

lemma slash_char: "slash = [CHR ''/'']"
  by (simp add: slash_def)

lemma Split_gvr_text:
  assumes "part_ok g" and "part_ok v" and "part_ok r"
  shows "Split (gvr_text g v r) slash = (if g \<noteq> '''' then [g, v, r] else [v, r])"
  using assms by (simp add: gvr_text_def slash_char part_ok_def Split_char_Cons Split_char_single)

text \<open>
  Reading back the text of a resource gives the resource: for parts without a slash, and a text
  that starts and ends with no white space, the parser of requests returns exactly the group, version
  and resource the text was built from, and so does the parser of the reaper.
\<close>

theorem ParseGVR_roundtrip:
  assumes "part_ok g" and "part_ok v" and "part_ok r" and "trimmed (gvr_text g v r)"
  shows "ParseGVR (gvr_text g v r) = Inr \<lparr>Group = g, Version = v, Resource = r\<rparr> \<and>
    parseGVR (gvr_text g v r) = \<lparr>Group = g, Version = v, Resource = r\<rparr>"
  using Split_gvr_text [OF assms(1-3)] TrimSpace_id [OF assms(4)]
  by (simp add: ParseGVR_def parseGVR_def Let_def)

theorem ParseGVR_roundtrip_witness:
  "ParseGVR ''apps/v1/deployments'' =
     Inr \<lparr>Group = ''apps'', Version = ''v1'', Resource = ''deployments''\<rparr>"
proof -
  have "trimmed (gvr_text ''apps'' ''v1'' ''deployments'')"
    by (rule trimmed_ascii) (simp_all add: gvr_text_def)
  then have "ParseGVR (gvr_text ''apps'' ''v1'' ''deployments'') =
      Inr \<lparr>Group = ''apps'', Version = ''v1'', Resource = ''deployments''\<rparr>"
    using ParseGVR_roundtrip [of "''apps''" "''v1''" "''deployments''"] by (simp add: part_ok_def)
  then show ?thesis by (simp add: gvr_text_def)
qed

text \<open>
  Wherever the parser of requests accepts a text without surrounding white space, the parser of
  the reaper reads the same resource; on every other such text the reaper's parser differs: it returns
  the empty resource below two parts and folds the extra parts into the group above three.
\<close>

theorem parsers_agree:
  assumes "trimmed s"
  shows "(case ParseGVR s of
      Inr g \<Rightarrow> parseGVR s = g
    | Inl _ \<Rightarrow> length (Split s slash) \<le> 1 \<and> Resource (parseGVR s) = '''' \<or>
        3 < length (Split s slash) \<and>
        Group (parseGVR s) = Join slash (take (length (Split s slash) - 2) (Split s slash)))"
proof -
  let ?p = "Split s slash"
  have "?p \<noteq> []" by (simp add: slash_char)
  then consider a where "?p = [a]" | a b where "?p = [a, b]" | a b c where "?p = [a, b, c]"
    | a b c d ds where "?p = a # b # c # d # ds"
    by (metis list.exhaust)
  then show ?thesis
    by cases (simp_all add: ParseGVR_def parseGVR_def Let_def TrimSpace_id [OF assms])
qed

theorem parsers_agree_witness:
  "parseGVR ''v1/pods'' = \<lparr>Group = '''', Version = ''v1'', Resource = ''pods''\<rparr> \<and>
   Group (parseGVR ''a/b/v1/pods'') = ''a/b''"
proof -
  have t: "trimmed ''v1/pods''" "trimmed ''a/b/v1/pods''"
    by (rule trimmed_ascii; simp)+
  have s: "Split ''v1/pods'' slash = [''v1'', ''pods'']" "Split ''a/b/v1/pods'' slash = [''a'', ''b'', ''v1'', ''pods'']"
    by (simp_all add: Split.simps slash_def)
  have p: "ParseGVR ''v1/pods'' = Inr \<lparr>Group = '''', Version = ''v1'', Resource = ''pods''\<rparr>"
      "ParseGVR ''a/b/v1/pods'' = Inl (''invalid gvr '' @ ''a/b/v1/pods'')"
    by (simp_all add: ParseGVR_def Let_def TrimSpace_id [OF t(1)] TrimSpace_id [OF t(2)] s)
  have "Join slash (take 2 [''a'', ''b'', ''v1'', ''pods'']) = ''a/b''"
    by (simp add: slash_def)
  then show ?thesis
    using parsers_agree [OF t(1)] parsers_agree [OF t(2)] by (simp add: p s)
qed

text \<open>The table is a map, and no two resources share a links id.\<close>

lemma gvrToLinksId_inj: "distinct (map fst gvrToLinksId)" "distinct (map snd gvrToLinksId)"
  by (simp_all add: gvrToLinksId_def)

end
