(* ===== verification/K8s_Cascade.thy ===== *)
theory K8s_Cascade
  imports K8s_Cache K8s_Gvr
begin

text \<open>
  \<open>protocols/k8sclient/Cascade.go\<close> and the sweep of \<open>Reaper.go\<close>: how deletions leave the cache and
  reach the registered callback. The state is the cache and the calls of the callback made so far;
  \<open>cb\<close> says whether one is registered. The specification of a deletion is a set of doomed objects, and
  the relation \<open>removes\<close> says that a step removed some objects and reported each of them once.
\<close>

type_synonym deletion = "string \<times> string \<times> string"
type_synonym world = "cache \<times> deletion list"

definition namespaces_gvr :: string where "namespaces_gvr = ''v1/namespaces''"
definition deployments_gvr :: string where "deployments_gvr = ''apps/v1/deployments''"
definition replicasets_gvr :: string where "replicasets_gvr = ''apps/v1/replicasets''"
definition pods_gvr :: string where "pods_gvr = ''v1/pods''"

lemma gvr_names [simp]:
  "namespaces_gvr \<noteq> ''''" "deployments_gvr \<noteq> ''''" "replicasets_gvr \<noteq> ''''" "pods_gvr \<noteq> ''''"
  "replicasets_gvr \<noteq> pods_gvr" "pods_gvr \<noteq> replicasets_gvr" "deployments_gvr \<noteq> namespaces_gvr"
  "namespaces_gvr \<noteq> deployments_gvr"
  by (simp_all add: namespaces_gvr_def deployments_gvr_def replicasets_gvr_def pods_gvr_def)

section \<open>Operations\<close>

definition drop_entry :: "bool \<Rightarrow> string \<Rightarrow> string \<Rightarrow> string \<Rightarrow> world \<Rightarrow> world" where
  "drop_entry cb g ns n w =
     (Cache_Delete g ns n (fst w), if cb then snd w @ [(g, ns, n)] else snd w)"

definition owner_matches :: "string \<Rightarrow> string \<Rightarrow> string \<Rightarrow> jval \<Rightarrow> bool" where
  "owner_matches ownerUID ownerName ownerKind owner =
     (case owner of
        JObj o' \<Rightarrow>
          (ownerUID \<noteq> '''' \<and> as_string (map_of o' ''uid'') = ownerUID) \<or>
          (as_string (map_of o' ''name'') = ownerName \<and> as_string (map_of o' ''kind'') = ownerKind)
      | _ \<Rightarrow> False)"

definition isOwnedBy :: "cached_object \<Rightarrow> string \<Rightarrow> string \<Rightarrow> string \<Rightarrow> bool" where
  "isOwnedBy obj ownerUID ownerName ownerKind =
     (case co_Object obj of
        JObj kvs \<Rightarrow>
          (case map_of kvs ''metadata'' of
             Some (JObj metadata) \<Rightarrow>
               (case map_of metadata ''ownerReferences'' of
                  Some (JList owners) \<Rightarrow> list_ex (owner_matches ownerUID ownerName ownerKind) owners
                | _ \<Rightarrow> False)
           | _ \<Rightarrow> False)
      | _ \<Rightarrow> False)"

definition cascadeNamespaceDelete :: "bool \<Rightarrow> (cache \<Rightarrow> cache) \<Rightarrow> string \<Rightarrow> world \<Rightarrow> world" where
  "cascadeNamespaceDelete cb ord namespace w =
     (if namespace = '''' then w
      else fold (\<lambda>e w. if co_GVR e = namespaces_gvr then w
                  else drop_entry cb (co_GVR e) (co_Namespace e) (co_Name e) w)
             (Cache_List ord '''' namespace '''' (fst w)) w)"

text \<open>One owned ReplicaSet: its pods, listed now, and then itself.\<close>

definition drop_replicaset :: "bool \<Rightarrow> (cache \<Rightarrow> cache) \<Rightarrow> string \<Rightarrow> cached_object \<Rightarrow> world \<Rightarrow> world" where
  "drop_replicaset cb ord namespace rs w =
     drop_entry cb (co_GVR rs) (co_Namespace rs) (co_Name rs)
       (fold (\<lambda>pod w. if isOwnedBy pod (co_UID rs) (co_Name rs) ''ReplicaSet''
                then drop_entry cb (co_GVR pod) (co_Namespace pod) (co_Name pod) w else w)
          (Cache_List ord pods_gvr namespace '''' (fst w)) w)"

definition cascadeDeploymentDelete ::
  "bool \<Rightarrow> (cache \<Rightarrow> cache) \<Rightarrow> string \<Rightarrow> string \<Rightarrow> string \<Rightarrow> world \<Rightarrow> world" where
  "cascadeDeploymentDelete cb ord namespace deploymentName deploymentUID w =
     (if namespace = '''' \<or> deploymentName = '''' then w
      else fold (drop_replicaset cb ord namespace)
             (filter (\<lambda>rs. isOwnedBy rs deploymentUID deploymentName ''Deployment'')
               (Cache_List ord replicasets_gvr namespace '''' (fst w))) w)"

definition handleResourceDeletion ::
  "bool \<Rightarrow> (cache \<Rightarrow> cache) \<Rightarrow> string \<Rightarrow> string \<Rightarrow> string \<Rightarrow> world \<Rightarrow> world" where
  "handleResourceDeletion cb ord g ns n w =
     (let uid = (case Cache_Get g ns n (fst w) of None \<Rightarrow> '''' | Some existing \<Rightarrow> co_UID existing);
          w = drop_entry cb g ns n w;
          w = (if g = namespaces_gvr then cascadeNamespaceDelete cb ord n w else w)
      in if g = deployments_gvr then cascadeDeploymentDelete cb ord ns n uid w else w)"

text \<open>
  The sweep. \<open>gone\<close> is the answer of the API server to a get: not found. The client is there (the
  caller returns at once without one).
\<close>

definition stale :: "(gvr \<Rightarrow> string \<Rightarrow> string \<Rightarrow> bool) \<Rightarrow> int \<Rightarrow> cached_object \<Rightarrow> bool" where
  "stale gone now e =
     (if co_GVR e = '''' \<or> co_Name e = '''' then False
      else if now - co_ObservedAt e < 30 then False
      else if Resource (parseGVR (co_GVR e)) = '''' then False
      else gone (parseGVR (co_GVR e)) (co_Namespace e) (co_Name e))"

definition reapStaleEntries ::
  "(gvr \<Rightarrow> string \<Rightarrow> string \<Rightarrow> bool) option \<Rightarrow> bool \<Rightarrow> (cache \<Rightarrow> cache) \<Rightarrow> int \<Rightarrow> world \<Rightarrow> world" where
  "reapStaleEntries client cb ord now w =
     (case client of
        None \<Rightarrow> w
      | Some gone \<Rightarrow>
          fold (\<lambda>e w. if stale gone now e
                  then drop_entry cb (co_GVR e) (co_Namespace e) (co_Name e) w else w)
            (Cache_List ord '''' '''' '''' (fst w)) w)"

section \<open>Removing objects\<close>

definition coords :: "cached_object \<Rightarrow> deletion" where
  "coords e = (co_GVR e, co_Namespace e, co_Name e)"

definition removes :: "bool \<Rightarrow> world \<Rightarrow> cached_object set \<Rightarrow> world \<Rightarrow> bool" where
  "removes cb w D w' \<longleftrightarrow> cache_ok (fst w') \<and> D \<subseteq> cache_entries (fst w) \<and>
     cache_entries (fst w') = cache_entries (fst w) - D \<and>
     (\<exists>l. distinct l \<and> set l = D \<and> snd w' = snd w @ (if cb then map coords l else []))"

lemma removes_refl: "cache_ok (fst w) \<Longrightarrow> removes cb w {} w"
  by (simp add: removes_def)

lemma removes_trans:
  assumes "removes cb w D w'" and "removes cb w' E w''"
  shows "removes cb w (D \<union> E) w''"
proof -
  obtain l l' where l: "distinct l" "set l = D" "snd w' = snd w @ (if cb then map coords l else [])"
    and l': "distinct l'" "set l' = E" "snd w'' = snd w' @ (if cb then map coords l' else [])"
    using assms by (auto simp: removes_def)
  have "E \<inter> D = {}" using assms by (auto simp: removes_def)
  then have "distinct (l @ l')" using l l' by auto
  moreover have "set (l @ l') = D \<union> E" using l l' by simp
  moreover have "snd w'' = snd w @ (if cb then map coords (l @ l') else [])" using l l' by simp
  ultimately have "\<exists>l. distinct l \<and> set l = D \<union> E \<and> snd w'' = snd w @ (if cb then map coords l else [])"
    by blast
  then show ?thesis using assms unfolding removes_def by auto
qed

lemma entry_key_unique:
  assumes "cache_ok c" and "x \<in> cache_entries c" and "e \<in> cache_entries c"
    and "key_of_object x = key_of_object e"
  shows "x = e"
  using assms cc.found [OF assms(1), of x] cc.found [OF assms(1), of e] by simp

lemma removes_entry:
  assumes "cache_ok (fst w)" and "e \<in> cache_entries (fst w)"
  shows "removes cb w {e} (drop_entry cb (co_GVR e) (co_Namespace e) (co_Name e) w)"
proof -
  let ?k = "key_of_object e"
  have "cache_entries (AList.delete ?k (fst w)) = {v \<in> cache_entries (fst w). key_of_object v \<noteq> ?k}"
    using cc.entries_remove_all [OF assms(1), of "[?k]"] by simp
  also have "\<dots> = cache_entries (fst w) - {e}"
    using entry_key_unique [OF assms(1) _ assms(2)] by auto
  finally have ents: "cache_entries (AList.delete ?k (fst w)) = cache_entries (fst w) - {e}" .
  let ?w = "drop_entry cb (co_GVR e) (co_Namespace e) (co_Name e) w"
  have fst: "fst ?w = AList.delete ?k (fst w)"
    by (simp add: drop_entry_def Cache_Delete_def key_of_object_def)
  have "distinct [e]" "set [e] = {e}" "snd ?w = snd w @ (if cb then map coords [e] else [])"
    by (simp_all add: drop_entry_def coords_def)
  then have "\<exists>l. distinct l \<and> set l = {e} \<and> snd ?w = snd w @ (if cb then map coords l else [])"
    by blast
  then show ?thesis
    using assms(2) ents cache_ok_delete [OF assms(1), of ?k]
    by (simp only: removes_def fst insert_subset empty_subsetI simp_thms)
qed

text \<open>The loop all three removals share: drop the listed objects that satisfy a test.\<close>

lemma removes_fold:
  assumes "cache_ok (fst w)" and "distinct es" and "set es \<subseteq> cache_entries (fst w)"
  shows "removes cb w {e \<in> set es. P e}
    (fold (\<lambda>e w. if P e then drop_entry cb (co_GVR e) (co_Namespace e) (co_Name e) w else w) es w)"
  using assms
proof (induction es arbitrary: w)
  case Nil
  then show ?case by (simp add: removes_refl)
next
  case (Cons e es)
  let ?w = "if P e then drop_entry cb (co_GVR e) (co_Namespace e) (co_Name e) w else w"
  have one: "removes cb w {x. x = e \<and> P e} ?w"
    using removes_entry [of w e cb] removes_refl [of w cb] Cons.prems by (cases "P e") simp_all
  have "cache_ok (fst ?w)" "cache_entries (fst ?w) = cache_entries (fst w) - {x. x = e \<and> P e}"
    using one by (simp_all only: removes_def)
  then have "removes cb ?w {x \<in> set es. P x}
      (fold (\<lambda>e w. if P e then drop_entry cb (co_GVR e) (co_Namespace e) (co_Name e) w else w) es ?w)"
    using Cons.prems by (intro Cons.IH) auto
  from removes_trans [OF one this]
  have "removes cb w ({x. x = e \<and> P e} \<union> {x \<in> set es. P x})
      (fold (\<lambda>e w. if P e then drop_entry cb (co_GVR e) (co_Namespace e) (co_Name e) w else w) (e # es) w)"
    by (simp only: fold_Cons o_apply)
  moreover have "{x. x = e \<and> P e} \<union> {x \<in> set es. P x} = {x \<in> set (e # es). P x}" by auto
  ultimately show ?case by (simp only:)
qed
lemma listed:
  assumes "cache_ok c" and "range_order ord"
  shows "set (Cache_List ord g ns '''' c) =
      {obj \<in> cache_entries c. (g = '''' \<or> co_GVR obj = g) \<and> (ns = '''' \<or> co_Namespace obj = ns)}"
    and "distinct (Cache_List ord g ns '''' c)"
proof -
  have m: "matchesSelector obj ''''" for obj by (simp add: matchesSelector_def TrimSpace_id Let_def)
  show "set (Cache_List ord g ns '''' c) =
      {obj \<in> cache_entries c. (g = '''' \<or> co_GVR obj = g) \<and> (ns = '''' \<or> co_Namespace obj = ns)}"
    "distinct (Cache_List ord g ns '''' c)"
    using Cache_List_listed [OF assms, of g ns "''''"] m by simp_all
qed

lemma removes_ok: "removes cb w D w' \<Longrightarrow> cache_ok (fst w')"
  by (simp add: removes_def)

lemma removes_entries: "removes cb w D w' \<Longrightarrow> cache_entries (fst w') = cache_entries (fst w) - D"
  by (simp add: removes_def)

lemma removes_loop:
  assumes "cache_ok (fst w)" and "distinct es" and "set es \<subseteq> cache_entries (fst w)"
    and "\<And>e w. f e w = (if P e then drop_entry cb (co_GVR e) (co_Namespace e) (co_Name e) w else w)"
  shows "removes cb w {e \<in> set es. P e} (fold f es w)"
proof -
  have "f = (\<lambda>e w. if P e then drop_entry cb (co_GVR e) (co_Namespace e) (co_Name e) w else w)"
    by (intro ext) (rule assms(4))
  then show ?thesis using removes_fold [OF assms(1-3)] by simp
qed

lemma removes_namespace:
  assumes "cache_ok (fst w)" and "range_order ord"
  shows "removes cb w {e \<in> cache_entries (fst w). ns \<noteq> '''' \<and> co_Namespace e = ns \<and> co_GVR e \<noteq> namespaces_gvr}
    (cascadeNamespaceDelete cb ord ns w)"
proof (cases "ns = ''''")
  case True
  then show ?thesis using removes_refl [OF assms(1)] by (simp add: cascadeNamespaceDelete_def)
next
  case False
  let ?es = "Cache_List ord '''' ns '''' (fst w)"
  have es: "set ?es = {e \<in> cache_entries (fst w). co_Namespace e = ns}" "distinct ?es"
    using listed [OF assms, of "''''" ns] False by simp_all
  have "removes cb w {e \<in> set ?es. co_GVR e \<noteq> namespaces_gvr}
      (fold (\<lambda>e w. if co_GVR e = namespaces_gvr then w
          else drop_entry cb (co_GVR e) (co_Namespace e) (co_Name e) w) ?es w)"
    by (rule removes_loop [OF assms(1) es(2)]) (auto simp: es)
  moreover have "{e \<in> set ?es. co_GVR e \<noteq> namespaces_gvr} =
      {e \<in> cache_entries (fst w). ns \<noteq> '''' \<and> co_Namespace e = ns \<and> co_GVR e \<noteq> namespaces_gvr}"
    using False by (auto simp: es)
  ultimately show ?thesis using False by (simp add: cascadeNamespaceDelete_def)
qed

text \<open>The pods that some ReplicaSet of a list owns.\<close>

definition pods_of :: "cached_object set \<Rightarrow> string \<Rightarrow> cached_object set \<Rightarrow> cached_object set" where
  "pods_of es ns rss = {p \<in> es. co_GVR p = pods_gvr \<and> co_Namespace p = ns \<and>
     (\<exists>rs \<in> rss. isOwnedBy p (co_UID rs) (co_Name rs) ''ReplicaSet'')}"

lemma removes_replicaset:
  assumes "cache_ok (fst w)" and "range_order ord" and "ns \<noteq> ''''"
    and "rs \<in> cache_entries (fst w)" and "co_GVR rs = replicasets_gvr"
  shows "removes cb w (pods_of (cache_entries (fst w)) ns {rs} \<union> {rs}) (drop_replicaset cb ord ns rs w)"
proof -
  let ?es = "Cache_List ord pods_gvr ns '''' (fst w)"
  let ?P = "\<lambda>p. isOwnedBy p (co_UID rs) (co_Name rs) ''ReplicaSet''"
  let ?w = "fold (\<lambda>p w. if ?P p then drop_entry cb (co_GVR p) (co_Namespace p) (co_Name p) w else w) ?es w"
  have es: "set ?es = {e \<in> cache_entries (fst w). co_GVR e = pods_gvr \<and> co_Namespace e = ns}" "distinct ?es"
    using listed [OF assms(1,2), of pods_gvr ns] assms(3) by simp_all
  have "removes cb w {e \<in> set ?es. ?P e} ?w"
    by (rule removes_fold [OF assms(1) es(2)]) (auto simp: es)
  moreover have "{e \<in> set ?es. ?P e} = pods_of (cache_entries (fst w)) ns {rs}"
    by (auto simp: es pods_of_def)
  ultimately have pods: "removes cb w (pods_of (cache_entries (fst w)) ns {rs}) ?w" by simp
  have "rs \<in> cache_entries (fst ?w)"
    using assms(4,5) by (simp add: removes_entries [OF pods] pods_of_def)
  from removes_trans [OF pods removes_entry [OF removes_ok [OF pods] this]]
  show ?thesis by (simp only: drop_replicaset_def)
qed

lemma removes_replicasets:
  assumes "cache_ok (fst w)" and "range_order ord" and "ns \<noteq> ''''" and "distinct rss"
    and "set rss \<subseteq> {rs \<in> cache_entries (fst w). co_GVR rs = replicasets_gvr}"
  shows "removes cb w (pods_of (cache_entries (fst w)) ns (set rss) \<union> set rss)
    (fold (drop_replicaset cb ord ns) rss w)"
  using assms(1,4,5)
proof (induction rss arbitrary: w)
  case Nil
  then show ?case using removes_refl [of w cb] by (simp add: pods_of_def)
next
  case (Cons rs rss)
  let ?E = "cache_entries (fst w)" and ?w = "drop_replicaset cb ord ns rs w"
  have one: "removes cb w (pods_of ?E ns {rs} \<union> {rs}) ?w"
    using Cons.prems by (intro removes_replicaset assms) auto
  have ents: "cache_entries (fst ?w) = ?E - (pods_of ?E ns {rs} \<union> {rs})" by (rule removes_entries [OF one])
  have "set rss \<subseteq> {rs \<in> cache_entries (fst ?w). co_GVR rs = replicasets_gvr}"
    using Cons.prems by (auto simp: ents pods_of_def)
  then have "removes cb ?w (pods_of (cache_entries (fst ?w)) ns (set rss) \<union> set rss)
      (fold (drop_replicaset cb ord ns) rss ?w)"
    using Cons.prems by (intro Cons.IH removes_ok [OF one]) auto
  from removes_trans [OF one this]
  have "removes cb w (pods_of ?E ns {rs} \<union> {rs} \<union> (pods_of (cache_entries (fst ?w)) ns (set rss) \<union> set rss))
      (fold (drop_replicaset cb ord ns) (rs # rss) w)"
    by (simp only: fold_Cons o_apply)
  moreover have "pods_of ?E ns {rs} \<union> {rs} \<union> (pods_of (cache_entries (fst ?w)) ns (set rss) \<union> set rss) =
      pods_of ?E ns (set (rs # rss)) \<union> set (rs # rss)"
    using Cons.prems(3) by (auto simp: ents pods_of_def)
  ultimately show ?case by (simp only:)
qed

definition owned_replicasets :: "cached_object set \<Rightarrow> string \<Rightarrow> string \<Rightarrow> string \<Rightarrow> cached_object set" where
  "owned_replicasets es ns n uid = {rs \<in> es. co_GVR rs = replicasets_gvr \<and> co_Namespace rs = ns \<and>
     isOwnedBy rs uid n ''Deployment''}"

lemma removes_deployment:
  assumes "cache_ok (fst w)" and "range_order ord"
  shows "removes cb w (if ns = '''' \<or> n = '''' then {} else
      pods_of (cache_entries (fst w)) ns (owned_replicasets (cache_entries (fst w)) ns n uid) \<union>
      owned_replicasets (cache_entries (fst w)) ns n uid)
    (cascadeDeploymentDelete cb ord ns n uid w)"
proof (cases "ns = '''' \<or> n = ''''")
  case True
  then show ?thesis using removes_refl [OF assms(1)] by (simp add: cascadeDeploymentDelete_def)
next
  case False
  let ?rss = "filter (\<lambda>rs. isOwnedBy rs uid n ''Deployment'') (Cache_List ord replicasets_gvr ns '''' (fst w))"
  have rss: "set ?rss = owned_replicasets (cache_entries (fst w)) ns n uid" "distinct ?rss"
    using listed [OF assms, of replicasets_gvr ns] False by (auto simp: owned_replicasets_def)
  have "removes cb w (pods_of (cache_entries (fst w)) ns (set ?rss) \<union> set ?rss)
      (fold (drop_replicaset cb ord ns) ?rss w)"
  proof (rule removes_replicasets [OF assms _ rss(2)])
    show "ns \<noteq> ''''" using False by simp
    show "set ?rss \<subseteq> {rs \<in> cache_entries (fst w). co_GVR rs = replicasets_gvr}"
      unfolding rss(1) by (auto simp: owned_replicasets_def)
  qed
  then show ?thesis using False by (simp only: cascadeDeploymentDelete_def rss if_False)
qed

section \<open>The effect of a deletion\<close>

text \<open>
  The specification, on the set of cached objects: with a namespace go all objects in it, with a
  deployment the ReplicaSets of its namespace that it owns and the pods that those own.
\<close>

definition others :: "string \<Rightarrow> string \<Rightarrow> string \<Rightarrow> cache \<Rightarrow> cached_object set" where
  "others g ns n c = {e \<in> cache_entries c. key_of_object e \<noteq> cacheKey g ns n}"

definition uid_of :: "string \<Rightarrow> string \<Rightarrow> string \<Rightarrow> cache \<Rightarrow> string" where
  "uid_of g ns n c = (case Cache_Get g ns n c of None \<Rightarrow> '''' | Some existing \<Rightarrow> co_UID existing)"

definition doomed :: "string \<Rightarrow> string \<Rightarrow> string \<Rightarrow> cache \<Rightarrow> cached_object set" where
  "doomed g ns n c =
     (if g = namespaces_gvr then
        {e \<in> others g ns n c. n \<noteq> '''' \<and> co_Namespace e = n \<and> co_GVR e \<noteq> namespaces_gvr}
      else if g = deployments_gvr \<and> ns \<noteq> '''' \<and> n \<noteq> '''' then
        pods_of (others g ns n c) ns (owned_replicasets (others g ns n c) ns n (uid_of g ns n c)) \<union>
        owned_replicasets (others g ns n c) ns n (uid_of g ns n c)
      else {})"

lemma dropped:
  assumes "cache_ok c"
  shows "cache_ok (fst (drop_entry cb g ns n (c, log)))"
    and "cache_entries (fst (drop_entry cb g ns n (c, log))) = others g ns n c"
  using cc.remove_ok [OF assms] cc.entries_remove_all [OF assms, of "[cacheKey g ns n]"]
  by (simp_all add: drop_entry_def Cache_Delete_def others_def)

lemma deletion_removes:
  assumes "cache_ok c" and "range_order ord"
  shows "removes cb (drop_entry cb g ns n (c, log)) (doomed g ns n c)
    (handleResourceDeletion cb ord g ns n (c, log))"
proof -
  let ?w = "drop_entry cb g ns n (c, log)"
  note w = dropped [OF assms(1), of cb g ns n log]
  have ns: "removes cb ?w {e \<in> others g ns n c. n \<noteq> '''' \<and> co_Namespace e = n \<and> co_GVR e \<noteq> namespaces_gvr}
      (cascadeNamespaceDelete cb ord n ?w)"
    using removes_namespace [OF w(1) assms(2), of cb n] by (simp only: w(2))
  have dep: "removes cb ?w (if ns = '''' \<or> n = '''' then {} else
      pods_of (others g ns n c) ns (owned_replicasets (others g ns n c) ns n (uid_of g ns n c)) \<union>
      owned_replicasets (others g ns n c) ns n (uid_of g ns n c))
      (cascadeDeploymentDelete cb ord ns n (uid_of g ns n c) ?w)"
    using removes_deployment [OF w(1) assms(2), of cb ns n "uid_of g ns n c"] by (simp only: w(2))
  have h: "handleResourceDeletion cb ord g ns n (c, log) =
      (if g = namespaces_gvr then cascadeNamespaceDelete cb ord n ?w
       else if g = deployments_gvr then cascadeDeploymentDelete cb ord ns n (uid_of g ns n c) ?w
       else ?w)"
    by (simp add: handleResourceDeletion_def Let_def uid_of_def)
  consider "g = namespaces_gvr" | "g = deployments_gvr" | "g \<noteq> namespaces_gvr" "g \<noteq> deployments_gvr"
    by blast
  then show ?thesis
  proof cases
    case 1
    then show ?thesis unfolding h doomed_def using ns by simp
  next
    case 2
    then show ?thesis unfolding h doomed_def using dep by (cases "ns = '''' \<or> n = ''''") auto
  next
    case 3
    then show ?thesis unfolding h doomed_def using removes_refl [OF w(1)] by simp
  qed
qed

text \<open>
  C19. A deletion implements its specification: it takes out of the cache the object with the given
  coordinates and exactly the doomed objects (all of a namespace; the owned ReplicaSets and their pods
  of a deployment), and reports the given coordinates, cached or not, and then each doomed object once,
  in whatever orders the map is visited.
\<close>

theorem deletion_cascade:
  assumes "cache_ok c" and "range_order ord"
  shows "\<exists>c' l. handleResourceDeletion cb ord g ns n (c, log) =
      (c', log @ (if cb then (g, ns, n) # map coords l else [])) \<and>
    distinct l \<and> set l = doomed g ns n c \<and> cache_ok c' \<and>
    cache_entries c' = {e \<in> cache_entries c. key_of_object e \<noteq> cacheKey g ns n} - doomed g ns n c"
proof -
  let ?r = "handleResourceDeletion cb ord g ns n (c, log)"
  note rm = deletion_removes [OF assms, of cb g ns n log]
  obtain l where l: "distinct l" "set l = doomed g ns n c"
    "snd ?r = snd (drop_entry cb g ns n (c, log)) @ (if cb then map coords l else [])"
    using rm by (auto simp: removes_def)
  have "?r = (fst ?r, log @ (if cb then (g, ns, n) # map coords l else []))"
    using l(3) by (cases ?r) (simp add: drop_entry_def)
  moreover have "cache_entries (fst ?r) = {e \<in> cache_entries c. key_of_object e \<noteq> cacheKey g ns n} - doomed g ns n c"
    using removes_entries [OF rm] by (simp add: dropped(2) [OF assms(1)] others_def)
  ultimately show ?thesis using l(1,2) removes_ok [OF rm] by blast
qed

definition owned_by :: "string \<Rightarrow> string \<Rightarrow> string \<Rightarrow> jval" where
  "owned_by kind n uid = JObj [(''metadata'', JObj [(''ownerReferences'',
     JList [JObj [(''kind'', JStr kind), (''name'', JStr n), (''uid'', JStr uid)]])])]"

definition demo_deploy :: cached_object where
  "demo_deploy = demo_pod\<lparr>co_GVR := ''apps/v1/deployments'', co_Name := ''web'', co_UID := ''d1''\<rparr>"

definition demo_rs :: cached_object where
  "demo_rs = demo_pod\<lparr>co_GVR := ''apps/v1/replicasets'', co_Name := ''web-1'', co_UID := ''r1'',
     co_Object := owned_by ''Deployment'' ''web'' ''d1''\<rparr>"

definition demo_web :: cached_object where
  "demo_web = demo_pod\<lparr>co_Name := ''web-1-a'', co_Object := owned_by ''ReplicaSet'' ''web-1'' ''r1''\<rparr>"

definition demo_db :: cached_object where
  "demo_db = demo_pod\<lparr>co_Name := ''db-0'', co_Object := owned_by ''StatefulSet'' ''db'' ''s1''\<rparr>"

lemmas demo_defs = demo_deploy_def demo_rs_def demo_web_def demo_db_def demo_pod_def

lemma demo_fields [simp]:
  "co_GVR demo_deploy = deployments_gvr" "co_Name demo_deploy = ''web''" "co_UID demo_deploy = ''d1''"
  "co_GVR demo_rs = replicasets_gvr" "co_Name demo_rs = ''web-1''" "co_UID demo_rs = ''r1''"
  "co_GVR demo_web = pods_gvr" "co_Name demo_web = ''web-1-a''"
  "co_GVR demo_db = pods_gvr" "co_Name demo_db = ''db-0''"
  "co_Namespace demo_deploy = ''shop''" "co_Namespace demo_rs = ''shop''" "co_Namespace demo_web = ''shop''"
  "co_Namespace demo_db = ''shop''" "co_ObservedAt demo_deploy = 0" "co_ObservedAt demo_rs = 0"
  "co_ObservedAt demo_web = 0" "co_ObservedAt demo_db = 0"
  by (simp_all add: demo_defs deployments_gvr_def replicasets_gvr_def pods_gvr_def)

lemma demo_owners [simp]:
  "isOwnedBy demo_rs ''d1'' ''web'' ''Deployment''"
  "isOwnedBy demo_web ''r1'' ''web-1'' ''ReplicaSet''" "\<not> isOwnedBy demo_db ''r1'' ''web-1'' ''ReplicaSet''"
  by (simp_all add: isOwnedBy_def demo_defs owned_by_def owner_matches_def as_string_def)

lemma demo_differ [simp]:
  "demo_rs \<noteq> demo_deploy" "demo_rs \<noteq> demo_web" "demo_rs \<noteq> demo_db" "demo_web \<noteq> demo_db"
  "demo_web \<noteq> demo_deploy" "demo_db \<noteq> demo_deploy" "demo_web \<noteq> demo_rs" "demo_db \<noteq> demo_rs"
  "demo_db \<noteq> demo_web" "demo_deploy \<noteq> demo_rs" "demo_deploy \<noteq> demo_web" "demo_deploy \<noteq> demo_db"
  by (auto dest: arg_cong [where f = co_Name])

definition demo_cache :: cache where
  "demo_cache = map (\<lambda>e. (key_of_object e, e)) [demo_deploy, demo_rs, demo_web, demo_db]"

lemma demo_keys [simp]:
  "key_of_object demo_deploy = ''apps/v1/deployments::shop::web''"
  "key_of_object demo_rs = ''apps/v1/replicasets::shop::web-1''"
  "key_of_object demo_web = ''v1/pods::shop::web-1-a''" "key_of_object demo_db = ''v1/pods::shop::db-0''"
  by (simp_all add: key_of_object_def cacheKey_def deployments_gvr_def replicasets_gvr_def pods_gvr_def)

lemma demo_cache_ok: "cache_ok demo_cache"
  by (simp add: demo_cache_def cache_ok_def go_map_def)

lemma demo_entries: "cache_entries demo_cache = {demo_deploy, demo_rs, demo_web, demo_db}"
  by (simp add: demo_cache_def cache_entries_def)

lemma demo_others: "others deployments_gvr ''shop'' ''web'' demo_cache = {demo_rs, demo_web, demo_db}"
  by (auto simp: others_def demo_entries cacheKey_def deployments_gvr_def)

lemma demo_doomed: "doomed deployments_gvr ''shop'' ''web'' demo_cache = {demo_rs, demo_web}"
proof -
  have uid: "uid_of deployments_gvr ''shop'' ''web'' demo_cache = ''d1''"
    by (simp add: uid_of_def Cache_Get_def demo_cache_def cacheKey_def) (simp add: deployments_gvr_def)
  have "owned_replicasets {demo_rs, demo_web, demo_db} ''shop'' ''web'' ''d1'' = {demo_rs}"
    by (auto simp: owned_replicasets_def)
  moreover have "pods_of {demo_rs, demo_web, demo_db} ''shop'' {demo_rs} = {demo_web}"
    by (auto simp: pods_of_def)
  ultimately show ?thesis by (simp add: doomed_def uid demo_others insert_commute)
qed

text \<open>The ReplicaSet and its pod go with the deployment, the other pod stays.\<close>

theorem deletion_cascade_witness:
  "\<exists>c' l. handleResourceDeletion True rev deployments_gvr ''shop'' ''web'' (demo_cache, []) =
     (c', (deployments_gvr, ''shop'', ''web'') # map coords l) \<and> distinct l \<and>
     set l = {demo_rs, demo_web} \<and> cache_entries c' = {demo_db}"
proof -
  obtain c' l where r: "handleResourceDeletion True rev deployments_gvr ''shop'' ''web'' (demo_cache, []) =
      (c', [] @ (if True then (deployments_gvr, ''shop'', ''web'') # map coords l else []))" "distinct l"
    "set l = doomed deployments_gvr ''shop'' ''web'' demo_cache"
    "cache_entries c' = {e \<in> cache_entries demo_cache. key_of_object e \<noteq> cacheKey deployments_gvr ''shop'' ''web''} -
       doomed deployments_gvr ''shop'' ''web'' demo_cache"
    using deletion_cascade [OF demo_cache_ok range_order_rev, of True deployments_gvr "''shop''" "''web''" "[]"]
    by blast
  have "cache_entries c' = {demo_db}"
    unfolding r(4) others_def [symmetric] demo_others demo_doomed by auto
  then show ?thesis using r(1-3) by (auto simp: demo_doomed)
qed

lemma removes_sweep:
  assumes "cache_ok c" and "range_order ord"
  shows "removes cb (c, log) {e \<in> cache_entries c. stale gone now e} (reapStaleEntries (Some gone) cb ord now (c, log))"
proof -
  have es: "set (Cache_List ord '''' '''' '''' c) = cache_entries c" "distinct (Cache_List ord '''' '''' '''' c)"
    using listed [OF assms, of "''''" "''''"] by simp_all
  have "removes cb (c, log) {e \<in> set (Cache_List ord '''' '''' '''' c). stale gone now e}
      (reapStaleEntries (Some gone) cb ord now (c, log))"
    unfolding reapStaleEntries_def option.case fst_conv
    by (rule removes_loop) (simp_all add: es assms(1))
  then show ?thesis by (simp only: es)
qed

text \<open>
  C30. A sweep removes from the cache and reports exactly the stale objects: those with a resource and a
  name, observed at least 30 seconds ago, that the API server says it does not have. It deletes no
  dependants: the objects of a reaped namespace or deployment stay until they are stale themselves.
\<close>

theorem reaper_removes_stale:
  assumes "cache_ok c" and "range_order ord"
  shows "\<exists>c' l. reapStaleEntries (Some gone) cb ord now (c, log) =
      (c', log @ (if cb then map coords l else [])) \<and> distinct l \<and> cache_ok c' \<and>
    set l = {e \<in> cache_entries c. co_GVR e \<noteq> '''' \<and> co_Name e \<noteq> '''' \<and> 30 \<le> now - co_ObservedAt e \<and>
      Resource (parseGVR (co_GVR e)) \<noteq> '''' \<and> gone (parseGVR (co_GVR e)) (co_Namespace e) (co_Name e)} \<and>
    cache_entries c' = cache_entries c - set l"
proof -
  let ?w = "reapStaleEntries (Some gone) cb ord now (c, log)"
  let ?S = "{e \<in> cache_entries c. stale gone now e}"
  have rm: "removes cb (c, log) ?S ?w" by (rule removes_sweep [OF assms])
  obtain l where l: "distinct l" "set l = ?S" "snd ?w = log @ (if cb then map coords l else [])"
    using rm by (auto simp: removes_def)
  have "?w = (fst ?w, log @ (if cb then map coords l else []))" using l(3) by (cases ?w) simp
  moreover have "cache_entries (fst ?w) = cache_entries c - set l" using removes_entries [OF rm] l(2) by simp
  moreover have "?S = {e \<in> cache_entries c. co_GVR e \<noteq> '''' \<and> co_Name e \<noteq> '''' \<and> 30 \<le> now - co_ObservedAt e \<and>
      Resource (parseGVR (co_GVR e)) \<noteq> '''' \<and> gone (parseGVR (co_GVR e)) (co_Namespace e) (co_Name e)}"
    by (auto simp: stale_def)
  ultimately show ?thesis using l(1,2) removes_ok [OF rm] by (intro exI [of _ "fst ?w"] exI [of _ l]) simp
qed

theorem reaper_removes_stale_witness:
  "\<exists>c' l. reapStaleEntries (Some (\<lambda>g ns n. n = ''db-0'')) True rev 2000 (demo_cache, []) = (c', map coords l) \<and>
     set l = {demo_db} \<and> cache_entries c' = {demo_deploy, demo_rs, demo_web}"
proof -
  let ?gone = "\<lambda>(g :: gvr) (ns :: string) n. n = ''db-0''"
  have pods: "Resource (parseGVR pods_gvr) = ''pods''"
    by (simp add: parseGVR_def Split.simps slash_def Let_def pods_gvr_def)
  obtain c' l where r: "reapStaleEntries (Some ?gone) True rev 2000 (demo_cache, []) =
      (c', [] @ (if True then map coords l else []))"
    "set l = {e \<in> cache_entries demo_cache. co_GVR e \<noteq> '''' \<and> co_Name e \<noteq> '''' \<and> 30 \<le> 2000 - co_ObservedAt e \<and>
      Resource (parseGVR (co_GVR e)) \<noteq> '''' \<and> ?gone (parseGVR (co_GVR e)) (co_Namespace e) (co_Name e)}"
    "cache_entries c' = cache_entries demo_cache - set l"
    using reaper_removes_stale [OF demo_cache_ok range_order_rev, of ?gone True 2000 "[]"] by blast
  have l: "set l = {demo_db}" unfolding r(2) demo_entries by (auto simp: pods)
  then have "cache_entries c' = {demo_deploy, demo_rs, demo_web}" unfolding r(3) demo_entries by auto
  then show ?thesis using r(1) l by auto
qed

end
