(* ===== verification/K8s_Runtime.thy ===== *)
theory K8s_Runtime
  imports K8s_Cascade
begin

text \<open>
  \<open>protocols/k8sclient/SharedRuntime.go\<close>: the process-wide state that all Kubernetes client collectors
  share. Every operation holds the mutex, so it is one step; \<open>connect\<close> and \<open>ensureAdmissionServer\<close>,
  which release it in between, are split at that point. Channels are addresses (\<open>rt_next\<close> is the next
  free one); a channel has a buffer of one signal and may be closed. Closing a closed channel and sending
  on one panic. The client and its configuration are opaque (\<open>'k\<close> and a text).
\<close>

record channel =
  ch_full :: bool
  ch_closed :: bool

record 'k shared_runtime =
  rt_cache :: "cache option"
  rt_restConfig :: "string option"
  rt_dynamicClient :: "'k option"
  rt_warmed :: "string list option"
  rt_warmOnce :: "(string \<times> bool) list option"
  rt_stopCh :: "nat option"
  rt_connected :: bool
  rt_serverStarted :: bool
  rt_reaperStarted :: bool
  rt_subscribers :: "nat list option"
  rt_onDelete :: bool
  rt_deletions :: "deletion list"
  rt_chans :: "nat \<Rightarrow> channel"
  rt_next :: nat
  rt_reapers :: nat

definition shared0 :: "'k shared_runtime" where
  "shared0 = \<lparr>rt_cache = None, rt_restConfig = None, rt_dynamicClient = None, rt_warmed = None,
     rt_warmOnce = None, rt_stopCh = None, rt_connected = False, rt_serverStarted = False,
     rt_reaperStarted = False, rt_subscribers = None, rt_onDelete = False, rt_deletions = [],
     rt_chans = (\<lambda>_. \<lparr>ch_full = False, ch_closed = False\<rparr>), rt_next = 0, rt_reapers = 0\<rparr>"

section \<open>Channels\<close>

definition make_chan :: "'k shared_runtime \<Rightarrow> nat \<times> 'k shared_runtime" where
  "make_chan s =
     (rt_next s, s\<lparr>rt_chans := (rt_chans s)(rt_next s := \<lparr>ch_full = False, ch_closed = False\<rparr>),
        rt_next := Suc (rt_next s)\<rparr>)"

definition close_chan :: "nat \<Rightarrow> 'k shared_runtime \<Rightarrow> 'k shared_runtime res" where
  "close_chan ch s =
     (if ch_closed (rt_chans s ch) then Inl (Raised ''close of closed channel'')
      else Inr (s\<lparr>rt_chans := (rt_chans s)(ch := (rt_chans s ch)\<lparr>ch_closed := True\<rparr>)\<rparr>))"

text \<open>\<open>select { case ch <- struct{}{}: default: }\<close>\<close>

definition try_send :: "nat \<Rightarrow> 'k shared_runtime \<Rightarrow> 'k shared_runtime res" where
  "try_send ch s =
     (if ch_closed (rt_chans s ch) then Inl (Raised ''send on closed channel'')
      else Inr (s\<lparr>rt_chans := (rt_chans s)(ch := (rt_chans s ch)\<lparr>ch_full := True\<rparr>)\<rparr>))"

text \<open>A receive is ready when a signal is buffered or the channel is closed; it takes the signal.\<close>

definition chan_ready :: "'k shared_runtime \<Rightarrow> nat \<Rightarrow> bool" where
  "chan_ready s ch \<longleftrightarrow> ch_full (rt_chans s ch) \<or> ch_closed (rt_chans s ch)"

definition receive :: "nat \<Rightarrow> 'k shared_runtime \<Rightarrow> 'k shared_runtime" where
  "receive ch s = s\<lparr>rt_chans := (rt_chans s)(ch := (rt_chans s ch)\<lparr>ch_full := False\<rparr>)\<rparr>"

fun for_chans :: "(nat \<Rightarrow> 's \<Rightarrow> 's res) \<Rightarrow> nat list \<Rightarrow> 's \<Rightarrow> 's res" where
  "for_chans f [] s = Inr s"
| "for_chans f (ch # chs) s = bind_res (f ch s) (for_chans f chs)"

section \<open>Operations\<close>

definition runtime_init :: "'k shared_runtime \<Rightarrow> 'k shared_runtime" where
  "runtime_init s =
     (let s = (if rt_cache s = None then s\<lparr>rt_cache := Some NewCollectorCache\<rparr> else s);
          s = (if rt_warmed s = None then s\<lparr>rt_warmed := Some []\<rparr> else s);
          s = (if rt_warmOnce s = None then s\<lparr>rt_warmOnce := Some []\<rparr> else s);
          s = (if rt_stopCh s = None then (case make_chan s of (ch, s) \<Rightarrow> s\<lparr>rt_stopCh := Some ch\<rparr>) else s)
      in if rt_subscribers s = None then s\<lparr>rt_subscribers := Some []\<rparr> else s)"

text \<open>The second critical section of \<open>connect\<close>, with its double check.\<close>

definition connect_publish :: "string \<Rightarrow> 'k \<Rightarrow> 'k shared_runtime \<Rightarrow> 'k shared_runtime" where
  "connect_publish cfg client s =
     (if rt_connected s \<and> rt_dynamicClient s \<noteq> None then s
      else s\<lparr>rt_restConfig := Some cfg, rt_dynamicClient := Some client, rt_connected := True\<rparr>)"

text \<open>\<open>mid\<close> is what the other goroutines do between the two critical sections.\<close>

definition runtime_connect ::
  "('k shared_runtime \<Rightarrow> 'k shared_runtime) \<Rightarrow> string + string \<Rightarrow> (string \<Rightarrow> string + 'k) \<Rightarrow>
   'k shared_runtime \<Rightarrow> string option \<times> 'k shared_runtime" where
  "runtime_connect mid config newForConfig s =
     (if rt_connected s \<and> rt_dynamicClient s \<noteq> None then (None, s)
      else case config of
        Inl err \<Rightarrow> (Some err, mid s)
      | Inr cfg \<Rightarrow>
          (case newForConfig cfg of
             Inl err \<Rightarrow> (Some err, mid s)
           | Inr client \<Rightarrow> (None, connect_publish cfg client (mid s))))"

definition onceForKey :: "string \<Rightarrow> 'k shared_runtime \<Rightarrow> bool \<times> 'k shared_runtime" where
  "onceForKey key s =
     (let once = (case rt_warmOnce s of None \<Rightarrow> [] | Some m \<Rightarrow> m);
          s = s\<lparr>rt_warmOnce := Some once\<rparr>
      in case map_of once key of
           Some d \<Rightarrow> (d, s)
         | None \<Rightarrow> (False, s\<lparr>rt_warmOnce := Some (AList.update key False once)\<rparr>))"

text \<open>The once of a key has run: \<open>sync.Once\<close> never runs its function again.\<close>

definition once_ran :: "string \<Rightarrow> 'k shared_runtime \<Rightarrow> 'k shared_runtime" where
  "once_ran key s = s\<lparr>rt_warmOnce := map_option (AList.update key True) (rt_warmOnce s)\<rparr>"

definition markWarmed :: "string \<Rightarrow> 'k shared_runtime \<Rightarrow> 'k shared_runtime res" where
  "markWarmed key s =
     (case rt_warmed s of
        None \<Rightarrow> Inl NilMapWrite
      | Some keys \<Rightarrow> Inr (s\<lparr>rt_warmed := Some (List.insert key keys)\<rparr>))"

definition isWarmed :: "string \<Rightarrow> 'k shared_runtime \<Rightarrow> bool" where
  "isWarmed key s = (case rt_warmed s of None \<Rightarrow> False | Some keys \<Rightarrow> key \<in> set keys)"

definition subscribe :: "'k shared_runtime \<Rightarrow> nat \<times> 'k shared_runtime" where
  "subscribe s =
     (let subs = (case rt_subscribers s of None \<Rightarrow> [] | Some chs \<Rightarrow> chs) in
      case make_chan s of (ch, s) \<Rightarrow> (ch, s\<lparr>rt_subscribers := Some (List.insert ch subs)\<rparr>))"

definition unsubscribe :: "nat \<Rightarrow> 'k shared_runtime \<Rightarrow> 'k shared_runtime res" where
  "unsubscribe ch s =
     (case rt_subscribers s of
        None \<Rightarrow> Inr s
      | Some chs \<Rightarrow>
          (if ch \<in> set chs then close_chan ch (s\<lparr>rt_subscribers := Some (remove1 ch chs)\<rparr>)
           else Inr s))"

definition notifySubscribers :: "(nat list \<Rightarrow> nat list) \<Rightarrow> 'k shared_runtime \<Rightarrow> 'k shared_runtime res" where
  "notifySubscribers ord s =
     for_chans try_send (ord (case rt_subscribers s of None \<Rightarrow> [] | Some chs \<Rightarrow> chs)) s"

definition RegisterDeleteCallback :: "bool \<Rightarrow> 'k shared_runtime \<Rightarrow> 'k shared_runtime" where
  "RegisterDeleteCallback fn s = s\<lparr>rt_onDelete := fn\<rparr>"

definition runtime_disconnect :: "(nat list \<Rightarrow> nat list) \<Rightarrow> 'k shared_runtime \<Rightarrow> 'k shared_runtime res" where
  "runtime_disconnect ord s =
     bind_res (case rt_stopCh s of
         None \<Rightarrow> Inr s
       | Some ch \<Rightarrow> (if chan_ready s ch then Inr s else close_chan ch s)) (\<lambda>s.
     bind_res (for_chans close_chan (ord (case rt_subscribers s of None \<Rightarrow> [] | Some chs \<Rightarrow> chs)) s) (\<lambda>s.
       Inr (s\<lparr>rt_subscribers := None, rt_connected := False, rt_dynamicClient := None,
         rt_restConfig := None, rt_warmed := None, rt_warmOnce := None, rt_stopCh := None,
         rt_serverStarted := False, rt_reaperStarted := False\<rparr>)))"

text \<open>\<open>ensureAdmissionServer\<close>: the test, and what follows a start function that has returned.\<close>

definition server_needed :: "'k shared_runtime \<Rightarrow> bool" where
  "server_needed s \<longleftrightarrow> \<not> rt_serverStarted s"

definition server_done :: "string option \<Rightarrow> 'k shared_runtime \<Rightarrow> string option \<times> 'k shared_runtime" where
  "server_done err s =
     (case err of Some e \<Rightarrow> (Some e, s) | None \<Rightarrow> (None, s\<lparr>rt_serverStarted := True\<rparr>))"

definition ensureAdmissionServer ::
  "('k shared_runtime \<Rightarrow> string option \<times> 'k shared_runtime) \<Rightarrow> 'k shared_runtime \<Rightarrow>
   string option \<times> 'k shared_runtime" where
  "ensureAdmissionServer startFn s =
     (if server_needed s then (case startFn s of (err, s) \<Rightarrow> server_done err s) else (None, s))"

definition startReaper :: "'k shared_runtime \<Rightarrow> 'k shared_runtime" where
  "startReaper s =
     (if rt_reaperStarted s then s
      else s\<lparr>rt_reaperStarted := True, rt_reapers := Suc (rt_reapers s)\<rparr>)"

section \<open>The channels of the runtime\<close>

definition subs_of :: "'k shared_runtime \<Rightarrow> nat list" where
  "subs_of s = (case rt_subscribers s of None \<Rightarrow> [] | Some chs \<Rightarrow> chs)"

lemma subs_of_frame [simp]: "subs_of (s\<lparr>rt_chans := c\<rparr>) = subs_of s"
  by (simp add: subs_of_def)

definition runtime_ok :: "'k shared_runtime \<Rightarrow> bool" where
  "runtime_ok s \<longleftrightarrow> distinct (subs_of s) \<and>
     (\<forall>ch \<in> set (subs_of s). ch < rt_next s \<and> \<not> ch_closed (rt_chans s ch) \<and> rt_stopCh s \<noteq> Some ch) \<and>
     (\<forall>ch. rt_stopCh s = Some ch \<longrightarrow> ch < rt_next s \<and> \<not> ch_closed (rt_chans s ch) \<and> \<not> ch_full (rt_chans s ch))"

lemma shared0_ok: "runtime_ok shared0"
  by (simp add: runtime_ok_def shared0_def subs_of_def)

lemma runtime_okI:
  assumes "distinct (subs_of s)"
    and "\<And>ch. ch \<in> set (subs_of s) \<Longrightarrow> ch < rt_next s \<and> \<not> ch_closed (rt_chans s ch) \<and> rt_stopCh s \<noteq> Some ch"
    and "\<And>ch. rt_stopCh s = Some ch \<Longrightarrow> ch < rt_next s \<and> \<not> ch_closed (rt_chans s ch) \<and> \<not> ch_full (rt_chans s ch)"
  shows "runtime_ok s"
  using assms by (simp add: runtime_ok_def)

lemma runtime_ok_same:
  "runtime_ok s \<Longrightarrow> rt_subscribers s' = rt_subscribers s \<Longrightarrow> rt_stopCh s' = rt_stopCh s \<Longrightarrow>
    rt_next s' = rt_next s \<Longrightarrow> rt_chans s' = rt_chans s \<Longrightarrow> runtime_ok s'"
  by (simp add: runtime_ok_def subs_of_def)

lemma make_chan_simps [simp]:
  "fst (make_chan s) = rt_next s" "rt_subscribers (snd (make_chan s)) = rt_subscribers s"
  "rt_stopCh (snd (make_chan s)) = rt_stopCh s" "rt_next (snd (make_chan s)) = Suc (rt_next s)"
  "rt_chans (snd (make_chan s)) = (rt_chans s)(rt_next s := \<lparr>ch_full = False, ch_closed = False\<rparr>)"
  by (simp_all add: make_chan_def)

lemma stop_chan_ok:
  assumes "runtime_ok s" and "rt_stopCh s = None"
  shows "runtime_ok ((snd (make_chan s))\<lparr>rt_stopCh := Some (rt_next s)\<rparr>)"
proof (rule runtime_okI)
  have "subs_of ((snd (make_chan s))\<lparr>rt_stopCh := Some (rt_next s)\<rparr>) = subs_of s" by (simp add: subs_of_def)
  then show "distinct (subs_of ((snd (make_chan s))\<lparr>rt_stopCh := Some (rt_next s)\<rparr>))"
    and "\<And>ch. ch \<in> set (subs_of ((snd (make_chan s))\<lparr>rt_stopCh := Some (rt_next s)\<rparr>)) \<Longrightarrow>
      ch < rt_next ((snd (make_chan s))\<lparr>rt_stopCh := Some (rt_next s)\<rparr>) \<and>
      \<not> ch_closed (rt_chans ((snd (make_chan s))\<lparr>rt_stopCh := Some (rt_next s)\<rparr>) ch) \<and>
      rt_stopCh ((snd (make_chan s))\<lparr>rt_stopCh := Some (rt_next s)\<rparr>) \<noteq> Some ch"
    using assms by (auto simp: runtime_ok_def)
qed simp
lemma init_runtime_ok [inv_intros]:
  assumes "runtime_ok s"
  shows "runtime_ok (runtime_init s)"
proof -
  let ?a = "if rt_cache s = None then s\<lparr>rt_cache := Some NewCollectorCache\<rparr> else s"
  let ?b = "if rt_warmed ?a = None then ?a\<lparr>rt_warmed := Some []\<rparr> else ?a"
  let ?c = "if rt_warmOnce ?b = None then ?b\<lparr>rt_warmOnce := Some []\<rparr> else ?b"
  let ?d = "if rt_stopCh ?c = None then (snd (make_chan ?c))\<lparr>rt_stopCh := Some (rt_next ?c)\<rparr> else ?c"
  have "runtime_ok ?a" by (rule runtime_ok_same [OF assms]) simp_all
  then have "runtime_ok ?b" by (rule runtime_ok_same) simp_all
  then have c: "runtime_ok ?c" by (rule runtime_ok_same) simp_all
  have d: "runtime_ok ?d"
  proof (cases "rt_stopCh ?c = None")
    case True
    show ?thesis unfolding if_P [OF True] by (rule stop_chan_ok [OF c True])
  next
    case False
    show ?thesis unfolding if_not_P [OF False] by (rule c)
  qed
  have e: "runtime_ok (if rt_subscribers ?d = None then ?d\<lparr>rt_subscribers := Some []\<rparr> else ?d)"
    using d by (simp add: runtime_ok_def subs_of_def)
  have "runtime_init s = (if rt_subscribers ?d = None then ?d\<lparr>rt_subscribers := Some []\<rparr> else ?d)"
    by (simp only: runtime_init_def Let_def prod.case_eq_if make_chan_simps(1))
  then show ?thesis using e by (simp only:)
qed

lemma subscribe_ok [inv_intros]:
  assumes "runtime_ok s"
  shows "runtime_ok (snd (subscribe s))"
    and "set (subs_of (snd (subscribe s))) = insert (fst (subscribe s)) (set (subs_of s))"
proof -
  have new: "rt_next s \<notin> set (subs_of s)" using assms by (auto simp: runtime_ok_def)
  have subs: "subs_of (snd (subscribe s)) = List.insert (rt_next s) (subs_of s)"
    by (simp add: subscribe_def Let_def make_chan_def subs_of_def split: option.split)
  have rest: "rt_stopCh (snd (subscribe s)) = rt_stopCh s" "rt_next (snd (subscribe s)) = Suc (rt_next s)"
    "rt_chans (snd (subscribe s)) = (rt_chans s)(rt_next s := \<lparr>ch_full = False, ch_closed = False\<rparr>)"
    by (simp_all add: subscribe_def Let_def make_chan_def)
  have stop: "rt_stopCh s \<noteq> Some (rt_next s)" using assms by (auto simp: runtime_ok_def)
  show "runtime_ok (snd (subscribe s))"
    using assms new stop by (auto simp: runtime_ok_def subs rest less_Suc_eq)
  show "set (subs_of (snd (subscribe s))) = insert (fst (subscribe s)) (set (subs_of s))"
    by (simp add: subs) (simp add: subscribe_def Let_def make_chan_def)
qed

lemma unsubscribe_ok [inv_intros]:
  assumes "runtime_ok s"
  shows "\<exists>s'. unsubscribe ch s = Inr s' \<and> runtime_ok s'"
proof (cases "ch \<in> set (subs_of s)")
  case True
  then obtain chs where chs: "rt_subscribers s = Some chs" "ch \<in> set chs" "subs_of s = chs"
    by (cases "rt_subscribers s") (simp_all add: subs_of_def)
  let ?s = "s\<lparr>rt_subscribers := Some (remove1 ch chs), rt_chans := (rt_chans s)(ch := (rt_chans s ch)\<lparr>ch_closed := True\<rparr>)\<rparr>"
  have "unsubscribe ch s = Inr ?s"
    using assms chs by (simp add: unsubscribe_def close_chan_def runtime_ok_def)
  moreover have "runtime_ok ?s"
    using assms chs by (auto simp: runtime_ok_def subs_of_def)
  ultimately show ?thesis by blast
next
  case False
  then have "unsubscribe ch s = Inr s"
    by (cases "rt_subscribers s") (simp_all add: unsubscribe_def subs_of_def)
  then show ?thesis using assms by blast
qed

text \<open>Sending to open channels, and closing open channels that are all different.\<close>

lemma send_all:
  assumes "\<forall>ch \<in> set chs. \<not> ch_closed (rt_chans s ch)"
  shows "for_chans try_send chs s = Inr (s\<lparr>rt_chans := (\<lambda>ch.
    if ch \<in> set chs then (rt_chans s ch)\<lparr>ch_full := True\<rparr> else rt_chans s ch)\<rparr>)"
  using assms
proof (induction chs arbitrary: s)
  case (Cons ch chs)
  let ?s = "s\<lparr>rt_chans := (rt_chans s)(ch := (rt_chans s ch)\<lparr>ch_full := True\<rparr>)\<rparr>"
  have "for_chans try_send chs ?s = Inr (?s\<lparr>rt_chans := (\<lambda>c.
      if c \<in> set chs then (rt_chans ?s c)\<lparr>ch_full := True\<rparr> else rt_chans ?s c)\<rparr>)"
    using Cons.prems by (intro Cons.IH) simp
  moreover have "(\<lambda>c. if c \<in> set chs then (rt_chans ?s c)\<lparr>ch_full := True\<rparr> else rt_chans ?s c) =
      (\<lambda>c. if c \<in> set (ch # chs) then (rt_chans s c)\<lparr>ch_full := True\<rparr> else rt_chans s c)"
    by (intro ext) simp
  moreover have "try_send ch s = Inr ?s" using Cons.prems by (simp add: try_send_def)
  ultimately show ?case by simp
qed simp

lemma close_all:
  assumes "\<forall>ch \<in> set chs. \<not> ch_closed (rt_chans s ch)" and "distinct chs"
  shows "for_chans close_chan chs s = Inr (s\<lparr>rt_chans := (\<lambda>ch.
    if ch \<in> set chs then (rt_chans s ch)\<lparr>ch_closed := True\<rparr> else rt_chans s ch)\<rparr>)"
  using assms
proof (induction chs arbitrary: s)
  case (Cons ch chs)
  let ?s = "s\<lparr>rt_chans := (rt_chans s)(ch := (rt_chans s ch)\<lparr>ch_closed := True\<rparr>)\<rparr>"
  have "for_chans close_chan chs ?s = Inr (?s\<lparr>rt_chans := (\<lambda>c.
      if c \<in> set chs then (rt_chans ?s c)\<lparr>ch_closed := True\<rparr> else rt_chans ?s c)\<rparr>)"
    using Cons.prems by (intro Cons.IH) auto
  moreover have "(\<lambda>c. if c \<in> set chs then (rt_chans ?s c)\<lparr>ch_closed := True\<rparr> else rt_chans ?s c) =
      (\<lambda>c. if c \<in> set (ch # chs) then (rt_chans s c)\<lparr>ch_closed := True\<rparr> else rt_chans s c)"
    using Cons.prems by (intro ext) auto
  moreover have "close_chan ch s = Inr ?s" using Cons.prems by (simp add: close_chan_def)
  ultimately show ?case by simp
qed simp

lemma notify_ok [inv_intros]:
  assumes "runtime_ok s" and "range_order ord"
  shows "\<exists>s'. notifySubscribers ord s = Inr s' \<and> runtime_ok s' \<and> subs_of s' = subs_of s \<and>
    (\<forall>ch. chan_ready s' ch \<longleftrightarrow> chan_ready s ch \<or> ch \<in> set (subs_of s))"
proof -
  let ?chs = "ord (subs_of s)"
  have set: "set ?chs = set (subs_of s)" by (rule range_order_set [OF assms(2)])
  have op: "\<forall>ch \<in> set ?chs. \<not> ch_closed (rt_chans s ch)" using assms(1) unfolding set runtime_ok_def by blast
  let ?s = "s\<lparr>rt_chans := (\<lambda>ch. if ch \<in> set ?chs then (rt_chans s ch)\<lparr>ch_full := True\<rparr> else rt_chans s ch)\<rparr>"
  have run: "notifySubscribers ord s = Inr ?s"
    using send_all [OF op] by (simp only: notifySubscribers_def subs_of_def)
  have subs: "subs_of ?s = subs_of s" by (simp add: subs_of_def)
  have "runtime_ok ?s" using assms(1) by (auto simp: runtime_ok_def subs set)
  moreover have "chan_ready ?s ch \<longleftrightarrow> chan_ready s ch \<or> ch \<in> set (subs_of s)" for ch
    by (simp add: chan_ready_def set)
  ultimately show ?thesis using run subs by blast
qed

lemma disconnect_ok [inv_intros]:
  assumes "runtime_ok s" and "range_order ord"
  shows "\<exists>s'. runtime_disconnect ord s = Inr s' \<and> runtime_ok s' \<and> subs_of s' = [] \<and>
    rt_warmed s' = None \<and> rt_dynamicClient s' = None \<and> rt_cache s' = rt_cache s \<and>
    (\<forall>ch \<in> set (subs_of s). ch_closed (rt_chans s' ch)) \<and>
    (\<forall>ch. ch_closed (rt_chans s ch) \<longrightarrow> ch_closed (rt_chans s' ch))"
proof -
  let ?s1 = "case rt_stopCh s of None \<Rightarrow> s
     | Some ch \<Rightarrow> s\<lparr>rt_chans := (rt_chans s)(ch := (rt_chans s ch)\<lparr>ch_closed := True\<rparr>)\<rparr>"
  have one: "(case rt_stopCh s of None \<Rightarrow> Inr s
       | Some ch \<Rightarrow> (if chan_ready s ch then Inr s else close_chan ch s)) = Inr ?s1"
    using assms(1) by (auto simp: runtime_ok_def chan_ready_def close_chan_def split: option.split)
  have same: "rt_subscribers ?s1 = rt_subscribers s" "rt_cache ?s1 = rt_cache s" "subs_of ?s1 = subs_of s"
    by (simp_all add: subs_of_def split: option.split)
  let ?chs = "ord (subs_of s)"
  have set: "set ?chs = set (subs_of s)" by (rule range_order_set [OF assms(2)])
  have dist: "distinct ?chs" using assms(1) by (simp add: range_order_distinct [OF assms(2)] runtime_ok_def)
  have op: "\<forall>ch \<in> set ?chs. \<not> ch_closed (rt_chans ?s1 ch)"
    unfolding set using assms(1) by (auto simp: runtime_ok_def split: option.split)
  let ?s2 = "?s1\<lparr>rt_chans := (\<lambda>ch. if ch \<in> set ?chs then (rt_chans ?s1 ch)\<lparr>ch_closed := True\<rparr> else rt_chans ?s1 ch)\<rparr>"
  let ?s3 = "?s2\<lparr>rt_subscribers := None, rt_connected := False, rt_dynamicClient := None,
         rt_restConfig := None, rt_warmed := None, rt_warmOnce := None, rt_stopCh := None,
         rt_serverStarted := False, rt_reaperStarted := False\<rparr>"
  have "runtime_disconnect ord s = Inr ?s3"
    unfolding runtime_disconnect_def one bind_res_Inr subs_of_def [symmetric] same(3) close_all [OF op dist] ..
  moreover have "runtime_ok ?s3" "subs_of ?s3 = []" by (simp_all add: runtime_ok_def subs_of_def)
  moreover have "\<forall>ch \<in> set (subs_of s). ch_closed (rt_chans ?s3 ch)" by (simp add: set)
  moreover have "\<forall>ch. ch_closed (rt_chans s ch) \<longrightarrow> ch_closed (rt_chans ?s3 ch)" by (simp split: option.split)
  moreover have "rt_cache ?s3 = rt_cache s" using same by simp
  ultimately show ?thesis by (intro exI [of _ ?s3]) simp
qed

section \<open>All interleavings\<close>

text \<open>
  One step is one critical section of the shared runtime (or a receive, or a change of the cache and the
  deletion log, which have their own locks), by any collector.
\<close>

datatype 'k runtime_event =
    Init
  | Publish string 'k
  | Subscribe
  | Unsubscribe nat
  | Notify
  | Disconnect
  | Receive nat
  | Callback bool
  | ServerDone "string option"
  | StartReaper
  | Once string
  | OnceRan string
  | MarkWarmed string
  | Cached "cache option" "deletion list"

inductive runtime_step :: "'k shared_runtime \<Rightarrow> 'k runtime_event \<Rightarrow> 'k shared_runtime \<Rightarrow> bool" where
  st_init: "runtime_step s Init (runtime_init s)"
| st_publish: "runtime_step s (Publish cfg client) (connect_publish cfg client s)"
| st_subscribe: "runtime_step s Subscribe (snd (subscribe s))"
| st_unsubscribe: "unsubscribe ch s = Inr s' \<Longrightarrow> runtime_step s (Unsubscribe ch) s'"
| st_notify: "range_order ord \<Longrightarrow> notifySubscribers ord s = Inr s' \<Longrightarrow> runtime_step s Notify s'"
| st_disconnect: "range_order ord \<Longrightarrow> runtime_disconnect ord s = Inr s' \<Longrightarrow> runtime_step s Disconnect s'"
| st_receive: "chan_ready s ch \<Longrightarrow> runtime_step s (Receive ch) (receive ch s)"
| st_callback: "runtime_step s (Callback fn) (RegisterDeleteCallback fn s)"
| st_server: "runtime_step s (ServerDone err) (snd (server_done err s))"
| st_reaper: "runtime_step s StartReaper (startReaper s)"
| st_once: "runtime_step s (Once key) (snd (onceForKey key s))"
| st_ran: "runtime_step s (OnceRan key) (once_ran key s)"
| st_warm: "markWarmed key s = Inr s' \<Longrightarrow> runtime_step s (MarkWarmed key) s'"
| st_cache: "runtime_step s (Cached c log) (s\<lparr>rt_cache := c, rt_deletions := log\<rparr>)"

inductive_cases runtime_stepE: "runtime_step s e t"
inductive_simps runtime_step_notify: "runtime_step s Notify t"

lemma receive_ok: "runtime_ok s \<Longrightarrow> runtime_ok (receive ch s)"
  by (auto simp: runtime_ok_def receive_def)

text \<open>Steps that leave the channels and subscriptions alone.\<close>

lemma quiet_steps:
  "runtime_ok s \<Longrightarrow> runtime_ok (connect_publish cfg client s)"
  "runtime_ok s \<Longrightarrow> runtime_ok (RegisterDeleteCallback fn s)"
  "runtime_ok s \<Longrightarrow> runtime_ok (snd (server_done err s))"
  "runtime_ok s \<Longrightarrow> runtime_ok (startReaper s)"
  "runtime_ok s \<Longrightarrow> runtime_ok (snd (onceForKey key s))"
  "runtime_ok s \<Longrightarrow> runtime_ok (once_ran key s)"
  "runtime_ok s \<Longrightarrow> runtime_ok (s\<lparr>rt_cache := c, rt_deletions := log\<rparr>)"
  by (erule runtime_ok_same; simp add: connect_publish_def RegisterDeleteCallback_def server_done_def
      startReaper_def onceForKey_def once_ran_def Let_def split: option.split)+

lemma warm_ok: "runtime_ok s \<Longrightarrow> markWarmed key s = Inr s' \<Longrightarrow> runtime_ok s'"
  by (erule runtime_ok_same; auto simp: markWarmed_def split: option.splits)

lemma step_runtime_ok:
  assumes "runtime_step s e t" and "runtime_ok s"
  shows "runtime_ok t"
  using assms(1)
proof cases
  case (st_unsubscribe ch)
  then show ?thesis using unsubscribe_ok [OF assms(2), of ch] by auto
next
  case (st_notify ord)
  then show ?thesis using notify_ok [OF assms(2), of ord] by auto
next
  case (st_disconnect ord)
  then show ?thesis using disconnect_ok [OF assms(2), of ord] by auto
next
  case (st_warm key)
  then show ?thesis using warm_ok [OF assms(2)] by simp
qed (simp_all add: assms(2) init_runtime_ok subscribe_ok receive_ok quiet_steps)

interpretation runtime_sys: invariant_system "\<lambda>s. s = shared0" runtime_step runtime_ok
  by unfold_locales (auto simp: shared0_ok intro: step_runtime_ok)

definition shut :: "nat \<Rightarrow> 'k shared_runtime \<Rightarrow> bool" where
  "shut ch s \<longleftrightarrow> runtime_ok s \<and> ch < rt_next s \<and> ch_closed (rt_chans s ch)"

lemma shut_same:
  "shut ch s \<Longrightarrow> runtime_ok s' \<Longrightarrow> rt_next s' = rt_next s \<Longrightarrow> rt_chans s' = rt_chans s \<Longrightarrow> shut ch s'"
  by (simp add: shut_def)

lemma init_shut: "shut ch s \<Longrightarrow> shut ch (runtime_init s)"
  using init_runtime_ok [of s]
  by (auto simp: shut_def runtime_init_def Let_def make_chan_def)

lemma for_chans_next:
  "for_chans try_send chs s = Inr s' \<Longrightarrow> rt_next s' = rt_next s \<and> (\<forall>ch. ch_closed (rt_chans s' ch) = ch_closed (rt_chans s ch))"
  "for_chans close_chan chs s = Inr s' \<Longrightarrow> rt_next s' = rt_next s"
  by (induction chs arbitrary: s; fastforce simp: try_send_def close_chan_def split: if_splits)+

lemma disconnect_next: "runtime_disconnect ord s = Inr s' \<Longrightarrow> rt_next s' = rt_next s"
  by (auto simp: runtime_disconnect_def bind_res_eq_Inr close_chan_def split: option.splits if_splits
      dest!: for_chans_next(2))

lemma step_shut:
  assumes "shut ch s" and "runtime_step s e t"
  shows "shut ch t"
proof -
  have ok: "runtime_ok s" "runtime_ok t" using assms step_runtime_ok [OF assms(2)] by (auto simp: shut_def)
  show ?thesis
    using assms(2)
  proof cases
    case st_init
    then show ?thesis using init_shut [OF assms(1)] by simp
  next
    case st_subscribe
    then show ?thesis
      using assms(1) ok by (auto simp: shut_def subscribe_def Let_def make_chan_def)
  next
    case (st_unsubscribe c)
    then show ?thesis
      using assms(1) ok by (auto simp: shut_def unsubscribe_def close_chan_def split: option.splits if_splits)
  next
    case (st_notify ord)
    then show ?thesis
      using assms(1) ok for_chans_next(1) [of "ord (subs_of s)" s t]
      by (simp add: shut_def notifySubscribers_def subs_of_def [symmetric])
  next
    case (st_disconnect ord)
    then show ?thesis
      using assms(1) ok disconnect_ok [OF ok(1), of ord] disconnect_next [of ord s t] by (auto simp: shut_def)
  next
    case (st_receive c)
    then show ?thesis using assms(1) ok by (auto simp: shut_def receive_def)
  next
    case (st_warm key)
    then show ?thesis using assms(1) ok by (auto simp: shut_def markWarmed_def split: option.splits)
  qed (use assms(1) ok in \<open>auto simp: shut_def connect_publish_def RegisterDeleteCallback_def server_done_def
      startReaper_def onceForKey_def once_ran_def Let_def split: option.splits if_splits\<close>)
qed

interpretation shut_sys: invariant_system "shut ch" runtime_step "shut ch" for ch
  by unfold_locales (auto intro: step_shut)

section \<open>Properties\<close>

text \<open>
  C24. However the collectors interleave, the channels of the runtime are used safely: the subscribed
  channels are different and open, so neither a notification nor an unsubscription nor a disconnect ever
  sends on a closed channel or closes one twice, and a notification leaves a signal for every subscriber
  and for nobody else.
\<close>

theorem runtime_channels_safe:
  assumes "reach (\<lambda>s. s = shared0) runtime_step s" and "range_order ord"
  shows "runtime_ok s \<and> \<not> panics (unsubscribe ch s) \<and> \<not> panics (runtime_disconnect ord s) \<and>
    (\<exists>s'. notifySubscribers ord s = Inr s' \<and>
      (\<forall>ch. chan_ready s' ch \<longleftrightarrow> chan_ready s ch \<or> ch \<in> set (subs_of s)))"
proof -
  have ok: "runtime_ok s" by (rule runtime_sys.reach_inv [OF assms(1)])
  show ?thesis
    using ok unsubscribe_ok [OF ok, of ch] disconnect_ok [OF ok assms(2)] notify_ok [OF ok assms(2)] by auto
qed

lemma reach_from:
  assumes "reach (\<lambda>t. t = s1) runtime_step t" and "shut ch s1"
  shows "reach (shut ch) runtime_step t"
  using assms by (induction rule: reach.induct) (auto intro: reach_start reach_step)

lemma reach_one: "runtime_step s e t \<Longrightarrow> reach (\<lambda>x. x = s) runtime_step t"
  by (rule reach_step [OF reach_start]) simp_all

lemma demo_subscribed: "reach (\<lambda>s. s = shared0) runtime_step (snd (subscribe shared0))"
  by (rule reach_one [OF st_subscribe])

lemma demo_subs: "subs_of (snd (subscribe shared0)) = [0]"
  by (simp add: subscribe_def Let_def make_chan_def subs_of_def shared0_def)

theorem runtime_channels_safe_witness:
  "\<exists>s'. notifySubscribers rev (snd (subscribe (shared0 :: nat shared_runtime))) = Inr s' \<and> chan_ready s' 0 \<and> \<not> chan_ready s' 1"
proof -
  let ?s = "snd (subscribe (shared0 :: nat shared_runtime))"
  obtain s' where s': "notifySubscribers rev ?s = Inr s'"
    "\<forall>ch. chan_ready s' ch \<longleftrightarrow> chan_ready ?s ch \<or> ch \<in> set (subs_of ?s)"
    using runtime_channels_safe [OF demo_subscribed range_order_rev] by blast
  have "\<not> chan_ready ?s 1" by (simp add: chan_ready_def subscribe_def Let_def make_chan_def shared0_def)
  then show ?thesis using s' by (auto simp: demo_subs)
qed

text \<open>
  C35. When one collector disconnects, the channels of all others are closed, and stay closed whatever
  happens afterwards: a receive on such a channel is ready for ever, also after it has been received
  from, so the loop of a host that waits on it never waits again and expedites its jobs each time.
\<close>

theorem disconnect_wakes_all_forever:
  assumes "reach (\<lambda>s. s = shared0) runtime_step s" and "range_order ord" and "ch \<in> set (subs_of s)"
    and "runtime_disconnect ord s = Inr s1" and "reach (\<lambda>t. t = s1) runtime_step t"
  shows "chan_ready t ch \<and> chan_ready (receive ch t) ch \<and> unsubscribe ch t = Inr t"
proof -
  have ok: "runtime_ok s" by (rule runtime_sys.reach_inv [OF assms(1)])
  have "shut ch s1"
    using disconnect_ok [OF ok assms(2)] disconnect_next [OF assms(4)] assms(3,4) ok
    by (auto simp: shut_def runtime_ok_def)
  then have "reach (shut ch) runtime_step t" by (rule reach_from [OF assms(5)])
  then have t: "shut ch t" by (rule shut_sys.reach_inv)
  then have "ch \<notin> set (subs_of t)" by (auto simp: shut_def runtime_ok_def)
  then have "unsubscribe ch t = Inr t"
    by (cases "rt_subscribers t") (simp_all add: unsubscribe_def subs_of_def)
  then show ?thesis using t by (simp add: shut_def chan_ready_def receive_def)
qed

theorem disconnect_wakes_all_forever_witness:
  "\<exists>s1. runtime_disconnect rev (snd (subscribe (shared0 :: nat shared_runtime))) = Inr s1 \<and>
     chan_ready (runtime_init s1) 0"
proof -
  let ?s = "snd (subscribe (shared0 :: nat shared_runtime))"
  have ok: "runtime_ok ?s" using subscribe_ok(1) [OF shared0_ok] .
  obtain s1 where s1: "runtime_disconnect rev ?s = Inr s1" using disconnect_ok [OF ok range_order_rev] by blast
  have "reach (\<lambda>t. t = s1) runtime_step (runtime_init s1)" by (rule reach_one [OF st_init])
  from disconnect_wakes_all_forever [OF demo_subscribed range_order_rev _ s1 this, of 0] s1
  show ?thesis by (simp add: demo_subs)
qed

end
