(* ===== verification/K8s_Enrich.thy ===== *)
theory K8s_Enrich
  imports K8s_Values
begin

text \<open>
  \<open>protocols/k8sclient/Enrich.go\<close>: the computed fields that are stored in a cached object under the key
  \<open>_k\<close>. An object is the map of a \<open>JObj\<close>. The JSON encoder of the container list and the age of a
  timestamp text (its parsing, and the clock) are arguments: \<open>marshal\<close> and \<open>since\<close>, in nanoseconds.
\<close>

type_synonym jobj = "(string \<times> jval) list"

record pod_container =
  pc_Name :: string
  pc_Image :: string
  pc_ImagePullPolicy :: string
  pc_Ports :: "jobj list"
  pc_Env :: "jobj list"
  pc_Resources :: jobj
  pc_VolumeMounts :: "jobj list"
  pc_Kind :: string
  pc_Ready :: "bool option"
  pc_State :: string
  pc_RestartCount :: int

record enrich_env =
  marshal :: "pod_container list \<Rightarrow> string option"
  since :: "string \<Rightarrow> int option"

section \<open>Reading values\<close>

text \<open>\<open>fmt.Sprint(m[key])\<close>: a missing key reads as nil.\<close>

definition sprint_at :: "jobj \<Rightarrow> string \<Rightarrow> string" where
  "sprint_at m key = Sprint (case map_of m key of None \<Rightarrow> JNull | Some v \<Rightarrow> v)"

definition int_at :: "jobj \<Rightarrow> string \<Rightarrow> int option" where
  "int_at m key = toInt (case map_of m key of None \<Rightarrow> JNull | Some v \<Rightarrow> v)"

definition slice_or_nil :: "jobj \<Rightarrow> string list \<Rightarrow> jval list" where
  "slice_or_nil obj path = (case nestedSlice (JObj obj) path of None \<Rightarrow> [] | Some vs \<Rightarrow> vs)"

definition map_or_nil :: "jobj \<Rightarrow> string list \<Rightarrow> jobj" where
  "map_or_nil obj path = (case nestedMap (JObj obj) path of None \<Rightarrow> [] | Some m \<Rightarrow> m)"

definition set_string :: "string \<Rightarrow> string \<Rightarrow> jobj \<Rightarrow> jobj" where
  "set_string key s out = AList.update key (JStr s) out"

fun mapsOf :: "jval list \<Rightarrow> jobj list" where
  "mapsOf [] = []"
| "mapsOf (JObj m # vs) = m # mapsOf vs"
| "mapsOf (v # vs) = mapsOf vs"

definition stringOf :: "jobj \<Rightarrow> string \<Rightarrow> string" where
  "stringOf m key =
     (case map_of m key of None \<Rightarrow> '''' | Some v \<Rightarrow> (if v = JNull then '''' else Sprint v))"

definition mapToSelectorString :: "jobj \<Rightarrow> string" where
  "mapToSelectorString m = Join '','' (map (\<lambda>k. k @ ''='' @ sprint_at m k) (sort (map fst m)))"

definition none_text :: string where
  "none_text = ''<none>''"

section \<open>Nodes\<close>

fun ready_condition :: "jobj list \<Rightarrow> string" where
  "ready_condition [] = ''Unknown''"
| "ready_condition (m # ms) =
     (if sprint_at m ''type'' \<noteq> ''Ready'' then ready_condition ms
      else if sprint_at m ''status'' = ''True'' then ''Ready'' else ''NotReady'')"

definition nodeReadyStatus :: "jobj \<Rightarrow> string" where
  "nodeReadyStatus obj =
     (case nestedSlice (JObj obj) [''status'', ''conditions''] of
        None \<Rightarrow> ''Unknown''
      | Some [] \<Rightarrow> ''Unknown''
      | Some conditions \<Rightarrow> ready_condition (mapsOf conditions))"

definition role_prefix :: string where
  "role_prefix = ''node-role.kubernetes.io/''"

definition nodeRoles :: "jobj \<Rightarrow> string" where
  "nodeRoles obj =
     (case nestedMap (JObj obj) [''metadata'', ''labels''] of
        None \<Rightarrow> none_text
      | Some labels \<Rightarrow>
          let roles = map (drop (length role_prefix)) (filter (\<lambda>k. HasPrefix k role_prefix) (map fst labels)) in
          if roles = [] then none_text else Join '','' (sort roles))"

definition nodeAddress :: "jobj \<Rightarrow> string \<Rightarrow> string" where
  "nodeAddress obj addrType =
     (case find (\<lambda>m. sprint_at m ''type'' = addrType) (mapsOf (slice_or_nil obj [''status'', ''addresses''])) of
        None \<Rightarrow> none_text
      | Some m \<Rightarrow> sprint_at m ''address'')"

definition enrichNode :: "jobj \<Rightarrow> jobj \<Rightarrow> jobj" where
  "enrichNode obj out =
     set_string ''status'' (nodeReadyStatus obj)
       (set_string ''externalip'' (nodeAddress obj ''ExternalIP'')
         (set_string ''internalip'' (nodeAddress obj ''InternalIP'')
           (set_string ''roles'' (nodeRoles obj) out)))"

section \<open>Pods\<close>

definition containerState :: "jobj \<Rightarrow> string" where
  "containerState st =
     (case map_of st ''state'' of
        Some (JObj state) \<Rightarrow>
          (case find (\<lambda>k. map_of state k \<noteq> None) [''running'', ''waiting'', ''terminated''] of
             None \<Rightarrow> ''''
           | Some k \<Rightarrow> ToUpper (take 1 k) @ drop 1 k)
      | _ \<Rightarrow> '''')"

definition indexContainerStatuses :: "jobj \<Rightarrow> string \<Rightarrow> (string \<times> jobj) list" where
  "indexContainerStatuses obj key =
     fold (\<lambda>m idx. if sprint_at m ''name'' = '''' then idx else AList.update (sprint_at m ''name'') m idx)
       (mapsOf (slice_or_nil obj [''status'', key])) []"

definition slice_at :: "jobj \<Rightarrow> string \<Rightarrow> jobj list" where
  "slice_at m key = (case map_of m key of Some (JList vs) \<Rightarrow> mapsOf vs | _ \<Rightarrow> [])"

definition merge_status :: "(string \<times> jobj) list \<Rightarrow> pod_container \<Rightarrow> pod_container" where
  "merge_status statusByName c =
     (case map_of statusByName (pc_Name c) of
        None \<Rightarrow> c
      | Some st \<Rightarrow> c\<lparr>
          pc_Ready := (case map_of st ''ready'' of Some (JBool b) \<Rightarrow> Some b | _ \<Rightarrow> pc_Ready c),
          pc_RestartCount := (case int_at st ''restartCount'' of None \<Rightarrow> pc_RestartCount c | Some rc \<Rightarrow> rc),
          pc_State := containerState st\<rparr>)"

definition collectContainers ::
  "jobj \<Rightarrow> string \<Rightarrow> string \<Rightarrow> (string \<times> jobj) list \<Rightarrow> pod_container list" where
  "collectContainers obj specKey kind statusByName =
     map (\<lambda>spec. merge_status statusByName
       \<lparr>pc_Name = stringOf spec ''name'', pc_Image = stringOf spec ''image'',
        pc_ImagePullPolicy = stringOf spec ''imagePullPolicy'', pc_Ports = slice_at spec ''ports'',
        pc_Env = slice_at spec ''env'',
        pc_Resources = (case map_of spec ''resources'' of Some (JObj r) \<Rightarrow> r | _ \<Rightarrow> []),
        pc_VolumeMounts = slice_at spec ''volumeMounts'', pc_Kind = kind, pc_Ready = None,
        pc_State = '''', pc_RestartCount = 0\<rparr>)
     (mapsOf (slice_or_nil obj [''spec'', specKey]))"

definition enrichPodContainers :: "enrich_env \<Rightarrow> jobj \<Rightarrow> jobj \<Rightarrow> jobj" where
  "enrichPodContainers env obj out =
     (let containers = collectContainers obj ''containers'' ''container''
            (indexContainerStatuses obj ''containerStatuses'') @
          collectContainers obj ''initContainers'' ''init''
            (indexContainerStatuses obj ''initContainerStatuses'')
      in if containers = [] then out
         else case marshal env containers of
           None \<Rightarrow> out
         | Some buf \<Rightarrow> set_string ''containers_json'' buf out)"

definition pod_ready :: "jobj list \<Rightarrow> nat" where
  "pod_ready ms = length (filter (\<lambda>m. map_of m ''ready'' = Some (JBool True)) ms)"

definition pod_restarts :: "jobj list \<Rightarrow> int" where
  "pod_restarts ms =
     fold (\<lambda>m restarts. case int_at m ''restartCount'' of None \<Rightarrow> restarts | Some r \<Rightarrow> int64 (restarts + r)) ms 0"

definition enrichPod :: "enrich_env \<Rightarrow> jobj \<Rightarrow> jobj \<Rightarrow> jobj" where
  "enrichPod env obj out =
     (let statuses = slice_or_nil obj [''status'', ''containerStatuses''];
          ms = mapsOf statuses;
          out = set_string ''ready'' (dec_nat (pod_ready ms) @ ''/'' @ dec_nat (length statuses)) out;
          out = set_string ''restarts'' (dec_int (pod_restarts ms)) out;
          out = set_string ''nominatednode''
            (case nestedValue (JObj obj) [''status'', ''nominatedNodeName''] of
               None \<Rightarrow> none_text
             | Some v \<Rightarrow> (if v \<noteq> JNull \<and> Sprint v \<noteq> '''' then Sprint v else none_text)) out
      in enrichPodContainers env obj out)"

section \<open>Workloads\<close>

definition enrichPodTemplate :: "jobj \<Rightarrow> jobj \<Rightarrow> jobj" where
  "enrichPodTemplate obj out =
     (let ms = mapsOf (slice_or_nil obj [''spec'', ''template'', ''spec'', ''containers'']) in
      set_string ''images'' (Join '','' (map (\<lambda>m. sprint_at m ''image'')
          (filter (\<lambda>m. map_of m ''image'' \<noteq> None) ms)))
        (set_string ''containers'' (Join '','' (map (\<lambda>m. sprint_at m ''name'')
          (filter (\<lambda>m. map_of m ''name'' \<noteq> None) ms))) out))"

definition nodeSelectorString :: "jobj \<Rightarrow> string" where
  "nodeSelectorString obj =
     (let ns = map_or_nil obj [''spec'', ''template'', ''spec'', ''nodeSelector''] in
      if ns = [] then none_text else mapToSelectorString ns)"

definition matchLabelsString :: "jobj \<Rightarrow> string list \<Rightarrow> string" where
  "matchLabelsString obj path =
     (let m = map_or_nil obj path in if m = [] then none_text else mapToSelectorString m)"

definition count_text :: "jobj \<Rightarrow> string list \<Rightarrow> string" where
  "count_text obj path = dec_int (intOr (JObj obj) 0 path)"

definition enrichDeployment :: "jobj \<Rightarrow> jobj \<Rightarrow> jobj" where
  "enrichDeployment obj out =
     (let out = set_string ''ready'' (count_text obj [''status'', ''readyReplicas''] @ ''/'' @
            count_text obj [''spec'', ''replicas'']) out;
          out = set_string ''uptodate'' (count_text obj [''status'', ''updatedReplicas'']) out;
          out = set_string ''available'' (count_text obj [''status'', ''availableReplicas'']) out;
          out = enrichPodTemplate obj out
      in set_string ''selector'' (matchLabelsString obj [''spec'', ''selector'', ''matchLabels'']) out)"

definition enrichStatefulSet :: "jobj \<Rightarrow> jobj \<Rightarrow> jobj" where
  "enrichStatefulSet obj out =
     enrichPodTemplate obj
       (set_string ''ready'' (count_text obj [''status'', ''readyReplicas''] @ ''/'' @
          count_text obj [''spec'', ''replicas'']) out)"

definition enrichDaemonSet :: "jobj \<Rightarrow> jobj \<Rightarrow> jobj" where
  "enrichDaemonSet obj out =
     (let out = set_string ''desired'' (count_text obj [''status'', ''desiredNumberScheduled'']) out;
          out = set_string ''current'' (count_text obj [''status'', ''currentNumberScheduled'']) out;
          out = set_string ''ready'' (count_text obj [''status'', ''numberReady'']) out;
          out = set_string ''uptodate'' (count_text obj [''status'', ''updatedNumberScheduled'']) out;
          out = set_string ''available'' (count_text obj [''status'', ''numberAvailable'']) out;
          out = set_string ''nodeselector'' (nodeSelectorString obj) out;
          out = enrichPodTemplate obj out
      in set_string ''selector'' (matchLabelsString obj [''spec'', ''selector'', ''matchLabels'']) out)"

section \<open>Services\<close>

definition ingress_address :: "jobj \<Rightarrow> string option" where
  "ingress_address m =
     (if map_of m ''ip'' \<noteq> None then Some (sprint_at m ''ip'')
      else if map_of m ''hostname'' \<noteq> None then Some (sprint_at m ''hostname'') else None)"

definition serviceExternalIP :: "jobj \<Rightarrow> string" where
  "serviceExternalIP obj =
     (let ips = slice_or_nil obj [''spec'', ''externalIPs''];
          parts = List.map_filter ingress_address
            (mapsOf (slice_or_nil obj [''status'', ''loadBalancer'', ''ingress'']))
      in if ips \<noteq> [] then Join '','' (map Sprint ips)
         else if parts \<noteq> [] then Join '','' parts else none_text)"

definition service_port :: "jobj \<Rightarrow> string" where
  "service_port m =
     (let port = sprint_at m ''port'';
          protocol = (if map_of m ''protocol'' = None then ''TCP'' else sprint_at m ''protocol'')
      in case (case map_of m ''nodePort'' of None \<Rightarrow> None | Some np \<Rightarrow> toInt np) of
           None \<Rightarrow> port @ ''/'' @ protocol
         | Some np \<Rightarrow>
             (if 0 < np then port @ '':'' @ dec_int np @ ''/'' @ protocol else port @ ''/'' @ protocol))"

definition servicePortsString :: "jobj \<Rightarrow> string" where
  "servicePortsString obj =
     (let ports = slice_or_nil obj [''spec'', ''ports''] in
      if ports = [] then none_text else Join '','' (map service_port (mapsOf ports)))"

definition enrichService :: "jobj \<Rightarrow> jobj \<Rightarrow> jobj" where
  "enrichService obj out =
     set_string ''ports'' (servicePortsString obj) (set_string ''externalip'' (serviceExternalIP obj) out)"

section \<open>Ages\<close>

definition formatRelativeAge :: "int \<Rightarrow> string" where
  "formatRelativeAge d0 =
     (let d = (if d0 < 0 then 0 else d0);
          seconds = d div 10 ^ 9;
          minutes = seconds div 60;
          hours = minutes div 60; remainMinutes = minutes mod 60;
          days = hours div 24; remainHours = hours mod 24;
          years = days div 365; remainDays = days mod 365
      in if seconds < 60 then dec_int seconds @ ''s''
         else if minutes < 60 then dec_int minutes @ ''m''
         else if hours < 24 then
           (if 0 < remainMinutes then dec_int hours @ ''h'' @ dec_int remainMinutes @ ''m''
            else dec_int hours @ ''h'')
         else if days < 365 then
           (if 0 < remainHours then dec_int days @ ''d'' @ dec_int remainHours @ ''h''
            else dec_int days @ ''d'')
         else
           (if 0 < remainDays then dec_int years @ ''y'' @ dec_int remainDays @ ''d''
            else dec_int years @ ''y''))"

definition enrichAge :: "enrich_env \<Rightarrow> jobj \<Rightarrow> jobj \<Rightarrow> jobj" where
  "enrichAge env obj out =
     (case nestedValue (JObj obj) [''metadata'', ''creationTimestamp''] of
        Some (JStr ts) \<Rightarrow>
          (case since env ts of None \<Rightarrow> out | Some d \<Rightarrow> set_string ''age'' (formatRelativeAge d) out)
      | _ \<Rightarrow> out)"

section \<open>The whole\<close>

definition resourceFromGVR :: "string \<Rightarrow> string" where
  "resourceFromGVR g = last (Split g ''/'')"

definition computed_fields :: "enrich_env \<Rightarrow> string \<Rightarrow> jobj \<Rightarrow> jobj" where
  "computed_fields env g obj =
     (let resource = resourceFromGVR g;
          computed =
            (if resource = ''nodes'' then enrichNode obj []
             else if resource = ''pods'' then enrichPod env obj []
             else if resource = ''deployments'' then enrichDeployment obj []
             else if resource = ''statefulsets'' then enrichStatefulSet obj []
             else if resource = ''daemonsets'' then enrichDaemonSet obj []
             else if resource = ''services'' then enrichService obj []
             else [])
      in enrichAge env obj computed)"

definition enrichObject :: "enrich_env \<Rightarrow> string \<Rightarrow> jobj \<Rightarrow> jobj" where
  "enrichObject env g obj =
     (let computed = computed_fields env g obj in
      if computed \<noteq> [] then AList.update ''_k'' (JObj computed) obj else obj)"

section \<open>Laws\<close>

lemma nestedValue_update:
  "p \<noteq> k \<Longrightarrow> nestedValue (JObj (AList.update k v obj)) (p # ps) = nestedValue (JObj obj) (p # ps)"
  by (simp add: update_conv')

lemma enrichObject_nested:
  "p \<noteq> ''_k'' \<Longrightarrow> nestedValue (JObj (enrichObject env g obj)) (p # ps) = nestedValue (JObj obj) (p # ps)"
  unfolding enrichObject_def Let_def by (cases "computed_fields env g obj = []") (simp_all only: if_True if_False
    nestedValue_update [of p "''_k''"] simp_thms)

lemma enrichObject_slice:
  "p \<noteq> ''_k'' \<Longrightarrow> nestedSlice (JObj (enrichObject env g obj)) (p # ps) = nestedSlice (JObj obj) (p # ps)"
  by (simp only: nestedSlice_def enrichObject_nested simp_thms)

lemma enrichObject_map:
  "p \<noteq> ''_k'' \<Longrightarrow> nestedMap (JObj (enrichObject env g obj)) (p # ps) = nestedMap (JObj obj) (p # ps)"
  by (simp only: nestedMap_def enrichObject_nested simp_thms)

lemmas enrich_readers = nodeReadyStatus_def nodeRoles_def nodeAddress_def slice_or_nil_def map_or_nil_def
  indexContainerStatuses_def collectContainers_def count_text_def intOr_def nodeSelectorString_def
  serviceExternalIP_def servicePortsString_def

lemma computed_again: "computed_fields env g (enrichObject env g obj) = computed_fields env g obj"
proof -
  let ?o = "enrichObject env g obj"
  have ne: "''metadata'' \<noteq> ''_k''" "''status'' \<noteq> ''_k''" "''spec'' \<noteq> ''_k''" by simp_all
  note same = enrichObject_nested [OF ne(1)] enrichObject_nested [OF ne(2)] enrichObject_nested [OF ne(3)]
    enrichObject_slice [OF ne(2)] enrichObject_slice [OF ne(3)] enrichObject_map [OF ne(1)] enrichObject_map [OF ne(3)]
  have slices: "slice_or_nil ?o (''status'' # ps) = slice_or_nil obj (''status'' # ps)"
    "slice_or_nil ?o (''spec'' # ps) = slice_or_nil obj (''spec'' # ps)"
    "map_or_nil ?o (''spec'' # ps) = map_or_nil obj (''spec'' # ps)"
    "count_text ?o (''status'' # ps) = count_text obj (''status'' # ps)"
    "count_text ?o (''spec'' # ps) = count_text obj (''spec'' # ps)" for ps
    by (simp_all only: slice_or_nil_def map_or_nil_def count_text_def intOr_def same)
  have "enrichNode ?o = enrichNode obj"
    by (intro ext) (simp only: enrichNode_def nodeReadyStatus_def nodeRoles_def nodeAddress_def slices same)
  moreover have pc: "enrichPodContainers env ?o = enrichPodContainers env obj"
    by (intro ext) (simp only: enrichPodContainers_def collectContainers_def indexContainerStatuses_def slices)
  have "enrichPod env ?o = enrichPod env obj"
    by (intro ext) (simp only: enrichPod_def slices same pc)
  moreover have tpl: "enrichPodTemplate ?o = enrichPodTemplate obj"
    by (intro ext) (simp only: enrichPodTemplate_def slices)
  have "enrichDeployment ?o = enrichDeployment obj" "enrichStatefulSet ?o = enrichStatefulSet obj"
    "enrichDaemonSet ?o = enrichDaemonSet obj"
    by (intro ext; simp only: enrichDeployment_def enrichStatefulSet_def enrichDaemonSet_def tpl slices
        matchLabelsString_def nodeSelectorString_def)+
  moreover have "enrichService ?o = enrichService obj"
    by (intro ext) (simp only: enrichService_def serviceExternalIP_def servicePortsString_def slices)
  moreover have "enrichAge env ?o = enrichAge env obj"
    by (intro ext) (simp only: enrichAge_def same)
  ultimately show ?thesis by (simp only: computed_fields_def)
qed

text \<open>
  Enrichment only adds: every key of the object but \<open>_k\<close> reads as before, \<open>_k\<close> is left alone or holds
  the computed fields, and since no computed field is read from \<open>_k\<close>, doing it again changes nothing.
\<close>

theorem enrichObject_only_adds:
  "map_of (enrichObject env g obj) |` (- {''_k''}) = map_of obj |` (- {''_k''}) \<and>
   map_of (enrichObject env g obj) ''_k'' \<in> {map_of obj ''_k'', Some (JObj (computed_fields env g obj))} \<and>
   enrichObject env g (enrichObject env g obj) = enrichObject env g obj"
proof -
  let ?c = "computed_fields env g obj"
  have "enrichObject env g (enrichObject env g obj) = enrichObject env g obj"
    unfolding enrichObject_def [of env g "enrichObject env g obj"] computed_again Let_def
    by (cases "?c = []") (simp_all add: enrichObject_def Let_def)
  moreover have "map_of (enrichObject env g obj) |` (- {''_k''}) = map_of obj |` (- {''_k''})"
    by (cases "?c = []") (simp_all add: enrichObject_def Let_def update_conv' restrict_map_def fun_eq_iff)
  moreover have "map_of (enrichObject env g obj) ''_k'' \<in> {map_of obj ''_k'', Some (JObj ?c)}"
    by (cases "?c = []") (simp_all add: enrichObject_def Let_def update_conv')
  ultimately show ?thesis by blast
qed

text \<open>What an age text says: a list of counts with their units, in seconds.\<close>

definition age_text :: "(int \<times> char) list \<Rightarrow> string" where
  "age_text ps = concat (map (\<lambda>(n, u). dec_int n @ [u]) ps)"

fun unit_seconds :: "char \<Rightarrow> int" where
  "unit_seconds u =
     (if u = CHR ''m'' then 60 else if u = CHR ''h'' then 3600 else if u = CHR ''d'' then 86400
      else if u = CHR ''y'' then 31536000 else 1)"

definition age_seconds :: "(int \<times> char) list \<Rightarrow> int" where
  "age_seconds ps = sum_list (map (\<lambda>(n, u). n * unit_seconds u) ps)"

definition age_error :: "int \<Rightarrow> int" where
  "age_error s = (if s < 60 then 1 else if s < 86400 then 60 else if s < 31536000 then 3600 else 86400)"

lemma age_sum1: "age_seconds [(n, u)] = n * unit_seconds u" "age_text [(n, u)] = dec_int n @ [u]"
  by (simp_all add: age_seconds_def age_text_def del: unit_seconds.simps)

lemma age_sum2: "age_seconds [(n, u), (m, v)] = n * unit_seconds u + m * unit_seconds v"
  "age_text [(n, u), (m, v)] = dec_int n @ u # dec_int m @ [v]"
  by (simp_all add: age_seconds_def age_text_def del: unit_seconds.simps)

definition age_of_seconds :: "int \<Rightarrow> string" where
  "age_of_seconds s =
     (let minutes = s div 60; hours = minutes div 60; days = hours div 24; years = days div 365 in
       if s < 60 then dec_int s @ ''s'' else if minutes < 60 then dec_int minutes @ ''m''
       else if hours < 24 then
         (if 0 < minutes mod 60 then dec_int hours @ ''h'' @ dec_int (minutes mod 60) @ ''m'' else dec_int hours @ ''h'')
       else if days < 365 then
         (if 0 < hours mod 24 then dec_int days @ ''d'' @ dec_int (hours mod 24) @ ''h'' else dec_int days @ ''d'')
       else (if 0 < days mod 365 then dec_int years @ ''y'' @ dec_int (days mod 365) @ ''d'' else dec_int years @ ''y''))"

definition age_parts :: "int \<Rightarrow> (int \<times> char) list" where
  "age_parts s =
     (let minutes = s div 60; hours = minutes div 60; days = hours div 24; years = days div 365 in
       if s < 60 then [(s, CHR ''s'')] else if minutes < 60 then [(minutes, CHR ''m'')]
       else if hours < 24 then
         (if 0 < minutes mod 60 then [(hours, CHR ''h''), (minutes mod 60, CHR ''m'')] else [(hours, CHR ''h'')])
       else if days < 365 then
         (if 0 < hours mod 24 then [(days, CHR ''d''), (hours mod 24, CHR ''h'')] else [(days, CHR ''d'')])
       else (if 0 < days mod 365 then [(years, CHR ''y''), (days mod 365, CHR ''d'')] else [(years, CHR ''y'')]))"

lemma if_le_two: "length x \<le> 2 \<Longrightarrow> length y \<le> 2 \<Longrightarrow> length (if c then x else y) \<le> 2"
  by simp

lemma age_of_parts: "age_of_seconds s = age_text (age_parts s)" "length (age_parts s) \<le> 2"
   apply (simp only: age_of_seconds_def age_parts_def Let_def if_distrib [of age_text] age_sum1 age_sum2
      append_Cons append_Nil)
  apply (unfold age_parts_def Let_def)
  apply (intro if_le_two)
        apply simp_all
  done

lemma pos_mod_iff: "0 < k \<Longrightarrow> 0 < x mod k \<longleftrightarrow> x mod k \<noteq> (0::int)"
  using pos_mod_sign [of k x] by linarith

lemma age_parts_bounds:
  assumes "0 \<le> s"
  shows "age_seconds (age_parts s) \<le> s" and "s < age_seconds (age_parts s) + age_error s"
proof -
  have u: "unit_seconds (CHR ''s'') = 1" "unit_seconds (CHR ''m'') = 60" "unit_seconds (CHR ''h'') = 3600"
    "unit_seconds (CHR ''d'') = 86400" "unit_seconds (CHR ''y'') = 31536000"
    by simp_all
  define m where "m = s div 60"
  define h where "h = m div 60"
  define d where "d = h div 24"
  define y where "y = d div 365"
  have e: "s = 60 * m + s mod 60" "0 \<le> s mod 60" "s mod 60 < 60" "m = 60 * h + m mod 60" "0 \<le> m mod 60" "m mod 60 < 60"
    "h = 24 * d + h mod 24" "0 \<le> h mod 24" "h mod 24 < 24" "d = 365 * y + d mod 365" "0 \<le> d mod 365" "d mod 365 < 365"
    by (simp_all only: m_def h_def d_def y_def mult_div_mod_eq pos_mod_sign pos_mod_bound zero_less_numeral)
  have parts: "age_parts s =
      (if s < 60 then [(s, CHR ''s'')] else if m < 60 then [(m, CHR ''m'')]
       else if h < 24 then (if 0 < m mod 60 then [(h, CHR ''h''), (m mod 60, CHR ''m'')] else [(h, CHR ''h'')])
       else if d < 365 then (if 0 < h mod 24 then [(d, CHR ''d''), (h mod 24, CHR ''h'')] else [(d, CHR ''d'')])
       else (if 0 < d mod 365 then [(y, CHR ''y''), (d mod 365, CHR ''d'')] else [(y, CHR ''y'')]))"
    by (simp only: age_parts_def Let_def m_def h_def d_def y_def)
  have two: "age_seconds (if 0 < k then [(n, u), (k, v)] else [(n, u)]) = n * unit_seconds u + k * unit_seconds v"
    if "0 \<le> k" for n k u v
    using that by (auto simp: age_sum1 age_sum2 simp del: unit_seconds.simps)
  have zero: "0 \<le> m" "0 \<le> h" "0 \<le> d" using assms e by linarith+
  consider "s < 60" | "60 \<le> s" "m < 60" | "60 \<le> s" "60 \<le> m" "h < 24"
    | "60 \<le> s" "60 \<le> m" "24 \<le> h" "d < 365" | "60 \<le> s" "60 \<le> m" "24 \<le> h" "365 \<le> d"
    by linarith
  then have "age_seconds (age_parts s) \<le> s \<and> s < age_seconds (age_parts s) + age_error s"
  proof cases
    case 1
    then show ?thesis by (simp add: parts age_sum1 u age_error_def del: unit_seconds.simps)
  next
    case 2
    then have "age_seconds (age_parts s) = m * 60" by (simp add: parts age_sum1 u del: unit_seconds.simps)
    moreover have "s < 86400" using 2 e by linarith
    then have "age_error s = 60" using 2 by (simp add: age_error_def)
    ultimately show ?thesis using e by linarith
  next
    case 3
    then have c: "(s < 60) = False" "(m < 60) = False" "(h < 24) = True" by simp_all
    have "age_seconds (age_parts s) = h * 3600 + m mod 60 * 60"
      by (simp only: parts c if_True if_False two [OF e(5)] u)
    moreover have "s < 86400" using 3 e by linarith
    then have "age_error s = 60" using 3 by (simp add: age_error_def)
    ultimately show ?thesis using e by linarith
  next
    case 4
    then have c: "(s < 60) = False" "(m < 60) = False" "(h < 24) = False" "(d < 365) = True" by simp_all
    have "age_seconds (age_parts s) = d * 86400 + h mod 24 * 3600"
      by (simp only: parts c if_True if_False two [OF e(8)] u)
    moreover have "s < 31536000" "86400 \<le> s" using 4 e by linarith+
    then have "age_error s = 3600" by (simp add: age_error_def)
    ultimately show ?thesis using e by linarith
  next
    case 5
    then have c: "(s < 60) = False" "(m < 60) = False" "(h < 24) = False" "(d < 365) = False" by simp_all
    have "age_seconds (age_parts s) = y * 31536000 + d mod 365 * 86400"
      by (simp only: parts c if_True if_False two [OF e(11)] u)
    moreover have "31536000 \<le> s" using 5 e by linarith
    then have "age_error s = 86400" by (simp add: age_error_def)
    ultimately show ?thesis using e by linarith
  qed
  then show "age_seconds (age_parts s) \<le> s" and "s < age_seconds (age_parts s) + age_error s" by blast+
qed


end
