(* ===== verification/K8s_Result.thy ===== *)
theory K8s_Result
  imports K8s_Cache Table_Values
begin

text \<open>
  \<open>protocols/k8sclient/Result.go\<close>: the map and the table a cached object or a list of them is turned
  into. The serializer of a value is an argument (\<open>encode\<close>, with its error text).
\<close>

section \<open>Operations\<close>

definition FieldValue :: "cached_object option \<Rightarrow> string \<Rightarrow> jval" where
  "FieldValue obj field =
     (case obj of
        None \<Rightarrow> JNull
      | Some obj \<Rightarrow>
          if field = ''gvr'' then JStr (co_GVR obj)
          else if field \<in> {''namespace'', ''metadata.namespace''} then JStr (co_Namespace obj)
          else if field \<in> {''name'', ''metadata.name''} then JStr (co_Name obj)
          else if field \<in> {''uid'', ''metadata.uid''} then JStr (co_UID obj)
          else if field \<in> {''resourceVersion'', ''metadata.resourceVersion''} then JStr (co_ResourceVersion obj)
          else if field = ''operation'' then JStr (co_Operation obj)
          else if field = ''observedAt'' then JInt (co_ObservedAt obj)
          else if field = ''object'' then co_Object obj
          else if field = ''related'' then JList (co_Related obj)
          else (case nestedValue (co_Object obj) (Split field ''.'') of None \<Rightarrow> JNull | Some v \<Rightarrow> v))"

fun cmap_fields ::
  "(jval \<Rightarrow> string + bytes) \<Rightarrow> cached_object \<Rightarrow> string list \<Rightarrow> cmap \<Rightarrow> string + cmap" where
  "cmap_fields encode obj [] data = Inr data"
| "cmap_fields encode obj (f # fs) data =
     (let field = TrimSpace f in
      if field = '''' then cmap_fields encode obj fs data
      else case encode (FieldValue (Some obj) field) of
        Inl err \<Rightarrow> Inl err
      | Inr bs \<Rightarrow> cmap_fields encode obj fs (AList.update field bs data))"

definition BuildCMap :: "(jval \<Rightarrow> string + bytes) \<Rightarrow> cached_object option \<Rightarrow> string list \<Rightarrow> string + cmap" where
  "BuildCMap encode obj flds =
     (case obj of
        None \<Rightarrow> Inr []
      | Some obj \<Rightarrow> cmap_fields encode obj (if flds = [] then [''object''] else flds) [])"

fun table_row ::
  "(jval \<Rightarrow> string + bytes) \<Rightarrow> int \<Rightarrow> int \<Rightarrow> (string \<times> string) list \<Rightarrow> cached_object \<Rightarrow> ctable \<Rightarrow>
   (string + ctable) res" where
  "table_row encode row col [] item tbl = Inr (Inr tbl)"
| "table_row encode row col ((field, name) # fs) item tbl =
     (case encode (FieldValue (Some item) field) of
        Inl err \<Rightarrow> Inr (Inl (''encode '' @ field @ '': '' @ err))
      | Inr bs \<Rightarrow>
          bind_res (SetValue (int32 row) (int32 col) name (Some bs) (Some tbl))
            (\<lambda>t. bind_res (deref t) (table_row encode row (col + 1) fs item)))"

fun table_rows ::
  "(jval \<Rightarrow> string + bytes) \<Rightarrow> int \<Rightarrow> (string \<times> string) list \<Rightarrow> cached_object list \<Rightarrow> ctable \<Rightarrow>
   (string + ctable) res" where
  "table_rows encode row fs [] tbl = Inr (Inr tbl)"
| "table_rows encode row fs (item # items) tbl =
     bind_res (table_row encode row 0 fs item tbl) (\<lambda>r.
       case r of Inl err \<Rightarrow> Inr (Inl err) | Inr tbl \<Rightarrow> table_rows encode (row + 1) fs items tbl)"

definition table_fields :: "string list \<Rightarrow> string list" where
  "table_fields flds =
     (if flds = [] then [''metadata.name'', ''metadata.namespace'', ''metadata.uid''] else flds)"

definition BuildCTable ::
  "(jval \<Rightarrow> string + bytes) \<Rightarrow> cached_object list \<Rightarrow> string list \<Rightarrow> string list \<Rightarrow> (string + ctable) res" where
  "BuildCTable encode items flds columnNames =
     (let flds = table_fields flds;
          columnNames = (if columnNames = [] then flds else columnNames)
      in if length flds \<noteq> length columnNames then
           Inr (Inl (''fields/columnNames length mismatch: '' @ dec_nat (length flds) @ '' != '' @
             dec_nat (length columnNames)))
         else table_rows encode 0 (zip flds columnNames) items \<lparr>Rows = Some [], Columns = Some []\<rparr>)"

section \<open>Laws\<close>

definition encodes :: "(jval \<Rightarrow> string + bytes) \<Rightarrow> (jval \<Rightarrow> bytes) \<Rightarrow> bool" where
  "encodes encode e \<longleftrightarrow> (\<forall>v. encode v = Inr (e v))"

text \<open>
  A row: it writes the cells from its first column on, in order, and nothing else, and names the
  columns that have no name.
\<close>

lemma table_row_meets:
  assumes "encodes encode e" and "Columns tbl \<noteq> None" and "0 \<le> row" and "row < 2 ^ 31"
    and "0 \<le> col" and "col + int (length fs) < 2 ^ 31"
  shows "\<exists>tbl'. table_row encode row col fs item tbl = Inr (Inr tbl') \<and> Columns tbl' \<noteq> None \<and>
    (\<forall>r c. cell_at tbl' r c =
      (if r = row \<and> col \<le> c \<and> c < col + int (length fs)
       then Some (Some (e (FieldValue (Some item) (fst (fs ! nat (c - col)))))) else cell_at tbl r c)) \<and>
    (\<forall>c. column_at tbl' c =
      (if col \<le> c \<and> c < col + int (length fs) \<and> column_at tbl c = '''' then snd (fs ! nat (c - col))
       else column_at tbl c))"
  using assms(2,5,6)
proof (induction fs arbitrary: col tbl)
  case Nil
  then show ?case by auto
next
  case (Cons fn fs)
  obtain f n where fn: "fn = (f, n)" by (cases fn)
  let ?v = "e (FieldValue (Some item) f)"
  have small: "col < 2 ^ 31" using Cons.prems(3) by simp
  then have ids: "int32 row = row" "int32 col = col" using assms(3,4) Cons.prems(2) by simp_all
  obtain t where t: "SetValue row col n (Some ?v) (Some tbl) = Inr (Some t)" "Columns t \<noteq> None"
    "\<forall>r c. cell_at t r c = (if r = row \<and> c = col then Some (Some ?v) else cell_at tbl r c)"
    "\<forall>c. column_at t c = (if c = col \<and> Some ?v \<noteq> None \<and> column_at tbl col = '''' then n else column_at tbl c)"
    by (rule SetValue_meets [OF Cons.prems(1)])
  obtain tbl' where tbl': "table_row encode row (col + 1) fs item t = Inr (Inr tbl')" "Columns tbl' \<noteq> None"
    "\<forall>r c. cell_at tbl' r c =
      (if r = row \<and> col + 1 \<le> c \<and> c < col + 1 + int (length fs)
       then Some (Some (e (FieldValue (Some item) (fst (fs ! nat (c - (col + 1))))))) else cell_at t r c)"
    "\<forall>c. column_at tbl' c =
      (if col + 1 \<le> c \<and> c < col + 1 + int (length fs) \<and> column_at t c = '''' then snd (fs ! nat (c - (col + 1)))
       else column_at t c)"
    using Cons.IH [OF t(2), of "col + 1"] Cons.prems(2,3) by auto
  have run: "table_row encode row col (fn # fs) item tbl = Inr (Inr tbl')"
    using assms(1) tbl'(1) by (simp add: fn ids t(1) encodes_def)
  have at: "fs ! nat (c - (col + 1)) = (fn # fs) ! nat (c - col)" if "col + 1 \<le> c" for c
  proof -
    have "nat (c - col) = Suc (nat (c - (col + 1)))" using that by linarith
    then show ?thesis by simp
  qed
  have cells: "cell_at tbl' r c =
      (if r = row \<and> col \<le> c \<and> c < col + int (length (fn # fs))
       then Some (Some (e (FieldValue (Some item) (fst ((fn # fs) ! nat (c - col)))))) else cell_at tbl r c)" for r c
  proof (cases "col + 1 \<le> c")
    case True
    then have "c \<noteq> col" "col \<le> c" by simp_all
    then show ?thesis unfolding tbl'(3) [rule_format, of r c] t(3) [rule_format, of r c] at [OF True]
      using True by (simp add: algebra_simps)
  next
    case False
    then show ?thesis unfolding tbl'(3) [rule_format, of r c] t(3) [rule_format, of r c]
      by (cases "c = col") (simp_all add: fn)
  qed
  have names: "column_at tbl' c =
      (if col \<le> c \<and> c < col + int (length (fn # fs)) \<and> column_at tbl c = '''' then snd ((fn # fs) ! nat (c - col))
       else column_at tbl c)" for c
  proof (cases "col + 1 \<le> c")
    case True
    then have "c \<noteq> col" "col \<le> c" by simp_all
    then show ?thesis unfolding tbl'(4) [rule_format, of c] t(4) [rule_format, of c] at [OF True]
      using True by (simp add: algebra_simps)
  next
    case False
    then show ?thesis unfolding tbl'(4) [rule_format, of c] t(4) [rule_format, of c]
      by (cases "c = col") (simp_all add: fn)
  qed
  show ?case using run tbl'(2) cells names by blast
qed

lemma table_rows_meets:
  assumes "encodes encode e" and "Columns tbl \<noteq> None" and "0 \<le> row" and "row + int (length items) < 2 ^ 31"
    and "int (length fs) < 2 ^ 31"
  shows "\<exists>tbl'. table_rows encode row fs items tbl = Inr (Inr tbl') \<and> Columns tbl' \<noteq> None \<and>
    (\<forall>r c. cell_at tbl' r c =
      (if row \<le> r \<and> r < row + int (length items) \<and> 0 \<le> c \<and> c < int (length fs)
       then Some (Some (e (FieldValue (Some (items ! nat (r - row))) (fst (fs ! nat c))))) else cell_at tbl r c)) \<and>
    (\<forall>c. column_at tbl' c =
      (if items \<noteq> [] \<and> 0 \<le> c \<and> c < int (length fs) \<and> column_at tbl c = '''' then snd (fs ! nat c)
       else column_at tbl c))"
  using assms(2-4)
proof (induction items arbitrary: row tbl)
  case Nil
  then show ?case by auto
next
  case (Cons item items)
  have small: "row < 2 ^ 31" "row + 1 + int (length items) < 2 ^ 31" using Cons.prems(3) by simp_all
  obtain t where t: "table_row encode row 0 fs item tbl = Inr (Inr t)" "Columns t \<noteq> None"
    "\<forall>r c. cell_at t r c =
      (if r = row \<and> 0 \<le> c \<and> c < 0 + int (length fs)
       then Some (Some (e (FieldValue (Some item) (fst (fs ! nat (c - 0)))))) else cell_at tbl r c)"
    "\<forall>c. column_at t c =
      (if 0 \<le> c \<and> c < 0 + int (length fs) \<and> column_at tbl c = '''' then snd (fs ! nat (c - 0))
       else column_at tbl c)"
    using table_row_meets [OF assms(1) Cons.prems(1,2) small(1), of 0 fs item] assms(5) by auto
  obtain tbl' where tbl': "table_rows encode (row + 1) fs items t = Inr (Inr tbl')" "Columns tbl' \<noteq> None"
    "\<forall>r c. cell_at tbl' r c =
      (if row + 1 \<le> r \<and> r < row + 1 + int (length items) \<and> 0 \<le> c \<and> c < int (length fs)
       then Some (Some (e (FieldValue (Some (items ! nat (r - (row + 1)))) (fst (fs ! nat c))))) else cell_at t r c)"
    "\<forall>c. column_at tbl' c =
      (if items \<noteq> [] \<and> 0 \<le> c \<and> c < int (length fs) \<and> column_at t c = '''' then snd (fs ! nat c)
       else column_at t c)"
    using Cons.IH [OF t(2) _ small(2)] Cons.prems(2) by auto
  have run: "table_rows encode row fs (item # items) tbl = Inr (Inr tbl')" by (simp add: t(1) tbl'(1))
  have at: "items ! nat (r - (row + 1)) = (item # items) ! nat (r - row)" if "row + 1 \<le> r" for r
  proof -
    have "nat (r - row) = Suc (nat (r - (row + 1)))" using that by linarith
    then show ?thesis by simp
  qed
  have cells: "cell_at tbl' r c =
      (if row \<le> r \<and> r < row + int (length (item # items)) \<and> 0 \<le> c \<and> c < int (length fs)
       then Some (Some (e (FieldValue (Some ((item # items) ! nat (r - row))) (fst (fs ! nat c))))) else cell_at tbl r c)"
    for r c
  proof (cases "row + 1 \<le> r")
    case True
    then have "r \<noteq> row" "row \<le> r" by simp_all
    then show ?thesis unfolding tbl'(3) [rule_format, of r c] t(3) [rule_format, of r c] at [OF True]
      using True by (simp add: algebra_simps)
  next
    case False
    then show ?thesis unfolding tbl'(3) [rule_format, of r c] t(3) [rule_format, of r c]
      by (cases "r = row") simp_all
  qed
  have names: "column_at tbl' c =
      (if item # items \<noteq> [] \<and> 0 \<le> c \<and> c < int (length fs) \<and> column_at tbl c = '''' then snd (fs ! nat c)
       else column_at tbl c)" for c
    unfolding tbl'(4) [rule_format, of c] t(4) [rule_format, of c] by simp
  show ?case using run tbl'(2) cells names by blast
qed

text \<open>
  A table has one row per listed object and one column per field, in their orders: the cell of an
  object and a field holds the encoded value of that field (nil where the object has none), there are no
  other cells, and each column has its name, provided that there are as many names as fields and every
  value can be encoded.
\<close>

theorem BuildCTable_cells:
  assumes "encodes encode e" and "flds \<noteq> []" and "length names = length flds"
    and "int (length items) < 2 ^ 31" and "int (length flds) < 2 ^ 31"
  shows "\<exists>tbl. BuildCTable encode items flds names = Inr (Inr tbl) \<and>
    (\<forall>i j. cell_at tbl i j =
      (if 0 \<le> i \<and> i < int (length items) \<and> 0 \<le> j \<and> j < int (length flds)
       then Some (Some (e (FieldValue (Some (items ! nat i)) (flds ! nat j)))) else None)) \<and>
    (\<forall>j < length flds. column_at tbl (int j) = (if items = [] then '''' else names ! j))"
proof -
  let ?t = "\<lparr>Rows = Some [], Columns = Some []\<rparr>"
  have names: "names \<noteq> []" using assms(2,3) by auto
  have len: "length (zip flds names) = length flds" using assms(3) by simp
  obtain tbl where tbl: "table_rows encode 0 (zip flds names) items ?t = Inr (Inr tbl)"
    "\<forall>r c. cell_at tbl r c =
      (if 0 \<le> r \<and> r < 0 + int (length items) \<and> 0 \<le> c \<and> c < int (length (zip flds names))
       then Some (Some (e (FieldValue (Some (items ! nat (r - 0))) (fst (zip flds names ! nat c)))))
       else cell_at ?t r c)"
    "\<forall>c. column_at tbl c =
      (if items \<noteq> [] \<and> 0 \<le> c \<and> c < int (length (zip flds names)) \<and> column_at ?t c = '''' then snd (zip flds names ! nat c)
       else column_at ?t c)"
  proof -
    have "Columns ?t \<noteq> None" "0 + int (length items) < 2 ^ 31" "int (length (zip flds names)) < 2 ^ 31"
      using assms(4,5) by (simp_all add: len del: length_zip)
    from table_rows_meets [OF assms(1) this(1) order_refl this(2,3)] that show thesis by blast
  qed
  have run: "BuildCTable encode items flds names = Inr (Inr tbl)"
    using assms(2,3) names tbl(1) by (simp add: BuildCTable_def table_fields_def Let_def)
  have blank: "cell_at ?t r c = None" "column_at ?t c = ''''" for r c
    by (simp_all add: cell_at_def column_at_def)
  have cells: "cell_at tbl i j = (if 0 \<le> i \<and> i < int (length items) \<and> 0 \<le> j \<and> j < int (length flds)
       then Some (Some (e (FieldValue (Some (items ! nat i)) (flds ! nat j)))) else None)" for i j
    unfolding tbl(2) [rule_format, of i j] len blank using assms(3) by auto
  have cols: "column_at tbl (int j) = (if items = [] then '''' else names ! j)" if "j < length flds" for j
    unfolding tbl(3) [rule_format, of "int j"] len blank using assms(3) that by auto
  show ?thesis using run cells cols by blast
qed

theorem BuildCTable_cells_witness:
  "\<exists>tbl. BuildCTable (\<lambda>v. Inr (map (\<lambda>c. of_nat (of_char c)) (stringify v))) [demo_pod] [''name'', ''metadata.labels.app'']
      [''NAME'', ''APP''] = Inr (Inr tbl) \<and>
    cell_at tbl 0 1 = Some (Some (map (\<lambda>c. of_nat (of_char c)) ''web'')) \<and> column_at tbl 0 = ''NAME''"
proof -
  let ?e = "\<lambda>v. map (\<lambda>c. of_nat (of_char c) :: 8 word) (stringify v)"
  have fv: "FieldValue (Some demo_pod) ''metadata.labels.app'' = JStr ''web''"
    by (simp add: FieldValue_def demo_pod_def Split.simps)
  have enc: "encodes (\<lambda>v. Inr (?e v)) ?e" by (simp add: encodes_def)
  obtain tbl where tbl: "BuildCTable (\<lambda>v. Inr (?e v)) [demo_pod] [''name'', ''metadata.labels.app''] [''NAME'', ''APP''] =
      Inr (Inr tbl)"
    "\<forall>i j. cell_at tbl i j =
      (if 0 \<le> i \<and> i < int (length [demo_pod]) \<and> 0 \<le> j \<and> j < int (length [''name'', ''metadata.labels.app''])
       then Some (Some (?e (FieldValue (Some ([demo_pod] ! nat i)) ([''name'', ''metadata.labels.app''] ! nat j)))) else None)"
    "\<forall>j < length [''name'', ''metadata.labels.app'']. column_at tbl (int j) =
      (if [demo_pod] = [] then '''' else [''NAME'', ''APP''] ! j)"
    using BuildCTable_cells [OF enc, of "[''name'', ''metadata.labels.app'']" "[''NAME'', ''APP'']" "[demo_pod]"] by auto
  have "cell_at tbl 0 1 = Some (Some (?e (JStr ''web'')))"
    unfolding tbl(2) [rule_format, of 0 1] by (simp add: fv)
  moreover have "column_at tbl 0 = ''NAME''" using tbl(3) [rule_format, of 0] by simp
  ultimately show ?thesis using tbl(1) by auto
qed

end
