(* ===== verification/K8s_Spec.thy ===== *)
theory K8s_Spec
  imports Pollaris_Types K8s_Gvr
begin

text \<open>
  \<open>protocols/k8sclient/Spec.go\<close> and the loop of \<open>WarmUp.go\<close>: the cache specification in a poll, its
  defaults and checks, the values taken from job arguments, and the specifications of all Kubernetes
  polls. The JSON decoding of the text into the record is an argument (\<open>unmarshal\<close>, with the decoder's
  error text): the model starts from its result.
\<close>

record cache_spec =
  spec_Result :: string
  spec_Mode :: string
  spec_GVR :: string
  spec_Operations :: "string list"
  spec_Namespace :: string
  spec_NamespaceFromArg :: string
  spec_Name :: string
  spec_NameFromArg :: string
  spec_Selector :: string
  spec_SelectorFromArg :: string
  spec_Fields :: "string list"
  spec_Columns :: "string list"
  spec_ColumnNames :: "string list"

definition ResultMap :: string where "ResultMap = ''map''"
definition ResultTable :: string where "ResultTable = ''table''"
definition ModeGet :: string where "ModeGet = ''get''"
definition ModeList :: string where "ModeList = ''list''"

lemmas spec_consts = ResultMap_def ResultTable_def ModeGet_def ModeList_def

definition default_fields :: "string list" where
  "default_fields = [''metadata.name'', ''metadata.namespace'', ''metadata.uid'']"

text \<open>The assignments of \<open>applyDefaults\<close>, in order.\<close>

definition default_mode :: "cache_spec \<Rightarrow> cache_spec" where
  "default_mode s =
     (if spec_Mode s = '''' then
        s\<lparr>spec_Mode := (if spec_Name s \<noteq> '''' \<or> spec_NameFromArg s \<noteq> '''' then ModeGet else ModeList)\<rparr>
      else s)"

definition default_result :: "cache_spec \<Rightarrow> cache_spec" where
  "default_result s =
     (if spec_Result s = '''' then
        s\<lparr>spec_Result := (if spec_Mode s = ModeGet then ResultMap else ResultTable)\<rparr>
      else s)"

definition default_columns :: "cache_spec \<Rightarrow> cache_spec" where
  "default_columns s0 =
     (let s1 = (if spec_Columns s0 = [] \<and> spec_Fields s0 \<noteq> [] then s0\<lparr>spec_Columns := spec_Fields s0\<rparr> else s0);
          s2 = (if spec_Fields s1 = [] \<and> spec_Columns s1 \<noteq> [] then s1\<lparr>spec_Fields := spec_Columns s1\<rparr> else s1);
          s3 = (if spec_ColumnNames s2 = [] \<and> spec_Columns s2 \<noteq> [] then s2\<lparr>spec_ColumnNames := spec_Columns s2\<rparr> else s2);
          s4 = (if spec_Fields s3 = [] then s3\<lparr>spec_Fields := default_fields\<rparr> else s3);
          s5 = (if spec_Columns s4 = [] then s4\<lparr>spec_Columns := spec_Fields s4\<rparr> else s4)
      in if spec_ColumnNames s5 = [] then s5\<lparr>spec_ColumnNames := spec_Columns s5\<rparr> else s5)"

definition default_operations :: "cache_spec \<Rightarrow> cache_spec" where
  "default_operations s =
     (let ops = (if spec_Operations s = [] then [''CREATE'', ''UPDATE'', ''DELETE''] else spec_Operations s) in
      s\<lparr>spec_Operations := map (\<lambda>op. ToUpper (TrimSpace op)) ops\<rparr>)"

definition applyDefaults :: "poll option \<Rightarrow> cache_spec \<Rightarrow> cache_spec" where
  "applyDefaults pl s0 =
     (let s = default_operations (default_columns (default_result (default_mode
            (s0\<lparr>spec_Result := ToLower (TrimSpace (spec_Result s0)),
              spec_Mode := ToLower (TrimSpace (spec_Mode s0))\<rparr>)))) in
      case pl of
        None \<Rightarrow> s
      | Some pl \<Rightarrow>
          (if spec_Result s = '''' then
             s\<lparr>spec_Result := (if poll_Operation pl = L8C_Table then ResultTable else ResultMap)\<rparr>
           else s))"

definition ParseCacheSpec ::
  "(string \<Rightarrow> string + cache_spec) \<Rightarrow> string \<Rightarrow> poll option \<Rightarrow> string + cache_spec" where
  "ParseCacheSpec unmarshal raw pl =
     (let raw = TrimSpace raw in
      if raw = '''' then Inl ''poll.What is empty''
      else case unmarshal raw of
        Inl err \<Rightarrow> Inl err
      | Inr s0 \<Rightarrow>
          let s = applyDefaults pl s0 in
          if spec_GVR s = '''' then Inl ''cache spec gvr is empty''
          else if spec_Mode s = ModeGet \<and> spec_Name s = '''' \<and> spec_NameFromArg s = ''''
          then Inl ''cache spec get requires name or nameFromArg''
          else Inr s)"

definition resolveSpecValue :: "string \<Rightarrow> string \<Rightarrow> (string \<rightharpoonup> string) option \<Rightarrow> string" where
  "resolveSpecValue literal argName args =
     (case args of
        None \<Rightarrow> literal
      | Some args \<Rightarrow>
          (if argName \<noteq> '''' then (case args argName of None \<Rightarrow> literal | Some v \<Rightarrow> v) else literal))"

section \<open>The specifications of all polls\<close>

text \<open>
  A model list holds nil entries (\<open>None\<close>); the polls of a model are visited in the order of its list,
  which stands for one order of ranging over the map. The map \<open>unique\<close> keeps the first specification
  of each resource and namespace; the result is in the order of the keys.
\<close>

fun specs_of_polls ::
  "(string \<Rightarrow> string + cache_spec) \<Rightarrow> string \<Rightarrow> (string \<times> poll) list \<Rightarrow> (string \<times> cache_spec) list \<Rightarrow>
   string + (string \<times> cache_spec) list" where
  "specs_of_polls unmarshal model [] uniq = Inr uniq"
| "specs_of_polls unmarshal model ((k, pl) # es) uniq =
     (if poll_Protocol pl \<noteq> L8PKubernetesAPI then specs_of_polls unmarshal model es uniq
      else case ParseCacheSpec unmarshal (poll_What pl) (Some pl) of
        Inl err \<Rightarrow> Inl (model @ ''/'' @ poll_Name pl @ '': '' @ err)
      | Inr spec \<Rightarrow>
          let key = spec_GVR spec @ ''::'' @ spec_Namespace spec in
          specs_of_polls unmarshal model es
            (if map_of uniq key = None then AList.update key spec uniq else uniq))"

fun specs_of_models ::
  "(string \<Rightarrow> string + cache_spec) \<Rightarrow> pollaris option list \<Rightarrow> (string \<times> cache_spec) list \<Rightarrow>
   string + (string \<times> cache_spec) list" where
  "specs_of_models unmarshal [] uniq = Inr uniq"
| "specs_of_models unmarshal (None # ms) uniq = specs_of_models unmarshal ms uniq"
| "specs_of_models unmarshal (Some m # ms) uniq =
     (case specs_of_polls unmarshal (plrs_Name m) (plrs_Polling m) uniq of
        Inl err \<Rightarrow> Inl err
      | Inr uniq \<Rightarrow> specs_of_models unmarshal ms uniq)"

definition CacheSpecsFromPollarisModels ::
  "(string \<Rightarrow> string + cache_spec) \<Rightarrow> pollaris option list \<Rightarrow> string + cache_spec list" where
  "CacheSpecsFromPollarisModels unmarshal models =
     (case specs_of_models unmarshal models [] of
        Inl err \<Rightarrow> Inl err
      | Inr uniq \<Rightarrow> Inr (map (\<lambda>k. the (map_of uniq k)) (sort (map fst uniq))))"

section \<open>Laws\<close>

definition complete_spec :: "cache_spec \<Rightarrow> bool" where
  "complete_spec s \<longleftrightarrow> spec_Mode s \<noteq> '''' \<and> spec_Result s \<noteq> '''' \<and> spec_Fields s \<noteq> [] \<and>
     spec_Columns s \<noteq> [] \<and> spec_ColumnNames s \<noteq> [] \<and> spec_Operations s \<noteq> []"

lemma default_mode_simps [simp]:
  "spec_Mode (default_mode s) \<noteq> ''''" "spec_Result (default_mode s) = spec_Result s"
  "spec_Name (default_mode s) = spec_Name s" "spec_NameFromArg (default_mode s) = spec_NameFromArg s"
  "spec_GVR (default_mode s) = spec_GVR s"
  by (simp_all add: default_mode_def spec_consts)

lemma default_result_simps [simp]:
  "spec_Result (default_result s) \<noteq> ''''" "spec_Mode (default_result s) = spec_Mode s"
  "spec_GVR (default_result s) = spec_GVR s"
  by (simp_all add: default_result_def spec_consts)

text \<open>The three column lists after the defaults, as one update.\<close>

definition final_fields :: "cache_spec \<Rightarrow> string list" where
  "final_fields s = (if spec_Fields s \<noteq> [] then spec_Fields s
     else if spec_Columns s \<noteq> [] then spec_Columns s else default_fields)"

definition final_columns :: "cache_spec \<Rightarrow> string list" where
  "final_columns s = (if spec_Columns s \<noteq> [] then spec_Columns s else final_fields s)"

definition final_names :: "cache_spec \<Rightarrow> string list" where
  "final_names s = (if spec_ColumnNames s \<noteq> [] then spec_ColumnNames s else final_columns s)"

lemma default_fields_nonempty: "default_fields \<noteq> []"
  by (simp add: default_fields_def)

lemma default_columns_eq:
  "default_columns s = s\<lparr>spec_Fields := final_fields s, spec_Columns := final_columns s,
     spec_ColumnNames := final_names s\<rparr>"
  by (cases "spec_Fields s = []"; cases "spec_Columns s = []"; cases "spec_ColumnNames s = []")
    (simp_all add: default_columns_def final_fields_def final_columns_def final_names_def default_fields_nonempty)

lemma final_nonempty [simp]: "final_fields s \<noteq> []" "final_columns s \<noteq> []" "final_names s \<noteq> []"
  by (simp_all add: final_fields_def final_columns_def final_names_def default_fields_def)

lemma default_columns_simps [simp]:
  "spec_Fields (default_columns s) = final_fields s" "spec_Columns (default_columns s) = final_columns s"
  "spec_ColumnNames (default_columns s) = final_names s" "spec_Result (default_columns s) = spec_Result s"
  "spec_Mode (default_columns s) = spec_Mode s" "spec_GVR (default_columns s) = spec_GVR s"
  "spec_Operations (default_columns s) = spec_Operations s"
  by (simp_all add: default_columns_eq)

lemma default_operations_simps [simp]:
  "spec_Operations (default_operations s) \<noteq> []" "spec_Result (default_operations s) = spec_Result s"
  "spec_Mode (default_operations s) = spec_Mode s" "spec_Fields (default_operations s) = spec_Fields s"
  "spec_Columns (default_operations s) = spec_Columns s"
  "spec_ColumnNames (default_operations s) = spec_ColumnNames s" "spec_GVR (default_operations s) = spec_GVR s"
  by (simp_all add: default_operations_def Let_def)

lemma applyDefaults_poll: "applyDefaults pl s = applyDefaults None s"
  by (simp add: applyDefaults_def Let_def split: option.split)

lemma applyDefaults_complete: "complete_spec (applyDefaults pl s)"
  by (simp add: applyDefaults_poll [of pl] complete_spec_def) (simp add: applyDefaults_def Let_def)

text \<open>Case conversion keeps text trimmed: no letter is part of a white space sequence.\<close>

definition plain :: "char \<Rightarrow> bool" where
  "plain c \<longleftrightarrow> (let n = of_char c :: nat in \<not> (65 \<le> n \<and> n \<le> 90) \<and> \<not> (97 \<le> n \<and> n \<le> 122))"

lemma lower_plain: "plain c \<Longrightarrow> lower_char x = c \<longleftrightarrow> x = c"
  by (auto simp: plain_def lower_char_def Let_def)

lemma upper_plain: "plain c \<Longrightarrow> upper_char x = c \<longleftrightarrow> x = c"
  by (auto simp: plain_def upper_char_def Let_def)

lemma prefix_map_plain:
  "(\<And>c x. plain c \<Longrightarrow> f x = c \<longleftrightarrow> x = c) \<Longrightarrow> \<forall>c \<in> set p. plain c \<Longrightarrow> prefix p (map f s) \<longleftrightarrow> prefix p s"
proof (induction p arbitrary: s)
  case (Cons c p)
  have IH: "prefix p (map f t) \<longleftrightarrow> prefix p t" for t using Cons by simp
  have "f x = c \<longleftrightarrow> x = c" for x using Cons.prems by simp
  then have "c = f x \<longleftrightarrow> c = x" for x by metis
  then show ?case using IH by (cases s) simp_all
qed simp

lemma spaces_plain: "p \<in> set spaces \<Longrightarrow> \<forall>c \<in> set p. plain c"
  by (auto simp: spaces_def plain_def)

lemma trimmed_map:
  assumes "\<And>c x. plain c \<Longrightarrow> f x = c \<longleftrightarrow> x = c" and "trimmed s"
  shows "trimmed (map f s)"
proof -
  have "\<not> prefix p (map f s)" if "p \<in> set spaces" "p \<noteq> []" for p
    using assms(2) that prefix_map_plain [OF assms(1) spaces_plain [OF that(1)]]
    by (auto simp: trimmed_def clean_def)
  moreover have "\<not> prefix (rev p) (rev (map f s))" if "p \<in> set spaces" "p \<noteq> []" for p
  proof -
    have "\<forall>c \<in> set (rev p). plain c" using spaces_plain [OF that(1)] by simp
    from prefix_map_plain [OF assms(1) this] show ?thesis
      using assms(2) that by (auto simp: trimmed_def clean_def rev_map)
  qed
  ultimately show ?thesis by (auto simp: trimmed_def clean_def)
qed

definition normal_lower :: "string \<Rightarrow> bool" where
  "normal_lower s \<longleftrightarrow> ToLower (TrimSpace s) = s"

lemma normal_lower_fix [simp]: "normal_lower (ToLower (TrimSpace s))"
proof -
  have "trimmed (ToLower (TrimSpace s))"
    unfolding ToLower_def by (rule trimmed_map [OF lower_plain TrimSpace_trimmed])
  then show ?thesis by (simp add: normal_lower_def TrimSpace_id) (simp add: ToLower_def)
qed

lemma normal_upper_fix: "ToUpper (TrimSpace (ToUpper (TrimSpace s))) = ToUpper (TrimSpace s)"
proof -
  have "trimmed (ToUpper (TrimSpace s))"
    unfolding ToUpper_def by (rule trimmed_map [OF upper_plain TrimSpace_trimmed])
  then show ?thesis by (simp add: TrimSpace_id) (simp add: ToUpper_def)
qed

lemma normal_consts: "normal_lower ''map''" "normal_lower ''table''" "normal_lower ''get''" "normal_lower ''list''"
proof -
  have "trimmed ''map''" "trimmed ''table''" "trimmed ''get''" "trimmed ''list''"
    by (rule trimmed_ascii; simp)+
  then show "normal_lower ''map''" "normal_lower ''table''" "normal_lower ''get''" "normal_lower ''list''"
    by (simp_all add: normal_lower_def TrimSpace_id ToLower_def lower_char_def)
qed

text \<open>A specification the defaults leave alone.\<close>

definition settled :: "cache_spec \<Rightarrow> bool" where
  "settled s \<longleftrightarrow> complete_spec s \<and> normal_lower (spec_Mode s) \<and> normal_lower (spec_Result s) \<and>
     map (\<lambda>op. ToUpper (TrimSpace op)) (spec_Operations s) = spec_Operations s"

lemma settled_fix: "settled s \<Longrightarrow> applyDefaults pl s = s"
  unfolding applyDefaults_poll [of pl]
  by (simp add: settled_def complete_spec_def normal_lower_def applyDefaults_def Let_def default_mode_def
      default_result_def default_columns_eq final_fields_def final_columns_def final_names_def
      default_operations_def)

lemma applyDefaults_settled: "settled (applyDefaults pl s)"
proof -
  let ?s0 = "s\<lparr>spec_Result := ToLower (TrimSpace (spec_Result s)), spec_Mode := ToLower (TrimSpace (spec_Mode s))\<rparr>"
  have m: "normal_lower (spec_Mode (default_mode ?s0))" "normal_lower (spec_Result (default_mode ?s0))"
    by (simp_all add: default_mode_def spec_consts normal_consts)
  have r: "normal_lower (spec_Mode (default_result (default_mode ?s0)))"
    "normal_lower (spec_Result (default_result (default_mode ?s0)))"
    using m by (simp only: default_result_simps) (use m in \<open>simp add: default_result_def spec_consts normal_consts\<close>)
  have "normal_lower (spec_Mode (applyDefaults None s))" "normal_lower (spec_Result (applyDefaults None s))"
    using r by (simp_all add: applyDefaults_def Let_def)
  moreover have "map (\<lambda>op. ToUpper (TrimSpace op)) (spec_Operations (applyDefaults None s)) =
      spec_Operations (applyDefaults None s)"
    by (simp add: applyDefaults_def Let_def default_operations_def normal_upper_fix)
  ultimately show ?thesis
    using applyDefaults_complete [of None s] by (simp add: settled_def applyDefaults_poll [of pl])
qed

text \<open>
  C38. A specification that parses is complete: it has a resource, a mode and a result type, fields,
  columns, column names and operations; a get has a name or takes one from an argument; applying the
  defaults again changes nothing; and the operation of the poll has no influence (its branch of the
  defaults is never taken).
\<close>

theorem ParseCacheSpec_complete:
  assumes "ParseCacheSpec unmarshal raw pl = Inr s"
  shows "complete_spec s \<and> spec_GVR s \<noteq> '''' \<and>
    (spec_Mode s = ModeGet \<longrightarrow> spec_Name s \<noteq> '''' \<or> spec_NameFromArg s \<noteq> '''') \<and>
    applyDefaults pl s = s \<and> ParseCacheSpec unmarshal raw pl' = Inr s"
proof -
  obtain s0 where s0: "TrimSpace raw \<noteq> ''''" "unmarshal (TrimSpace raw) = Inr s0" "s = applyDefaults pl s0"
    "spec_GVR s \<noteq> ''''" "\<not> (spec_Mode s = ModeGet \<and> spec_Name s = '''' \<and> spec_NameFromArg s = '''')"
    using assms by (auto simp: ParseCacheSpec_def Let_def split: if_splits sum.splits)
  have same: "applyDefaults pl' s0 = s" using s0(3) by (simp only: applyDefaults_poll [of pl] applyDefaults_poll [of pl'])
  have "ParseCacheSpec unmarshal raw pl' = Inr s"
    using s0(1,2,4,5) same by (auto simp: ParseCacheSpec_def Let_def)
  moreover have "applyDefaults pl s = s"
    unfolding s0(3) by (rule settled_fix [OF applyDefaults_settled])
  ultimately show ?thesis using s0 applyDefaults_complete by blast
qed

definition blank_spec :: cache_spec where
  "blank_spec = \<lparr>spec_Result = '''', spec_Mode = '''', spec_GVR = '''', spec_Operations = [],
     spec_Namespace = '''', spec_NamespaceFromArg = '''', spec_Name = '''', spec_NameFromArg = '''',
     spec_Selector = '''', spec_SelectorFromArg = '''', spec_Fields = [], spec_Columns = [],
     spec_ColumnNames = []\<rparr>"

text \<open>A decoder for one text, to instantiate \<open>unmarshal\<close> with.\<close>

definition demo_unmarshal :: "string \<Rightarrow> string + cache_spec" where
  "demo_unmarshal raw = (if raw = ''{pods}'' then Inr (blank_spec\<lparr>spec_GVR := ''v1/pods''\<rparr>) else Inl ''invalid'')"

lemma trim_pods: "TrimSpace ''{pods}'' = ''{pods}''"
  by (rule TrimSpace_id, rule trimmed_ascii) simp_all

lemma trim_words [simp]: "TrimSpace ''CREATE'' = ''CREATE''" "TrimSpace ''UPDATE'' = ''UPDATE''"
  "TrimSpace ''DELETE'' = ''DELETE''"
  by (rule TrimSpace_id, rule trimmed_ascii; simp)+

lemma trim_Nil [simp]: "TrimSpace [] = []"
  by (simp add: TrimSpace_id)

theorem ParseCacheSpec_complete_witness:
  "\<exists>s. ParseCacheSpec demo_unmarshal ''{pods}'' None = Inr s \<and> spec_Mode s = ''list'' \<and>
     spec_Result s = ''table'' \<and> complete_spec s"
proof -
  let ?s = "applyDefaults None (blank_spec\<lparr>spec_GVR := ''v1/pods''\<rparr>)"
  have f: "spec_Mode ?s = ''list''" "spec_Result ?s = ''table''" "spec_GVR ?s = ''v1/pods''"
    by (simp_all add: applyDefaults_def Let_def default_mode_def default_result_def default_columns_eq
        default_operations_def blank_spec_def spec_consts ToLower_def)
  have "ParseCacheSpec demo_unmarshal ''{pods}'' None = Inr ?s"
    using f by (simp add: ParseCacheSpec_def trim_pods demo_unmarshal_def Let_def ModeGet_def)
  from ParseCacheSpec_complete [OF this] this f show ?thesis by blast
qed

end
