(* ===== verification/K8s_Client.thy ===== *)
theory K8s_Client
  imports K8s_Runtime K8s_Enrich K8s_Result K8s_Spec Protocol_Collector
begin

text \<open>
  \<open>protocols/k8sclient/ClientGoCollector.go\<close>: the cache-first Kubernetes collector on top of the shared
  runtime. What lies outside \<open>src/\<close> is in \<open>client_env\<close>: the informer library (which says whether the
  informer of a resource and namespace synchronises, and the objects in its store), the API server, the
  sources of a configuration, the Pollaris lookup, the JSON decoder and the serializer, the clock, and the
  orders of ranging over maps. Logging is not modelled.
\<close>

text \<open>An unstructured object of the library: its accessors and its map (nil is \<open>JNull\<close>).\<close>

record k8s_item =
  item_Namespace :: string
  item_Name :: string
  item_UID :: string
  item_ResourceVersion :: string
  item_Object :: jval

datatype informer_obj = Unstructured k8s_item | DeletedFinalStateUnknown informer_obj | NotAnObject

record go_collector =
  cg_resources :: bool
  cg_config :: "host_protocol option"

section \<open>Configuration\<close>

text \<open>
  Where the configuration comes from: the cluster, the credential of the host (base64 or plain text),
  the file of an environment variable, one of two local files.
\<close>

record config_sources =
  in_cluster :: "string + string"
  credential :: "string \<Rightarrow> string + string"
  decode64 :: "string \<Rightarrow> string + string"
  parse_config :: "string \<Rightarrow> string + string"
  env_path :: string
  build_config :: "string \<Rightarrow> string + string"
  file_exists :: "string \<Rightarrow> bool"

definition restConfigFromString :: "config_sources \<Rightarrow> string \<Rightarrow> string + string" where
  "restConfigFromString src kubeconfig =
     (case decode64 src kubeconfig of
        Inl decodeErr \<Rightarrow>
          (if Contains kubeconfig ''apiVersion:'' then parse_config src kubeconfig else Inl decodeErr)
      | Inr data \<Rightarrow> parse_config src data)"

fun first_config :: "(string \<Rightarrow> string + string) \<Rightarrow> string list \<Rightarrow> string \<Rightarrow> string + string" where
  "first_config build [] err = Inl err"
| "first_config build (p # ps) err = (case build p of Inl _ \<Rightarrow> first_config build ps err | Inr cfg \<Rightarrow> Inr cfg)"

definition local_config :: "config_sources \<Rightarrow> string \<Rightarrow> string + string" where
  "local_config src err =
     first_config (build_config src)
       ((if env_path src \<noteq> '''' then [env_path src] else []) @
        filter (file_exists src) [''admin.conf'', ''go/admin.conf'']) err"

definition kubeConfig :: "config_sources \<Rightarrow> go_collector \<Rightarrow> string + string" where
  "kubeConfig src c =
     (case in_cluster src of
        Inr cfg \<Rightarrow> Inr cfg
      | Inl err \<Rightarrow>
          (case cg_config c of
             None \<Rightarrow> local_config src err
           | Some config \<Rightarrow>
               (if cg_resources c \<and> cfg_CredId config \<noteq> '''' then
                  (case credential src (cfg_CredId config) of
                     Inr kubeconfig \<Rightarrow> restConfigFromString src kubeconfig
                   | Inl _ \<Rightarrow> local_config src err)
                else local_config src err)))"

record 'k client_env =
  ce_enrich :: enrich_env
  ce_now :: int
  ce_ord :: "cache \<Rightarrow> cache"
  ce_subs :: "nat list \<Rightarrow> nat list"
  ce_sync :: "gvr \<Rightarrow> string \<Rightarrow> informer_obj list option"
  ce_sources :: config_sources
  ce_newForConfig :: "string \<Rightarrow> string + 'k"
  ce_poll :: "string \<Rightarrow> string \<Rightarrow> string + poll"
  ce_unmarshal :: "string \<Rightarrow> string + cache_spec"
  ce_encode :: "jval \<Rightarrow> string + bytes"
  ce_encode_map :: "cmap \<Rightarrow> string + bytes"
  ce_encode_table :: "ctable \<Rightarrow> string + bytes"
  ce_clusterName :: string
  ce_startServer :: "string option"

type_synonym 'k client = "go_collector \<times> 'k shared_runtime"

section \<open>Informers\<close>

definition normalizeObject :: "enrich_env \<Rightarrow> string \<Rightarrow> k8s_item \<Rightarrow> string \<Rightarrow> cached_object" where
  "normalizeObject env g item op =
     \<lparr>co_GVR = g, co_Namespace = item_Namespace item, co_Name = item_Name item, co_UID = item_UID item,
      co_ResourceVersion = item_ResourceVersion item, co_Operation = op,
      co_Object = (case item_Object item of JObj kvs \<Rightarrow> JObj (enrichObject env g kvs) | v \<Rightarrow> v),
      co_Related = [], co_ObservedAt = 0\<rparr>"

definition extractDeletedObject :: "informer_obj \<Rightarrow> k8s_item option" where
  "extractDeletedObject obj =
     (case obj of
        Unstructured item \<Rightarrow> Some item
      | DeletedFinalStateUnknown (Unstructured item) \<Rightarrow> Some item
      | _ \<Rightarrow> None)"

definition cache_upsert :: "int \<Rightarrow> cached_object \<Rightarrow> 'k shared_runtime \<Rightarrow> 'k shared_runtime res" where
  "cache_upsert now obj s =
     bind_res (deref (rt_cache s)) (\<lambda>c. Inr (s\<lparr>rt_cache := Some (Upsert now (Some obj) c)\<rparr>))"

definition delete_resource ::
  "'k client_env \<Rightarrow> string \<Rightarrow> string \<Rightarrow> string \<Rightarrow> 'k shared_runtime \<Rightarrow> 'k shared_runtime res" where
  "delete_resource env g ns n s =
     bind_res (deref (rt_cache s)) (\<lambda>c.
       case handleResourceDeletion (rt_onDelete s) (ce_ord env) g ns n (c, rt_deletions s) of
         (c, log) \<Rightarrow> Inr (s\<lparr>rt_cache := Some c, rt_deletions := log\<rparr>))"

text \<open>The three event handlers of an informer.\<close>

definition informer_put ::
  "'k client_env \<Rightarrow> string \<Rightarrow> string \<Rightarrow> informer_obj \<Rightarrow> 'k shared_runtime \<Rightarrow> 'k shared_runtime res" where
  "informer_put env g op obj s =
     (case obj of
        Unstructured item \<Rightarrow> cache_upsert (ce_now env) (normalizeObject (ce_enrich env) g item op) s
      | _ \<Rightarrow> Inr s)"

definition AddFunc where "AddFunc env g = informer_put env g ''ADD''"
definition UpdateFunc where "UpdateFunc env g = informer_put env g ''UPDATE''"

definition DeleteFunc ::
  "'k client_env \<Rightarrow> string \<Rightarrow> informer_obj \<Rightarrow> 'k shared_runtime \<Rightarrow> 'k shared_runtime res" where
  "DeleteFunc env g obj s =
     (case extractDeletedObject obj of
        None \<Rightarrow> Inr s
      | Some item \<Rightarrow> delete_resource env g (item_Namespace item) (item_Name item) s)"

fun seed_cache ::
  "'k client_env \<Rightarrow> string \<Rightarrow> informer_obj list \<Rightarrow> 'k shared_runtime \<Rightarrow> 'k shared_runtime res" where
  "seed_cache env g [] s = Inr s"
| "seed_cache env g (obj # objs) s = bind_res (informer_put env g ''ADD'' obj s) (seed_cache env g objs)"

definition startInformer ::
  "'k client_env \<Rightarrow> gvr \<Rightarrow> string \<Rightarrow> string \<Rightarrow> string \<Rightarrow> 'k shared_runtime \<Rightarrow>
   (string option \<times> 'k shared_runtime) res" where
  "startInformer env gv gvrText namespace warmKey s =
     (case ce_sync env gv namespace of
        None \<Rightarrow> Inr (Some (''failed to sync informer cache for '' @ warmKey), s)
      | Some objs \<Rightarrow> bind_res (seed_cache env gvrText objs s) (\<lambda>s. Inr (None, s)))"

text \<open>The function that the once of a key runs, and the whole of \<open>ensureWatching\<close>.\<close>

definition watch_once ::
  "'k client_env \<Rightarrow> string \<Rightarrow> string \<Rightarrow> string \<Rightarrow> 'k shared_runtime \<Rightarrow>
   (string option \<times> 'k shared_runtime) res" where
  "watch_once env gvrText namespace warmKey s =
     (case ParseGVR gvrText of
        Inl err \<Rightarrow> Inr (Some err, s)
      | Inr gv \<Rightarrow>
          bind_res (startInformer env gv gvrText namespace warmKey s) (\<lambda>(startErr, s).
            case startErr of
              Some err \<Rightarrow> Inr (Some err, s)
            | None \<Rightarrow> bind_res (markWarmed warmKey s) (\<lambda>s. Inr (None, s))))"

definition ensureWatching ::
  "'k client_env \<Rightarrow> string \<Rightarrow> string \<Rightarrow> 'k shared_runtime \<Rightarrow>
   (string option \<times> 'k shared_runtime) res" where
  "ensureWatching env gvrText namespace s =
     (if rt_dynamicClient s = None \<or> gvrText = '''' then Inr (None, s)
      else if namespace \<noteq> '''' \<and> isWarmed (cacheKey gvrText '''' ''*'') s then Inr (None, s)
      else
        let warmKey = cacheKey gvrText namespace ''*'' in
        if isWarmed warmKey s then Inr (None, s)
        else case onceForKey warmKey s of (fired, s) \<Rightarrow>
          if fired then Inr (None, s)
          else bind_res (watch_once env gvrText namespace warmKey s) (\<lambda>(err, s).
            Inr (err, once_ran warmKey s)))"

section \<open>Jobs\<close>

definition job_fails :: "string \<Rightarrow> cjob \<Rightarrow> cjob" where
  "job_fails err job = job\<lparr>Error := err, ErrorCount := ErrorCount job + 1\<rparr>"

definition execMap ::
  "'k client_env \<Rightarrow> cache_spec \<Rightarrow> string \<Rightarrow> string \<Rightarrow> cache \<Rightarrow> cjob \<Rightarrow> cjob" where
  "execMap env spec namespace name c job =
     (case Cache_Get (spec_GVR spec) namespace name c of
        None \<Rightarrow> job_fails (''cache miss for '' @ spec_GVR spec @ ''/'' @ namespace @ ''/'' @ name) job
      | Some item \<Rightarrow>
          (case BuildCMap (ce_encode env) (Some item) (spec_Fields spec) of
             Inl err \<Rightarrow> job_fails err job
           | Inr m \<Rightarrow>
               (case ce_encode_map env m of
                  Inl err \<Rightarrow> job_fails err job
                | Inr bs \<Rightarrow> job\<lparr>Result := Some bs\<rparr>)))"

definition execTable ::
  "'k client_env \<Rightarrow> cache_spec \<Rightarrow> string \<Rightarrow> string \<Rightarrow> cache \<Rightarrow> cjob \<Rightarrow> cjob res" where
  "execTable env spec namespace selector c job =
     bind_res (BuildCTable (ce_encode env) (Cache_List (ce_ord env) (spec_GVR spec) namespace selector c)
         (spec_Fields spec) (spec_ColumnNames spec)) (\<lambda>tbl.
       case tbl of
         Inl err \<Rightarrow> Inr (job_fails err job)
       | Inr tbl \<Rightarrow>
           (case ce_encode_table env tbl of
              Inl err \<Rightarrow> Inr (job_fails err job)
            | Inr bs \<Rightarrow> Inr (job\<lparr>Result := Some bs\<rparr>)))"

definition Connect :: "'k client_env \<Rightarrow> 'k client \<Rightarrow> string option \<times> 'k client" where
  "Connect env cs =
     (case runtime_connect (\<lambda>s. s) (kubeConfig (ce_sources env) (fst cs)) (ce_newForConfig env)
         (runtime_init (snd cs)) of (err, s) \<Rightarrow> (err, (fst cs, s)))"

definition client_disconnect :: "'k client_env \<Rightarrow> 'k client \<Rightarrow> 'k client res" where
  "client_disconnect env cs =
     bind_res (runtime_disconnect (ce_subs env) (snd cs)) (\<lambda>s.
       Inr ((fst cs)\<lparr>cg_resources := False, cg_config := None\<rparr>, s))"

definition client_online :: "'k client \<Rightarrow> bool" where
  "client_online cs = rt_connected (snd cs)"

text \<open>The body of \<open>Exec\<close> after the connection, and the result of a specification.\<close>

definition exec_result ::
  "'k client_env \<Rightarrow> cache_spec \<Rightarrow> string \<Rightarrow> string \<Rightarrow> cache \<Rightarrow> cjob \<Rightarrow> cjob res" where
  "exec_result env spec namespace name c job =
     bind_res
       (if spec_Result spec = ResultMap then Inr (execMap env spec namespace name c job)
        else if spec_Result spec = ResultTable then
          execTable env spec namespace
            (resolveSpecValue (spec_Selector spec) (spec_SelectorFromArg spec) (Arguments job)) c job
        else Inr (job_fails (''unsupported cache result type '' @ spec_Result spec) job))
       (\<lambda>job. Inr (if Error job \<noteq> '''' then job else job\<lparr>ErrorCount := 0\<rparr>))"

definition exec_spec :: "'k client_env \<Rightarrow> cjob \<Rightarrow> string + cache_spec" where
  "exec_spec env job =
     (case ce_poll env (PollarisName job) (JobName job) of
        Inl err \<Rightarrow> Inl err
      | Inr pl \<Rightarrow> ParseCacheSpec (ce_unmarshal env) (poll_What pl) (Some pl))"

definition Exec :: "'k client_env \<Rightarrow> 'k client \<Rightarrow> cjob \<Rightarrow> ('k client \<times> cjob) res" where
  "Exec env cs job =
     (case (if rt_connected (snd cs) then (None, cs) else Connect env cs) of
        (Some err, cs) \<Rightarrow> Inr (cs, job_fails err job)
      | (None, cs) \<Rightarrow>
          if \<not> cg_resources (fst cs) then Inl NilDeref
          else case exec_spec env job of
            Inl err \<Rightarrow> Inr (cs, job_fails err job)
          | Inr spec \<Rightarrow>
              let namespace = resolveSpecValue (spec_Namespace spec) (spec_NamespaceFromArg spec) (Arguments job);
                  name = resolveSpecValue (spec_Name spec) (spec_NameFromArg spec) (Arguments job)
              in bind_res (ensureWatching env (spec_GVR spec) namespace (snd cs)) (\<lambda>(err, s).
                case err of
                  Some e \<Rightarrow> Inr ((fst cs, s), job_fails e job)
                | None \<Rightarrow>
                    bind_res (deref (rt_cache s)) (\<lambda>c.
                    bind_res (exec_result env spec namespace name c job) (\<lambda>job.
                      Inr ((fst cs, s), job)))))"

section \<open>Admission events and start\<close>

definition ensureAdmissionServerStarted :: "'k client_env \<Rightarrow> 'k client \<Rightarrow> string option \<times> 'k client" where
  "ensureAdmissionServerStarted env cs =
     (case cg_config (fst cs) of
        None \<Rightarrow> (None, cs)
      | Some config \<Rightarrow>
          if cfg_Protocol config \<noteq> L8PKubernetesAPI \<or> ce_clusterName env = '''' then (None, cs)
          else case ensureAdmissionServer (\<lambda>s.
                 case Connect env (fst cs, s) of
                   (Some err, cs) \<Rightarrow> (Some err, snd cs)
                 | (None, cs) \<Rightarrow> (ce_startServer env, startReaper (snd cs))) (snd cs) of
               (err, s) \<Rightarrow> (err, (fst cs, s)))"

definition client_init :: "'k client_env \<Rightarrow> host_protocol \<Rightarrow> 'k shared_runtime \<Rightarrow> string option \<times> 'k client" where
  "client_init env config s =
     ensureAdmissionServerStarted env (\<lparr>cg_resources = True, cg_config = Some config\<rparr>, runtime_init s)"

record admission_event =
  ev_UID :: string
  ev_Group :: string
  ev_Version :: string
  ev_Resource :: string
  ev_SubResource :: string
  ev_Namespace :: string
  ev_Name :: string
  ev_Operation :: string
  ev_Object :: "k8s_item option"
  ev_OldObject :: "k8s_item option"

definition handleAdmissionEvent ::
  "'k client_env \<Rightarrow> admission_event \<Rightarrow> 'k shared_runtime \<Rightarrow> (string option \<times> 'k shared_runtime) res" where
  "handleAdmissionEvent env event s =
     (let gvrText = gvr_text (ev_Group event) (ev_Version event) (ev_Resource event) in
      bind_res (ensureWatching env gvrText (ev_Namespace event) s) (\<lambda>(err, s).
        case err of
          Some e \<Rightarrow> Inr (Some e, s)
        | None \<Rightarrow>
            if ev_Operation event = ''DELETE'' then
              bind_res (delete_resource env gvrText (ev_Namespace event) (ev_Name event) s) (\<lambda>s. Inr (None, s))
            else
              bind_res (case ev_Object event of
                  None \<Rightarrow> Inr s
                | Some item \<Rightarrow>
                    cache_upsert (ce_now env)
                      (normalizeObject (ce_enrich env) gvrText item (ev_Operation event)) s) (\<lambda>s.
              bind_res (notifySubscribers (ce_subs env) s) (\<lambda>s. Inr (None, s)))))"

end
