(* ===== verification/K8s_Client_Theorems.thy ===== *)
theory K8s_Client_Theorems
  imports K8s_Client
begin

text \<open>
  The correctness of the Kubernetes client collector: its \<open>Exec\<close> keeps the contract of the interface,
  admission events and jobs meet in the cache, and what happens to a watch that fails to start.
\<close>

section \<open>The state between operations\<close>

definition state_ok :: "'k shared_runtime \<Rightarrow> bool" where
  "state_ok s \<longleftrightarrow> runtime_ok s \<and> (\<exists>c. rt_cache s = Some c \<and> cache_ok c) \<and>
     rt_warmed s \<noteq> None \<and> rt_warmOnce s \<noteq> None"

definition client_ok :: "'k client \<Rightarrow> bool" where
  "client_ok cs \<longleftrightarrow> cg_resources (fst cs) \<and> state_ok (snd cs)"

lemma state_okE:
  assumes "state_ok s"
  obtains c ks os where "rt_cache s = Some c" "cache_ok c" "rt_warmed s = Some ks" "rt_warmOnce s = Some os"
    "runtime_ok s"
  using assms by (auto simp: state_ok_def)

lemma state_ok_same:
  "state_ok s \<Longrightarrow> runtime_ok s' \<Longrightarrow> rt_cache s' = rt_cache s \<Longrightarrow> rt_warmed s' \<noteq> None \<Longrightarrow> rt_warmOnce s' \<noteq> None \<Longrightarrow>
    state_ok s'"
  by (simp add: state_ok_def)

lemma upsert_state_ok:
  assumes "state_ok s"
  shows "\<exists>s'. cache_upsert now obj s = Inr s' \<and> state_ok s' \<and> rt_dynamicClient s' = rt_dynamicClient s \<and>
    rt_cache s' = Some (Upsert now (Some obj) (the (rt_cache s))) \<and> rt_connected s' = rt_connected s \<and>
    rt_warmed s' = rt_warmed s \<and> rt_warmOnce s' = rt_warmOnce s \<and> rt_chans s' = rt_chans s \<and>
    rt_subscribers s' = rt_subscribers s"
proof -
  obtain c ks os where c: "rt_cache s = Some c" "cache_ok c" "rt_warmed s = Some ks" "rt_warmOnce s = Some os"
    "runtime_ok s"
    using assms by (rule state_okE)
  let ?s = "s\<lparr>rt_cache := Some (Upsert now (Some obj) c)\<rparr>"
  have "runtime_ok ?s" by (rule runtime_ok_same [OF c(5)]) simp_all
  then have "state_ok ?s" using c Upsert_ok [OF c(2)] by (simp add: state_ok_def)
  then show ?thesis using c by (intro exI [of _ ?s]) (simp add: cache_upsert_def)
qed

lemma informer_put_ok:
  assumes "state_ok s"
  shows "\<exists>s'. informer_put env g op obj s = Inr s' \<and> state_ok s'"
  using assms upsert_state_ok [OF assms, of "ce_now env"]
  by (cases obj) (auto simp: informer_put_def intro: upsert_state_ok)

lemma seed_cache_ok:
  "state_ok s \<Longrightarrow> \<exists>s'. seed_cache env g objs s = Inr s' \<and> state_ok s'"
proof (induction objs arbitrary: s)
  case (Cons obj objs)
  obtain s1 where "informer_put env g ''ADD'' obj s = Inr s1" "state_ok s1"
    using informer_put_ok [OF Cons.prems] by blast
  then show ?case using Cons.IH by simp
qed simp

lemma markWarmed_state_ok:
  assumes "state_ok s"
  shows "\<exists>s'. markWarmed key s = Inr s' \<and> state_ok s'"
proof -
  obtain c ks os where c: "rt_cache s = Some c" "cache_ok c" "rt_warmed s = Some ks" "rt_warmOnce s = Some os"
    "runtime_ok s"
    using assms by (rule state_okE)
  let ?s = "s\<lparr>rt_warmed := Some (List.insert key ks)\<rparr>"
  have "runtime_ok ?s" by (rule runtime_ok_same [OF c(5)]) simp_all
  then have "state_ok ?s" using c by (simp add: state_ok_def)
  then show ?thesis using c by (simp add: markWarmed_def)
qed

lemma watch_once_ok:
  assumes "state_ok s"
  shows "\<exists>err s'. watch_once env g ns key s = Inr (err, s') \<and> state_ok s'"
proof (cases "ParseGVR g")
  case (Inl err)
  then show ?thesis using assms by (simp add: watch_once_def)
next
  case (Inr gv)
  show ?thesis
  proof (cases "ce_sync env gv ns")
    case None
    then show ?thesis using assms Inr by (simp add: watch_once_def startInformer_def)
  next
    case (Some objs)
    obtain s1 where s1: "seed_cache env g objs s = Inr s1" "state_ok s1" using seed_cache_ok [OF assms] by blast
    obtain s2 where "markWarmed key s1 = Inr s2" "state_ok s2" using markWarmed_state_ok [OF s1(2)] by blast
    then show ?thesis using s1 Inr Some by (simp add: watch_once_def startInformer_def)
  qed
qed

lemma once_state_ok:
  assumes "state_ok s"
  shows "state_ok (snd (onceForKey key s))" and "state_ok (once_ran key s)"
proof -
  obtain c ks os where c: "rt_cache s = Some c" "cache_ok c" "rt_warmed s = Some ks" "rt_warmOnce s = Some os"
    "runtime_ok s"
    using assms by (rule state_okE)
  show "state_ok (snd (onceForKey key s))"
    by (rule state_ok_same [OF assms quiet_steps(5) [OF c(5)]])
      (use c in \<open>simp_all add: onceForKey_def Let_def split: option.split\<close>)
  show "state_ok (once_ran key s)"
    by (rule state_ok_same [OF assms quiet_steps(6) [OF c(5)]]) (use c in \<open>simp_all add: once_ran_def\<close>)
qed

lemma ensureWatching_ok:
  assumes "state_ok s"
  shows "\<exists>err s'. ensureWatching env g ns s = Inr (err, s') \<and> state_ok s'"
proof -
  let ?k = "cacheKey g ns ''*''"
  obtain fired s1 where o: "onceForKey ?k s = (fired, s1)" by (cases "onceForKey ?k s")
  then have s1: "state_ok s1" using once_state_ok(1) [OF assms, of ?k] by simp
  obtain err s2 where w: "watch_once env g ns ?k s1 = Inr (err, s2)" "state_ok s2"
    using watch_once_ok [OF s1] by blast
  show ?thesis
    unfolding ensureWatching_def Let_def o using assms s1 w once_state_ok(2) [OF w(2), of ?k] by auto
qed

lemma init_state_ok:
  assumes "state_ok s"
  shows "state_ok (runtime_init s)"
proof -
  obtain c ks os where c: "rt_cache s = Some c" "cache_ok c" "rt_warmed s = Some ks" "rt_warmOnce s = Some os"
    "runtime_ok s"
    using assms by (rule state_okE)
  show ?thesis
    by (rule state_ok_same [OF assms init_runtime_ok [OF c(5)]])
      (use c in \<open>simp_all add: runtime_init_def Let_def make_chan_def\<close>)
qed

lemma Connect_ok:
  assumes "client_ok cs" and "Connect env cs = (err, cs')"
  shows "client_ok cs'"
proof -
  have i: "state_ok (runtime_init (snd cs))" using assms(1) init_state_ok [of "snd cs"] by (simp add: client_ok_def)
  then have r: "runtime_ok (runtime_init (snd cs))" by (simp add: state_ok_def)
  have p: "state_ok (connect_publish cfg client (runtime_init (snd cs)))" for cfg client
    by (rule state_ok_same [OF i quiet_steps(1) [OF r]]) (use i in \<open>simp_all add: connect_publish_def state_ok_def\<close>)
  show ?thesis
    using assms i p by (auto simp: client_ok_def Connect_def runtime_connect_def split: if_splits sum.splits)
qed

section \<open>The contract of Exec\<close>

lemma exec_frame_fails [simp]: "exec_frame i (job_fails err j) = exec_frame i j"
  by (simp add: job_fails_def)

lemma execMap_frame: "exec_frame job (execMap env spec ns n c job)"
  by (simp add: execMap_def split: option.split sum.split)

text \<open>A table does not panic: it is built with a column map.\<close>

lemma table_row_returns:
  "Columns tbl \<noteq> None \<Longrightarrow> \<exists>r. table_row encode row col fs item tbl = Inr r \<and>
    (case r of Inl _ \<Rightarrow> True | Inr t \<Rightarrow> Columns t \<noteq> None)"
proof (induction fs arbitrary: col tbl)
  case (Cons fn fs)
  obtain f n where fn: "fn = (f, n)" by (cases fn)
  show ?case
  proof (cases "encode (FieldValue (Some item) f)")
    case (Inr bs)
    obtain t where t: "SetValue (int32 row) (int32 col) n (Some bs) (Some tbl) = Inr (Some t)" "Columns t \<noteq> None"
      by (rule SetValue_meets [OF Cons.prems, of "int32 row" "int32 col" n "Some bs"])
    then show ?thesis using Cons.IH [OF t(2), of "col + 1"] by (simp add: fn Inr)
  qed (simp add: fn)
qed simp

lemma table_rows_returns:
  "Columns tbl \<noteq> None \<Longrightarrow> \<exists>r. table_rows encode row fs items tbl = Inr r"
proof (induction items arbitrary: row tbl)
  case (Cons item items)
  obtain r where r: "table_row encode row 0 fs item tbl = Inr r"
    "case r of Inl _ \<Rightarrow> True | Inr t \<Rightarrow> Columns t \<noteq> None"
    using table_row_returns [OF Cons.prems] by blast
  then show ?case using Cons.IH by (cases r) simp_all
qed simp

lemma BuildCTable_returns: "\<exists>r. BuildCTable encode items flds names = Inr r"
  using table_rows_returns [of "\<lparr>Rows = Some [], Columns = Some []\<rparr>"] by (simp add: BuildCTable_def Let_def)

lemma execTable_frame: "\<exists>j. execTable env spec ns sel c job = Inr j \<and> exec_frame job j"
proof -
  obtain r where "BuildCTable (ce_encode env) (Cache_List (ce_ord env) (spec_GVR spec) ns sel c)
      (spec_Fields spec) (spec_ColumnNames spec) = Inr r"
    using BuildCTable_returns by blast
  then show ?thesis by (auto simp: execTable_def split: sum.split)
qed

lemma exec_result_frame: "\<exists>j. exec_result env spec ns n c job = Inr j \<and> exec_frame job j"
  using execTable_frame [of env spec ns "resolveSpecValue (spec_Selector spec) (spec_SelectorFromArg spec) (Arguments job)" c job]
    execMap_frame [of job env spec ns n c]
  by (auto simp: exec_result_def)

lemma Exec_returns:
  assumes "client_ok cs"
  shows "\<exists>cs' job'. Exec env cs job = Inr (cs', job') \<and> client_ok cs' \<and> exec_frame job job'"
proof -
  obtain e cs1 where con: "(if rt_connected (snd cs) then (None, cs) else Connect env cs) = (e, cs1)"
    by (cases "if rt_connected (snd cs) then (None, cs) else Connect env cs")
  have ok1: "client_ok cs1" using con Connect_ok [OF assms] assms by (auto split: if_splits)
  then have res: "cg_resources (fst cs1)" and st: "state_ok (snd cs1)" by (simp_all add: client_ok_def)
  show ?thesis
  proof (cases e)
    case (Some err)
    then show ?thesis using ok1 by (simp add: Exec_def con)
  next
    case None
    show ?thesis
    proof (cases "exec_spec env job")
      case (Inl err)
      then show ?thesis using None ok1 res by (simp add: Exec_def con)
    next
      case (Inr spec)
      let ?ns = "resolveSpecValue (spec_Namespace spec) (spec_NamespaceFromArg spec) (Arguments job)"
      let ?n = "resolveSpecValue (spec_Name spec) (spec_NameFromArg spec) (Arguments job)"
      obtain err s where w: "ensureWatching env (spec_GVR spec) ?ns (snd cs1) = Inr (err, s)" "state_ok s"
        using ensureWatching_ok [OF st] by blast
      have ok: "client_ok (fst cs1, s)" using res w(2) by (simp add: client_ok_def)
      obtain c where c: "rt_cache s = Some c" using w(2) by (auto simp: state_ok_def)
      obtain j where j: "exec_result env spec ?ns ?n c job = Inr j" "exec_frame job j"
        using exec_result_frame by blast
      show ?thesis
        using None Inr res w(1) ok c j by (cases err) (simp_all add: Exec_def con Let_def)
    qed
  qed
qed

interpretation k8s_client: protocol_collector "Exec env" client_ok for env
  by unfold_locales (rule Exec_returns)

text \<open>
  The Kubernetes client keeps the contract of a protocol collector: in a state where it has its
  resources and the runtime is initialised, executing any jobs one after another never panics, whether
  or not the connection, the lookups, the watches and the encodings succeed, leaves such a state, and
  changes of each job only its error, error count and result.
\<close>

theorem client_exec_all:
  assumes "client_ok cs"
  shows "\<exists>cs' js'. k8s_client.exec_all env cs js = Inr (cs', js') \<and> client_ok cs' \<and> list_all2 exec_frame js js'"
  by (rule k8s_client.exec_all_returns [OF assms])

section \<open>A concrete client\<close>

definition demo_sources :: config_sources where
  "demo_sources = \<lparr>in_cluster = Inr ''cfg'', credential = (\<lambda>_. Inl ''none''), decode64 = (\<lambda>_. Inl ''bad''),
     parse_config = Inr, env_path = '''', build_config = Inr, file_exists = (\<lambda>_. False)\<rparr>"

definition demo_spec :: cache_spec where
  "demo_spec = \<lparr>spec_Result = ''map'', spec_Mode = ''get'', spec_GVR = ''v1/pods'', spec_Operations = [''CREATE''],
     spec_Namespace = ''shop'', spec_NamespaceFromArg = '''', spec_Name = ''web-0'', spec_NameFromArg = '''',
     spec_Selector = '''', spec_SelectorFromArg = '''', spec_Fields = [''uid''], spec_Columns = [''uid''],
     spec_ColumnNames = [''uid'']\<rparr>"

definition text_bytes :: "string \<Rightarrow> bytes" where
  "text_bytes s = map (\<lambda>c. of_nat (of_char c)) s"

definition demo_k8s_poll :: poll where
  "demo_k8s_poll = \<lparr>poll_Name = ''pod'', poll_What = ''spec'', poll_Operation = L8C_Map,
     poll_Protocol = L8PKubernetesAPI, poll_Cadence = None, poll_Timeout = 0, poll_Always = False,
     poll_RespName = ''''\<rparr>"

definition demo_client_env :: "unit client_env" where
  "demo_client_env = \<lparr>ce_enrich = \<lparr>marshal = (\<lambda>_. None), since = (\<lambda>_. None)\<rparr>, ce_now = 1700, ce_ord = (\<lambda>c. c),
     ce_subs = rev, ce_sync = (\<lambda>_ _. None), ce_sources = demo_sources, ce_newForConfig = (\<lambda>_. Inr ()),
     ce_poll = (\<lambda>_ _. Inr demo_k8s_poll), ce_unmarshal = (\<lambda>_. Inr demo_spec),
     ce_encode = (\<lambda>v. Inr (text_bytes (stringify v))),
     ce_encode_map = (\<lambda>m. Inr (concat (map snd m))), ce_encode_table = (\<lambda>_. Inr []),
     ce_clusterName = '''', ce_startServer = None\<rparr>"

definition demo_state :: "unit shared_runtime" where
  "demo_state = (runtime_init (snd (subscribe shared0)))\<lparr>rt_connected := True, rt_dynamicClient := Some ()\<rparr>"

definition demo_warm :: "unit shared_runtime" where
  "demo_warm = demo_state\<lparr>rt_warmed := Some [''v1/pods::shop::*'']\<rparr>"

lemma demo_state_simps [simp]:
  "rt_cache demo_state = Some []" "rt_warmed demo_state = Some []" "rt_warmOnce demo_state = Some []"
  "rt_dynamicClient demo_state = Some ()" "rt_connected demo_state"
  by (simp_all add: demo_state_def runtime_init_def subscribe_def shared0_def make_chan_def Let_def NewCollectorCache_def)

lemma demo_state_ok: "state_ok demo_state"
proof -
  have "runtime_ok (runtime_init (snd (subscribe (shared0 :: unit shared_runtime))))"
    by (rule init_runtime_ok [OF subscribe_ok(1) [OF shared0_ok]])
  then have "runtime_ok demo_state" unfolding demo_state_def by (rule runtime_ok_same) simp_all
  then show ?thesis by (simp add: state_ok_def cache_ok_def)
qed

lemma demo_warm_ok: "state_ok demo_warm"
proof -
  have "runtime_ok demo_warm"
    unfolding demo_warm_def by (rule runtime_ok_same [of demo_state]) (use demo_state_ok in \<open>simp_all add: state_ok_def\<close>)
  then show ?thesis using demo_state_ok by (simp add: state_ok_def demo_warm_def)
qed

definition demo_go :: go_collector where
  "demo_go = \<lparr>cg_resources = True, cg_config = None\<rparr>"

theorem client_exec_all_witness:
  "\<exists>cs' js'. k8s_client.exec_all demo_client_env (demo_go, demo_state) [empty_job, empty_job] = Inr (cs', js') \<and>
     length js' = 2"
proof -
  have "client_ok (demo_go, demo_state)" by (simp add: client_ok_def demo_go_def demo_state_ok)
  from client_exec_all [OF this, of demo_client_env "[empty_job, empty_job]"] show ?thesis
    by (auto dest: list_all2_lengthD)
qed

section \<open>A watch that fails\<close>

lemma isWarmed_simps [simp]:
  "isWarmed key (s\<lparr>rt_warmOnce := m\<rparr>) = isWarmed key s" "isWarmed key (once_ran k s) = isWarmed key s"
  by (simp_all add: isWarmed_def once_ran_def)

lemma warmOnce_id: "rt_warmOnce s = Some m \<Longrightarrow> s\<lparr>rt_warmOnce := Some m\<rparr> = s"
  by (cases s) simp

text \<open>
  A watch that fails to start is never tried again: the first job is told the error, but the once of
  the key has run, so every later job for the resource and namespace is told that the watch is in place,
  even when the informer would now synchronise, and reads a cache that nothing fills.
\<close>

theorem failed_watch_not_retried:
  assumes "state_ok s" and "rt_dynamicClient s \<noteq> None" and "g \<noteq> ''''" and "ParseGVR g = Inr gv"
    and "\<not> isWarmed (cacheKey g '''' ''*'') s" and "\<not> isWarmed (cacheKey g ns ''*'') s"
    and "map_of (the (rt_warmOnce s)) (cacheKey g ns ''*'') = None" and "ce_sync env gv ns = None"
  shows "\<exists>s1. ensureWatching env g ns s = Inr (Some (''failed to sync informer cache for '' @ cacheKey g ns ''*''), s1) \<and>
    ensureWatching env' g ns s1 = Inr (None, s1) \<and> rt_cache s1 = rt_cache s \<and> \<not> isWarmed (cacheKey g ns ''*'') s1"
proof -
  let ?k = "cacheKey g ns ''*''"
  obtain os where os: "rt_warmOnce s = Some os" using assms(1) by (auto simp: state_ok_def)
  let ?s = "s\<lparr>rt_warmOnce := Some (AList.update ?k False os)\<rparr>"
  let ?s1 = "s\<lparr>rt_warmOnce := Some (AList.update ?k True (AList.update ?k False os))\<rparr>"
  have once: "onceForKey ?k s = (False, ?s)"
    using assms(7) by (simp add: onceForKey_def os Let_def)
  have ran: "once_ran ?k ?s = ?s1" by (simp add: once_ran_def)
  have first: "ensureWatching env g ns s = Inr (Some (''failed to sync informer cache for '' @ ?k), ?s1)"
    unfolding ensureWatching_def Let_def once
    using assms by (simp add: watch_once_def startInformer_def ran)
  have "onceForKey ?k ?s1 = (True, ?s1)"
    by (simp add: onceForKey_def Let_def)
  then have "ensureWatching env' g ns ?s1 = Inr (None, ?s1)"
    unfolding ensureWatching_def Let_def by (simp add: assms(5,6))
  then show ?thesis using first assms(6) by (intro exI [of _ ?s1]) simp
qed

lemma demo_pods_gvr: "ParseGVR ''v1/pods'' = Inr \<lparr>Group = '''', Version = ''v1'', Resource = ''pods''\<rparr>"
proof -
  have t: "trimmed ''v1/pods''" by (rule trimmed_ascii) simp_all
  show ?thesis by (simp add: ParseGVR_def Let_def TrimSpace_id [OF t] Split.simps slash_def)
qed

theorem failed_watch_not_retried_witness:
  "\<exists>s1. ensureWatching demo_client_env ''v1/pods'' ''shop'' demo_state =
      Inr (Some ''failed to sync informer cache for v1/pods::shop::*'', s1) \<and>
    ensureWatching (demo_client_env\<lparr>ce_sync := (\<lambda>_ _. Some [])\<rparr>) ''v1/pods'' ''shop'' s1 = Inr (None, s1)"
  using failed_watch_not_retried [OF demo_state_ok _ _ demo_pods_gvr, of "''shop''" demo_client_env
      "demo_client_env\<lparr>ce_sync := (\<lambda>_ _. Some [])\<rparr>"]
  by (auto simp: isWarmed_def cacheKey_def demo_client_env_def)

text \<open>
  A disconnect while a watch is being started leaves no map of warmed keys: the watch panics when it
  records its success.
\<close>

lemma disconnect_during_watch_panics:
  assumes "runtime_ok s" and "range_order ord"
  shows "\<exists>s1. runtime_disconnect ord s = Inr s1 \<and> markWarmed key s1 = Inl NilMapWrite"
  using disconnect_ok [OF assms] by (auto simp: markWarmed_def)

section \<open>Events and jobs meet in the cache\<close>

definition event_gvr :: "admission_event \<Rightarrow> string" where
  "event_gvr ev = gvr_text (ev_Group ev) (ev_Version ev) (ev_Resource ev)"

text \<open>The job gets one object by its coordinates.\<close>

definition gets :: "'k client_env \<Rightarrow> cjob \<Rightarrow> cache_spec \<Rightarrow> string \<Rightarrow> string \<Rightarrow> string \<Rightarrow> bool" where
  "gets env job spec g ns n \<longleftrightarrow> exec_spec env job = Inr spec \<and> spec_Result spec = ResultMap \<and>
     spec_GVR spec = g \<and> Error job = '''' \<and>
     resolveSpecValue (spec_Namespace spec) (spec_NamespaceFromArg spec) (Arguments job) = ns \<and>
     resolveSpecValue (spec_Name spec) (spec_NameFromArg spec) (Arguments job) = n"

lemma warmed_watching: "isWarmed (cacheKey g ns ''*'') s \<Longrightarrow> ensureWatching env g ns s = Inr (None, s)"
  by (simp add: ensureWatching_def Let_def)

lemma Exec_gets:
  assumes "gets env job spec g ns n" and "cg_resources col" and "rt_connected s"
    and "isWarmed (cacheKey g ns ''*'') s" and "rt_cache s = Some c"
  shows "Exec env (col, s) job =
    (let j = execMap env spec ns n c job in Inr ((col, s), if Error j \<noteq> '''' then j else j\<lparr>ErrorCount := 0\<rparr>))"
  using assms warmed_watching [OF assms(4), of env]
  by (simp add: Exec_def gets_def Let_def exec_result_def)

lemma notify_frame:
  "for_chans try_send chs s = Inr s' \<Longrightarrow> rt_cache s' = rt_cache s \<and> rt_connected s' = rt_connected s \<and> rt_warmed s' = rt_warmed s"
  by (induction chs arbitrary: s) (auto simp: try_send_def split: if_splits)

text \<open>
  C23. What an admission event stores is what the next job reads: after a create or update event for a
  watched resource, every subscriber has a signal, and a job that gets the object by its coordinates
  succeeds with the encoding of the fields of that object, enriched and stamped.
\<close>

theorem admission_then_exec:
  assumes "client_ok (col, s)" and "rt_connected s" and "range_order (ce_subs env)"
    and "isWarmed (cacheKey (event_gvr ev) (ev_Namespace ev) ''*'') s"
    and "ev_Operation ev \<noteq> ''DELETE''" and "ev_Object ev = Some item"
    and "item_Namespace item = ev_Namespace ev" and "item_Name item = ev_Name ev"
    and "gets env job spec (event_gvr ev) (ev_Namespace ev) (ev_Name ev)"
    and "BuildCMap (ce_encode env) (Some (stamp (ce_now env)
      (normalizeObject (ce_enrich env) (event_gvr ev) item (ev_Operation ev)))) (spec_Fields spec) = Inr m"
    and "ce_encode_map env m = Inr bs"
  shows "\<exists>s1. handleAdmissionEvent env ev s = Inr (None, s1) \<and> (\<forall>ch \<in> set (subs_of s). chan_ready s1 ch) \<and>
    Exec env (col, s1) job = Inr ((col, s1), job\<lparr>Result := Some bs, ErrorCount := 0\<rparr>)"
proof -
  let ?o = "normalizeObject (ce_enrich env) (event_gvr ev) item (ev_Operation ev)"
  have st: "state_ok s" and res: "cg_resources col" using assms(1) by (simp_all add: client_ok_def)
  obtain s1 where s1: "cache_upsert (ce_now env) ?o s = Inr s1" "state_ok s1"
    "rt_cache s1 = Some (Upsert (ce_now env) (Some ?o) (the (rt_cache s)))" "rt_connected s1 = rt_connected s"
    "rt_warmed s1 = rt_warmed s" "rt_chans s1 = rt_chans s" "rt_subscribers s1 = rt_subscribers s"
    using upsert_state_ok [OF st, of "ce_now env" ?o] by blast
  have "runtime_ok s1" using s1(2) by (simp add: state_ok_def)
  then obtain s2 where s2: "notifySubscribers (ce_subs env) s1 = Inr s2"
    "\<forall>ch. chan_ready s2 ch \<longleftrightarrow> chan_ready s1 ch \<or> ch \<in> set (subs_of s1)"
    using notify_ok [OF _ assms(3)] by blast
  have fr: "rt_cache s2 = rt_cache s1" "rt_connected s2" "rt_warmed s2 = rt_warmed s"
    using notify_frame [OF s2(1) [unfolded notifySubscribers_def]] s1(4,5) assms(2) by simp_all
  have event: "handleAdmissionEvent env ev s = Inr (None, s2)"
    using warmed_watching [OF assms(4), of env] assms(5,6) s1(1) s2(1)
    by (simp add: handleAdmissionEvent_def event_gvr_def [symmetric] Let_def)
  have warm: "isWarmed (cacheKey (event_gvr ev) (ev_Namespace ev) ''*'') s2"
    using assms(4) by (simp add: isWarmed_def fr(3))
  have key: "key_of_object ?o = cacheKey (event_gvr ev) (ev_Namespace ev) (ev_Name ev)"
    using assms(7,8) by (simp add: key_of_object_def normalizeObject_def)
  have get: "Cache_Get (event_gvr ev) (ev_Namespace ev) (ev_Name ev) (the (rt_cache s2)) = Some (stamp (ce_now env) ?o)"
    by (simp add: fr(1) s1(3) Cache_Get_def Upsert_def key)
  have "Exec env (col, s2) job = Inr ((col, s2), job\<lparr>Result := Some bs, ErrorCount := 0\<rparr>)"
    using Exec_gets [OF assms(9) res fr(2) warm, of "the (rt_cache s2)"] get assms(9-11)
    by (simp add: fr(1) s1(3) gets_def execMap_def)
  moreover have "subs_of s1 = subs_of s" by (simp add: subs_of_def s1(7))
  ultimately show ?thesis using event s2(2) by auto
qed

lemma trim_demo [simp]: "TrimSpace ''map'' = ''map''" "TrimSpace ''get'' = ''get''" "TrimSpace ''spec'' = ''spec''"
  "TrimSpace ''uid'' = ''uid''"
  by (rule TrimSpace_id, rule trimmed_ascii; simp)+

lemma demo_spec_fixed: "applyDefaults None demo_spec = demo_spec"
  by (simp add: applyDefaults_def Let_def default_mode_def default_result_def default_columns_eq
      default_operations_def demo_spec_def final_fields_def final_columns_def final_names_def ToLower_def ToUpper_def
      lower_char_def upper_char_def)

lemma demo_exec_spec: "exec_spec demo_client_env job = Inr demo_spec"
proof -
  have "applyDefaults (Some demo_k8s_poll) demo_spec = demo_spec"
    using demo_spec_fixed by (simp only: applyDefaults_poll [of "Some demo_k8s_poll"])
  then show ?thesis
    by (simp add: exec_spec_def demo_client_env_def demo_k8s_poll_def ParseCacheSpec_def Let_def)
      (simp add: demo_spec_def)
qed

definition demo_item :: k8s_item where
  "demo_item = \<lparr>item_Namespace = ''shop'', item_Name = ''web-0'', item_UID = ''u1'', item_ResourceVersion = ''7'',
     item_Object = JObj []\<rparr>"

definition demo_event :: "string \<Rightarrow> admission_event" where
  "demo_event op = \<lparr>ev_UID = ''1'', ev_Group = '''', ev_Version = ''v1'', ev_Resource = ''pods'', ev_SubResource = '''',
     ev_Namespace = ''shop'', ev_Name = ''web-0'', ev_Operation = op, ev_Object = Some demo_item, ev_OldObject = None\<rparr>"

lemma demo_event_gvr: "event_gvr (demo_event op) = ''v1/pods''"
  by (simp add: event_gvr_def demo_event_def gvr_text_def)

lemma demo_gets: "gets demo_client_env empty_job demo_spec ''v1/pods'' ''shop'' ''web-0''"
  by (simp add: gets_def demo_exec_spec) (simp add: demo_spec_def ResultMap_def empty_job_def resolveSpecValue_def)

lemma demo_warmed: "isWarmed (cacheKey ''v1/pods'' ''shop'' ''*'') demo_warm"
  by (simp add: isWarmed_def demo_warm_def cacheKey_def)

lemma demo_warm_connected: "rt_connected demo_warm" "client_ok (demo_go, demo_warm)"
  by (simp add: demo_warm_def, simp add: client_ok_def demo_warm_ok demo_go_def)

theorem admission_then_exec_witness:
  "\<exists>s1. handleAdmissionEvent demo_client_env (demo_event ''CREATE'') demo_warm = Inr (None, s1) \<and>
     Exec demo_client_env (demo_go, s1) empty_job =
       Inr ((demo_go, s1), empty_job\<lparr>Result := Some (text_bytes ''u1''), ErrorCount := 0\<rparr>)"
proof -
  let ?ev = "demo_event ''CREATE''"
  have ev: "ev_Namespace ?ev = ''shop''" "ev_Name ?ev = ''web-0''" "ev_Operation ?ev = ''CREATE''"
    "ev_Object ?ev = Some demo_item"
    by (simp_all add: demo_event_def)
  have m: "BuildCMap (ce_encode demo_client_env) (Some (stamp (ce_now demo_client_env)
      (normalizeObject (ce_enrich demo_client_env) (event_gvr ?ev) demo_item (ev_Operation ?ev)))) (spec_Fields demo_spec) =
      Inr [(''uid'', text_bytes ''u1'')]"
    by (simp add: BuildCMap_def demo_spec_def stamp_def normalizeObject_def demo_item_def FieldValue_def demo_client_env_def)
  have bs: "ce_encode_map demo_client_env [(''uid'', text_bytes ''u1'')] = Inr (text_bytes ''u1'')"
    and ord: "range_order (ce_subs demo_client_env)"
    by (simp_all add: demo_client_env_def)
  have warm: "isWarmed (cacheKey (event_gvr ?ev) (ev_Namespace ?ev) ''*'') demo_warm"
    and gets: "gets demo_client_env empty_job demo_spec (event_gvr ?ev) (ev_Namespace ?ev) (ev_Name ?ev)"
    using demo_warmed demo_gets by (simp_all add: ev demo_event_gvr)
  have item: "item_Namespace demo_item = ev_Namespace ?ev" "item_Name demo_item = ev_Name ?ev"
    "ev_Operation ?ev \<noteq> ''DELETE''"
    by (simp_all add: ev demo_item_def)
  from admission_then_exec [OF demo_warm_connected(2,1) ord warm item(3) ev(4) item(1,2) gets m bs]
  show ?thesis by blast
qed

text \<open>
  A delete event empties the cache entry that the next job asks for: the job is told a cache miss and
  counts an error. But no subscriber is signalled, although the subscription promises a signal whenever an
  admission event updates the cache: the waiting loops do not wake up for deletions.
\<close>

theorem deletion_then_exec:
  assumes "client_ok (col, s)" and "rt_connected s" and "range_order (ce_ord env)"
    and "isWarmed (cacheKey (event_gvr ev) (ev_Namespace ev) ''*'') s" and "ev_Operation ev = ''DELETE''"
    and "gets env job spec (event_gvr ev) (ev_Namespace ev) (ev_Name ev)"
  shows "\<exists>s1. handleAdmissionEvent env ev s = Inr (None, s1) \<and> rt_chans s1 = rt_chans s \<and>
    Exec env (col, s1) job = Inr ((col, s1), job_fails (''cache miss for '' @ event_gvr ev @ ''/'' @
      ev_Namespace ev @ ''/'' @ ev_Name ev) job)"
proof -
  let ?g = "event_gvr ev" and ?ns = "ev_Namespace ev" and ?n = "ev_Name ev"
  have st: "state_ok s" and res: "cg_resources col" using assms(1) by (simp_all add: client_ok_def)
  obtain c where c: "rt_cache s = Some c" "cache_ok c" using st by (auto simp: state_ok_def)
  let ?r = "handleResourceDeletion (rt_onDelete s) (ce_ord env) ?g ?ns ?n (c, rt_deletions s)"
  let ?s = "s\<lparr>rt_cache := Some (fst ?r), rt_deletions := snd ?r\<rparr>"
  note rm = deletion_removes [OF c(2) assms(3), of "rt_onDelete s" ?g ?ns ?n "rt_deletions s"]
  have "delete_resource env ?g ?ns ?n s = Inr ?s"
    by (simp add: delete_resource_def c(1) prod.case_eq_if)
  then have event: "handleAdmissionEvent env ev s = Inr (None, ?s)"
    using warmed_watching [OF assms(4), of env] assms(5)
    by (simp add: handleAdmissionEvent_def event_gvr_def [symmetric] Let_def)
  have "cache_entries (fst ?r) \<subseteq> others ?g ?ns ?n c"
    using removes_entries [OF rm] by (auto simp: dropped(2) [OF c(2)])
  moreover have "e \<in> cache_entries (fst ?r) \<and> key_of_object e = cacheKey ?g ?ns ?n"
    if "map_of (fst ?r) (cacheKey ?g ?ns ?n) = Some e" for e
    using that cc.entries_lookup [OF removes_ok [OF rm]] cc.lookup_key [OF removes_ok [OF rm] that] by auto
  ultimately have miss: "Cache_Get ?g ?ns ?n (fst ?r) = None"
    by (cases "map_of (fst ?r) (cacheKey ?g ?ns ?n)") (auto simp: Cache_Get_def others_def)
  have warm: "isWarmed (cacheKey ?g ?ns ''*'') ?s" using assms(4) by (simp add: isWarmed_def)
  have "Exec env (col, ?s) job = Inr ((col, ?s), job_fails (''cache miss for '' @ ?g @ ''/'' @ ?ns @ ''/'' @ ?n) job)"
    using Exec_gets [OF assms(6) res _ warm, of "fst ?r"] miss assms(2,6)
    by (simp add: gets_def execMap_def job_fails_def Let_def)
  then show ?thesis using event by (intro exI [of _ ?s]) simp
qed

theorem deletion_then_exec_witness:
  "\<exists>s1. handleAdmissionEvent demo_client_env (demo_event ''DELETE'') demo_warm = Inr (None, s1) \<and>
     Exec demo_client_env (demo_go, s1) empty_job =
       Inr ((demo_go, s1), job_fails ''cache miss for v1/pods/shop/web-0'' empty_job)"
proof -
  let ?ev = "demo_event ''DELETE''"
  have ev: "ev_Namespace ?ev = ''shop''" "ev_Name ?ev = ''web-0''" "ev_Operation ?ev = ''DELETE''"
    by (simp_all add: demo_event_def)
  have ord: "range_order (ce_ord demo_client_env)" by (simp add: demo_client_env_def)
  show ?thesis
    using deletion_then_exec [OF demo_warm_connected(2,1) ord, of ?ev empty_job demo_spec] demo_warmed demo_gets
    by (auto simp: ev demo_event_gvr)
qed

end
