(* ===== verification/K8s_Process.thy ===== *)
theory K8s_Process
  imports K8s_Client_Theorems
begin

text \<open>
  All Kubernetes hosts of the process together. Their collectors share one runtime, which informers, the
  admission server, the reaper and the collectors' own life cycles work on in any order. A process state
  is the runtime with the collector and the channel of every host; an event is one whole operation of
  \<open>ClientGoCollector.go\<close>, \<open>SharedRuntime.go\<close> or \<open>Reaper.go\<close> by one of them, with the surroundings it
  sees at that moment (the interleavings inside an operation are the subject of \<open>K8s_Runtime\<close>).
\<close>

section \<open>The runtime between operations\<close>

text \<open>
  What holds of the shared runtime once a collector has been initialised, connected or not. A disconnect
  keeps the cache but takes the maps of the watches away.
\<close>

definition shared_ok :: "'k shared_runtime \<Rightarrow> bool" where
  "shared_ok s \<longleftrightarrow> runtime_ok s \<and> (\<exists>c. rt_cache s = Some c \<and> cache_ok c) \<and>
     (rt_connected s \<or> rt_dynamicClient s \<noteq> None \<longrightarrow> rt_warmed s \<noteq> None \<and> rt_warmOnce s \<noteq> None)"

lemma state_shared_ok: "state_ok s \<Longrightarrow> shared_ok s"
  by (simp add: state_ok_def shared_ok_def)

lemma shared_live: "shared_ok s \<Longrightarrow> rt_connected s \<or> rt_dynamicClient s \<noteq> None \<Longrightarrow> state_ok s"
  by (auto simp: state_ok_def shared_ok_def)

lemma shared_ok_same:
  "shared_ok s \<Longrightarrow> runtime_ok s' \<Longrightarrow> rt_cache s' = rt_cache s \<Longrightarrow> rt_warmed s' = rt_warmed s \<Longrightarrow>
    rt_warmOnce s' = rt_warmOnce s \<Longrightarrow> rt_connected s' = rt_connected s \<Longrightarrow>
    rt_dynamicClient s' = rt_dynamicClient s \<Longrightarrow> shared_ok s'"
  by (simp add: shared_ok_def)

lemma shared_ok_cache: "shared_ok s \<Longrightarrow> cache_ok c \<Longrightarrow> shared_ok (s\<lparr>rt_cache := Some c, rt_deletions := log\<rparr>)"
  using runtime_ok_same [of s "s\<lparr>rt_cache := Some c, rt_deletions := log\<rparr>"] by (simp add: shared_ok_def)

lemma shared_ok_put: "shared_ok s \<Longrightarrow> cache_ok c \<Longrightarrow> shared_ok (s\<lparr>rt_cache := Some c\<rparr>)"
  using runtime_ok_same [of s "s\<lparr>rt_cache := Some c\<rparr>"] by (simp add: shared_ok_def)

lemma init_fields [simp]:
  "rt_cache (runtime_init s) = Some (case rt_cache s of None \<Rightarrow> NewCollectorCache | Some c \<Rightarrow> c)"
  "rt_warmed (runtime_init s) \<noteq> None" "rt_warmOnce (runtime_init s) \<noteq> None"
  "rt_connected (runtime_init s) = rt_connected s" "rt_dynamicClient (runtime_init s) = rt_dynamicClient s"
  "rt_deletions (runtime_init s) = rt_deletions s"
  unfolding runtime_init_def Let_def make_chan_def by (simp_all split: option.split)

lemma init_live:
  assumes "runtime_ok s" and "\<And>c. rt_cache s = Some c \<Longrightarrow> cache_ok c"
  shows "state_ok (runtime_init s)"
  using init_runtime_ok [OF assms(1)] assms(2)
  by (simp add: state_ok_def NewCollectorCache_def cache_ok_def split: option.split)

lemma init_channels: "rt_stopCh (runtime_init s) \<noteq> None" "rt_subscribers (runtime_init s) \<noteq> None"
  unfolding runtime_init_def Let_def make_chan_def by simp_all

lemma init_done:
  assumes "rt_cache s \<noteq> None" and "rt_warmed s \<noteq> None" and "rt_warmOnce s \<noteq> None" and "rt_stopCh s \<noteq> None"
    and "rt_subscribers s \<noteq> None"
  shows "runtime_init s = s"
  unfolding runtime_init_def Let_def by (simp only: assms if_False)

lemma init_again: "runtime_init (runtime_init s) = runtime_init s"
  by (rule init_done) (simp_all add: init_channels)

lemma Exec_shared:
  assumes "cg_resources c" and "shared_ok s"
  shows "\<exists>c' s' job'. Exec env (c, s) job = Inr ((c', s'), job') \<and> cg_resources c' \<and> shared_ok s' \<and> exec_frame job job'"
proof -
  have run: "\<exists>c' s' job'. Exec env (c, t) job = Inr ((c', s'), job') \<and> cg_resources c' \<and> shared_ok s' \<and> exec_frame job job'"
    if t: "state_ok t" for t
    using Exec_returns [of "(c, t)" env job] t assms(1) by (force simp: client_ok_def intro: state_shared_ok)
  show ?thesis
  proof (cases "rt_connected s")
    case True
    then show ?thesis using run shared_live [OF assms(2)] by blast
  next
    case False
    have "state_ok (runtime_init s)" using assms(2) by (intro init_live) (auto simp: shared_ok_def)
    moreover have "Exec env (c, s) job = Exec env (c, runtime_init s) job"
      using False by (simp add: Exec_def Connect_def init_again)
    ultimately show ?thesis using run by simp
  qed
qed

lemma ensureWatching_shared:
  assumes "shared_ok s"
  shows "\<exists>err s'. ensureWatching env g ns s = Inr (err, s') \<and> shared_ok s'"
proof (cases "rt_dynamicClient s = None")
  case True
  then show ?thesis using assms by (simp add: ensureWatching_def)
next
  case False
  then show ?thesis using ensureWatching_ok [OF shared_live [OF assms], of env g ns] by (auto intro: state_shared_ok)
qed

lemma upsert_shared:
  assumes "shared_ok s"
  shows "\<exists>s'. cache_upsert now obj s = Inr s' \<and> shared_ok s'"
proof -
  obtain c where c: "rt_cache s = Some c" "cache_ok c" using assms by (auto simp: shared_ok_def)
  show ?thesis using shared_ok_put [OF assms Upsert_ok [OF c(2)]] by (simp add: cache_upsert_def c(1))
qed

lemma informer_put_shared: "shared_ok s \<Longrightarrow> \<exists>s'. informer_put env g op obj s = Inr s' \<and> shared_ok s'"
  using upsert_shared [of s] by (cases obj) (auto simp: informer_put_def)

lemma delete_shared:
  assumes "shared_ok s" and "range_order (ce_ord env)"
  shows "\<exists>s'. delete_resource env g ns n s = Inr s' \<and> shared_ok s'"
proof -
  obtain c where c: "rt_cache s = Some c" "cache_ok c" using assms(1) by (auto simp: shared_ok_def)
  obtain c' log where h: "handleResourceDeletion (rt_onDelete s) (ce_ord env) g ns n (c, rt_deletions s) = (c', log)"
    by (cases "handleResourceDeletion (rt_onDelete s) (ce_ord env) g ns n (c, rt_deletions s)")
  have "cache_ok c'"
    using removes_ok [OF deletion_removes [OF c(2) assms(2), of "rt_onDelete s" g ns n "rt_deletions s"]] h by simp
  then show ?thesis using c h shared_ok_cache [OF assms(1)] by (simp add: delete_resource_def)
qed

lemma DeleteFunc_shared:
  "shared_ok s \<Longrightarrow> range_order (ce_ord env) \<Longrightarrow> \<exists>s'. DeleteFunc env g obj s = Inr s' \<and> shared_ok s'"
  using delete_shared by (auto simp: DeleteFunc_def split: option.split)

text \<open>Signals and subscriptions leave the rest of the runtime alone.\<close>

lemma send_frame: "for_chans try_send chs s = Inr s' \<Longrightarrow> \<exists>cs. s' = s\<lparr>rt_chans := cs\<rparr>"
proof (induction chs arbitrary: s)
  case Nil
  then show ?case by (auto intro: exI [of _ "rt_chans s"])
next
  case (Cons ch chs)
  obtain t where t: "try_send ch s = Inr t" "for_chans try_send chs t = Inr s'"
    using Cons.prems by (auto simp: bind_res_eq_Inr)
  then obtain cs where "s' = t\<lparr>rt_chans := cs\<rparr>" using Cons.IH by blast
  moreover obtain cs' where "t = s\<lparr>rt_chans := cs'\<rparr>" using t(1) by (auto simp: try_send_def split: if_splits)
  ultimately show ?case by auto
qed

lemma notify_shared:
  assumes "shared_ok s" and "range_order ord"
  shows "\<exists>s'. notifySubscribers ord s = Inr s' \<and> shared_ok s'"
proof -
  obtain s' where s': "notifySubscribers ord s = Inr s'" "runtime_ok s'"
    using notify_ok [OF _ assms(2), of s] assms(1) by (auto simp: shared_ok_def)
  obtain cs where "s' = s\<lparr>rt_chans := cs\<rparr>" using send_frame [OF s'(1) [unfolded notifySubscribers_def]] by blast
  then show ?thesis using s' shared_ok_same [OF assms(1) s'(2)] by simp
qed

lemma subscribe_shared: "shared_ok s \<Longrightarrow> shared_ok (snd (subscribe s))"
  by (rule shared_ok_same, assumption, rule subscribe_ok(1))
    (simp_all add: shared_ok_def subscribe_def Let_def make_chan_def)

lemma unsubscribe_shared:
  assumes "shared_ok s"
  shows "\<exists>s'. unsubscribe ch s = Inr s' \<and> shared_ok s'"
proof -
  obtain s' where s': "unsubscribe ch s = Inr s'" "runtime_ok s'"
    using unsubscribe_ok [of s ch] assms by (auto simp: shared_ok_def)
  then have "rt_cache s' = rt_cache s \<and> rt_warmed s' = rt_warmed s \<and> rt_warmOnce s' = rt_warmOnce s \<and>
      rt_connected s' = rt_connected s \<and> rt_dynamicClient s' = rt_dynamicClient s"
    by (auto simp: unsubscribe_def close_chan_def split: option.splits if_splits)
  then show ?thesis using s' shared_ok_same [OF assms s'(2)] by simp
qed

lemma disconnect_shared:
  assumes "shared_ok s" and "range_order (ce_subs env)"
  shows "\<exists>c' s'. client_disconnect env (c, s) = Inr (c', s') \<and> shared_ok s'"
proof -
  obtain s' where s': "runtime_disconnect (ce_subs env) s = Inr s'" "runtime_ok s'" "rt_dynamicClient s' = None"
    "rt_cache s' = rt_cache s"
    using disconnect_ok [OF _ assms(2), of s] assms(1) by (auto simp: shared_ok_def)
  have "\<not> rt_connected s'" using s'(1) by (auto simp: runtime_disconnect_def bind_res_eq_Inr)
  then show ?thesis using s' assms(1) by (simp add: client_disconnect_def shared_ok_def)
qed

lemma admission_shared:
  assumes "shared_ok s" and "range_order (ce_ord env)" and "range_order (ce_subs env)"
  shows "\<exists>err s'. handleAdmissionEvent env ev s = Inr (err, s') \<and> shared_ok s'"
proof -
  let ?g = "gvr_text (ev_Group ev) (ev_Version ev) (ev_Resource ev)"
  obtain err s1 where w: "ensureWatching env ?g (ev_Namespace ev) s = Inr (err, s1)" "shared_ok s1"
    using ensureWatching_shared [OF assms(1)] by blast
  show ?thesis
  proof (cases "err = None \<and> ev_Operation ev \<noteq> ''DELETE''")
    case True
    obtain s2 where s2: "(case ev_Object ev of None \<Rightarrow> Inr s1
        | Some item \<Rightarrow> cache_upsert (ce_now env) (normalizeObject (ce_enrich env) ?g item (ev_Operation ev)) s1) = Inr s2"
      "shared_ok s2"
      using w(2) upsert_shared [OF w(2)] by (cases "ev_Object ev") auto
    show ?thesis using True w(1) s2(1) notify_shared [OF s2(2) assms(3)] by (auto simp: handleAdmissionEvent_def Let_def)
  next
    case False
    then show ?thesis using w delete_shared [OF w(2) assms(2), of ?g "ev_Namespace ev" "ev_Name ev"]
      by (cases err) (auto simp: handleAdmissionEvent_def Let_def)
  qed
qed

lemma client_init_live:
  assumes "runtime_ok s" and "\<And>c. rt_cache s = Some c \<Longrightarrow> cache_ok c"
  shows "\<exists>err s'. client_init env conf s = (err, (\<lparr>cg_resources = True, cg_config = Some conf\<rparr>, s')) \<and> state_ok s'"
proof -
  let ?c = "\<lparr>cg_resources = True, cg_config = Some conf\<rparr>"
  have i: "client_ok (?c, runtime_init s)" using init_live [OF assms] by (simp add: client_ok_def)
  obtain err cs where con: "Connect env (?c, runtime_init s) = (err, cs)" by (cases "Connect env (?c, runtime_init s)")
  have cs: "state_ok (snd cs)" using Connect_ok [OF i con] by (simp add: client_ok_def)
  have r: "state_ok (startReaper (snd cs))"
    by (rule state_ok_same [OF cs quiet_steps(4)]) (use cs in \<open>simp_all add: state_ok_def startReaper_def\<close>)
  have d: "state_ok (snd (server_done e t))" if "state_ok t" for e t
    by (rule state_ok_same [OF that quiet_steps(3)]) (use that in \<open>simp_all add: state_ok_def server_done_def split: option.split\<close>)
  show ?thesis
    using i cs d [OF r, of "ce_startServer env"] d [OF cs, of err]
    by (cases err) (auto simp: client_init_def ensureAdmissionServerStarted_def ensureAdmissionServer_def con
        client_ok_def prod.case_eq_if)
qed

section \<open>The process\<close>

datatype k8s_event =
    Host_Init nat host_protocol
  | Host_Subscribe nat
  | Host_Job nat cjob
  | Host_Unsubscribe nat
  | Host_Disconnect nat
  | Watch_Put string string informer_obj
  | Watch_Delete string informer_obj
  | Review admission_event
  | Sweep "gvr \<Rightarrow> string \<Rightarrow> string \<Rightarrow> bool"

record 'k k8s_process =
  pr_hosts :: "(nat \<times> go_collector \<times> nat option) list"
  pr_runtime :: "'k shared_runtime"
  pr_jobs :: "(cjob \<times> cjob) list"

definition process0 :: "'k k8s_process" where
  "process0 = \<lparr>pr_hosts = [], pr_runtime = shared0, pr_jobs = []\<rparr>"

text \<open>
  One operation. A host initialises its collector and subscribes when it starts, executes jobs, and
  unsubscribes and disconnects when it stops; what is asked of a host that is not there does not happen.
  The sweep asks the API server only while there is a client.
\<close>

fun process_event :: "'k client_env \<Rightarrow> k8s_event \<Rightarrow> 'k k8s_process \<Rightarrow> 'k k8s_process res" where
  "process_event env (Host_Init i conf) p =
     (case client_init env conf (pr_runtime p) of (err, (c, s)) \<Rightarrow>
        Inr (p\<lparr>pr_hosts := AList.update i (c, None) (pr_hosts p), pr_runtime := s\<rparr>))"
| "process_event env (Host_Subscribe i) p =
     (case map_of (pr_hosts p) i of
        None \<Rightarrow> Inr p
      | Some (c, _) \<Rightarrow>
          (case subscribe (pr_runtime p) of (ch, s) \<Rightarrow>
             Inr (p\<lparr>pr_hosts := AList.update i (c, Some ch) (pr_hosts p), pr_runtime := s\<rparr>)))"
| "process_event env (Host_Job i job) p =
     (case map_of (pr_hosts p) i of
        None \<Rightarrow> Inr p
      | Some (c, ch) \<Rightarrow>
          bind_res (Exec env (c, pr_runtime p) job) (\<lambda>((c, s), job').
            Inr (p\<lparr>pr_hosts := AList.update i (c, ch) (pr_hosts p), pr_runtime := s,
              pr_jobs := pr_jobs p @ [(job, job')]\<rparr>)))"
| "process_event env (Host_Unsubscribe i) p =
     (case map_of (pr_hosts p) i of
        Some (c, Some ch) \<Rightarrow>
          bind_res (unsubscribe ch (pr_runtime p)) (\<lambda>s.
            Inr (p\<lparr>pr_hosts := AList.update i (c, None) (pr_hosts p), pr_runtime := s\<rparr>))
      | _ \<Rightarrow> Inr p)"
| "process_event env (Host_Disconnect i) p =
     (case map_of (pr_hosts p) i of
        None \<Rightarrow> Inr p
      | Some (c, _) \<Rightarrow>
          bind_res (client_disconnect env (c, pr_runtime p)) (\<lambda>(_, s).
            Inr (p\<lparr>pr_hosts := AList.delete i (pr_hosts p), pr_runtime := s\<rparr>)))"
| "process_event env (Watch_Put g op obj) p =
     bind_res (informer_put env g op obj (pr_runtime p)) (\<lambda>s. Inr (p\<lparr>pr_runtime := s\<rparr>))"
| "process_event env (Watch_Delete g obj) p =
     bind_res (DeleteFunc env g obj (pr_runtime p)) (\<lambda>s. Inr (p\<lparr>pr_runtime := s\<rparr>))"
| "process_event env (Review ev) p =
     bind_res (handleAdmissionEvent env ev (pr_runtime p)) (\<lambda>(_, s). Inr (p\<lparr>pr_runtime := s\<rparr>))"
| "process_event env (Sweep gone) p =
     (let s = pr_runtime p in
      bind_res (deref (rt_cache s)) (\<lambda>c.
        case reapStaleEntries (map_option (\<lambda>_. gone) (rt_dynamicClient s)) (rt_onDelete s) (ce_ord env)
               (ce_now env) (c, rt_deletions s) of
          (c, log) \<Rightarrow> Inr (p\<lparr>pr_runtime := s\<lparr>rt_cache := Some c, rt_deletions := log\<rparr>\<rparr>)))"

fun process_run :: "('k client_env \<times> k8s_event) list \<Rightarrow> 'k k8s_process \<Rightarrow> 'k k8s_process res" where
  "process_run [] p = Inr p"
| "process_run ((env, e) # es) p = bind_res (process_event env e p) (process_run es)"

lemma process_run_append: "process_run (es @ es') p = bind_res (process_run es p) (process_run es')"
proof (induction es arbitrary: p)
  case (Cons x es)
  have "(\<lambda>q. process_run (es @ es') q) = (\<lambda>q. bind_res (process_run es q) (process_run es'))"
    by (rule ext) (rule Cons.IH)
  then show ?case by (cases x) (simp add: bind_res_assoc)
qed simp

definition orders_ok :: "'k client_env \<Rightarrow> bool" where
  "orders_ok env \<longleftrightarrow> range_order (ce_ord env) \<and> range_order (ce_subs env)"

definition process_ok :: "'k k8s_process \<Rightarrow> bool" where
  "process_ok p \<longleftrightarrow> shared_ok (pr_runtime p) \<and> (\<forall>(i, c, ch) \<in> set (pr_hosts p). cg_resources c) \<and>
     (\<forall>(job, job') \<in> set (pr_jobs p). exec_frame job job')"

lemma hosts_found: "process_ok p \<Longrightarrow> map_of (pr_hosts p) i = Some (c, ch) \<Longrightarrow> cg_resources c"
  by (auto simp: process_ok_def dest: map_of_SomeD)

lemma hosts_update:
  "process_ok p \<Longrightarrow> cg_resources c \<Longrightarrow> \<forall>(i, c, ch) \<in> set (AList.update k (c, ch) (pr_hosts p)). cg_resources c"
  using set_update_subset [of k "(c, ch)" "pr_hosts p"] by (fastforce simp: process_ok_def)

lemma reap_shared:
  assumes "cache_ok c" and "range_order ord"
  shows "cache_ok (fst (reapStaleEntries client cb ord now (c, log)))"
proof (cases client)
  case (Some gone)
  then show ?thesis using removes_ok [OF removes_sweep [OF assms, where gone = gone and now = now and cb = cb and log = log]] by simp
qed (simp add: reapStaleEntries_def assms(1))

lemma event_runs:
  assumes "process_ok p" and "orders_ok env"
  shows "\<exists>p'. process_event env e p = Inr p' \<and> process_ok p'"
proof -
  have sh: "shared_ok (pr_runtime p)" using assms(1) by (simp add: process_ok_def)
  have ord: "range_order (ce_ord env)" "range_order (ce_subs env)" using assms(2) by (simp_all add: orders_ok_def)
  have up: "process_ok (p\<lparr>pr_hosts := AList.update i (c, ch) (pr_hosts p), pr_runtime := s\<rparr>)"
    if "cg_resources c" "shared_ok s" for i c ch s
    using that assms(1) hosts_update [OF assms(1) that(1), of i ch] by (simp add: process_ok_def)
  have rt: "process_ok (p\<lparr>pr_runtime := s\<rparr>)" if "shared_ok s" for s
    using that assms(1) by (simp add: process_ok_def)
  show ?thesis
  proof (cases e)
    case (Host_Init i conf)
    obtain c where "rt_cache (pr_runtime p) = Some c" "cache_ok c" "runtime_ok (pr_runtime p)"
      using sh by (auto simp: shared_ok_def)
    then obtain err s where "client_init env conf (pr_runtime p) = (err, (\<lparr>cg_resources = True, cg_config = Some conf\<rparr>, s))"
      "state_ok s"
      using client_init_live [of "pr_runtime p" env conf] by auto
    then show ?thesis using up [OF _ state_shared_ok] by (simp add: Host_Init)
  next
    case (Host_Subscribe i)
    show ?thesis
    proof (cases "map_of (pr_hosts p) i")
      case (Some x)
      obtain c ch where x: "x = (c, ch)" by (cases x)
      obtain ch' s where sub: "subscribe (pr_runtime p) = (ch', s)" by (cases "subscribe (pr_runtime p)")
      have "process_ok (p\<lparr>pr_hosts := AList.update i (c, Some ch') (pr_hosts p), pr_runtime := s\<rparr>)"
        using up [OF hosts_found [OF assms(1)] subscribe_shared [OF sh]] Some sub x by simp
      then show ?thesis using Some sub x by (simp add: Host_Subscribe)
    qed (simp add: Host_Subscribe assms(1))
  next
    case (Host_Job i job)
    show ?thesis
    proof (cases "map_of (pr_hosts p) i")
      case (Some x)
      obtain c ch where x: "x = (c, ch)" by (cases x)
      then obtain c' s' job' where r: "Exec env (c, pr_runtime p) job = Inr ((c', s'), job')" "cg_resources c'"
        "shared_ok s'" "exec_frame job job'"
        using Exec_shared [OF hosts_found [OF assms(1)] sh, of i c ch env job] Some by blast
      then show ?thesis using up [OF r(2,3), of i ch] Some x by (simp add: Host_Job process_ok_def)
    qed (simp add: Host_Job assms(1))
  next
    case (Host_Unsubscribe i)
    show ?thesis
    proof (cases "map_of (pr_hosts p) i")
      case (Some x)
      obtain c ch where x: "x = (c, ch)" by (cases x)
      show ?thesis
      proof (cases ch)
        case ch: (Some n)
        obtain s where s: "unsubscribe n (pr_runtime p) = Inr s" "shared_ok s" using unsubscribe_shared [OF sh] by blast
        have "cg_resources c" using hosts_found [OF assms(1)] Some x by simp
        then show ?thesis using up [OF _ s(2)] s(1) Some x ch by (simp add: Host_Unsubscribe)
      qed (simp add: Host_Unsubscribe Some x assms(1))
    qed (simp add: Host_Unsubscribe assms(1))
  next
    case (Host_Disconnect i)
    show ?thesis
    proof (cases "map_of (pr_hosts p) i")
      case (Some x)
      then obtain c' s' where "client_disconnect env (fst x, pr_runtime p) = Inr (c', s')" "shared_ok s'"
        using disconnect_shared [OF sh ord(2)] by blast
      moreover have "set (AList.delete i (pr_hosts p)) \<subseteq> set (pr_hosts p)" by (auto simp: AList.delete_eq)
      ultimately show ?thesis using assms(1) Some by (cases x) (auto simp: Host_Disconnect process_ok_def)
    qed (simp add: Host_Disconnect assms(1))
  next
    case (Watch_Put g op obj)
    obtain s where "informer_put env g op obj (pr_runtime p) = Inr s" "shared_ok s" using informer_put_shared [OF sh] by blast
    then show ?thesis using rt by (simp add: Watch_Put)
  next
    case (Watch_Delete g obj)
    obtain s where "DeleteFunc env g obj (pr_runtime p) = Inr s" "shared_ok s" using DeleteFunc_shared [OF sh ord(1)] by blast
    then show ?thesis using rt by (simp add: Watch_Delete)
  next
    case (Review ev)
    obtain err s where "handleAdmissionEvent env ev (pr_runtime p) = Inr (err, s)" "shared_ok s"
      using admission_shared [OF sh ord] by blast
    then show ?thesis using rt by (simp add: Review)
  next
    case (Sweep gone)
    obtain c where c: "rt_cache (pr_runtime p) = Some c" "cache_ok c" using sh by (auto simp: shared_ok_def)
    let ?r = "reapStaleEntries (map_option (\<lambda>_. gone) (rt_dynamicClient (pr_runtime p))) (rt_onDelete (pr_runtime p))
        (ce_ord env) (ce_now env) (c, rt_deletions (pr_runtime p))"
    have "cache_ok (fst ?r)" by (rule reap_shared [OF c(2) ord(1)])
    then show ?thesis using rt [OF shared_ok_cache [OF sh]] by (simp add: Sweep c(1) prod.case_eq_if Let_def)
  qed
qed

lemma events_run:
  "process_ok p \<Longrightarrow> \<forall>(env, e) \<in> set es. orders_ok env \<Longrightarrow> \<exists>p'. process_run es p = Inr p' \<and> process_ok p'"
proof (induction es arbitrary: p)
  case (Cons x es)
  obtain env e where x: "x = (env, e)" by (cases x)
  then obtain q where "process_event env e p = Inr q" "process_ok q"
    using event_runs [OF Cons.prems(1), of env e] Cons.prems(2) by auto
  then show ?case using Cons.IH [of q] Cons.prems(2) by (simp add: x)
qed simp

lemma first_host:
  "\<exists>p. process_event env (Host_Init i conf) process0 = Inr p \<and> process_ok p"
proof -
  obtain err s' where "client_init env conf shared0 = (err, (\<lparr>cg_resources = True, cg_config = Some conf\<rparr>, s'))" "state_ok s'"
    using client_init_live [OF shared0_ok, of env conf] by (auto simp: shared0_def)
  then show ?thesis by (simp add: process0_def process_ok_def state_shared_ok)
qed

section \<open>Where the objects of the cache come from\<close>

text \<open>An object as the API server reported it, enriched and stamped.\<close>

definition origin :: "(string \<Rightarrow> k8s_item \<Rightarrow> bool) \<Rightarrow> cached_object \<Rightarrow> bool" where
  "origin R e \<longleftrightarrow> (\<exists>en g item op t. R g item \<and> e = stamp t (normalizeObject en g item op))"

text \<open>All that the surroundings of an event report: the stores of the watches, and the event's own object.\<close>

definition reports :: "(string \<Rightarrow> k8s_item \<Rightarrow> bool) \<Rightarrow> 'k client_env \<Rightarrow> bool" where
  "reports R env \<longleftrightarrow> (\<forall>g gv ns objs item. ParseGVR g = Inr gv \<and> ce_sync env gv ns = Some objs \<and>
     Unstructured item \<in> set objs \<longrightarrow> R g item)"

fun event_reports :: "(string \<Rightarrow> k8s_item \<Rightarrow> bool) \<Rightarrow> k8s_event \<Rightarrow> bool" where
  "event_reports R (Watch_Put g op (Unstructured item)) = R g item"
| "event_reports R (Review ev) =
     (case ev_Object ev of None \<Rightarrow> True
      | Some item \<Rightarrow> R (gvr_text (ev_Group ev) (ev_Version ev) (ev_Resource ev)) item)"
| "event_reports R e = True"

definition all_reported :: "(string \<Rightarrow> k8s_item \<Rightarrow> bool) \<Rightarrow> 'k shared_runtime \<Rightarrow> bool" where
  "all_reported R s \<longleftrightarrow> (\<forall>c. rt_cache s = Some c \<longrightarrow> (\<forall>e \<in> cache_entries c. origin R e))"

lemma all_reported_same: "all_reported R s \<Longrightarrow> rt_cache s' = rt_cache s \<Longrightarrow> all_reported R s'"
  by (simp add: all_reported_def)

lemma all_reported_less:
  "all_reported R s \<Longrightarrow> rt_cache s = Some c \<Longrightarrow> rt_cache s' = Some c' \<Longrightarrow> cache_entries c' \<subseteq> cache_entries c \<Longrightarrow>
    all_reported R s'"
  by (auto simp: all_reported_def)

lemma upsert_reported:
  assumes "all_reported R s" and "R g item" and "cache_upsert now (normalizeObject en g item op) s = Inr s'"
  shows "all_reported R s'"
proof -
  let ?e = "normalizeObject en g item op"
  have "origin R (stamp now ?e)" using assms(2) unfolding origin_def by blast
  moreover have "cache_entries (Upsert now (Some ?e) c) \<subseteq> insert (stamp now ?e) (cache_entries c)" for c
    using set_update_subset [of "key_of_object ?e" "stamp now ?e" c] by (auto simp: Upsert_def cache_entries_def)
  ultimately show ?thesis
    using assms(1,3) by (fastforce simp: cache_upsert_def all_reported_def bind_res_eq_Inr)
qed

lemma put_reported:
  "all_reported R s \<Longrightarrow> (\<And>item. obj = Unstructured item \<Longrightarrow> R g item) \<Longrightarrow> informer_put env g op obj s = Inr s' \<Longrightarrow>
    all_reported R s'"
  by (cases obj) (auto simp: informer_put_def intro: upsert_reported)

lemma seed_reported:
  "all_reported R s \<Longrightarrow> (\<And>item. Unstructured item \<in> set objs \<Longrightarrow> R g item) \<Longrightarrow> seed_cache env g objs s = Inr s' \<Longrightarrow>
    all_reported R s'"
proof (induction objs arbitrary: s)
  case (Cons obj objs)
  obtain s1 where s1: "informer_put env g ''ADD'' obj s = Inr s1" "seed_cache env g objs s1 = Inr s'"
    using Cons.prems(3) by (auto simp: bind_res_eq_Inr)
  have "all_reported R s1" using put_reported [OF Cons.prems(1) _ s1(1)] Cons.prems(2) by simp
  then show ?case using Cons.IH [OF _ _ s1(2)] Cons.prems(2) by simp
qed simp

lemma once_reported: "all_reported R s \<Longrightarrow> all_reported R (snd (onceForKey k s))" "all_reported R s \<Longrightarrow> all_reported R (once_ran k s)"
  by (auto elim!: all_reported_same simp: onceForKey_def once_ran_def Let_def split: option.split)

lemma watch_once_reported:
  assumes "all_reported R s" and "reports R env" and "watch_once env g ns k s = Inr (err, s')"
  shows "all_reported R s'"
proof (cases "ParseGVR g")
  case (Inl _)
  then show ?thesis using assms(1,3) by (simp add: watch_once_def)
next
  case (Inr gv)
  show ?thesis
  proof (cases "ce_sync env gv ns")
    case None
    then show ?thesis using assms(1,3) Inr by (simp add: watch_once_def startInformer_def)
  next
    case (Some objs)
    then obtain t where t: "seed_cache env g objs s = Inr t" "markWarmed k t = Inr s'"
      using assms(3) Inr by (auto simp: watch_once_def startInformer_def bind_res_eq_Inr)
    have "all_reported R t" using seed_reported [OF assms(1) _ t(1)] assms(2) Inr Some unfolding reports_def by blast
    then show ?thesis by (rule all_reported_same) (use t(2) in \<open>auto simp: markWarmed_def split: option.splits\<close>)
  qed
qed

lemma watching_reported:
  assumes "all_reported R s" and "reports R env" and "ensureWatching env g ns s = Inr (err, s')"
  shows "all_reported R s'"
proof -
  let ?k = "cacheKey g ns ''*''"
  obtain fired s1 where o: "onceForKey ?k s = (fired, s1)" by (cases "onceForKey ?k s")
  then have s1: "all_reported R s1" using once_reported(1) [OF assms(1), of ?k] by simp
  have "all_reported R (once_ran ?k t)" if "watch_once env g ns ?k s1 = Inr (e, t)" for e t
    using once_reported(2) [OF watch_once_reported [OF s1 assms(2) that]] .
  then show ?thesis
    using assms(1,3) s1 by (auto simp: ensureWatching_def Let_def o bind_res_eq_Inr split: if_splits)
qed

lemma delete_reported:
  assumes "all_reported R s" and "shared_ok s" and "range_order (ce_ord env)" and "delete_resource env g ns n s = Inr s'"
  shows "all_reported R s'"
proof -
  obtain c where c: "rt_cache s = Some c" "cache_ok c" using assms(2) by (auto simp: shared_ok_def)
  let ?r = "handleResourceDeletion (rt_onDelete s) (ce_ord env) g ns n (c, rt_deletions s)"
  have "cache_entries (fst ?r) \<subseteq> cache_entries c"
    using removes_entries [OF deletion_removes [OF c(2) assms(3), where cb = "rt_onDelete s" and g = g and ns = ns and n = n
        and log = "rt_deletions s"]] dropped(2) [OF c(2)]
    by (auto simp: others_def)
  then show ?thesis
    using assms(4) by (intro all_reported_less [OF assms(1) c(1)]) (auto simp: delete_resource_def c(1) split: prod.splits)
qed

lemma admission_reported:
  assumes "all_reported R s" and "shared_ok s" and "orders_ok env" and "reports R env"
    and "event_reports R (Review ev)" and "handleAdmissionEvent env ev s = Inr (err, s')"
  shows "all_reported R s'"
proof -
  let ?g = "gvr_text (ev_Group ev) (ev_Version ev) (ev_Resource ev)"
  obtain e s1 where w: "ensureWatching env ?g (ev_Namespace ev) s = Inr (e, s1)" "shared_ok s1"
    using ensureWatching_shared [OF assms(2)] by blast
  have r1: "all_reported R s1" by (rule watching_reported [OF assms(1,4) w(1)])
  consider (refused) "e \<noteq> None" "s' = s1"
    | (deleted) "delete_resource env ?g (ev_Namespace ev) (ev_Name ev) s1 = Inr s'"
    | (put) s2 where "(case ev_Object ev of None \<Rightarrow> Inr s1
        | Some item \<Rightarrow> cache_upsert (ce_now env) (normalizeObject (ce_enrich env) ?g item (ev_Operation ev)) s1) = Inr s2"
        "notifySubscribers (ce_subs env) s2 = Inr s'"
    using assms(6) w(1) by (auto simp: handleAdmissionEvent_def Let_def bind_res_eq_Inr split: option.splits if_splits)
  then show ?thesis
  proof cases
    case deleted
    then show ?thesis using delete_reported [OF r1 w(2) _ deleted] assms(3) by (simp add: orders_ok_def)
  next
    case put
    have "all_reported R s2"
      using put(1) r1 assms(5) by (auto split: option.splits intro: upsert_reported)
    moreover obtain cs where "s' = s2\<lparr>rt_chans := cs\<rparr>" using send_frame [OF put(2) [unfolded notifySubscribers_def]] by blast
    ultimately show ?thesis by (auto intro: all_reported_same)
  qed (simp add: r1)
qed

lemma init_reported: "all_reported R s \<Longrightarrow> all_reported R (runtime_init s)"
  by (auto simp: all_reported_def NewCollectorCache_def cache_entries_def split: option.splits)

lemma Connect_reported: "all_reported R s \<Longrightarrow> all_reported R (snd (snd (Connect env (c, s))))"
  by (rule all_reported_same [OF init_reported])
    (auto simp: Connect_def runtime_connect_def connect_publish_def split: sum.split)

lemma client_init_reported: "all_reported R s \<Longrightarrow> all_reported R (snd (snd (client_init env conf s)))"
proof -
  let ?c = "\<lparr>cg_resources = True, cg_config = Some conf\<rparr>"
  assume r: "all_reported R s"
  have i: "all_reported R (runtime_init s)" using r by (rule init_reported)
  have c: "all_reported R (snd (snd (Connect env (?c, runtime_init s))))" using i by (rule Connect_reported)
  have d: "all_reported R (snd (server_done e t))" "all_reported R (startReaper t)" if "all_reported R t" for e t
    using that by (auto elim!: all_reported_same simp: server_done_def startReaper_def split: option.split)
  show ?thesis
    using i d(1) [OF c] d(1) [OF d(2) [OF c]]
    by (auto simp: client_init_def ensureAdmissionServerStarted_def ensureAdmissionServer_def prod.case_eq_if split: option.split)
qed

lemma Exec_reported:
  assumes "all_reported R s" and "reports R env" and "Exec env (c, s) job = Inr ((c', s'), job')"
  shows "all_reported R s'"
proof -
  obtain e cs where con: "(if rt_connected s then (None, (c, s)) else Connect env (c, s)) = (e, cs)"
    by (cases "if rt_connected s then (None, (c, s)) else Connect env (c, s)")
  have cs: "all_reported R (snd cs)" using con assms(1) Connect_reported [OF assms(1), of env c] by (auto split: if_splits)
  then show ?thesis
    using assms(3) watching_reported [OF cs assms(2)]
    by (auto simp: Exec_def con Let_def bind_res_eq_Inr split: option.splits sum.splits if_splits)
qed

lemma event_reported:
  assumes "process_ok p" and "orders_ok env" and "reports R env" and "event_reports R e"
    and "all_reported R (pr_runtime p)" and "process_event env e p = Inr p'"
  shows "all_reported R (pr_runtime p')"
proof -
  have sh: "shared_ok (pr_runtime p)" using assms(1) by (simp add: process_ok_def)
  have ord: "range_order (ce_ord env)" "range_order (ce_subs env)" using assms(2) by (simp_all add: orders_ok_def)
  show ?thesis
  proof (cases e)
    case (Host_Init i conf)
    then show ?thesis using assms(5,6) client_init_reported by (auto simp: prod.case_eq_if)
  next
    case (Host_Subscribe i)
    then show ?thesis using assms(5,6)
      by (auto simp: subscribe_def Let_def make_chan_def all_reported_def split: option.splits)
  next
    case (Host_Job i job)
    then show ?thesis using assms(5,6) Exec_reported [OF assms(5,3)]
      by (fastforce simp: bind_res_eq_Inr split: option.splits prod.splits)
  next
    case (Host_Unsubscribe i)
    have "unsubscribe ch s = Inr s' \<Longrightarrow> rt_cache s' = rt_cache s" for ch s and s' :: "'a shared_runtime"
      by (auto simp: unsubscribe_def close_chan_def split: option.splits if_splits)
    then show ?thesis using assms(5,6)
      by (auto simp: Host_Unsubscribe bind_res_eq_Inr all_reported_def split: option.splits prod.splits)
  next
    case (Host_Disconnect i)
    have "client_disconnect env cs = Inr (c, s') \<Longrightarrow> shared_ok (snd cs) \<Longrightarrow> rt_cache s' = rt_cache (snd cs)" for cs c s'
      using disconnect_ok [OF _ ord(2), of "snd cs"] by (auto simp: client_disconnect_def bind_res_eq_Inr shared_ok_def)
    then show ?thesis using assms(5,6) sh
      by (fastforce simp: Host_Disconnect bind_res_eq_Inr all_reported_def split: option.splits prod.splits)
  next
    case (Watch_Put g op obj)
    then show ?thesis using assms(4-6) put_reported [OF assms(5), of obj g env op]
      by (cases obj) (auto simp: bind_res_eq_Inr)
  next
    case (Watch_Delete g obj)
    then show ?thesis using assms(5,6) delete_reported [OF assms(5) sh ord(1)]
      by (auto simp: bind_res_eq_Inr DeleteFunc_def split: option.splits)
  next
    case (Review ev)
    then show ?thesis using assms(4,6) admission_reported [OF assms(5) sh assms(2,3)]
      by (auto simp: bind_res_eq_Inr)
  next
    case (Sweep gone)
    obtain c where c: "rt_cache (pr_runtime p) = Some c" "cache_ok c" using sh by (auto simp: shared_ok_def)
    let ?s = "pr_runtime p"
    let ?r = "reapStaleEntries (map_option (\<lambda>_. gone) (rt_dynamicClient ?s)) (rt_onDelete ?s) (ce_ord env) (ce_now env)
        (c, rt_deletions ?s)"
    have "cache_entries (fst ?r) \<subseteq> cache_entries c"
      using removes_entries [OF removes_sweep [OF c(2) ord(1), where gone = gone and now = "ce_now env" and
          cb = "rt_onDelete ?s" and log = "rt_deletions ?s"]]
      by (cases "rt_dynamicClient ?s") (auto simp: reapStaleEntries_def)
    moreover have "rt_cache (pr_runtime p') = Some (fst ?r)"
      using assms(6) by (auto simp: Sweep Let_def c(1) prod.case_eq_if)
    ultimately show ?thesis using all_reported_less [OF assms(5) c(1)] by blast
  qed
qed

lemma events_reported:
  "process_ok p \<Longrightarrow> \<forall>(env, e) \<in> set es. orders_ok env \<and> reports R env \<and> event_reports R e \<Longrightarrow>
    all_reported R (pr_runtime p) \<Longrightarrow> process_run es p = Inr p' \<Longrightarrow> all_reported R (pr_runtime p')"
proof (induction es arbitrary: p)
  case (Cons x es)
  obtain env e where x: "x = (env, e)" by (cases x)
  obtain q where q: "process_event env e p = Inr q" "process_run es q = Inr p'"
    using Cons.prems(4) by (auto simp: x bind_res_eq_Inr)
  have e: "orders_ok env" "reports R env" "event_reports R e" using Cons.prems(2) by (simp_all add: x)
  have "process_ok q" using event_runs [OF Cons.prems(1) e(1), of e] q(1) by simp
  moreover have "all_reported R (pr_runtime q)" by (rule event_reported [OF Cons.prems(1) e Cons.prems(3) q(1)])
  ultimately show ?case using Cons.IH [OF _ _ _ q(2)] Cons.prems(2) by simp
qed simp

section \<open>Properties\<close>


text \<open>
  C14. Nothing in the cache is made up: after any sequence of operations every cached object is an object
  that the API server reported for the object's resource - in the store of a watch, as a change, or in an
  admission review - under the namespace, name, UID and version reported, enriched and stamped, whatever
  was connected, disconnected, swept or deleted in between.
\<close>

theorem cached_objects_reported:
  assumes "\<forall>(env, e) \<in> set es. orders_ok env \<and> reports R env \<and> event_reports R e"
    and "process_run ((env0, Host_Init i conf) # es) process0 = Inr p"
  shows "\<exists>c. rt_cache (pr_runtime p) = Some c \<and> (\<forall>e \<in> cache_entries c. \<exists>item en op t. R (co_GVR e) item \<and>
    co_Namespace e = item_Namespace item \<and> co_Name e = item_Name item \<and> co_UID e = item_UID item \<and>
    co_ResourceVersion e = item_ResourceVersion item \<and> e = stamp t (normalizeObject en (co_GVR e) item op))"
proof -
  obtain p0 where p0: "process_event env0 (Host_Init i conf) process0 = Inr p0" "process_ok p0"
    using first_host by blast
  have run: "process_run es p0 = Inr p" using assms(2) p0(1) by (simp del: process_event.simps)
  have "all_reported R (pr_runtime (process0 :: 'a k8s_process))" by (simp add: process0_def shared0_def all_reported_def)
  then have "all_reported R (pr_runtime p0)"
    using p0(1) client_init_reported [of R shared0 env0 conf] by (auto simp: process0_def prod.case_eq_if)
  then have r: "all_reported R (pr_runtime p)" by (rule events_reported [OF p0(2) assms(1) _ run])
  obtain q where q: "process_run es p0 = Inr q" "process_ok q"
    using events_run [OF p0(2), of es] assms(1) by auto
  then obtain c where c: "rt_cache (pr_runtime p) = Some c" using run by (auto simp: process_ok_def shared_ok_def)
  have "\<exists>item en op t. R (co_GVR e) item \<and> co_Namespace e = item_Namespace item \<and> co_Name e = item_Name item \<and>
      co_UID e = item_UID item \<and> co_ResourceVersion e = item_ResourceVersion item \<and>
      e = stamp t (normalizeObject en (co_GVR e) item op)" if "origin R e" for e
  proof -
    obtain en g item op t where e: "R g item" "e = stamp t (normalizeObject en g item op)"
      using \<open>origin R e\<close> unfolding origin_def by blast
    have flds: "co_GVR e = g" "co_Namespace e = item_Namespace item" "co_Name e = item_Name item" "co_UID e = item_UID item"
      "co_ResourceVersion e = item_ResourceVersion item"
      by (simp_all add: e(2) stamp_def normalizeObject_def)
    show ?thesis
      by (rule exI [of _ item], rule exI [of _ en], rule exI [of _ op], rule exI [of _ t])
        (simp only: flds e(1) simp_thms, rule e(2))
  qed
  then show ?thesis using r c by (auto simp: all_reported_def)
qed

section \<open>Two hosts of one cluster\<close>

definition demo_k8s_host :: host_protocol where
  "demo_k8s_host = \<lparr>cfg_Protocol = L8PKubernetesAPI, cfg_Addr = '''', cfg_Port = 0, cfg_CredId = '''', cfg_Timeout = 0,
     cfg_HttpPrefix = '''', cfg_Prompt = [], cfg_Ainfo = None, cfg_Cert = '''', cfg_Terminal = '''', cfg_TerminalCommands = None\<rparr>"

definition demo_events :: "(unit client_env \<times> k8s_event) list" where
  "demo_events = map (Pair demo_client_env)
     [Host_Subscribe 1, Host_Init 2 demo_k8s_host, Host_Subscribe 2, Host_Job 1 empty_job,
      Watch_Put ''v1/pods'' ''ADD'' (Unstructured demo_item), Host_Unsubscribe 2, Host_Disconnect 2,
      Review (demo_event ''UPDATE''), Host_Job 1 empty_job, Sweep (\<lambda>_ _ n. n = ''web-1'')]"

definition demo_seen :: "(unit client_env \<times> k8s_event) list" where
  "demo_seen = map (Pair demo_client_env)
     [Host_Subscribe 1, Watch_Put ''v1/pods'' ''ADD'' (Unstructured demo_item), Host_Disconnect 1]"

lemma demo_orders: "orders_ok demo_client_env"
  by (simp add: orders_ok_def demo_client_env_def)


lemma demo_seen_run:
  "(case process_run ((demo_client_env, Host_Init 1 demo_k8s_host) # demo_seen) process0 of Inl e \<Rightarrow> None
    | Inr p \<Rightarrow> map_option (map fst) (rt_cache (pr_runtime p))) = Some [''v1/pods::shop::web-0'']"
  by code_simp

theorem cached_objects_reported_witness:
  "\<exists>p c e. process_run ((demo_client_env, Host_Init 1 demo_k8s_host) # demo_seen) process0 = Inr p \<and>
     rt_cache (pr_runtime p) = Some c \<and> e \<in> cache_entries c \<and> co_UID e = ''u1''"
proof -
  let ?R = "\<lambda>g item. g = ''v1/pods'' \<and> item = demo_item"
  obtain p where p: "process_run ((demo_client_env, Host_Init 1 demo_k8s_host) # demo_seen) process0 = Inr p"
    and k: "map_option (map fst) (rt_cache (pr_runtime p)) = Some [''v1/pods::shop::web-0'']"
    using demo_seen_run
    by (cases "process_run ((demo_client_env, Host_Init 1 demo_k8s_host) # demo_seen) process0")
      (simp_all del: process_run.simps)
  have sync: "reports ?R demo_client_env" by (simp add: reports_def demo_client_env_def)
  then have "\<forall>(env, e) \<in> set demo_seen. orders_ok env \<and> reports ?R env \<and> event_reports ?R e"
    by (simp add: demo_seen_def demo_orders)
  from cached_objects_reported [OF this p] obtain c where c: "rt_cache (pr_runtime p) = Some c"
    and all: "\<forall>e \<in> cache_entries c. \<exists>item en op t. ?R (co_GVR e) item \<and>
      co_Namespace e = item_Namespace item \<and> co_Name e = item_Name item \<and> co_UID e = item_UID item \<and>
      co_ResourceVersion e = item_ResourceVersion item \<and> e = stamp t (normalizeObject en (co_GVR e) item op)"
    by blast
  obtain x where "x \<in> set c" using k c by (cases c) auto
  then have e: "snd x \<in> cache_entries c" by (simp add: cache_entries_def)
  then have "co_UID (snd x) = ''u1''" using all by (fastforce simp: demo_item_def)
  then show ?thesis using p c e by blast
qed

end
