(* ===== verification/All_Hosts.thy ===== *)
theory All_Hosts
  imports Message_Origin Snmp_Theorems Ssh_Theorems Rest_Theorems Kubectl Graphql K8s_Process
begin

text \<open>
  The collection loop on all the collectors the program has: \<open>newProtocolCollector\<close> makes and initialises
  one of six by the protocol of a configuration, and the loop calls the \<open>Exec\<close> of the one that is stored
  under the protocol of the poll. Between two calls the rest of the process may use what collectors share:
  the files of the kubectl collectors, the runtime of the Kubernetes clients, the network.
\<close>

section \<open>The six collectors\<close>

datatype ('w, 'k) proto_collector =
    GraphQL_Collector "'w graphql_collector"
  | REST_Collector "'w rest_collector"
  | SSH_Collector "'w ssh_collector"
  | SNMP_Collector "'w snmp_collector"
  | Kubectl_Collector "kubectl \<times> files \<times> 'w"
  | K8s_Collector "'k client"

text \<open>What is outside the program, for each protocol, and what a new collector finds there.\<close>

record ('w, 'k) surroundings =
  sr_graphql :: "'w graphql_env"
  sr_rest :: "'w rest_env"
  sr_ssh :: "'w ssh_env"
  sr_snmp :: "'w snmp_env"
  sr_kube :: "'w kube_env"
  sr_k8s :: "'k client_env"
  sr_world :: 'w
  sr_files :: files
  sr_runtime :: "'k shared_runtime"

text \<open>\<open>newProtocolCollector\<close> with the initialisations it calls: the collector, if any, and the error.\<close>

definition new_collector ::
  "('w, 'k) surroundings \<Rightarrow> host_protocol \<Rightarrow> (('w, 'k) proto_collector option \<times> string option) res" where
  "new_collector E conf =
     (case cfg_Protocol conf of
        L8PGraphQL \<Rightarrow>
          bind_res (graphql_Init (sr_graphql E) conf (new_graphql (sr_world E)))
            (\<lambda>(c, err). Inr (Some (GraphQL_Collector c), err))
      | L8PRESTAPI \<Rightarrow>
          bind_res (rest_Init (sr_rest E) conf (new_rest (sr_world E)))
            (\<lambda>(c, err). Inr (Some (REST_Collector c), err))
      | L8PSSH \<Rightarrow> Inr (Some (SSH_Collector (ssh_Init conf (sr_world E))), None)
      | L8PPSNMPV2 \<Rightarrow> Inr (Some (SNMP_Collector (snmp_Init conf (sr_world E))), None)
      | L8PKubectl \<Rightarrow>
          bind_res (kubectl_Init (sr_kube E) conf (sr_files E) new_kubectl)
            (\<lambda>(c, fs, err). Inr (Some (Kubectl_Collector (c, fs, sr_world E)), err))
      | L8PKubernetesAPI \<Rightarrow>
          (case client_init (sr_k8s E) conf (sr_runtime E) of (err, cs) \<Rightarrow> Inr (Some (K8s_Collector cs), err))
      | OtherProtocol _ \<Rightarrow> Inr (None, Some ''Unknown Protocol ''))"

definition graphql_Protocol :: "'w graphql_collector \<Rightarrow> protocol" where "graphql_Protocol c = L8PGraphQL"
definition rest_Protocol :: "'w rest_collector \<Rightarrow> protocol" where "rest_Protocol c = L8PRESTAPI"
definition ssh_Protocol :: "'w ssh_collector \<Rightarrow> protocol" where "ssh_Protocol c = L8PSSH"
definition snmp_Protocol :: "'w snmp_collector \<Rightarrow> protocol" where "snmp_Protocol c = L8PPSNMPV2"
definition kubectl_Protocol :: "kubectl \<Rightarrow> protocol" where "kubectl_Protocol c = L8PKubectl"

definition client_Protocol :: "go_collector \<Rightarrow> protocol" where
  "client_Protocol c = (case cg_config c of Some config \<Rightarrow> cfg_Protocol config | None \<Rightarrow> OtherProtocol 0)"

fun Protocol :: "('w, 'k) proto_collector \<Rightarrow> protocol" where
  "Protocol (GraphQL_Collector c) = graphql_Protocol c"
| "Protocol (REST_Collector c) = rest_Protocol c"
| "Protocol (SSH_Collector c) = ssh_Protocol c"
| "Protocol (SNMP_Collector c) = snmp_Protocol c"
| "Protocol (Kubectl_Collector s) = kubectl_Protocol (fst s)"
| "Protocol (K8s_Collector cs) = client_Protocol (fst cs)"

fun Collector_Exec ::
  "('w, 'k) surroundings \<Rightarrow> ('w, 'k) proto_collector \<Rightarrow> cjob \<Rightarrow> (('w, 'k) proto_collector \<times> cjob) res" where
  "Collector_Exec E (GraphQL_Collector c) j =
     bind_res (graphql_Exec (sr_graphql E) c j) (\<lambda>(c, j). Inr (GraphQL_Collector c, j))"
| "Collector_Exec E (REST_Collector c) j =
     bind_res (rest_Exec (sr_rest E) c j) (\<lambda>(c, j). Inr (REST_Collector c, j))"
| "Collector_Exec E (SSH_Collector c) j =
     bind_res (ssh_Exec_res (sr_ssh E) c j) (\<lambda>(c, j). Inr (SSH_Collector c, j))"
| "Collector_Exec E (SNMP_Collector c) j =
     bind_res (snmp_Exec (sr_snmp E) c j) (\<lambda>(c, j). Inr (SNMP_Collector c, j))"
| "Collector_Exec E (Kubectl_Collector s) j =
     bind_res (kubectl_exec (sr_kube E) s j) (\<lambda>(s, j). Inr (Kubectl_Collector s, j))"
| "Collector_Exec E (K8s_Collector cs) j =
     bind_res (Exec (sr_k8s E) cs j) (\<lambda>(cs, j). Inr (K8s_Collector cs, j))"

fun Collector_Online :: "('w, 'k) proto_collector \<Rightarrow> bool" where
  "Collector_Online (GraphQL_Collector c) = graphql_Online c"
| "Collector_Online (REST_Collector c) = rest_Online c"
| "Collector_Online (SSH_Collector c) = ssh_Online c"
| "Collector_Online (SNMP_Collector c) = snmp_Online c"
| "Collector_Online (Kubectl_Collector s) = kubectl_Online (fst s)"
| "Collector_Online (K8s_Collector cs) = client_online cs"

text \<open>The collectors whose \<open>Exec\<close> keeps its contract.\<close>

fun collector_usable :: "('w, 'k) surroundings \<Rightarrow> ('w, 'k) proto_collector \<Rightarrow> bool" where
  "collector_usable E (GraphQL_Collector c) = graphql_ready (sr_graphql E) c"
| "collector_usable E (REST_Collector c) = rest_ready c"
| "collector_usable E (SSH_Collector c) = ssh_usable (sr_ssh E) c"
| "collector_usable E (SNMP_Collector c) = snmp_usable (sr_snmp E) c"
| "collector_usable E (Kubectl_Collector s) = kubectl_ready s"
| "collector_usable E (K8s_Collector cs) =
     (cg_resources (fst cs) \<and> client_Protocol (fst cs) = L8PKubernetesAPI \<and> shared_ok (snd cs))"

lemma Exec_collector: "Exec env (c, s) j = Inr ((c', s'), j') \<Longrightarrow> c' = c"
  by (auto simp: Exec_def Connect_def bind_res_eq_Inr Let_def split: if_splits option.splits sum.splits prod.splits)

interpretation any: protocol_collector "Collector_Exec E" "collector_usable E" for E
proof
  show "\<exists>c' j'. Collector_Exec E c j = Inr (c', j') \<and> collector_usable E c' \<and> exec_frame j j'"
    if u: "collector_usable E c" for c j
  proof (cases c)
    case (GraphQL_Collector d)
    then show ?thesis using graphql.exec_returns [of "sr_graphql E" d j] u by fastforce
  next
    case (REST_Collector d)
    then show ?thesis using rest.exec_returns [of d "sr_rest E" j] u by fastforce
  next
    case (SSH_Collector d)
    then show ?thesis using ssh.exec_returns [of "sr_ssh E" d j] u by fastforce
  next
    case (SNMP_Collector d)
    then show ?thesis using snmp.exec_returns [of "sr_snmp E" d j] u by fastforce
  next
    case (Kubectl_Collector s)
    then show ?thesis using kubectl.exec_returns [of s "sr_kube E" j] u by fastforce
  next
    case (K8s_Collector cs)
    obtain d s where cs: "cs = (d, s)" by (cases cs)
    then obtain d' s' j' where ex: "Exec (sr_k8s E) (d, s) j = Inr ((d', s'), j')" "cg_resources d'" "shared_ok s'"
      "exec_frame j j'"
      using Exec_shared [of d s "sr_k8s E" j] u K8s_Collector by auto
    then show ?thesis using Exec_collector [OF ex(1)] u by (simp add: K8s_Collector cs)
  qed
qed

lemma Exec_Protocol: "Collector_Exec E c j = Inr (c', j') \<Longrightarrow> Protocol c' = Protocol c"
proof (cases c)
  case (Kubectl_Collector s)
  assume "Collector_Exec E c j = Inr (c', j')"
  then show ?thesis
    by (auto simp: Kubectl_Collector kubectl_exec_def kubectl_Protocol_def bind_res_eq_Inr split: prod.splits)
next
  case (K8s_Collector cs)
  assume "Collector_Exec E c j = Inr (c', j')"
  then show ?thesis by (cases cs) (auto simp: K8s_Collector bind_res_eq_Inr client_Protocol_def dest!: Exec_collector)
qed (auto simp: bind_res_eq_Inr graphql_Protocol_def rest_Protocol_def ssh_Protocol_def snmp_Protocol_def)

section \<open>Starting a host and running its rounds\<close>

text \<open>
  A configuration that its collector can be initialised from: what the code dereferences or looks up
  without a test is there. For the other errors of an initialisation the collector is kept and used.
\<close>

definition config_ready :: "('w, 'k) surroundings \<Rightarrow> host_protocol \<Rightarrow> bool" where
  "config_ready E conf \<longleftrightarrow>
     (case cfg_Protocol conf of
        L8PGraphQL \<Rightarrow>
          (case cfg_Ainfo conf of None \<Rightarrow> False
           | Some ainfo \<Rightarrow> ge_refuses (sr_graphql E) (client_config conf ainfo) = None) \<and>
          ge_credential (sr_graphql E) (cfg_CredId conf) \<noteq> None
      | L8PRESTAPI \<Rightarrow>
          (case cfg_Ainfo conf of None \<Rightarrow> False
           | Some ainfo \<Rightarrow> SessionAuth ainfo \<and> CsrfPattern ainfo \<noteq> '''' \<longrightarrow> re_compiles (sr_rest E) (CsrfPattern ainfo))
      | L8PSSH \<Rightarrow> sse_credential (sr_ssh E) \<noteq> None \<and> clock_runs (sr_ssh E)
      | L8PPSNMPV2 \<Rightarrow> se_credential (sr_snmp E) \<noteq> None
      | L8PKubectl \<Rightarrow> ke_credential (sr_kube E) (cfg_CredId conf) \<noteq> None
      | L8PKubernetesAPI \<Rightarrow>
          runtime_ok (sr_runtime E) \<and> (case rt_cache (sr_runtime E) of None \<Rightarrow> True | Some c \<Rightarrow> cache_ok c)
      | OtherProtocol _ \<Rightarrow> True)"

lemma new_collector_ready:
  assumes "config_ready E conf" and "known_protocol (cfg_Protocol conf)"
  shows "\<exists>c err. new_collector E conf = Inr (Some c, err) \<and> collector_usable E c \<and> Protocol c = cfg_Protocol conf"
proof (cases "cfg_Protocol conf")
  case L8PGraphQL
  then show ?thesis using assms(1)
    by (auto simp: config_ready_def new_collector_def graphql_Init_def graphql_ready_def new_graphql_def
        graphql_Protocol_def Let_def split: option.splits)
next
  case L8PRESTAPI
  then show ?thesis using assms(1)
    by (auto simp: config_ready_def new_collector_def rest_Init_def rest_ready_def rest_Protocol_def Let_def
        split: option.splits)
next
  case L8PSSH
  then show ?thesis using assms(1) by (simp add: config_ready_def new_collector_def ssh_usable_def ssh_Protocol_def)
next
  case L8PPSNMPV2
  then show ?thesis using assms(1) by (simp add: config_ready_def new_collector_def snmp_usable_def snmp_Protocol_def)
next
  case L8PKubectl
  then show ?thesis using assms(1)
    by (auto simp: config_ready_def new_collector_def kubectl_Init_def kubectl_ready_def kubectl_Protocol_def Let_def
        split: sum.splits prod.splits)
next
  case L8PKubernetesAPI
  then obtain err s where "client_init (sr_k8s E) conf (sr_runtime E) = (err, (\<lparr>cg_resources = True, cg_config = Some conf\<rparr>, s))"
    "state_ok s"
    using client_init_live [of "sr_runtime E" "sr_k8s E" conf] assms(1) by (auto simp: config_ready_def split: option.splits)
  then show ?thesis using L8PKubernetesAPI
    by (simp add: new_collector_def client_Protocol_def state_shared_ok)
next
  case (OtherProtocol n)
  then show ?thesis using assms(2) by (simp add: known_protocol_def)
qed

text \<open>
  What the rest of the process may do to what a collector works in, between two of its calls: the network
  goes on, an abandoned attempt of the SNMP collector opens and closes its session, other kubectl collectors
  change files, and the operations of the other Kubernetes hosts, of the
  watches, of the admission server and of the reaper work on the shared runtime.
\<close>

fun disturbed :: "('w, 'k) proto_collector \<Rightarrow> ('w, 'k) proto_collector \<Rightarrow> bool" where
  "disturbed (GraphQL_Collector c) (GraphQL_Collector c') = (\<exists>w. c' = c\<lparr>gc_world := w\<rparr>)"
| "disturbed (REST_Collector c) (REST_Collector c') = (\<exists>w. c' = c\<lparr>rc_world := w\<rparr>)"
| "disturbed (SSH_Collector c) (SSH_Collector c') = (\<exists>w. c' = c\<lparr>sh_world := w\<rparr>)"
| "disturbed (SNMP_Collector c) (SNMP_Collector c') =
     (\<exists>w session conn. c' = c\<lparr>sn_session := session, sn_connected := conn, sn_world := w\<rparr>)"
| "disturbed (Kubectl_Collector (c, fs, w)) (Kubectl_Collector (c', fs', w')) = (c' = c)"
| "disturbed (K8s_Collector (c, s)) (K8s_Collector (c', s')) =
     (c' = c \<and> (\<exists>es p p'. (\<forall>(env, e) \<in> set es. orders_ok env) \<and> process_ok p \<and> process_run es p = Inr p' \<and>
        pr_runtime p = s \<and> pr_runtime p' = s'))"
| "disturbed _ _ = False"

lemma snmp_elsewhere:
  fixes c :: "'w snmp_collector"
  shows "\<exists>w' session conn. c\<lparr>sn_world := w\<rparr> = c\<lparr>sn_session := session, sn_connected := conn, sn_world := w'\<rparr>"
  by (rule exI [of _ w], rule exI [of _ "sn_session c"], rule exI [of _ "sn_connected c"]) simp

lemma disturbed_refl:
  assumes "collector_usable E c"
  shows "disturbed c c"
proof (cases c)
  case (K8s_Collector cs)
  obtain d s where cs: "cs = (d, s)" by (cases cs)
  then have "process_ok (process0\<lparr>pr_runtime := s\<rparr>)"
    using assms by (simp add: K8s_Collector process_ok_def process0_def)
  then show ?thesis by (auto simp: K8s_Collector cs intro!: exI [of _ "[]"] exI [of _ "process0\<lparr>pr_runtime := s\<rparr>"])
next
  case (GraphQL_Collector d)
  then show ?thesis by (auto intro: exI [of _ "gc_world d"])
next
  case (REST_Collector d)
  then show ?thesis by (auto intro: exI [of _ "rc_world d"])
next
  case (SSH_Collector d)
  then show ?thesis by (auto intro: exI [of _ "sh_world d"])
next
  case (SNMP_Collector d)
  then show ?thesis using snmp_elsewhere [of "sn_world d" d] by simp
next
  case (Kubectl_Collector s)
  then show ?thesis by (cases s) auto
qed

lemma disturbed_usable:
  assumes "disturbed c c'" and "collector_usable E c"
  shows "collector_usable E c' \<and> Protocol c' = Protocol c"
  using assms
proof (induction c c' rule: disturbed.induct)
  case (6 c s c' s')
  then obtain es p p' where r: "\<forall>(env, e) \<in> set es. orders_ok env" "process_ok p" "process_run es p = Inr p'"
    "pr_runtime p = s" "pr_runtime p' = s'" "c' = c"
    by auto
  then have "process_ok p'" using events_run [OF r(2,1)] by auto
  then show ?case using 6 r by (auto simp: process_ok_def)
qed (auto simp: graphql_ready_def rest_ready_def ssh_usable_def snmp_usable_def kubectl_ready_def graphql_Protocol_def
    rest_Protocol_def ssh_Protocol_def snmp_Protocol_def)

text \<open>
  A round whose protocol calls are those of the actual collectors, each after a disturbance of what it
  works in, with whatever the cluster and its informers are then.
\<close>

definition actual_tick :: "('w, 'k) surroundings \<Rightarrow> ('w, 'k) proto_collector tick \<Rightarrow> bool" where
  "actual_tick E k \<longleftrightarrow> (\<forall>r. random_source (tick_draw k r)) \<and>
     (\<exists>d ke. (\<forall>c. collector_usable E c \<longrightarrow> disturbed c (d c)) \<and>
        tick_exec k = (\<lambda>c. Collector_Exec (E\<lparr>sr_k8s := ke\<rparr>) (d c)))"

lemma usable_k8s [simp]: "collector_usable (E\<lparr>sr_k8s := ke\<rparr>) c = collector_usable E c"
  by (cases c) simp_all

lemma actual_tick_ok:
  assumes "actual_tick E k"
  shows "tick_ok (collector_usable E) k" and "call_keeps (\<lambda>(p, c). collector_usable E c \<and> Protocol c = p) k"
proof -
  obtain d ke where d: "\<And>c. collector_usable E c \<Longrightarrow> disturbed c (d c)"
    "tick_exec k = (\<lambda>c. Collector_Exec (E\<lparr>sr_k8s := ke\<rparr>) (d c))" and rs: "\<forall>r. random_source (tick_draw k r)"
    using assms unfolding actual_tick_def by blast
  have ex: "\<exists>c' j'. tick_exec k c j = Inr (c', j') \<and> collector_usable E c' \<and> exec_frame j j' \<and> Protocol c' = Protocol c"
    if u: "collector_usable E c" for c j
  proof -
    have dc: "collector_usable E (d c)" "Protocol (d c) = Protocol c" using disturbed_usable [OF d(1) [OF u] u] by simp_all
    obtain c' j' where c': "Collector_Exec (E\<lparr>sr_k8s := ke\<rparr>) (d c) j = Inr (c', j')" "collector_usable E c'"
      "exec_frame j j'"
      using any.exec_returns [of "E\<lparr>sr_k8s := ke\<rparr>" "d c" j] dc(1) by auto
    then show ?thesis using Exec_Protocol [OF c'(1)] dc(2) by (simp add: d(2))
  qed
  show "tick_ok (collector_usable E) k" using ex rs by (fastforce simp: tick_ok_def exec_ok_def)
  have keeps: "collector_usable E c' \<and> Protocol c' = Protocol c"
    if "collector_usable E c" "tick_exec k c j = Inr (c', j')" for c j c' j'
    using ex [OF that(1), of j] that(2) by auto
  show "call_keeps (\<lambda>(p, c). collector_usable E c \<and> Protocol c = p) k"
    unfolding call_keeps_def using keeps by blast
qed

text \<open>A collector that can be used and serves the protocol it is stored under.\<close>

abbreviation fits :: "('w, 'k) surroundings \<Rightarrow> protocol \<times> ('w, 'k) proto_collector \<Rightarrow> bool" where
  "fits E \<equiv> (\<lambda>(p, c). collector_usable E c \<and> Protocol c = p)"

lemma all_hosts_run:
  assumes "env_ok env" and "range_order (config_order env)" and "registry_ok reg"
    and "map_of (tgt_Hosts t) hid = Some hs"
    and "\<forall>cfg \<in> snd ` set (host_Configs hs). config_ready E cfg \<and> (known_protocol (cfg_Protocol cfg) \<longrightarrow>
      new_collector E cfg = Inr (Some (fst (init_collector env cfg)), snd (init_collector env cfg)))"
    and "\<forall>k \<in> set ks. actual_tick E k"
  obtains h0 h1 where "start env (newHostCollector reg (Some t) hid) = Inr h0" and "sent h0 = []" and "hc_registry h0 = reg"
    and "collect smooth env ks h0 = Inr h1" and "goes_on (collector_usable E) h0 h1" and "each (fits E) h0" and "each (fits E) h1"
proof -
  let ?cfgs = "config_order env (host_Configs hs)"
  have cfgs: "set ?cfgs = set (host_Configs hs)" by (rule range_order_set [OF assms(2)])
  have new: "fits E (cfg_Protocol cfg, fst (init_collector env cfg))"
    if "(n, cfg) \<in> set ?cfgs" "known_protocol (cfg_Protocol cfg)" for n cfg
  proof -
    have "cfg \<in> snd ` set (host_Configs hs)" using that(1) cfgs by force
    then have c: "config_ready E cfg"
      "new_collector E cfg = Inr (Some (fst (init_collector env cfg)), snd (init_collector env cfg))"
      using bspec [OF assms(5)] that(2) by blast+
    show ?thesis using new_collector_ready [OF c(1) that(2)] c(2) by auto
  qed
  have made: "\<forall>e \<in> set (start_collectors env ?cfgs []). fits E e"
    by (rule start_collectors_all) (use new in auto)
  obtain h0 where h0: "start env (newHostCollector reg (Some t) hid) = Inr h0" "host_ok (collector_usable E) h0"
    "collectors h0 = Some (start_collectors env ?cfgs [])" "sent h0 = []"
    using start_new_runs [OF assms(1,3,4), of "collector_usable E"] made by fastforce
  have ticks: "\<forall>k \<in> set ks. tick_ok (collector_usable E) k" "\<forall>k \<in> set ks. call_keeps (fits E) k"
    using assms(6) actual_tick_ok by blast+
  obtain h1 where h1: "collect smooth env ks h0 = Inr h1" "goes_on (collector_usable E) h0 h1"
    using collect_runs [OF h0(2) assms(1) ticks(1), of smooth] by (auto simp: runs_def)
  have e0: "each (fits E) h0" using h0(3) made by (simp add: each_def)
  have "each (fits E) h1" using collect_told [OF e0 ticks(2) h1(1)] by blast
  moreover have "hc_registry h0 = reg" using start_registry [OF h0(1)] by (simp add: newHostCollector_def)
  ultimately show ?thesis using that h0(1,4) h1 e0 by blast
qed


section \<open>A host that is polled in every way\<close>

definition demo_rest_nat :: "nat rest_env" where
  "demo_rest_nat = \<lparr>re_build = \<lambda>_. None,
     re_do = \<lambda>_ w rq. (Suc w, Inr \<lparr>rs_code = 200, rs_status = ''200 OK'', rs_body = (''{}'', None), rs_path = None\<rparr>),
     re_json = \<lambda>_. Inr (\<lambda>_. None), re_compiles = \<lambda>_. True, re_find = \<lambda>_ _. [], re_poll = \<lambda>_ _. Inr demo_rest_poll,
     re_encode = map of_char, re_encode_map = concat \<circ> map snd, re_cookie_order = \<lambda>m. m\<rparr>"

definition demo_kube_nat :: "nat kube_env" where
  "demo_kube_nat = \<lparr>ke_credential = \<lambda>cred. Some (''prod'', cred), ke_decode = Inr, ke_refuses = \<lambda>_. None,
     ke_uuid = \<lambda>w. (Suc w, dec_int (int w)), ke_bash = \<lambda>fs w path. (w, '''', None), ke_poll = \<lambda>_ _. Inl ''unknown'',
     ke_encode = map of_char\<rparr>"

definition demo_surroundings :: "(nat, unit) surroundings" where
  "demo_surroundings = \<lparr>sr_graphql = demo_graphql, sr_rest = demo_rest_nat, sr_ssh = demo_ssh True True,
     sr_snmp = demo_flaky 3, sr_kube = demo_kube_nat, sr_k8s = demo_client_env, sr_world = 0, sr_files = Map.empty,
     sr_runtime = shared0\<rparr>"

definition demo_configs :: "(int \<times> host_protocol) list" where
  "demo_configs =
     [(1, demo_config), (2, demo_config\<lparr>cfg_Protocol := L8PSSH\<rparr>), (3, demo_rest_host True),
      (4, demo_config\<lparr>cfg_Protocol := L8PGraphQL, cfg_Ainfo := Some demo_graphql_auth\<rparr>), (5, demo_kube_host ''a''),
      (6, demo_k8s_host), (7, demo_config\<lparr>cfg_Protocol := OtherProtocol 9\<rparr>)]"

definition demo_every :: target where
  "demo_every = demo_target\<lparr>tgt_Hosts := [(''h'', \<lparr>host_HostId = ''h'', host_Configs = demo_configs\<rparr>)]\<rparr>"

definition demo_every_env :: "(nat, unit) proto_collector host_env" where
  "demo_every_env = \<lparr>rng = rev, host_order = rev, config_order = rev,
     GetPollarisByOid = (\<lambda>_. None), PostPollaris = (\<lambda>p reg. Inr reg), decode = (\<lambda>_. None),
     encode_string = (\<lambda>s. replicate (length s) 65), encode_status = (\<lambda>xs. replicate (length xs) 1),
     init_collector = (\<lambda>conf. case new_collector demo_surroundings conf of
        Inr (Some c, err) \<Rightarrow> (c, err) | _ \<Rightarrow> (Kubectl_Collector (new_kubectl, Map.empty, 0), None)),
     online = Collector_Online\<rparr>"

text \<open>Between two calls the device that the SNMP collector talks to has gone on.\<close>

fun demo_drift :: "(nat, unit) proto_collector \<Rightarrow> (nat, unit) proto_collector" where
  "demo_drift (SNMP_Collector c) = SNMP_Collector (c\<lparr>sn_world := Suc (sn_world c)\<rparr>)"
| "demo_drift c = c"

definition demo_every_tick :: "int \<Rightarrow> (nat, unit) proto_collector tick" where
  "demo_every_tick now = \<lparr>tick_now = now, tick_start = now, tick_end = now + 1, tick_draw = (\<lambda>r n. 0),
     tick_exec = (\<lambda>c. Collector_Exec demo_surroundings (demo_drift c)), tick_woken = True\<rparr>"

lemma demo_drift_disturbs: "collector_usable E c \<Longrightarrow> disturbed c (demo_drift c)"
proof (cases c)
  case (SNMP_Collector d)
  then show ?thesis using snmp_elsewhere [of "Suc (sn_world d)" d] by simp
qed (use disturbed_refl [of E c] in auto)

lemma demo_no_cache: "rt_cache shared0 = None"
  by (simp add: shared0_def)

lemma demo_every_ready: "cfg \<in> snd ` set demo_configs \<Longrightarrow> config_ready demo_surroundings cfg"
  using demo_clock [of True True]
  by (auto simp: demo_configs_def config_ready_def demo_surroundings_def demo_config_def demo_rest_host_def demo_kube_host_def
      demo_k8s_host_def demo_graphql_def demo_kube_nat_def demo_rest_nat_def demo_ssh_def demo_flaky_def shared0_ok demo_no_cache
      split: option.split)

lemma demo_every_new:
  assumes "cfg \<in> snd ` set demo_configs" and "known_protocol (cfg_Protocol cfg)"
  shows "new_collector demo_surroundings cfg =
    Inr (Some (fst (init_collector demo_every_env cfg)), snd (init_collector demo_every_env cfg))"
  using new_collector_ready [OF demo_every_ready [OF assms(1)] assms(2)] by (auto simp: demo_every_env_def)

lemma demo_every_actual: "actual_tick demo_surroundings (demo_every_tick t)"
proof -
  have "demo_surroundings\<lparr>sr_k8s := demo_client_env\<rparr> = demo_surroundings" by (simp add: demo_surroundings_def)
  then show ?thesis
    using demo_drift_disturbs
    by (auto simp: actual_tick_def demo_every_tick_def no_draw intro!: exI [of _ demo_drift] exI [of _ demo_client_env])
qed


end
