(* ===== verification/Snmp_Truthful.thy ===== *)
theory Snmp_Truthful
  imports Snmp_Theorems
begin

text \<open>
  What a successful SNMP job carries when the device is truthful but unreliable: every answer it gives is
  right, and any request may fail, any session may be refused and any attempt may run into its deadline.
\<close>

definition truthful :: "'w snmp_env \<Rightarrow> (oid \<times> bytes) list \<Rightarrow> bool" where
  "truthful env mib \<longleftrightarrow> sorted_wrt (<) (map fst mib) \<and>
     (\<forall>w o1 w' v. se_get env w o1 = (w', Inr v) \<longrightarrow> map_of mib o1 = Some v) \<and>
     (\<forall>w o1 w' nv. se_getnext env w o1 = (w', Inr nv) \<longrightarrow> next_answer mib {} o1 = Inr nv)"

section \<open>Requests\<close>

lemma snmpGet_truthful:
  assumes "truthful env mib" and "snmpGet env what c = (c', Some (Fine p))"
  shows "\<exists>root v. p = (what, v) \<and> se_parse env what = Inr root \<and> map_of mib root = Some v"
proof -
  have get: "se_get env w o1 = (w', Inr v) \<Longrightarrow> map_of mib o1 = Some v" for w o1 w' v
    using assms(1) unfolding truthful_def by blast
  show ?thesis
    using assms(2) by (auto simp: snmpGet_def split: if_splits sum.splits prod.splits go_panic.splits option.splits dest!: get)
qed

lemma next_oid_truthful:
  assumes "truthful env mib" and "next_oid env cur c = (c', Fine nv)"
  shows "next_answer mib {} cur = Inr nv"
proof -
  have nxt: "se_getnext env w o1 = (w', Inr nv) \<Longrightarrow> next_answer mib {} o1 = Inr nv" for w o1 w' nv
    using assms(1) unfolding truthful_def by blast
  show ?thesis
    using assms(2) by (auto simp: next_oid_def split: sum.splits prod.splits go_panic.splits option.splits dest!: nxt)
qed

abbreviation below :: "(oid \<times> bytes) list \<Rightarrow> oid \<Rightarrow> oid \<Rightarrow> (oid \<times> bytes) list" where
  "below mib root cur \<equiv> filter (\<lambda>e. cur < fst e \<and> prefix root (fst e)) mib"

lemma below_next:
  assumes "sorted_wrt (<) (map fst mib)" and "next_answer mib {} cur = Inr (o', SnmpValue bs)" and "prefix root o'"
  shows "below mib root cur = (o', bs) # below mib root o'"
proof -
  obtain rest where f: "filter (\<lambda>e. cur < fst e) mib = (o', bs) # rest"
    using assms(2) by (auto simp: next_answer_def split: list.splits)
  have "below mib root cur = filter (\<lambda>e. prefix root (fst e)) (filter (\<lambda>e. cur < fst e) mib)"
    by (simp only: filter_filter)
  also have "\<dots> = (o', bs) # filter (\<lambda>e. prefix root (fst e)) rest" using f assms(3) by simp
  also have "rest = filter (\<lambda>e. o' < fst e) mib" using filter_above [OF assms(1) f] by simp
  finally show ?thesis by (simp only: filter_filter)
qed

lemma walk_loop_truthful:
  assumes "truthful env mib" and "walk_loop env root n cur acc c = (c', Some (Fine pdus))"
  shows "\<exists>es. pdus = acc @ named env es \<and> prefix es (below mib root cur)"
  using assms(2)
proof (induction n arbitrary: cur acc c)
  case (Suc n)
  obtain c1 r where r: "next_oid env cur c = (c1, r)" by (cases "next_oid env cur c")
  have stop: ?case if "pdus = acc" using that by (intro exI [of _ "[]"]) simp
  have run: "sn_session c" "(case r of Panics p \<Rightarrow> (c1, Some (Panics p)) | Fails _ \<Rightarrow> (c1, Some (Fine acc))
      | Fine (o', v) \<Rightarrow> if \<not> prefix root o' then (c1, Some (Fine acc))
          else case v of BERType \<Rightarrow> (c1, Some (Fine acc))
          | SnmpValue bs \<Rightarrow> walk_loop env root n o' (acc @ [(se_show env o', bs)]) c1) = (c', Some (Fine pdus))"
    using Suc.prems by (auto simp: r split: if_splits outcome.splits)
  show ?case
  proof (cases r)
    case (Fine nv)
    obtain o' v where nv: "nv = (o', v)" by (cases nv)
    have ans: "next_answer mib {} cur = Inr (o', v)" using next_oid_truthful [OF assms(1) r [unfolded Fine nv]] .
    show ?thesis
    proof (cases "prefix root o' \<and> v \<noteq> BERType")
      case True
      then obtain bs where v: "v = SnmpValue bs" by (cases v) auto
      obtain es where es: "pdus = (acc @ [(se_show env o', bs)]) @ named env es" "prefix es (below mib root o')"
        using Suc.IH [of o' "acc @ [(se_show env o', bs)]" c1] run(2) True by (auto simp: Fine nv v)
      have "below mib root cur = (o', bs) # below mib root o'"
        using below_next [of mib cur o' bs root] assms(1) ans True by (simp add: truthful_def v)
      then show ?thesis using es by (intro exI [of _ "(o', bs) # es"]) simp
    next
      case False
      then show ?thesis using run(2) stop by (auto simp: Fine nv split: if_splits)
    qed
  qed (use run(2) stop in auto)
qed simp

lemma snmpWalk_truthful:
  assumes "truthful env mib" and "snmpWalk env what c = (c', Some (Fine pdus))"
  shows "\<exists>root es. se_parse env what = Inr root \<and> pdus = named env es \<and> es \<noteq> [] \<and> prefix es (subtree root mib)"
proof -
  obtain root where root: "se_parse env what = Inr root"
    "walk_loop env root (se_budget env (sn_world c)) root [] c = (c', Some (Fine pdus))" "pdus \<noteq> []"
    using assms(2) by (auto simp: snmpWalk_def split: if_splits sum.splits prod.splits option.splits outcome.splits list.splits)
  obtain es where "pdus = [] @ named env es" "prefix es (below mib root root)"
    using walk_loop_truthful [OF assms(1) root(2)] by blast
  then show ?thesis using root(1,3) by (auto simp: subtree_def)
qed

lemma retry_Fine:
  "retry kind body env n c = Inr (c', Inr x) \<Longrightarrow> \<exists>c1 c2. body c1 = (c2, Some (Fine x))"
proof (induction n arbitrary: c)
  case 0
  then show ?case by (auto simp: attempt_def split: prod.splits option.splits outcome.splits)
next
  case (Suc n)
  obtain c1 r where a: "attempt kind body env c = (c1, r)" by (cases "attempt kind body env c")
  show ?case
  proof (cases r)
    case (Inl err)
    then show ?thesis using Suc a by (auto simp: bind_res_eq_Inr split: option.splits)
  next
    case (Inr y)
    then have "y = x" using Suc.prems a by simp
    then show ?thesis using a Inr by (auto simp: attempt_def split: prod.splits option.splits outcome.splits)
  qed
qed

section \<open>Jobs\<close>

text \<open>
  The result of a poll on a truthful device: of a Get, the value of the object; of a Map, the first objects
  of the subtree, one at least; of a Table, the table made of such objects.
\<close>

definition device_result :: "'w snmp_env \<Rightarrow> (oid \<times> bytes) list \<Rightarrow> poll \<Rightarrow> bytes option \<Rightarrow> bool" where
  "device_result env mib pl res \<longleftrightarrow> (\<exists>root. se_parse env (poll_What pl) = Inr root \<and>
     (case poll_Operation pl of
        L8C_Get \<Rightarrow> \<exists>v. map_of mib root = Some v \<and> res = Some (se_encode_map env [(normalizeOID (poll_What pl), v)])
      | L8C_Map \<Rightarrow> \<exists>es. es \<noteq> [] \<and> prefix es (subtree root mib) \<and> res = Some (se_encode_map env (collected env es))
      | L8C_Table \<Rightarrow> \<exists>es t bs. es \<noteq> [] \<and> prefix es (subtree root mib) \<and>
          table_cells (collected env es) (Keys (se_keys env) (Some (collected env es))) empty_table = Inr t \<and>
          se_encode_table env t = Inr bs \<and> res = Some bs
      | OtherOperation n \<Rightarrow> False))"

lemma walk_job_truthful:
  assumes "truthful env mib" and "inj_on (\<lambda>o1. normalizeOID (se_show env o1)) (fst ` set mib)"
    and "walk_job env pl b c job = Inr (c', job', m)" and "Error job' = ''''"
  shows "\<exists>root es. se_parse env (poll_What pl) = Inr root \<and> es \<noteq> [] \<and> prefix es (subtree root mib) \<and>
    m = Some (collected env es) \<and> (b \<longrightarrow> Result job' = Some (se_encode_map env (collected env es)))"
proof -
  obtain c1 r where r: "retry ''Walk'' (snmpWalk env (poll_What pl)) env 9 c = Inr (c1, r)"
    using assms(3) unfolding walk_job_def by (elim bind_res_InrE) (metis surj_pair)
  then obtain pdus where pdus: "r = Inr pdus"
    using assms(3,4) by (cases r) (auto simp: walk_job_def Let_def snmp_fails_def split: if_splits)
  obtain c2 c3 where "snmpWalk env (poll_What pl) c2 = (c3, Some (Fine pdus))" using retry_Fine [OF r [unfolded pdus]] by blast
  then obtain root es where es: "se_parse env (poll_What pl) = Inr root" "pdus = named env es" "es \<noteq> []"
    "prefix es (subtree root mib)"
    using snmpWalk_truthful [OF assms(1)] by blast
  have "map_of_pdus pdus = collected env es"
    using map_of_pdus_part [OF _ assms(2) es(4)] assms(1) es(2) by (simp add: truthful_def)
  then show ?thesis using assms(3) r pdus es by (auto simp: walk_job_def Let_def split: if_splits)
qed

lemma get_job_truthful:
  assumes "truthful env mib" and "get_job env pl c job = Inr (c', job')" and "Error job' = ''''"
  shows "\<exists>root v. se_parse env (poll_What pl) = Inr root \<and> map_of mib root = Some v \<and>
    Result job' = Some (se_encode_map env [(normalizeOID (poll_What pl), v)])"
proof -
  obtain c1 r where r: "retry ''GET'' (snmpGet env (poll_What pl)) env 9 c = Inr (c1, r)"
    using assms(2) unfolding get_job_def by (elim bind_res_InrE) (metis surj_pair)
  then obtain p where p: "r = Inr p" using assms(2,3) by (cases r) (auto simp: get_job_def snmp_fails_def)
  obtain c2 c3 where "snmpGet env (poll_What pl) c2 = (c3, Some (Fine p))" using retry_Fine [OF r [unfolded p]] by blast
  then show ?thesis using snmpGet_truthful [OF assms(1)] assms(2) r p by (fastforce simp: get_job_def)
qed

lemma snmp_Exec_truthful:
  assumes "truthful env mib" and "inj_on (\<lambda>o1. normalizeOID (se_show env o1)) (fst ` set mib)"
    and "\<forall>t. \<exists>bs. se_encode_table env t = Inr bs"
    and "se_poll env (PollarisName job) (JobName job) = Inr pl" and "poll_Operation pl \<in> {L8C_Get, L8C_Map, L8C_Table}"
    and "snmp_Exec env c job = Inr (c', job')" and "Error job' = ''''"
  shows "device_result env mib pl (Result job')"
proof -
  obtain c1 e where con: "(if sn_connected c then Inr (c, None) else snmp_Connect env c) = Inr (c1, e)"
    using assms(6) unfolding snmp_Exec_def by (elim bind_res_InrE) (metis surj_pair)
  have "e = Some t \<Longrightarrow> t \<noteq> ''''" for t
    using con by (auto simp: snmp_Connect_def split: if_splits option.splits prod.splits)
  then have "e = None" using assms(6,7) con by (cases e) (auto simp: snmp_Exec_def snmp_fails_def)
  note run = assms(6) [unfolded snmp_Exec_def con this]
  consider (get) "poll_Operation pl = L8C_Get" | (map) "poll_Operation pl = L8C_Map" | (table) "poll_Operation pl = L8C_Table"
    using assms(5) by blast
  then show ?thesis
  proof cases
    case get
    then have "get_job env pl c1 job = Inr (c', job')" using run assms(4) by simp
    from get_job_truthful [OF assms(1) this assms(7)] show ?thesis using get by (simp add: device_result_def)
  next
    case map
    then obtain m where "walk_job env pl True c1 job = Inr (c', job', m)"
      using run assms(4) by (auto elim: bind_res_InrE)
    from walk_job_truthful [OF assms(1,2) this assms(7)] show ?thesis using map by (auto simp: device_result_def)
  next
    case table
    then have "table_job env pl c1 job = Inr (c', job')" using run assms(4) by simp
    then obtain c2 j m where w: "walk_job env pl False c1 job = Inr (c2, j, m)"
      "(if Error j \<noteq> '''' then Inr (c2, j) else
         bind_res (table_cells (case m of None \<Rightarrow> [] | Some m \<Rightarrow> m) (Keys (se_keys env) m) empty_table) (\<lambda>tbl.
           case se_encode_table env tbl of Inl err \<Rightarrow> Inr (c2, j)
           | Inr bs \<Rightarrow> Inr (c2, j\<lparr>Result := Some bs\<rparr>))) = Inr (c', job')"
      unfolding table_job_def by (elim bind_res_InrE) auto
    then have "Error j = ''''" using assms(7) by (auto split: if_splits)
    from walk_job_truthful [OF assms(1,2) w(1) this]
    obtain root es where es: "se_parse env (poll_What pl) = Inr root" "es \<noteq> []" "prefix es (subtree root mib)"
      "m = Some (collected env es)" by blast
    obtain t where t: "table_cells (collected env es) (Keys (se_keys env) m) empty_table = Inr t"
      using table_cells_returns [of empty_table] by (auto simp: empty_table_def)
    obtain bs where "se_encode_table env t = Inr bs" using assms(3) by blast
    then show ?thesis
      using table es t w(2) \<open>Error j = ''''\<close> unfolding device_result_def by auto
  qed
qed

end
