(* ===== verification/Device_Reports.thy ===== *)
theory Device_Reports
  imports All_Hosts Snmp_Truthful
begin

text \<open>
  From the device to the parser: in a host with any collectors, whatever fails on the way, the results that
  are sent for the polls of the SNMP collector are those of the device.
\<close>

definition snmp_gives ::
  "('w, 'k) surroundings \<Rightarrow> (oid \<times> bytes) list \<Rightarrow> string \<Rightarrow> string \<Rightarrow> poll \<Rightarrow>
   protocol \<Rightarrow> string \<Rightarrow> string \<Rightarrow> bytes option \<Rightarrow> bool" where
  "snmp_gives E mib n k pl p n' k' res \<longleftrightarrow>
     (p = L8PPSNMPV2 \<and> n' = n \<and> k' = k \<longrightarrow> device_result (sr_snmp E) mib pl res)"

lemma snmp_kind:
  "collector_usable E c \<Longrightarrow> Protocol c = L8PPSNMPV2 \<Longrightarrow> \<exists>d. c = SNMP_Collector d"
  by (cases c) (simp_all add: graphql_Protocol_def rest_Protocol_def ssh_Protocol_def kubectl_Protocol_def)

lemma actual_tick_gives:
  assumes "actual_tick E k" and "truthful (sr_snmp E) mib"
    and "inj_on (\<lambda>o1. normalizeOID (se_show (sr_snmp E) o1)) (fst ` set mib)"
    and "\<forall>t. \<exists>bs. se_encode_table (sr_snmp E) t = Inr bs"
    and "se_poll (sr_snmp E) n key = Inr pl" and "poll_Operation pl \<in> {L8C_Get, L8C_Map, L8C_Table}"
  shows "call_gives (fits E) (snmp_gives E mib n key pl) k"
proof -
  obtain d ke where d: "\<And>c. collector_usable E c \<Longrightarrow> disturbed c (d c)"
    "tick_exec k = (\<lambda>c. Collector_Exec (E\<lparr>sr_k8s := ke\<rparr>) (d c))"
    using assms(1) unfolding actual_tick_def by blast
  have "same_job j j' \<and> (Error j' = '''' \<longrightarrow> snmp_gives E mib n key pl (Protocol c) (PollarisName j') (JobName j') (Result j'))"
    if u: "collector_usable E c" and ex: "tick_exec k c j = Inr (c', j')" for c j c' j'
  proof -
    have dc: "collector_usable E (d c)" "Protocol (d c) = Protocol c" using disturbed_usable [OF d(1) [OF u] u] by simp_all
    have run: "Collector_Exec (E\<lparr>sr_k8s := ke\<rparr>) (d c) j = Inr (c', j')" using ex by (simp add: d(2))
    then have fr: "exec_frame j j'" using any.exec_returns [of "E\<lparr>sr_k8s := ke\<rparr>" "d c" j] dc(1) by auto
    note names = exec_frameD(1,2) [OF fr]
    have "device_result (sr_snmp E) mib pl (Result j')"
      if p: "Protocol c = L8PPSNMPV2" "PollarisName j' = n" "JobName j' = key" "Error j' = ''''"
    proof -
      obtain e where e: "d c = SNMP_Collector e" using snmp_kind [OF dc(1)] dc(2) p(1) by auto
      obtain e' where "snmp_Exec (sr_snmp E) e j = Inr (e', j')" using run by (auto simp: e bind_res_eq_Inr)
      moreover have "se_poll (sr_snmp E) (PollarisName j) (JobName j) = Inr pl" using assms(5) p(2,3) names by simp
      ultimately show ?thesis using snmp_Exec_truthful [OF assms(2-4) _ assms(6)] p(4) by blast
    qed
    then show ?thesis using names by (simp add: same_job_def snmp_gives_def)
  qed
  then show ?thesis unfolding call_gives_def by auto
qed


section \<open>A device that answers two requests and then loses two\<close>

definition lossy_snmp :: "nat snmp_env" where
  "lossy_snmp = \<lparr>se_credential = Some ''public'', se_open = \<lambda>w. (w, None), se_parse = \<lambda>_. Inr [1, 3],
     se_show = show_oid, se_get = \<lambda>w o1. (Suc w, Inl ''none''),
     se_getnext = \<lambda>w o1. (Suc w, if w mod 4 < 2 then next_answer demo_mib {} o1 else Inl ''request timeout''),
     se_budget = \<lambda>_. 100, se_poll = \<lambda>_ k. Inr (demo_poll k), se_encode_map = concat \<circ> map snd,
     se_encode_table = \<lambda>_. Inr [], se_keys = \<lambda>m. m, se_seconds = dec_int\<rparr>"

definition lossy_surroundings :: "(nat, unit) surroundings" where
  "lossy_surroundings = demo_surroundings\<lparr>sr_snmp := lossy_snmp\<rparr>"

definition lossy_env :: "(nat, unit) proto_collector host_env" where
  "lossy_env = \<lparr>rng = \<lambda>xs. xs, host_order = \<lambda>xs. xs, config_order = \<lambda>xs. xs,
     GetPollarisByOid = (\<lambda>_. None), PostPollaris = (\<lambda>p reg. Inr reg), decode = (\<lambda>_. None),
     encode_string = (\<lambda>s. replicate (length s) 65), encode_status = (\<lambda>xs. replicate (length xs) 1),
     init_collector = (\<lambda>conf. (SNMP_Collector (snmp_Init conf 0), None)), online = Collector_Online\<rparr>"

definition lossy_tick :: "int \<Rightarrow> (nat, unit) proto_collector tick" where
  "lossy_tick now = \<lparr>tick_now = now, tick_start = now, tick_end = now + 1, tick_draw = (\<lambda>r n. 0),
     tick_exec = Collector_Exec lossy_surroundings, tick_woken = False\<rparr>"

lemma lossy_run:
  "(case start lossy_env (newHostCollector demo_registry (Some demo_target) ''10.0.0.1'') of Inl e \<Rightarrow> None
     | Inr h0 \<Rightarrow> (case collect False lossy_env [lossy_tick 1700000000, lossy_tick 1700000100] h0 of
          Inl e \<Rightarrow> None
        | Inr h \<Rightarrow> Some (map (\<lambda>m. (PollarisName (snd m), JobName (snd m), Result (snd m))) (sent h)))) =
   Some [(''mib2'', ''systemMib'', Some [5, 6]), (''mib2'', ''ifTable'', Some [5, 6])]"
  by code_simp

lemma lossy_truthful: "truthful lossy_snmp demo_mib"
  by (simp add: truthful_def lossy_snmp_def demo_mib_def)

lemma lossy_ready:
  "\<forall>cfg \<in> snd ` set (host_Configs \<lparr>host_HostId = ''10.0.0.1'', host_Configs = [(1, demo_config)]\<rparr>).
     config_ready lossy_surroundings cfg \<and> (known_protocol (cfg_Protocol cfg) \<longrightarrow>
       new_collector lossy_surroundings cfg =
         Inr (Some (fst (init_collector lossy_env cfg)), snd (init_collector lossy_env cfg)))"
  by (simp add: demo_config_def config_ready_def lossy_surroundings_def lossy_snmp_def new_collector_def lossy_env_def
      demo_surroundings_def)

lemma lossy_actual: "actual_tick lossy_surroundings (lossy_tick t)"
proof -
  have "lossy_surroundings\<lparr>sr_k8s := demo_client_env\<rparr> = lossy_surroundings"
    by (simp add: lossy_surroundings_def demo_surroundings_def)
  then show ?thesis
    using disturbed_refl
    by (auto simp: actual_tick_def lossy_tick_def no_draw intro!: exI [of _ "\<lambda>c. c"] exI [of _ demo_client_env])
qed


end
