(* ===== verification/Collector_Service.thy ===== *)
theory Collector_Service
  imports Host_Collector_Laws K8s_Gvr
begin

text \<open>
  \<open>service/CollectorService.go\<close> and \<open>service/ExecuteService.go\<close>: the map of host collectors, the
  start and stop of polling on the state of a target, the forwarding of Kubernetes deletions and the
  execution of jobs on demand. Each collector of the map carries its own state; the aggregator is the
  list \<open>deletions\<close> of what was forwarded with the action DELETE. The orders in which Go ranges over
  the hosts of a target and over the participants are arguments. The serialisation of a map
  (\<open>proto.Marshal\<close>) and the remote request are arguments too.
\<close>

record 'c service =
  hostCollectors :: "(string \<times> 'c host_collector) list"
  svc_vnic :: bool
  svc_registry :: registry
  deletions :: "((string \<times> int) \<times> cjob) list"

definition Service_Activate :: "registry \<Rightarrow> 'c service" where
  "Service_Activate reg = \<lparr>hostCollectors = [], svc_vnic = True, svc_registry = reg, deletions = []\<rparr>"

definition Service_DeActivate :: "'c service \<Rightarrow> 'c service" where
  "Service_DeActivate s = s\<lparr>svc_vnic := False\<rparr>"

definition hostCollectorKey :: "string \<Rightarrow> string \<Rightarrow> string" where
  "hostCollectorKey deviceId hostId = deviceId @ hostId"

text \<open>The collector under the key, or a new one put there.\<close>

definition hostCollector :: "string \<Rightarrow> target \<Rightarrow> 'c service \<Rightarrow> 'c host_collector \<times> bool \<times> 'c service" where
  "hostCollector hostId t s =
     (let key = hostCollectorKey (tgt_TargetId t) hostId in
      case map_of (hostCollectors s) key of
        Some h \<Rightarrow> (h, True, s)
      | None \<Rightarrow>
          let hc = newHostCollector (svc_registry s) (Some t) hostId in
          (hc, False, s\<lparr>hostCollectors := AList.update key hc (hostCollectors s)\<rparr>))"

text \<open>\<open>start\<close> never returns an error, so the loop ends only at the last host.\<close>

fun start_hosts :: "'c host_env \<Rightarrow> target \<Rightarrow> (string \<times> host) list \<Rightarrow> 'c service \<Rightarrow> 'c service res" where
  "start_hosts env t [] s = Inr s"
| "start_hosts env t ((k, hs) # es) s =
     (case hostCollector (host_HostId hs) t s of
        (h, _, s1) \<Rightarrow>
          bind_res (start env h) (\<lambda>h'.
            start_hosts env t es (s1\<lparr>hostCollectors :=
              AList.update (hostCollectorKey (tgt_TargetId t) (host_HostId hs)) h' (hostCollectors s1)\<rparr>)))"

definition startPolling :: "'c host_env \<Rightarrow> target \<Rightarrow> 'c service \<Rightarrow> 'c service res" where
  "startPolling env t s = start_hosts env t (host_order env (tgt_Hosts t)) s"

fun stop_hosts :: "'c host_env \<Rightarrow> target \<Rightarrow> (string \<times> host) list \<Rightarrow> 'c service \<Rightarrow> 'c service res" where
  "stop_hosts env t [] s = Inr s"
| "stop_hosts env t ((k, hs) # es) s =
     (let key = hostCollectorKey (tgt_TargetId t) (host_HostId hs) in
      case map_of (hostCollectors s) key of
        None \<Rightarrow> stop_hosts env t es s
      | Some h \<Rightarrow>
          bind_res (stop env h) (\<lambda>_.
            stop_hosts env t es (s\<lparr>hostCollectors := AList.delete key (hostCollectors s)\<rparr>)))"

definition stopPolling :: "'c host_env \<Rightarrow> target \<Rightarrow> 'c service \<Rightarrow> 'c service res" where
  "stopPolling env t s = stop_hosts env t (host_order env (tgt_Hosts t)) s"

definition Service_Post :: "'c host_env \<Rightarrow> target_state \<Rightarrow> target \<Rightarrow> 'c service \<Rightarrow> 'c service res" where
  "Service_Post env st t s =
     (case st of
        Up \<Rightarrow> startPolling env t s
      | Down \<Rightarrow> stopPolling env t s
      | OtherState _ \<Rightarrow> Inr s)"

text \<open>The deletion of a Kubernetes resource, forwarded to the parser of its links id.\<close>

definition handleK8sDelete ::
  "((string \<times> string) list \<Rightarrow> bytes option) \<Rightarrow> string \<Rightarrow> string \<Rightarrow> string \<Rightarrow> string \<Rightarrow> 'c service \<Rightarrow> 'c service" where
  "handleK8sDelete marshal cluster gvrText namespace name s =
     (let linksId = GVRToLinksId gvrText in
      if linksId = '''' then s
      else case marshal [(''namespace'', namespace), (''name'', name)] of
        None \<Rightarrow> s
      | Some result \<Rightarrow>
          s\<lparr>deletions := deletions s @ [(Parser (svc_registry s) linksId,
             empty_job\<lparr>LinksId := linksId, HostId := cluster, Result := Some result\<rparr>)]\<rparr>)"

section \<open>Execution on demand\<close>

text \<open>What the service answers: the job, the answer of a participant, or an error.\<close>

datatype 'r reply = JobReply cjob | RemoteReply 'r | ErrorReply string

fun ask_participants :: "(string \<Rightarrow> cjob \<Rightarrow> 'r) \<Rightarrow> ('r \<Rightarrow> bool) \<Rightarrow> cjob \<Rightarrow> string list \<Rightarrow> 'r option" where
  "ask_participants request failed job [] = None"
| "ask_participants request failed job (u # us) =
     (let resp = request u job in
      if \<not> failed resp then Some resp else ask_participants request failed job us)"

definition Execute_Post ::
  "'c tick \<Rightarrow> string \<Rightarrow> string list \<Rightarrow> (string list \<Rightarrow> string list) \<Rightarrow> (string \<Rightarrow> cjob \<Rightarrow> 'r) \<Rightarrow>
   ('r \<Rightarrow> bool) \<Rightarrow> cjob \<Rightarrow> 'c service \<Rightarrow> ('r reply \<times> 'c service) res" where
  "Execute_Post k self participants ord request failed job s =
     (let key = hostCollectorKey (TargetId job) (HostId job) in
      case map_of (hostCollectors s) key of
        Some h \<Rightarrow>
          bind_res (execJob k job h) (\<lambda>(_, j, h').
            Inr (JobReply j, s\<lparr>hostCollectors := AList.update key h' (hostCollectors s)\<rparr>))
      | None \<Rightarrow>
          (case ask_participants request failed job (ord (filter (\<lambda>u. u \<noteq> self) participants)) of
             Some resp \<Rightarrow> Inr (RemoteReply resp, s)
           | None \<Rightarrow> Inr (JobReply (job\<lparr>Error := ''Primary Not Found''\<rparr>), s)))"

definition Execute_Put :: "'c tick \<Rightarrow> cjob \<Rightarrow> 'c service \<Rightarrow> ('r reply \<times> 'c service) res" where
  "Execute_Put k job s =
     (let key = hostCollectorKey (TargetId job) (HostId job) in
      case map_of (hostCollectors s) key of
        Some h \<Rightarrow>
          bind_res (execJob k job h) (\<lambda>(_, j, h').
            Inr (JobReply j, s\<lparr>hostCollectors := AList.update key h' (hostCollectors s)\<rparr>))
      | None \<Rightarrow> Inr (ErrorReply (''No job was found with key: '' @ key), s))"

section \<open>Laws\<close>

definition service_ok :: "('c \<Rightarrow> bool) \<Rightarrow> 'c service \<Rightarrow> bool" where
  "service_ok u s \<longleftrightarrow> registry_ok (svc_registry s) \<and> go_map (hostCollectors s) \<and>
     (\<forall>k h. map_of (hostCollectors s) k = Some h \<longrightarrow> host_ok u h \<and> running h)"

lemma stop_ok:
  assumes "host_ok u h"
  shows "\<exists>h'. stop env h = Inr h' \<and> \<not> running h' \<and> this_queue h' = None \<and> collectors h' = None"
proof -
  obtain t cs where "hc_target h = Some t" "collectors h = Some cs"
    using assms by (auto simp: host_ok_def)
  then show ?thesis
    using assms by (simp add: host_ok_def stop_def sendDeviceDown_def DeviceStatusJob_doDown_def Let_def
        stop_running_def stop_collectors_def stop_queue_def stop_fields_def this_queue_def)
qed

definition target_keys :: "target \<Rightarrow> string set" where
  "target_keys t = (\<lambda>e. hostCollectorKey (tgt_TargetId t) (host_HostId (snd e))) ` set (tgt_Hosts t)"

lemma stop_hosts_ok:
  assumes "service_ok u s"
  shows "\<exists>s'. stop_hosts env t es s = Inr s' \<and> service_ok u s' \<and>
    map_of (hostCollectors s') = (\<lambda>k. if k \<in> (\<lambda>e. hostCollectorKey (tgt_TargetId t) (host_HostId (snd e))) ` set es
      then None else map_of (hostCollectors s) k) \<and>
    svc_registry s' = svc_registry s \<and> deletions s' = deletions s \<and> svc_vnic s' = svc_vnic s"
  using assms
proof (induction es arbitrary: s)
  case Nil
  then show ?case by auto
next
  case (Cons e es)
  obtain k hs where e: "e = (k, hs)" by force
  let ?key = "hostCollectorKey (tgt_TargetId t) (host_HostId hs)"
  show ?case
  proof (cases "map_of (hostCollectors s) ?key")
    case None
    obtain s' where "stop_hosts env t es s = Inr s'" "service_ok u s'"
      "map_of (hostCollectors s') = (\<lambda>k. if k \<in> (\<lambda>e. hostCollectorKey (tgt_TargetId t) (host_HostId (snd e))) ` set es
        then None else map_of (hostCollectors s) k)" "svc_registry s' = svc_registry s"
      "deletions s' = deletions s" "svc_vnic s' = svc_vnic s"
      using Cons.IH [OF Cons.prems] by blast
    then show ?thesis using None e by (auto simp: fun_eq_iff)
  next
    case (Some h)
    then obtain h' where h': "stop env h = Inr h'" using Cons.prems stop_ok by (metis service_ok_def)
    let ?s = "s\<lparr>hostCollectors := AList.delete ?key (hostCollectors s)\<rparr>"
    have ok: "service_ok u ?s" using Cons.prems by (auto simp: service_ok_def split: if_splits)
    obtain s' where "stop_hosts env t es ?s = Inr s'" "service_ok u s'"
      "map_of (hostCollectors s') = (\<lambda>k. if k \<in> (\<lambda>e. hostCollectorKey (tgt_TargetId t) (host_HostId (snd e))) ` set es
        then None else map_of (hostCollectors ?s) k)" "svc_registry s' = svc_registry ?s"
      "deletions s' = deletions ?s" "svc_vnic s' = svc_vnic ?s"
      using Cons.IH [OF ok] by blast
    then show ?thesis using Some h' e by (auto simp: fun_eq_iff Let_def)
  qed
qed

end
