(* ===== verification/Collector_Service_Theorems.thy ===== *)
theory Collector_Service_Theorems
  imports Collector_Service Host_Collector_Theorems
begin

text \<open>
  The properties of the collector service and of the execute service: starting and stopping a target,
  repeated starts, the keys of host collectors, the forwarding of deletions and the routing of jobs
  executed on demand.
\<close>

section \<open>Starting and stopping a target\<close>

text \<open>A target whose hosts are stored under their own ids.\<close>

definition target_ok :: "target \<Rightarrow> bool" where
  "target_ok t \<longleftrightarrow> go_map (tgt_Hosts t) \<and> (\<forall>e \<in> set (tgt_Hosts t). host_HostId (snd e) = fst e)"

definition host_keys :: "target \<Rightarrow> (string \<times> host) list \<Rightarrow> string set" where
  "host_keys t es = (\<lambda>e. hostCollectorKey (tgt_TargetId t) (host_HostId (snd e))) ` set es"

lemma host_keys_Cons:
  "host_keys t ((k, hs) # es) = insert (hostCollectorKey (tgt_TargetId t) (host_HostId hs)) (host_keys t es)"
  by (simp add: host_keys_def)

lemma hostCollectorKey_same_target: "hostCollectorKey d h = hostCollectorKey d h' \<longleftrightarrow> h = h'"
  by (simp add: hostCollectorKey_def)

lemma start_hosts_ok:
  assumes "env_ok env" and "init_ok u env" and "service_ok u s"
    and "\<forall>e \<in> set es. map_of (tgt_Hosts t) (host_HostId (snd e)) \<noteq> None"
    and "distinct (map (\<lambda>e. host_HostId (snd e)) es)"
    and "host_keys t es \<inter> dom (map_of (hostCollectors s)) = {}"
  shows "\<exists>s'. start_hosts env t es s = Inr s' \<and> service_ok u s' \<and>
    (\<forall>k. k \<notin> host_keys t es \<longrightarrow> map_of (hostCollectors s') k = map_of (hostCollectors s) k) \<and>
    (\<forall>k \<in> host_keys t es. \<exists>h. map_of (hostCollectors s') k = Some h \<and> loops h = 1 \<and> hc_target h = Some t)"
  using assms(3-6)
proof (induction es arbitrary: s)
  case Nil
  then show ?case by (simp add: host_keys_def)
next
  case (Cons e es)
  obtain k hs where e: "e = (k, hs)" by force
  let ?key = "hostCollectorKey (tgt_TargetId t) (host_HostId hs)"
  have fresh: "map_of (hostCollectors s) ?key = None"
    using Cons.prems(4) e by (auto simp: host_keys_Cons)
  obtain hs' where hs': "map_of (tgt_Hosts t) (host_HostId hs) = Some hs'" using Cons.prems(2) e by auto
  have reg: "registry_ok (svc_registry s)" using Cons.prems(1) by (simp add: service_ok_def)
  obtain h where h: "start env (newHostCollector (svc_registry s) (Some t) (host_HostId hs)) = Inr h"
    "host_ok u h" "running h" "loops h = 1" "hc_target h = Some t"
    using start_new_ok [OF assms(1,2) reg hs'] by blast
  let ?s = "s\<lparr>hostCollectors := AList.update ?key h (AList.update ?key
      (newHostCollector (svc_registry s) (Some t) (host_HostId hs)) (hostCollectors s))\<rparr>"
  have ok: "service_ok u ?s" using Cons.prems(1) h(2,3) by (simp add: service_ok_def)
  have notin: "?key \<notin> host_keys t es"
    using Cons.prems(3) e by (force simp: host_keys_def hostCollectorKey_same_target)
  have disj: "host_keys t es \<inter> dom (map_of (hostCollectors ?s)) = {}"
    using Cons.prems(4) notin e by (auto simp: host_keys_Cons)
  obtain s' where s': "start_hosts env t es ?s = Inr s'" "service_ok u s'"
    "\<forall>k. k \<notin> host_keys t es \<longrightarrow> map_of (hostCollectors s') k = map_of (hostCollectors ?s) k"
    "\<forall>k \<in> host_keys t es. \<exists>h. map_of (hostCollectors s') k = Some h \<and> loops h = 1 \<and> hc_target h = Some t"
    using Cons.IH [OF ok _ _ disj] Cons.prems(2,3) by auto
  have run: "start_hosts env t (e # es) s = Inr s'"
    using e fresh h(1) s'(1) by (simp add: hostCollector_def Let_def)
  have "\<exists>h. map_of (hostCollectors s') ?key = Some h \<and> loops h = 1 \<and> hc_target h = Some t"
    using s'(3) notin h(4,5) by simp
  moreover have "map_of (hostCollectors s') k' = map_of (hostCollectors s) k'"
    if "k' \<notin> host_keys t (e # es)" for k'
    using s'(3) that e by (simp add: host_keys_Cons)
  ultimately show ?case using run s'(2,4) e by (auto simp: host_keys_Cons)
qed

lemma host_order_perm:
  assumes "range_order (host_order env)" and "target_ok t"
  shows "\<forall>e \<in> set (host_order env (tgt_Hosts t)). map_of (tgt_Hosts t) (host_HostId (snd e)) \<noteq> None"
    and "distinct (map (\<lambda>e. host_HostId (snd e)) (host_order env (tgt_Hosts t)))"
    and "host_keys t (host_order env (tgt_Hosts t)) = target_keys t"
proof -
  let ?es = "host_order env (tgt_Hosts t)"
  have set: "set ?es = set (tgt_Hosts t)" and m: "mset ?es = mset (tgt_Hosts t)"
    using assms(1) range_order_set by (auto simp: range_order_def)
  show "host_keys t ?es = target_keys t" by (simp add: host_keys_def target_keys_def set)
  have id: "host_HostId (snd e) = fst e" if "e \<in> set ?es" for e
    using assms(2) that set by (simp add: target_ok_def)
  show "\<forall>e \<in> set ?es. map_of (tgt_Hosts t) (host_HostId (snd e)) \<noteq> None"
  proof
    fix e
    assume e: "e \<in> set ?es"
    then have "fst e \<in> fst ` set (tgt_Hosts t)" by (simp add: set)
    then show "map_of (tgt_Hosts t) (host_HostId (snd e)) \<noteq> None"
      by (simp add: id [OF e] map_of_eq_None_iff)
  qed
  have ids: "map (\<lambda>e. host_HostId (snd e)) ?es = map fst ?es"
    by (rule map_cong [OF refl]) (rule id)
  moreover have "mset (map fst ?es) = mset (map fst (tgt_Hosts t))" using m by (metis mset_map)
  then have "distinct (map fst ?es)"
    using mset_eq_imp_distinct_iff [of "map fst ?es" "map fst (tgt_Hosts t)"] assms(2)
    unfolding target_ok_def go_map_def by blast
  ultimately show "distinct (map (\<lambda>e. host_HostId (snd e)) ?es)" by (simp only: ids)
qed


definition demo_service :: "unit service" where
  "demo_service = Service_Activate demo_registry"

lemma demo_service_ok: "service_ok (\<lambda>_. True) demo_service"
  by (simp add: service_ok_def demo_service_def Service_Activate_def demo_registry_ok)

lemma demo_target_ok: "target_ok demo_target"
  by (simp add: target_ok_def demo_target_def go_map_def)


section \<open>Repeated starts and ambiguous keys\<close>

lemma start_loops: "start env h = Inr h' \<Longrightarrow> loops h' = Suc (loops h)"
  by (auto simp: start_def Let_def bind_res_eq_Inr dest!: newBootState_queue split: if_splits)

text \<open>
  A second Up of a target does not find the running collector already started: it starts it
  again, so that its queue, boot stages and collectors are then driven by one more collection
  goroutine than before.
\<close>

theorem second_up_adds_a_loop:
  assumes "tgt_Hosts t = [(hid, hs)]" and "host_order env [(hid, hs)] = [(hid, hs)]"
    and "map_of (hostCollectors s) (hostCollectorKey (tgt_TargetId t) (host_HostId hs)) = Some h"
    and "Service_Post env Up t s = Inr s'"
  shows "\<exists>h'. map_of (hostCollectors s') (hostCollectorKey (tgt_TargetId t) (host_HostId hs)) = Some h' \<and>
    loops h' = Suc (loops h)"
  using assms by (auto simp: Service_Post_def startPolling_def hostCollector_def bind_res_eq_Inr
      dest: start_loops)

theorem second_up_adds_a_loop_witness:
  "\<exists>s1 s2 h. Service_Post demo_env Up demo_target demo_service = Inr s1 \<and>
     Service_Post demo_env Up demo_target s1 = Inr s2 \<and>
     map_of (hostCollectors s2) ''10.0.0.110.0.0.1'' = Some h \<and> loops h = 2"
proof -
  let ?hid = "''10.0.0.1''" and ?key = "''10.0.0.110.0.0.1''"
  let ?hs = "\<lparr>host_HostId = ?hid, host_Configs = [(1, demo_config)]\<rparr>"
  have t: "tgt_Hosts demo_target = [(?hid, ?hs)]" "tgt_TargetId demo_target = ?hid"
    by (simp_all add: demo_target_def)
  have lookup: "map_of (tgt_Hosts demo_target) ?hid = Some ?hs" by (simp add: t)
  have ord: "host_order demo_env = (\<lambda>xs. xs)" by (simp add: demo_env_def)
  obtain h1 where h1: "start demo_env (newHostCollector demo_registry (Some demo_target) ?hid) = Inr h1"
    "host_ok (\<lambda>_. True) h1" "loops h1 = 1" "currentBootStage h1 = 0" "hc_target h1 = Some demo_target"
    "hc_hostId h1 = ?hid"
    using start_new_ok [OF demo_env_ok demo_init_ok demo_registry_ok lookup] by auto
  let ?s1 = "demo_service\<lparr>hostCollectors := [(?key, h1)]\<rparr>"
  have s1: "Service_Post demo_env Up demo_target demo_service = Inr ?s1"
    using h1(1) by (simp add: Service_Post_def startPolling_def ord t hostCollector_def hostCollectorKey_def
        demo_service_def Service_Activate_def Let_def)
  have ok: "hc_service h1" "\<not> queue_nil h1" "queue_live (queue_obj h1)" "registry_ok (hc_registry h1)"
    "length (bootStages h1) = 5"
    using h1(2) by (simp_all add: host_ok_def)
  obtain cs where cs: "collectors h1 = Some cs" using h1(2) by (auto simp: host_ok_def)
  obtain h2 where h2: "start demo_env h1 = Inr h2"
    using start_ok [OF demo_env_ok demo_init_ok h1(5) _ cs _ ok h1(4), of ?hs] lookup h1(6) by auto
  have s2: "Service_Post demo_env Up demo_target ?s1 = Inr (?s1\<lparr>hostCollectors := [(?key, h2)]\<rparr>)"
    using h2 by (simp add: Service_Post_def startPolling_def ord t hostCollector_def hostCollectorKey_def)
  have "\<exists>h'. map_of (hostCollectors (?s1\<lparr>hostCollectors := [(?key, h2)]\<rparr>))
      (hostCollectorKey (tgt_TargetId demo_target) (host_HostId ?hs)) = Some h' \<and> loops h' = Suc (loops h1)"
    by (rule second_up_adds_a_loop [OF t(1) _ _ s2]) (simp_all add: ord t hostCollectorKey_def)
  then have "loops h2 = 2" by (simp add: t hostCollectorKey_def h1(3))
  with s1 s2 show ?thesis by auto
qed

text \<open>
  The key of a host collector joins the target's and the host's ids without a separator: two
  targets can share it, and starting the second one finds, and starts again, the collector of the
  first.
\<close>

theorem hostCollectorKey_ambiguous:
  "hostCollectorKey d (x @ h) = hostCollectorKey (d @ x) h \<and>
   (let first = newHostCollector demo_registry (Some demo_target) ''10.0.0.1'' :: unit host_collector;
        other = demo_target\<lparr>tgt_TargetId := ''10.0.0.110''\<rparr>;
        s = demo_service\<lparr>hostCollectors := [(hostCollectorKey ''10.0.0.1'' ''10.0.0.1'', first)]\<rparr> in
    hostCollector ''.0.0.1'' other s = (first, True, s))"
  by (simp add: hostCollectorKey_def hostCollector_def Let_def)

section \<open>Deletions\<close>

text \<open>
  A Kubernetes deletion is forwarded exactly when its resource is in the links table (and can be
  serialised): as one job for the parser of the resource's links id, in the order of the calls;
  anything else leaves the service as it is.
\<close>

theorem handleK8sDelete_forwards:
  "handleK8sDelete marshal cluster g ns n s =
    (case (map_of gvrToLinksId g, marshal [(''namespace'', ns), (''name'', n)]) of
       (Some l, Some bs) \<Rightarrow> s\<lparr>deletions := deletions s @
         [(Parser (svc_registry s) l, empty_job\<lparr>LinksId := l, HostId := cluster, Result := Some bs\<rparr>)]\<rparr>
     | _ \<Rightarrow> s)"
proof -
  have "l \<noteq> ''''" if "map_of gvrToLinksId g = Some l" for l
    using map_of_SomeD [OF that] by (auto simp: gvrToLinksId_def)
  then show ?thesis
    by (auto simp: handleK8sDelete_def GVRToLinksId_def Let_def split: option.split)
qed

section \<open>Execution on demand\<close>

lemma ask_participants_find:
  "ask_participants request failed job us =
   map_option (\<lambda>u. request u job) (find (\<lambda>u. \<not> failed (request u job)) us)"
  by (induction us) (simp_all add: Let_def)

text \<open>
  Where the service has the collector of a job's host it executes the job itself and asks nobody;
  otherwise it answers with the first participant, in the order of the range and never itself, whose
  answer is no error, and with the job marked ``Primary Not Found'' when there is none. The service it
  forwards to (a Put) never forwards again: without the collector it answers an error.
\<close>

theorem Execute_routes:
  "Execute_Post k self ps ord request failed job s =
    (case map_of (hostCollectors s) (hostCollectorKey (TargetId job) (HostId job)) of
       Some h \<Rightarrow> bind_res (execJob k job h) (\<lambda>(_, j, h').
         Inr (JobReply j, s\<lparr>hostCollectors :=
           AList.update (hostCollectorKey (TargetId job) (HostId job)) h' (hostCollectors s)\<rparr>))
     | None \<Rightarrow> (case find (\<lambda>u. \<not> failed (request u job)) (ord (filter (\<lambda>u. u \<noteq> self) ps)) of
         Some u \<Rightarrow> Inr (RemoteReply (request u job), s)
       | None \<Rightarrow> Inr (JobReply (job\<lparr>Error := ''Primary Not Found''\<rparr>), s))) \<and>
   (case map_of (hostCollectors s) (hostCollectorKey (TargetId job) (HostId job)) of
       Some h \<Rightarrow> (Execute_Put k job s :: ('r reply \<times> 'c service) res) =
         Execute_Post k self ps ord request failed job s
     | None \<Rightarrow> Execute_Put k job s =
         Inr (ErrorReply (''No job was found with key: '' @ hostCollectorKey (TargetId job) (HostId job)), s))"
  by (simp add: Execute_Post_def Execute_Put_def Let_def ask_participants_find split: option.split)

end
