(* ===== verification/Service_Process.thy ===== *)
theory Service_Process
  imports Collector_Service_Theorems Message_Origin
begin

text \<open>
  The life of the collector service: the targets that come Up and go Down, the rounds of the collection
  loops, the jobs executed on demand here and for other participants, and the deletions to forward, in any
  order. Its specification is the number of collection loops per key of a host collector. An operation is a
  step; a stop that meets the middle of a round is in \<open>stop_races_with_round\<close>.
\<close>

section \<open>Events\<close>

text \<open>What \<open>ExecuteService\<close> and the forwarding of deletions get from the service framework.\<close>

record 'r service_net =
  sv_self :: string
  sv_participants :: "string list"
  sv_range :: "string list \<Rightarrow> string list"
  sv_request :: "string \<Rightarrow> cjob \<Rightarrow> 'r"
  sv_failed :: "'r \<Rightarrow> bool"
  sv_marshal :: "(string \<times> string) list \<Rightarrow> bytes option"
  sv_cluster :: string
  sv_smooth :: bool

datatype 'c service_event =
    Target_Event target_state target
  | Round_Event string "'c tick"
  | Post_Event "'c tick" cjob
  | Put_Event "'c tick" cjob
  | Delete_Event string string string

text \<open>A round of the loop of the host collector under a key.\<close>

definition service_round :: "bool \<Rightarrow> 'c host_env \<Rightarrow> string \<Rightarrow> 'c tick \<Rightarrow> 'c service \<Rightarrow> 'c service res" where
  "service_round smooth env key k s =
     (case map_of (hostCollectors s) key of
        None \<Rightarrow> Inr s
      | Some h \<Rightarrow> bind_res (collect smooth env [k] h) (\<lambda>h'.
          Inr (s\<lparr>hostCollectors := AList.update key h' (hostCollectors s)\<rparr>)))"

definition service_event ::
  "'c host_env \<Rightarrow> 'r service_net \<Rightarrow> 'c service_event \<Rightarrow> 'c service \<Rightarrow> 'c service res" where
  "service_event env net ev s =
     (case ev of
        Target_Event st t \<Rightarrow> Service_Post env st t s
      | Round_Event key k \<Rightarrow> service_round (sv_smooth net) env key k s
      | Post_Event k job \<Rightarrow>
          bind_res (Execute_Post k (sv_self net) (sv_participants net) (sv_range net) (sv_request net) (sv_failed net) job s)
            (\<lambda>(answer, s). Inr s)
      | Put_Event k job \<Rightarrow> bind_res (Execute_Put k job s :: ('r reply \<times> 'c service) res) (\<lambda>(answer, s). Inr s)
      | Delete_Event g ns n \<Rightarrow> Inr (handleK8sDelete (sv_marshal net) (sv_cluster net) g ns n s))"

fun service_run ::
  "'c host_env \<Rightarrow> 'r service_net \<Rightarrow> 'c service_event list \<Rightarrow> 'c service \<Rightarrow> 'c service res" where
  "service_run env net [] s = Inr s"
| "service_run env net (ev # evs) s = bind_res (service_event env net ev s) (service_run env net evs)"

section \<open>The specification\<close>

text \<open>The loops per key: one more for each host of a target that comes Up, none after a Down.\<close>

fun spec_event :: "'c service_event \<Rightarrow> (string \<Rightarrow> nat) \<Rightarrow> string \<Rightarrow> nat" where
  "spec_event (Target_Event Up t) f = (\<lambda>k. if k \<in> target_keys t then Suc (f k) else f k)"
| "spec_event (Target_Event Down t) f = (\<lambda>k. if k \<in> target_keys t then 0 else f k)"
| "spec_event _ f = f"

definition service_loops :: "'c service \<Rightarrow> string \<Rightarrow> nat" where
  "service_loops s k = (case map_of (hostCollectors s) k of None \<Rightarrow> 0 | Some h \<Rightarrow> loops h)"

text \<open>The collectors of a host's configurations are usable when they have been initialised.\<close>

definition host_ready :: "('c \<Rightarrow> bool) \<Rightarrow> 'c host_env \<Rightarrow> host \<Rightarrow> bool" where
  "host_ready u env hs \<longleftrightarrow> (\<forall>(n, cfg) \<in> set (host_Configs hs).
     known_protocol (cfg_Protocol cfg) \<longrightarrow> u (fst (init_collector env cfg)))"

definition target_ready :: "('c \<Rightarrow> bool) \<Rightarrow> 'c host_env \<Rightarrow> target \<Rightarrow> bool" where
  "target_ready u env t \<longleftrightarrow> target_ok t \<and> (\<forall>(hid, hs) \<in> set (tgt_Hosts t). host_ready u env hs)"

text \<open>
  The targets name their hosts under their own ids, the calls keep the contract of \<open>Exec\<close>, and a job that
  is executed on demand names a poll of the registry: \<open>execJob\<close> panics on another one.
\<close>

fun event_ok :: "('c \<Rightarrow> bool) \<Rightarrow> 'c host_env \<Rightarrow> registry \<Rightarrow> 'c service_event \<Rightarrow> bool" where
  "event_ok u env reg (Target_Event st t) = target_ready u env t"
| "event_ok u env reg (Round_Event key k) = tick_ok u k"
| "event_ok u env reg (Post_Event k job) = (exec_ok u (tick_exec k) \<and> Poll reg (PollarisName job) (JobName job) \<noteq> None)"
| "event_ok u env reg (Put_Event k job) = (exec_ok u (tick_exec k) \<and> Poll reg (PollarisName job) (JobName job) \<noteq> None)"
| "event_ok u env reg (Delete_Event g ns n) = True"

section \<open>The invariant\<close>

text \<open>A collector of the map: started, of a host that its target has, with all polls of the service.\<close>

definition hosted :: "('c \<Rightarrow> bool) \<Rightarrow> 'c host_env \<Rightarrow> registry \<Rightarrow> 'c host_collector \<Rightarrow> bool" where
  "hosted u env reg h \<longleftrightarrow> host_ok u h \<and> running h \<and> 0 < loops h \<and> keeps_polls reg (hc_registry h) \<and>
     (\<exists>t hs. hc_target h = Some t \<and> map_of (tgt_Hosts t) (hc_hostId h) = Some hs \<and> host_ready u env hs)"

definition service_inv :: "('c \<Rightarrow> bool) \<Rightarrow> 'c host_env \<Rightarrow> registry \<Rightarrow> 'c service \<Rightarrow> bool" where
  "service_inv u env reg s \<longleftrightarrow> svc_registry s = reg \<and> registry_ok reg \<and> go_map (hostCollectors s) \<and>
     (\<forall>k h. map_of (hostCollectors s) k = Some h \<longrightarrow> hosted u env reg h)"

lemma service_inv_ok: "service_inv u env reg s \<Longrightarrow> service_ok u s"
  unfolding service_inv_def service_ok_def hosted_def by blast

lemma service_inv_put:
  "service_inv u env reg s \<Longrightarrow> hosted u env reg h \<Longrightarrow> service_inv u env reg (s\<lparr>hostCollectors := AList.update key h (hostCollectors s)\<rparr>)"
  by (auto simp: service_inv_def split: if_splits)

lemma service_loops_put:
  "service_loops (s\<lparr>hostCollectors := AList.update key h (hostCollectors s)\<rparr>) = (service_loops s)(key := loops h)"
  by (auto simp: service_loops_def fun_eq_iff)

text \<open>What an operation does to a service: it keeps the invariant and does to the loops what the specification says.\<close>

definition service_does :: "('c \<Rightarrow> bool) \<Rightarrow> 'c host_env \<Rightarrow> registry \<Rightarrow> (string \<Rightarrow> nat) \<Rightarrow> 'c service res \<Rightarrow> bool" where
  "service_does u env reg f m \<longleftrightarrow> (\<exists>s. m = Inr s \<and> service_inv u env reg s \<and> service_loops s = f)"

text \<open>A collector put back after an operation that left its loops alone.\<close>

lemma serves_put:
  assumes "service_inv u env reg s" and "map_of (hostCollectors s) key = Some h" and "hosted u env reg h'" and "loops h' = loops h"
  shows "service_does u env reg (service_loops s) (Inr (s\<lparr>hostCollectors := AList.update key h' (hostCollectors s)\<rparr>))"
proof -
  have "(service_loops s)(key := loops h') = service_loops s" using assms(2,4) by (simp add: service_loops_def fun_upd_idem)
  then show ?thesis using service_inv_put [OF assms(1,3)] by (simp add: service_does_def service_loops_put)
qed

section \<open>Starting and stopping\<close>

text \<open>A start, of a new collector or of one that runs already.\<close>

lemma start_again:
  assumes "env_ok env" and "range_order (config_order env)" and "hc_service h" and "\<not> queue_nil h" and "queue_live (queue_obj h)"
    and "registry_ok (hc_registry h)" and "length (bootStages h) = 5" and "currentBootStage h \<le> 5"
    and "\<forall>i \<le> currentBootStage h. i < 5 \<and> 0 < i \<longrightarrow> bootStages h ! i \<noteq> None"
    and "collectors h = Some cs" and "\<forall>e \<in> set cs. u (snd e)"
    and "hc_target h = Some t" and "map_of (tgt_Hosts t) (hc_hostId h) = Some hs" and "running h"
    and "host_ready u env hs" and "keeps_polls reg (hc_registry h)"
  shows "\<exists>h'. start env h = Inr h' \<and> hosted u env reg h' \<and> loops h' = Suc (loops h)"
proof -
  let ?cs = "start_collectors env (config_order env (host_Configs hs)) cs"
  let ?h1 = "h\<lparr>collectors := Some ?cs\<rparr>"
  obtain bs q new where b: "newBootState env 0 ?h1 = Inr (bs, ?h1\<lparr>queue_obj := q\<rparr>)" "queue_live q"
    using newBootState_ok [of ?h1 env 0] assms(1,3-7) by auto
  have "\<forall>e \<in> set ?cs. u (snd e)"
    by (rule start_collectors_all [OF _ assms(11)]) (use assms(15) range_order_set [OF assms(2)] in \<open>auto simp: host_ready_def\<close>)
  moreover have "bootStages h \<noteq> []" using assms(7) by auto
  moreover have "((bootStages h)[0 := Some bs]) ! i \<noteq> None" if "i \<le> currentBootStage h" "i < 5" for i
    using assms(7,9) that by (cases i) auto
  ultimately show ?thesis
    using b assms by (auto simp: start_def Let_def host_ok_def hosted_def)
qed

lemma start_hosted:
  assumes "env_ok env" and "range_order (config_order env)" and "hosted u env reg h"
  shows "\<exists>h'. start env h = Inr h' \<and> hosted u env reg h' \<and> loops h' = Suc (loops h)"
proof -
  obtain t hs cs where "hc_target h = Some t" "map_of (tgt_Hosts t) (hc_hostId h) = Some hs" "collectors h = Some cs" "host_ready u env hs"
      "\<forall>e \<in> set cs. u (snd e)"
    using assms(3) by (auto simp: hosted_def host_ok_def)
  then show ?thesis
    using assms(3) by (intro start_again [OF assms(1,2)]) (auto simp: hosted_def host_ok_def)
qed

lemma start_new_hosted:
  fixes env :: "'c host_env"
  assumes "env_ok env" and "range_order (config_order env)" and "registry_ok reg" and "map_of (tgt_Hosts t) hid = Some hs" and "host_ready u env hs"
  shows "\<exists>h. start env (newHostCollector reg (Some t) hid :: 'c host_collector) = Inr h \<and> hosted u env reg h \<and> loops h = 1"
proof -
  have "queue_live (NewJobsQueue (Some t) hid)"
    using NewJobsQueue_inv [of "Some t" hid] by (simp add: queue_live_def NewJobsQueue_def)
  then have "\<exists>h'. start env (newHostCollector reg (Some t) hid) = Inr h' \<and> hosted u env reg h' \<and>
      loops h' = Suc (loops (newHostCollector reg (Some t) hid :: 'c host_collector))"
    using assms by (intro start_again [OF assms(1,2)]) (auto simp: newHostCollector_def)
  then show ?thesis by (simp add: newHostCollector_def)
qed

text \<open>The next loop of the host collector of a host, which \<open>hostCollector\<close> finds or makes.\<close>

lemma start_one_host:
  assumes "env_ok env" and "range_order (config_order env)" and "service_inv u env reg s"
    and "map_of (tgt_Hosts t) hid = Some hs" and "host_ready u env hs"
    and "hostCollector hid t s = (h, found, s1)" and "key = hostCollectorKey (tgt_TargetId t) hid"
  shows "\<exists>h'. start env h = Inr h' \<and>
    service_does u env reg ((service_loops s)(key := Suc (service_loops s key)))
      (Inr (s1\<lparr>hostCollectors := AList.update key h' (hostCollectors s1)\<rparr>))"
proof (cases "map_of (hostCollectors s) key")
  case (Some g)
  then have "h = g" "s1 = s" using assms(6,7) by (simp_all add: hostCollector_def Let_def)
  moreover obtain h' where "start env g = Inr h'" "hosted u env reg h'" "loops h' = Suc (loops g)"
    using start_hosted [OF assms(1,2), of u reg g] assms(3) Some unfolding service_inv_def by blast
  ultimately show ?thesis
    using service_inv_put [OF assms(3)] Some by (simp add: service_does_def service_loops_put) (simp add: service_loops_def)
next
  case None
  have reg: "svc_registry s = reg" "registry_ok reg" using assms(3) by (simp_all add: service_inv_def)
  let ?n = "newHostCollector reg (Some t) hid :: 'a host_collector"
  have h: "h = ?n" "s1 = s\<lparr>hostCollectors := AList.update key ?n (hostCollectors s)\<rparr>"
    using assms(6,7) None reg(1) by (auto simp: hostCollector_def Let_def)
  obtain h' where h': "start env ?n = Inr h'" "hosted u env reg h'" "loops h' = 1"
    using start_new_hosted [OF assms(1,2) reg(2) assms(4,5)] by blast
  have "service_inv u env reg (s1\<lparr>hostCollectors := AList.update key h' (hostCollectors s1)\<rparr>)"
    using assms(3) h'(2) h(2) by (auto simp: service_inv_def split: if_splits)
  moreover have "service_loops (s1\<lparr>hostCollectors := AList.update key h' (hostCollectors s1)\<rparr>) =
      (service_loops s)(key := Suc (service_loops s key))"
    using None h'(3) h(2) by (auto simp: service_loops_def fun_eq_iff)
  ultimately show ?thesis using h h'(1) by (simp add: service_does_def)
qed

lemma start_hosts_serves:
  assumes "env_ok env" and "range_order (config_order env)" and "service_inv u env reg s"
    and "target_ready u env t" and "\<forall>e \<in> set es. map_of (tgt_Hosts t) (host_HostId (snd e)) \<noteq> None"
    and "distinct (map (\<lambda>e. host_HostId (snd e)) es)"
  shows "service_does u env reg (\<lambda>k. if k \<in> host_keys t es then Suc (service_loops s k) else service_loops s k) (start_hosts env t es s)"
  using assms(3,5,6)
proof (induction es arbitrary: s)
  case Nil
  then show ?case by (simp add: service_does_def host_keys_def)
next
  case (Cons e es)
  obtain k hs where e: "e = (k, hs)" by force
  let ?key = "hostCollectorKey (tgt_TargetId t) (host_HostId hs)"
  obtain h found s1 where hc: "hostCollector (host_HostId hs) t s = (h, found, s1)" by (metis prod_cases3)
  obtain hs' where hs': "map_of (tgt_Hosts t) (host_HostId hs) = Some hs'" using Cons.prems(2) e by auto
  have "host_ready u env hs'" using assms(4) map_of_SomeD [OF hs'] by (auto simp: target_ready_def)
  from start_one_host [OF assms(1,2) Cons.prems(1) hs' this hc refl]
  obtain h' where h': "start env h = Inr h'"
      "service_inv u env reg (s1\<lparr>hostCollectors := AList.update ?key h' (hostCollectors s1)\<rparr>)"
      "service_loops (s1\<lparr>hostCollectors := AList.update ?key h' (hostCollectors s1)\<rparr>) =
        (service_loops s)(?key := Suc (service_loops s ?key))"
    by (auto simp: service_does_def)
  have notin: "?key \<notin> host_keys t es"
    using Cons.prems(3) e by (force simp: host_keys_def hostCollectorKey_same_target)
  have f: "(\<lambda>k. if k \<in> host_keys t es then Suc (((service_loops s)(?key := Suc (service_loops s ?key))) k)
        else ((service_loops s)(?key := Suc (service_loops s ?key))) k) =
      (\<lambda>k. if k \<in> host_keys t (e # es) then Suc (service_loops s k) else service_loops s k)"
    using notin by (auto simp: e host_keys_Cons fun_eq_iff)
  have "service_does u env reg (\<lambda>k. if k \<in> host_keys t (e # es) then Suc (service_loops s k) else service_loops s k)
      (start_hosts env t es (s1\<lparr>hostCollectors := AList.update ?key h' (hostCollectors s1)\<rparr>))"
    using Cons.IH [OF h'(2)] Cons.prems(2,3) unfolding h'(3) f by simp
  then show ?case using e hc h'(1) by simp
qed

lemma stop_hosts_serves:
  assumes "service_inv u env reg s"
  shows "service_does u env reg (\<lambda>k. if k \<in> host_keys t es then 0 else service_loops s k) (stop_hosts env t es s)"
proof -
  obtain s' where s': "stop_hosts env t es s = Inr s'" "service_ok u s'"
    "map_of (hostCollectors s') = (\<lambda>k. if k \<in> host_keys t es then None else map_of (hostCollectors s) k)"
    "svc_registry s' = svc_registry s"
    using stop_hosts_ok [OF service_inv_ok [OF assms], of env t es] unfolding host_keys_def by blast
  have "service_inv u env reg s'" using assms s'(2-4) by (auto simp: service_inv_def service_ok_def split: if_splits)
  then show ?thesis using s'(1,3) by (auto simp: service_does_def service_loops_def fun_eq_iff)
qed

section \<open>Rounds and jobs on demand\<close>

lemma exec_ok_calls:
  assumes "exec_ok u (tick_exec k)"
  shows "call_keeps (\<lambda>e. u (snd e)) k" and "call_gives (\<lambda>e. u (snd e)) (\<lambda>_ _ _ _. True) k"
proof -
  have "u c' \<and> exec_frame j j'" if "u c" "tick_exec k c j = Inr (c', j')" for c j c' j'
    using assms that unfolding exec_ok_def by (metis Pair_inject sum.inject(2))
  then show "call_keeps (\<lambda>e. u (snd e)) k" "call_gives (\<lambda>e. u (snd e)) (\<lambda>_ _ _ _. True) k"
    by (force simp: call_keeps_def call_gives_def same_job_def dest: exec_frameD(1,2))+
qed

lemma round_hosted:
  assumes "hosted u env reg h" and "env_ok env" and "posts_keep env" and "tick_ok u k"
  shows "\<exists>h'. collect smooth env [k] h = Inr h' \<and> hosted u env reg h' \<and> loops h' = loops h"
proof -
  have ex: "exec_ok u (tick_exec k)" using assms(4) by (simp add: tick_ok_def)
  have ok: "host_ok u h" using assms(1) by (simp add: hosted_def)
  obtain h' where h': "collect smooth env [k] h = Inr h'" "goes_on u h h'"
    using collect_runs [OF ok assms(2), of "[k]" smooth] assms(4) by (auto simp: runs_def)
  have "each (\<lambda>e. u (snd e)) h" using ok by (auto simp: each_def host_ok_def)
  then have "told (\<lambda>_ _ _ _. True) h h'"
    using collect_told [OF _ _ h'(1)] exec_ok_calls [OF ex] assms(3) by fastforce
  then show ?thesis using h' assms(1) keeps_polls_trans by (auto simp: hosted_def goes_on_def told_def)
qed

lemma execJob_hosted:
  assumes "hosted u env reg h" and "exec_ok u (tick_exec k)" and "Poll reg (PollarisName job) (JobName job) \<noteq> None"
  shows "\<exists>found j h'. execJob k job h = Inr (found, j, h') \<and> hosted u env reg h' \<and> loops h' = loops h"
proof -
  obtain cs where cs: "collectors h = Some cs" "\<forall>e \<in> set cs. u (snd e)" "hc_service h"
    using assms(1) by (auto simp: hosted_def host_ok_def)
  obtain pl where pl: "Poll (hc_registry h) (PollarisName job) (JobName job) = Some pl"
    using assms(1,3) by (auto simp: hosted_def keeps_polls_def)
  show ?thesis
  proof (cases "map_of cs (poll_Protocol pl)")
    case None
    then show ?thesis using cs pl assms(1) by (auto simp: execJob_def Let_def)
  next
    case (Some c)
    then have "u c" using cs(2) map_of_SomeD by fastforce
    then obtain c' j' where j': "tick_exec k c (MarkStart (tick_start k) job) = Inr (c', j')" "u c'"
      using assms(2) unfolding exec_ok_def by blast
    have "\<forall>e \<in> set (AList.update (poll_Protocol pl) c' cs). u (snd e)" by (rule set_update_snd [OF cs(2) j'(2)])
    then have "hosted u env reg (h\<lparr>collectors := Some (AList.update (poll_Protocol pl) c' cs)\<rparr>)"
      using assms(1) by (simp add: hosted_def host_ok_def)
    then show ?thesis using cs pl Some j'(1) by (auto simp: execJob_def Let_def)
  qed
qed

lemma service_round_serves:
  assumes "service_inv u env reg s" and "env_ok env" and "posts_keep env" and "tick_ok u k"
  shows "service_does u env reg (service_loops s) (service_round smooth env key k s)"
proof (cases "map_of (hostCollectors s) key")
  case (Some h)
  then have "hosted u env reg h" using assms(1) by (simp add: service_inv_def)
  from round_hosted [OF this assms(2-4)] obtain h' where
    "collect smooth env [k] h = Inr h'" "hosted u env reg h'" "loops h' = loops h" by blast
  then show ?thesis using serves_put [OF assms(1) Some] by (simp add: service_round_def Some del: collect.simps)
qed (use assms(1) in \<open>simp add: service_round_def service_does_def\<close>)

lemma Execute_serves:
  assumes "service_inv u env reg s" and "exec_ok u (tick_exec k)" and "Poll reg (PollarisName job) (JobName job) \<noteq> None"
  shows "service_does u env reg (service_loops s)
      (bind_res (Execute_Post k self ps ord request failed job s) (\<lambda>(answer, s). Inr s))"
    and "service_does u env reg (service_loops s) (bind_res (Execute_Put k job s) (\<lambda>(answer, s). Inr s))"
proof -
  have "service_does u env reg (service_loops s)
      (bind_res (Execute_Post k self ps ord request failed job s) (\<lambda>(answer, s). Inr s)) \<and>
    service_does u env reg (service_loops s) (bind_res (Execute_Put k job s) (\<lambda>(answer, s). Inr s))"
  proof (cases "map_of (hostCollectors s) (hostCollectorKey (TargetId job) (HostId job))")
    case (Some h)
    then have "hosted u env reg h" using assms(1) by (simp add: service_inv_def)
    from execJob_hosted [OF this assms(2,3)] obtain found j h' where
      "execJob k job h = Inr (found, j, h')" "hosted u env reg h'" "loops h' = loops h" by blast
    then show ?thesis using serves_put [OF assms(1) Some] by (simp add: Execute_Post_def Execute_Put_def Some)
  qed (use assms(1) in \<open>simp add: Execute_Post_def Execute_Put_def service_does_def split: option.split\<close>)
  then show "service_does u env reg (service_loops s)
      (bind_res (Execute_Post k self ps ord request failed job s) (\<lambda>(answer, s). Inr s))"
    "service_does u env reg (service_loops s) (bind_res (Execute_Put k job s) (\<lambda>(answer, s). Inr s))" by blast+
qed

lemma handleK8sDelete_serves:
  "service_inv u env reg s \<Longrightarrow> service_does u env reg (service_loops s) (Inr (handleK8sDelete m cluster g ns n s))"
  by (simp add: handleK8sDelete_def Let_def service_does_def service_inv_def service_loops_def fun_eq_iff split: option.split)

section \<open>The service implements its specification\<close>

lemma service_event_serves:
  assumes "env_ok env" and "range_order (config_order env)" and "range_order (host_order env)" and "posts_keep env"
    and "service_inv u env reg s" and "event_ok u env reg ev"
  shows "service_does u env reg (spec_event ev (service_loops s)) (service_event env net ev s)"
proof (cases ev)
  case (Target_Event st t)
  then have ready: "target_ready u env t" using assms(6) by simp
  then have "target_ok t" by (simp add: target_ready_def)
  note ord = host_order_perm [OF assms(3) this]
  show ?thesis
    using start_hosts_serves [OF assms(1,2,5) ready ord(1,2)]
      stop_hosts_serves [OF assms(5), of t "host_order env (tgt_Hosts t)"] assms(5)
    by (cases st) (simp_all add: Target_Event service_event_def Service_Post_def startPolling_def stopPolling_def ord(3) service_does_def)
next
  case (Round_Event key k)
  then show ?thesis using service_round_serves [OF assms(5,1,4)] assms(6) by (simp add: service_event_def)
next
  case (Post_Event k job)
  then show ?thesis using assms(6) by (simp add: service_event_def Execute_serves(1) [OF assms(5)])
next
  case (Put_Event k job)
  then show ?thesis using assms(6) by (simp add: service_event_def Execute_serves(2) [OF assms(5)])
next
  case (Delete_Event g ns n)
  then show ?thesis using handleK8sDelete_serves [OF assms(5)] by (simp add: service_event_def)
qed

lemma service_run_serves:
  assumes "env_ok env" and "range_order (config_order env)" and "range_order (host_order env)" and "posts_keep env"
    and "service_inv u env reg s" and "\<forall>ev \<in> set evs. event_ok u env reg ev"
  shows "service_does u env reg (fold spec_event evs (service_loops s)) (service_run env net evs s)"
  using assms(5,6)
proof (induction evs arbitrary: s)
  case (Cons ev evs)
  have "event_ok u env reg ev" using Cons.prems(2) by simp
  from service_event_serves [OF assms(1-4) Cons.prems(1) this, of net]
  obtain s1 where "service_event env net ev s = Inr s1" "service_inv u env reg s1" "service_loops s1 = spec_event ev (service_loops s)"
    unfolding service_does_def by blast
  then show ?case using Cons.IH [of s1] Cons.prems(2) by simp
qed (simp add: service_does_def)

lemma service_started: "registry_ok reg \<Longrightarrow> service_inv u env reg (Service_Activate reg)"
  by (simp add: service_inv_def Service_Activate_def)

lemma service_idle: "service_loops (Service_Activate reg) = (\<lambda>_. 0)"
  by (simp add: service_loops_def Service_Activate_def fun_eq_iff)

text \<open>What the service framework gives in an example.\<close>

definition demo_net :: "unit service_net" where
  "demo_net = \<lparr>sv_self = ''a'', sv_participants = [''a'', ''b''], sv_range = (\<lambda>xs. xs), sv_request = (\<lambda>_ _. ()),
     sv_failed = (\<lambda>_. False), sv_marshal = (\<lambda>_. Some []), sv_cluster = ''c'', sv_smooth = False\<rparr>"

end
