(* ===== verification/Service_Hosts.thy ===== *)
theory Service_Hosts
  imports Service_Process All_Hosts
begin

text \<open>
  The collector service with its actual collectors: SNMP, SSH, REST, GraphQL, kubectl and the Kubernetes
  client, as \<open>newProtocolCollector\<close> makes them, in any number of hosts.
\<close>

text \<open>
  What the configurations of a target need is there, the rounds and the jobs on demand call the actual
  collectors (between two calls of a collector the network and the other hosts do what they like), and a job
  on demand names a poll of the registry.
\<close>

fun actual_event ::
  "('w, 'k) surroundings \<Rightarrow> ('w, 'k) proto_collector host_env \<Rightarrow> registry \<Rightarrow> ('w, 'k) proto_collector service_event \<Rightarrow> bool"
where
  "actual_event E env reg (Target_Event st t) = (target_ok t \<and> (\<forall>(hid, hs) \<in> set (tgt_Hosts t).
     \<forall>cfg \<in> snd ` set (host_Configs hs). config_ready E cfg \<and> (known_protocol (cfg_Protocol cfg) \<longrightarrow>
       new_collector E cfg = Inr (Some (fst (init_collector env cfg)), snd (init_collector env cfg)))))"
| "actual_event E env reg (Round_Event key k) = actual_tick E k"
| "actual_event E env reg (Post_Event k job) = (actual_tick E k \<and> Poll reg (PollarisName job) (JobName job) \<noteq> None)"
| "actual_event E env reg (Put_Event k job) = (actual_tick E k \<and> Poll reg (PollarisName job) (JobName job) \<noteq> None)"
| "actual_event E env reg (Delete_Event g ns n) = True"

lemma actual_host_ready:
  assumes "\<forall>cfg \<in> snd ` set (host_Configs hs). config_ready E cfg \<and> (known_protocol (cfg_Protocol cfg) \<longrightarrow>
    new_collector E cfg = Inr (Some (fst (init_collector env cfg)), snd (init_collector env cfg)))"
  shows "host_ready (collector_usable E) env hs"
proof -
  have "collector_usable E (fst (init_collector env cfg))"
    if "(n, cfg) \<in> set (host_Configs hs)" "known_protocol (cfg_Protocol cfg)" for n cfg
  proof -
    have "cfg \<in> snd ` set (host_Configs hs)" using that(1) by force
    then have c: "config_ready E cfg"
      "new_collector E cfg = Inr (Some (fst (init_collector env cfg)), snd (init_collector env cfg))"
      using assms that(2) by blast+
    show ?thesis using new_collector_ready [OF c(1) that(2)] c(2) by auto
  qed
  then show ?thesis by (auto simp: host_ready_def)
qed

lemma actual_event_ok:
  assumes "actual_event E env reg ev"
  shows "event_ok (collector_usable E) env reg ev"
proof (cases ev)
  case (Target_Event st t)
  then show ?thesis using assms by (auto simp: target_ready_def intro!: actual_host_ready)
qed (use assms actual_tick_ok(1) in \<open>auto simp: tick_ok_def\<close>)


text \<open>A day of a target with a configuration for each protocol: Up, a round, a job on demand, Up again, a round.\<close>

definition every_day :: "(nat, unit) proto_collector service_event list" where
  "every_day = [Target_Event Up demo_every, Round_Event ''10.0.0.1h'' (demo_every_tick 1700000000),
     Post_Event (demo_every_tick 1700000001) (empty_job\<lparr>TargetId := ''10.0.0.1'', HostId := ''h'',
       PollarisName := ''mib2'', JobName := ''systemMib''\<rparr>), Target_Event Up demo_every,
     Round_Event ''10.0.0.1h'' (demo_every_tick 1700000100)]"

lemma every_day_actual: "\<forall>ev \<in> set every_day. actual_event demo_surroundings demo_every_env demo_registry ev"
proof -
  have "target_ok demo_every" by (simp add: target_ok_def demo_every_def go_map_def)
  moreover have "tgt_Hosts demo_every = [(''h'', \<lparr>host_HostId = ''h'', host_Configs = demo_configs\<rparr>)]"
    by (simp add: demo_every_def)
  moreover have "Poll demo_registry ''mib2'' ''systemMib'' \<noteq> None" by (simp add: demo_registry_def demo_pollaris_def)
  ultimately show ?thesis
    using demo_every_ready demo_every_new demo_every_actual by (simp add: every_day_def)
qed


end
