(* ===== verification/Snmp_Table.thy ===== *)
theory Snmp_Table
  imports Snmp_Theorems
begin

text \<open>
  From the identifiers of a walk to the cells of a table: reading row and column back from a name,
  the cells that a set of names gives, and the canonical form of a name.
\<close>

section \<open>Row and column\<close>

definition cell_name :: "string \<Rightarrow> nat \<Rightarrow> nat \<Rightarrow> string" where
  "cell_name base col row = base @ ''.'' @ dec_nat col @ ''.'' @ dec_nat row"

lemma getRowAndColName_cell:
  "int row < 2 ^ 31 \<Longrightarrow> getRowAndColName (cell_name base col row) = (int row, dec_nat col)"
proof -
  assume r: "int row < 2 ^ 31"
  have "LastIndex_char ((base @ ''.'' @ dec_nat col) @ CHR ''.'' # dec_nat row) CHR ''.'' =
      Some (length (base @ ''.'' @ dec_nat col))"
    by (rule LastIndex_char_append) (rule dec_nat_no_dot)
  moreover have "LastIndex_char (base @ CHR ''.'' # dec_nat col) CHR ''.'' = Some (length base)"
    by (rule LastIndex_char_append) (rule dec_nat_no_dot)
  ultimately show ?thesis using r by (simp add: getRowAndColName_def cell_name_def Atoi_dec_nat)
qed

section \<open>The cells of a table\<close>

definition coordinates :: "string \<Rightarrow> int \<times> int" where
  "coordinates key = (fst (getRowAndColName key), int32 (fst (Atoi (snd (getRowAndColName key)))))"

lemma coordinates_cell:
  "int row < 2 ^ 31 \<Longrightarrow> int col < 2 ^ 31 \<Longrightarrow> coordinates (cell_name base col row) = (int row, int col)"
  by (simp add: coordinates_def getRowAndColName_cell Atoi_dec_nat)

lemma table_cells_last:
  assumes "Columns tbl \<noteq> None"
  shows "\<exists>t. table_cells m keys tbl = Inr t \<and>
    (\<forall>r c. cell_at t r c =
      (case filter (\<lambda>k. coordinates k = (r, c)) keys of [] \<Rightarrow> cell_at tbl r c | ks \<Rightarrow> Some (map_of m (last ks))))"
  using assms
proof (induction keys arbitrary: tbl)
  case (Cons key keys)
  obtain row col where rc: "getRowAndColName key = (row, col)" by (cases "getRowAndColName key")
  obtain tbl' where t: "SetValue row (int32 (fst (Atoi col))) col (map_of m key) (Some tbl) = Inr (Some tbl')"
    "Columns tbl' \<noteq> None"
    "\<forall>r c. cell_at tbl' r c = (if r = row \<and> c = int32 (fst (Atoi col)) then Some (map_of m key) else cell_at tbl r c)"
    by (rule SetValue_meets [OF Cons.prems])
  obtain t1 where t1: "table_cells m keys tbl' = Inr t1"
    "\<forall>r c. cell_at t1 r c =
      (case filter (\<lambda>k. coordinates k = (r, c)) keys of [] \<Rightarrow> cell_at tbl' r c | ks \<Rightarrow> Some (map_of m (last ks)))"
    using Cons.IH [OF t(2)] by blast
  have "coordinates key = (row, int32 (fst (Atoi col)))" by (simp add: coordinates_def rc)
  then have "cell_at t1 r c =
      (case filter (\<lambda>k. coordinates k = (r, c)) (key # keys) of [] \<Rightarrow> cell_at tbl r c | ks \<Rightarrow> Some (map_of m (last ks)))"
    for r c
    using t1(2) t(3) by (auto split: list.split)
  then show ?case using t(1) t1(1) by (simp add: rc)
qed simp

definition cells_map :: "string \<Rightarrow> ((nat \<times> nat) \<times> bytes) list \<Rightarrow> cmap" where
  "cells_map base es = map (\<lambda>e. (cell_name base (fst (fst e)) (snd (fst e)), snd e)) es"

definition small_cells :: "((nat \<times> nat) \<times> bytes) list \<Rightarrow> bool" where
  "small_cells es \<longleftrightarrow> distinct (map fst es) \<and> list_all (\<lambda>e. int (fst (fst e)) < 2 ^ 31 \<and> int (snd (fst e)) < 2 ^ 31) es"

lemma cells_map_go_map:
  assumes "small_cells es"
  shows "go_map (cells_map base es)"
proof -
  have "inj_on (\<lambda>p. cell_name base (fst p) (snd p)) (set (map fst es))"
  proof (rule inj_onI)
    fix p q assume m: "p \<in> set (map fst es)" "q \<in> set (map fst es)"
      and eq: "cell_name base (fst p) (snd p) = cell_name base (fst q) (snd q)"
    have "int (fst p) < 2 ^ 31 \<and> int (snd p) < 2 ^ 31 \<and> int (fst q) < 2 ^ 31 \<and> int (snd q) < 2 ^ 31"
      using assms m by (auto simp: small_cells_def list_all_iff)
    then show "p = q" using arg_cong [OF eq, of coordinates] by (simp add: coordinates_cell prod_eq_iff)
  qed
  then have "distinct (map (\<lambda>p. cell_name base (fst p) (snd p)) (map fst es))"
    using assms by (simp add: small_cells_def distinct_map comp_inj_on)
  then show ?thesis by (simp add: go_map_def cells_map_def comp_def)
qed

text \<open>
  C27. The names of a table whose index has one component give exactly that table: whatever order the
  keys are visited in, the cell at row \<open>r\<close> and column \<open>c\<close> is the value walked at \<open>base.c.r\<close>, and a
  cell that was not walked is not there.
\<close>

theorem snmp_table_cells:
  assumes "range_order ord" and "small_cells es"
  shows "\<exists>t. table_cells (cells_map base es) (Keys ord (Some (cells_map base es))) empty_table = Inr t \<and>
    (\<forall>r c. cell_at t (int r) (int c) = map_option Some (map_of es (c, r)))"
proof -
  let ?m = "cells_map base es"
  let ?keys = "Keys ord (Some ?m)"
  obtain t where t: "table_cells ?m ?keys empty_table = Inr t"
    "\<forall>r c. cell_at t r c =
      (case filter (\<lambda>k. coordinates k = (r, c)) ?keys of [] \<Rightarrow> cell_at empty_table r c | ks \<Rightarrow> Some (map_of ?m (last ks)))"
    using table_cells_last [of empty_table ?m ?keys] by (auto simp: empty_table_def)
  have keys: "set ?keys = dom (map_of ?m)"
    using Keys_perm [OF assms(1) cells_map_go_map [OF assms(2)]] by blast
  have small: "int (fst (fst e)) < 2 ^ 31" "int (snd (fst e)) < 2 ^ 31" if "e \<in> set es" for e
    using assms(2) that by (auto simp: small_cells_def list_all_iff)
  have dist: "distinct (map fst es)" using assms(2) by (simp add: small_cells_def)
  have at: "cell_at t (int r) (int c) = map_option Some (map_of es (c, r))" for r c
  proof (cases "filter (\<lambda>k. coordinates k = (int r, int c)) ?keys")
    case Nil
    have "map_of es (c, r) = None"
    proof (rule ccontr)
      assume "map_of es (c, r) \<noteq> None"
      then obtain v where e: "((c, r), v) \<in> set es" by (auto dest: map_of_SomeD)
      then have "cell_name base c r \<in> fst ` set ?m"
        by (auto simp: cells_map_def image_iff intro!: bexI [OF _ e])
      then have "cell_name base c r \<in> set ?keys" by (simp only: keys dom_map_of_conv_image_fst)
      moreover have "coordinates (cell_name base c r) = (int r, int c)"
        using small [OF e] by (simp add: coordinates_cell)
      ultimately show False using Nil by (auto simp: filter_empty_conv)
    qed
    then show ?thesis using t(2) Nil by (simp add: cell_at_def empty_table_def)
  next
    case (Cons k ks)
    define l where "l = last (k # ks)"
    have "l \<in> set (filter (\<lambda>k. coordinates k = (int r, int c)) ?keys)" using Cons l_def by (simp only: last_in_set list.distinct not_False_eq_True)
    then have l: "coordinates l = (int r, int c)" "l \<in> dom (map_of ?m)" by (auto simp: keys)
    then obtain e where e: "e \<in> set es" "l = cell_name base (fst (fst e)) (snd (fst e))"
      by (auto simp: dom_map_of_conv_image_fst cells_map_def)
    then have rc: "fst e = (c, r)" using l(1) small [OF e(1)] by (simp add: coordinates_cell prod_eq_iff)
    have "(l, snd e) \<in> set ?m" using e by (auto simp: cells_map_def)
    then have "map_of ?m l = Some (snd e)"
      using map_of_Some_iff [OF cells_map_go_map [OF assms(2)]] by blast
    moreover have "map_of es (c, r) = Some (snd e)" using e(1) rc dist by (metis map_of_eq_Some_iff prod.collapse)
    ultimately show ?thesis using t(2) Cons l_def by simp
  qed
  show ?thesis using t(1) at by blast
qed

text \<open>
  A name whose index has two components gives the wrong cell: the column number of the table is
  dropped, and two columns of one entry fall into the same cell, where the key visited last wins.
\<close>

theorem two_part_index_collides:
  assumes "c1 \<noteq> c2" and "int i < 2 ^ 31" and "int j < 2 ^ 31"
  shows "cell_name (base @ ''.'' @ dec_nat c1) i j \<noteq> cell_name (base @ ''.'' @ dec_nat c2) i j \<and>
    (\<exists>t. table_cells [(cell_name (base @ ''.'' @ dec_nat c1) i j, v1), (cell_name (base @ ''.'' @ dec_nat c2) i j, v2)]
        [cell_name (base @ ''.'' @ dec_nat c1) i j, cell_name (base @ ''.'' @ dec_nat c2) i j] empty_table = Inr t \<and>
      (\<forall>r c. cell_at t r c = (if r = int j \<and> c = int i then Some (Some v2) else None)))"
proof -
  let ?k = "\<lambda>c. cell_name (base @ ''.'' @ dec_nat c) i j"
  have "dec_nat c1 \<noteq> dec_nat c2" using assms(1) dec_nat_digits [of c1] dec_nat_digits [of c2] by force
  then have d: "?k c1 \<noteq> ?k c2" by (simp add: cell_name_def)
  have co: "coordinates (?k c) = (int j, int i)" for c using assms by (simp add: coordinates_cell)
  obtain t where t: "table_cells [(?k c1, v1), (?k c2, v2)] [?k c1, ?k c2] empty_table = Inr t"
    "\<forall>r c. cell_at t r c =
      (case filter (\<lambda>k. coordinates k = (r, c)) [?k c1, ?k c2] of [] \<Rightarrow> cell_at empty_table r c
       | ks \<Rightarrow> Some (map_of [(?k c1, v1), (?k c2, v2)] (last ks)))"
    using table_cells_last [of empty_table "[(?k c1, v1), (?k c2, v2)]" "[?k c1, ?k c2]"] by (auto simp: empty_table_def)
  have "\<forall>r c. cell_at t r c = (if r = int j \<and> c = int i then Some (Some v2) else None)"
    using t(2) d co by (auto simp: cell_at_def empty_table_def)
  with d t(1) show ?thesis by blast
qed

section \<open>Canonical names\<close>

text \<open>
  The three ways to write a name below \<open>iso\<close> have one canonical form, which begins with a dot and
  is left alone when it is normalised again; so a name is a key of the result map only once.
\<close>

theorem normalizeOID_canonical:
  "HasPrefix (normalizeOID s) ''.'' \<and> normalizeOID (normalizeOID s) = normalizeOID s \<and>
   normalizeOID (''iso.'' @ x) = ''.1.'' @ x \<and> normalizeOID (''1.'' @ x) = ''.1.'' @ x \<and>
   normalizeOID (''.1.'' @ x) = ''.1.'' @ x"
  by (cases s) (auto simp: normalizeOID_def HasPrefix_def)

section \<open>Credentials\<close>

text \<open>
  When the security service has no credential for the host, the first job of a collector that is
  not connected does not fail: \<open>Connect\<close> panics, on the collection goroutine, where nothing recovers it.
\<close>

theorem missing_credential_panics:
  assumes "se_credential env = None" and "\<not> sn_connected c"
  shows "snmp_Exec env c job = Inl (Raised ''credential'')"
  using assms by (simp add: snmp_Exec_def snmp_Connect_def)

theorem missing_credential_panics_witness:
  "snmp_Exec (demo_snmp {}\<lparr>se_credential := None\<rparr>) (snmp_Init (sn_config demo_session) ()) empty_job =
     Inl (Raised ''credential'')"
  by (rule missing_credential_panics) (simp_all add: snmp_Init_def)

definition demo_cells :: "((nat \<times> nat) \<times> bytes) list" where
  "demo_cells = [((2, 1), [10]), ((2, 2), [11]), ((3, 1), [12])]"

theorem snmp_table_cells_witness:
  "\<exists>t. table_cells (cells_map ''.1'' demo_cells) (Keys rev (Some (cells_map ''.1'' demo_cells))) empty_table = Inr t \<and>
    cell_at t 1 2 = Some (Some [10]) \<and> cell_at t 2 3 = None"
proof -
  have "small_cells demo_cells" by (simp add: small_cells_def demo_cells_def)
  from snmp_table_cells [OF range_order_rev this, of "''.1''"] obtain t where
    t: "table_cells (cells_map ''.1'' demo_cells) (Keys rev (Some (cells_map ''.1'' demo_cells))) empty_table = Inr t"
      "\<forall>r c. cell_at t (int r) (int c) = map_option Some (map_of demo_cells (c, r))" by blast
  have "cell_at t (int 1) (int 2) = Some (Some [10])" "cell_at t (int 2) (int 3) = None"
    by (simp_all only: t(2)) (simp_all add: demo_cells_def)
  with t(1) show ?thesis by auto
qed

theorem two_part_index_collides_witness:
  "cell_name (''.1.'' @ dec_nat 2) 0 1 \<noteq> cell_name (''.1.'' @ dec_nat 3) 0 1 \<and>
    (\<exists>t. table_cells [(cell_name (''.1.'' @ dec_nat 2) 0 1, [5]), (cell_name (''.1.'' @ dec_nat 3) 0 1, [6])]
        [cell_name (''.1.'' @ dec_nat 2) 0 1, cell_name (''.1.'' @ dec_nat 3) 0 1] empty_table = Inr t \<and>
      cell_at t 1 0 = Some (Some [6]))"
  using two_part_index_collides [of 2 3 0 1 "''.1''" "[5]" "[6]"] by auto

end
