(* ===== verification/Snmp_Threads.thy ===== *)
theory Snmp_Threads
  imports Snmp_Truthful
begin

text \<open>
  The attempts of one \<open>walk\<close> as the goroutines they are. An attempt that misses its deadline is abandoned,
  not stopped: it goes on with the session of the collector and with the variable \<open>pdus\<close> that all attempts
  of the walk share, while the next attempt runs. A step is one access to the session: a test for nil, a
  request with its answer, a disconnection, a connection. Any interleaving of the steps of the attempts and
  of the loop that starts them is possible, and the deadline may come at any time before the loop takes the
  end of the current attempt. The lemmas say which results the loop can read, and that without a missed
  deadline they are those of \<open>retry\<close>.
\<close>

section \<open>One attempt\<close>

datatype spot = Check | Ask | Failed | Closing | Redial | Recheck | AskAgain

datatype walk_pc = Enter | At spot oid oid "pdu list"

text \<open>How \<open>snmpWalk\<close> ends: it returns its two values, or a panic is recovered.\<close>

datatype walk_end = Returned "pdu list" "string option" | Recovered string

definition closed_text :: string where
  "closed_text = ''SNMP session was closed during walk''"

definition walk_return :: "string \<Rightarrow> pdu list \<Rightarrow> walk_end" where
  "walk_return what acc =
     (if acc = [] then Returned [] (Some (''SNMP walk found no results for OID '' @ what)) else Returned acc None)"

definition walk_take ::
  "'w snmp_env \<Rightarrow> string \<Rightarrow> oid \<Rightarrow> pdu list \<Rightarrow> oid \<times> snmp_value \<Rightarrow> walk_pc + walk_end" where
  "walk_take env what root acc = (\<lambda>(o', v).
     if \<not> prefix root o' then Inr (walk_return what acc)
     else case v of BERType \<Rightarrow> Inr (walk_return what acc)
     | SnmpValue bs \<Rightarrow> Inl (At Check root o' (acc @ [(se_show env o', bs)])))"

fun walk_thread ::
  "'w snmp_env \<Rightarrow> string \<Rightarrow> walk_pc \<Rightarrow> 'w snmp_collector \<Rightarrow> 'w snmp_collector \<times> (walk_pc + walk_end)" where
  "walk_thread env what Enter c =
     (c, if \<not> sn_session c then Inr (Returned [] (Some ''SNMP session is not initialized''))
         else case se_parse env what of
           Inl err \<Rightarrow> Inr (Returned [] (Some (''failed to parse OID '' @ what @ '': '' @ err)))
         | Inr root \<Rightarrow> Inl (At Check root root []))"
| "walk_thread env what (At Check root cur acc) c =
     (c, if \<not> sn_session c then Inr (Returned acc (Some closed_text)) else Inl (At Ask root cur acc))"
| "walk_thread env what (At Ask root cur acc) c =
     (if \<not> sn_session c then (c, Inr (Recovered ''runtime error''))
      else case se_getnext env (sn_world c) cur of
        (w, Inr nv) \<Rightarrow> (c\<lparr>sn_world := w\<rparr>, walk_take env what root acc nv)
      | (w, Inl err) \<Rightarrow> (c\<lparr>sn_world := w\<rparr>, Inl (At Failed root cur acc)))"
| "walk_thread env what (At Failed root cur acc) c =
     (c, if \<not> sn_session c then Inr (Returned acc (Some closed_text)) else Inl (At Closing root cur acc))"
| "walk_thread env what (At Closing root cur acc) c = (snmp_Disconnect c, Inl (At Redial root cur acc))"
| "walk_thread env what (At Redial root cur acc) c =
     (case snmp_Connect env c of
        Inl (Raised p) \<Rightarrow> (c, Inr (Recovered p))
      | Inl p \<Rightarrow> (c, Inr (Recovered ''runtime error''))
      | Inr (c, Some reconnErr) \<Rightarrow> (c, Inr (walk_return what acc))
      | Inr (c, None) \<Rightarrow> (c, Inl (At Recheck root cur acc)))"
| "walk_thread env what (At Recheck root cur acc) c =
     (c, if \<not> sn_session c then Inr (Returned acc (Some closed_text)) else Inl (At AskAgain root cur acc))"
| "walk_thread env what (At AskAgain root cur acc) c =
     (if \<not> sn_session c then (c, Inr (Recovered ''runtime error''))
      else case se_getnext env (sn_world c) cur of
        (w, Inr nv) \<Rightarrow> (c\<lparr>sn_world := w\<rparr>, walk_take env what root acc nv)
      | (w, Inl err) \<Rightarrow> (c\<lparr>sn_world := w\<rparr>, Inr (walk_return what acc)))"

section \<open>The loop and its attempts\<close>

datatype main_pc = Begin | Waiting | Judge | Resting | Left | Crashed go_panic

text \<open>
  The state: the collector, the shared \<open>pdus\<close>, \<open>lastError\<close>, the attempts started so far (where they are, or
  the error they ended with) and the loop.
\<close>

record 'w walk_state =
  ws_coll :: "'w snmp_collector"
  ws_pdus :: "pdu list"
  ws_lastError :: "string option"
  ws_threads :: "(walk_pc + string option) list"
  ws_main :: main_pc

datatype walk_event = Step nat | Main | Deadline

definition walk_start :: "'w snmp_collector \<Rightarrow> 'w walk_state" where
  "walk_start c = \<lparr>ws_coll = c, ws_pdus = [], ws_lastError = None, ws_threads = [], ws_main = Begin\<rparr>"

definition recovered_text :: "string \<Rightarrow> string" where
  "recovered_text p = ''SNMP Walk panic (session closed during operation): '' @ p"

definition thread_event :: "'w snmp_env \<Rightarrow> string \<Rightarrow> nat \<Rightarrow> 'w walk_state \<Rightarrow> 'w walk_state option" where
  "thread_event env what i s =
     (if length (ws_threads s) \<le> i then None
      else case ws_threads s ! i of
        Inr e \<Rightarrow> None
      | Inl pc \<Rightarrow>
          (case walk_thread env what pc (ws_coll s) of
             (c, Inl pc) \<Rightarrow> Some (s\<lparr>ws_coll := c, ws_threads := (ws_threads s)[i := Inl pc]\<rparr>)
           | (c, Inr (Returned p e)) \<Rightarrow>
               Some (s\<lparr>ws_coll := c, ws_pdus := p, ws_threads := (ws_threads s)[i := Inr e]\<rparr>)
           | (c, Inr (Recovered p)) \<Rightarrow>
               Some (s\<lparr>ws_coll := c, ws_threads := (ws_threads s)[i := Inr (Some (recovered_text p))]\<rparr>)))"

definition main_event :: "'w snmp_env \<Rightarrow> 'w walk_state \<Rightarrow> 'w walk_state option" where
  "main_event env s =
     (case ws_main s of
        Begin \<Rightarrow> Some (s\<lparr>ws_pdus := [], ws_lastError := None, ws_threads := ws_threads s @ [Inl Enter], ws_main := Waiting\<rparr>)
      | Waiting \<Rightarrow>
          (case last (ws_threads s) of
             Inl pc \<Rightarrow> None
           | Inr e \<Rightarrow> Some (s\<lparr>ws_coll := (ws_coll s)\<lparr>sn_pollSuccess := True\<rparr>, ws_lastError := e, ws_main := Judge\<rparr>))
      | Judge \<Rightarrow>
          Some (if ws_lastError s = None \<or> 10 \<le> length (ws_threads s) then s\<lparr>ws_main := Left\<rparr>
                else s\<lparr>ws_coll := snmp_Disconnect (ws_coll s), ws_main := Resting\<rparr>)
      | Resting \<Rightarrow>
          Some (case snmp_Connect env (ws_coll s) of
                  Inl p \<Rightarrow> s\<lparr>ws_main := Crashed p\<rparr>
                | Inr (c, Some reconnErr) \<Rightarrow> s\<lparr>ws_coll := c, ws_main := Left\<rparr>
                | Inr (c, None) \<Rightarrow> s\<lparr>ws_coll := c, ws_main := Begin\<rparr>)
      | Left \<Rightarrow> None
      | Crashed p \<Rightarrow> None)"

definition deadline_event :: "'w snmp_env \<Rightarrow> 'w walk_state \<Rightarrow> 'w walk_state option" where
  "deadline_event env s =
     (if ws_main s = Waiting
      then Some (s\<lparr>ws_coll := (ws_coll s)\<lparr>sn_session := False, sn_connected := False\<rparr>,
        ws_lastError := Some (''timeout after '' @ se_seconds env (timeout_seconds (ws_coll s))), ws_main := Judge\<rparr>)
      else None)"

definition walk_event :: "'w snmp_env \<Rightarrow> string \<Rightarrow> walk_event \<Rightarrow> 'w walk_state \<Rightarrow> 'w walk_state option" where
  "walk_event env what e s =
     (case e of Step i \<Rightarrow> thread_event env what i s | Main \<Rightarrow> main_event env s | Deadline \<Rightarrow> deadline_event env s)"

fun walk_run :: "'w snmp_env \<Rightarrow> string \<Rightarrow> walk_event list \<Rightarrow> 'w walk_state \<Rightarrow> 'w walk_state option" where
  "walk_run env what [] s = Some s"
| "walk_run env what (e # es) s =
     (case walk_event env what e s of None \<Rightarrow> None | Some s \<Rightarrow> walk_run env what es s)"

text \<open>What the code after the loop reads.\<close>

definition walk_got :: "'w walk_state \<Rightarrow> string + pdu list" where
  "walk_got s = (case ws_lastError s of Some err \<Rightarrow> Inl err | None \<Rightarrow> Inr (ws_pdus s))"

abbreviation walk_step :: "'w snmp_env \<Rightarrow> string \<Rightarrow> 'w walk_state \<Rightarrow> walk_event \<Rightarrow> 'w walk_state \<Rightarrow> bool" where
  "walk_step env what s e t \<equiv> walk_event env what e s = Some t"

lemma run_reach: "walk_run env what es s = Some t \<Longrightarrow> reach start (walk_step env what) s \<Longrightarrow> reach start (walk_step env what) t"
  by (induction es arbitrary: s) (auto split: option.splits intro: reach_step)

section \<open>Every interleaving on a truthful device\<close>

definition part_of :: "'w snmp_env \<Rightarrow> (oid \<times> bytes) list \<Rightarrow> oid \<Rightarrow> pdu list \<Rightarrow> bool" where
  "part_of env mib root p \<longleftrightarrow> (\<exists>es. p = named env es \<and> prefix es (subtree root mib))"

text \<open>An attempt has collected the objects up to the one it is at.\<close>

definition pc_ok :: "'w snmp_env \<Rightarrow> (oid \<times> bytes) list \<Rightarrow> oid \<Rightarrow> walk_pc \<Rightarrow> bool" where
  "pc_ok env mib root pc \<longleftrightarrow>
     (case pc of Enter \<Rightarrow> True
      | At spot r cur acc \<Rightarrow> r = root \<and>
          (\<exists>es. acc = named env es \<and> subtree root mib = es @ below mib root cur))"

definition walk_inv :: "'w snmp_env \<Rightarrow> (oid \<times> bytes) list \<Rightarrow> oid \<Rightarrow> 'w walk_state \<Rightarrow> bool" where
  "walk_inv env mib root s \<longleftrightarrow> part_of env mib root (ws_pdus s) \<and>
     (\<forall>pc. Inl pc \<in> set (ws_threads s) \<longrightarrow> pc_ok env mib root pc)"

lemma part_of_Nil [simp]: "part_of env mib root []"
  by (simp add: part_of_def)

lemma pc_ok_part: "pc_ok env mib root (At spot r cur acc) \<Longrightarrow> part_of env mib root acc"
  by (auto simp: pc_ok_def part_of_def)

definition end_ok :: "'w snmp_env \<Rightarrow> (oid \<times> bytes) list \<Rightarrow> oid \<Rightarrow> walk_pc + walk_end \<Rightarrow> bool" where
  "end_ok env mib root r \<longleftrightarrow>
     (case r of Inl pc \<Rightarrow> pc_ok env mib root pc | Inr (Returned p e) \<Rightarrow> part_of env mib root p | Inr (Recovered t) \<Rightarrow> True)"

lemma walk_return_ok [simp]: "part_of env mib root acc \<Longrightarrow> end_ok env mib root (Inr (walk_return what acc))"
  by (simp add: end_ok_def walk_return_def)

lemma walk_take_ok:
  assumes "truthful env mib" and "pc_ok env mib root (At spot root cur acc)" and "next_answer mib {} cur = Inr nv"
  shows "end_ok env mib root (walk_take env what root acc nv)"
proof -
  obtain o' v where nv: "nv = (o', v)" by (cases nv)
  obtain es where es: "acc = named env es" "subtree root mib = es @ below mib root cur"
    using assms(2) by (auto simp: pc_ok_def)
  show ?thesis
  proof (cases "prefix root o' \<and> v \<noteq> BERType")
    case True
    then obtain bs where v: "v = SnmpValue bs" by (cases v) auto
    have "below mib root cur = (o', bs) # below mib root o'"
      using below_next [of mib cur o' bs root] assms(1,3) True by (simp add: truthful_def nv v)
    then have "acc @ [(se_show env o', bs)] = named env (es @ [(o', bs)])"
      "subtree root mib = (es @ [(o', bs)]) @ below mib root o'"
      using es by simp_all
    then show ?thesis using True unfolding walk_take_def end_ok_def pc_ok_def by (auto simp: nv v)
  next
    case False
    then show ?thesis using pc_ok_part [OF assms(2)] by (auto simp: walk_take_def nv)
  qed
qed

lemma walk_thread_ok:
  assumes "truthful env mib" and "se_parse env what = Inr root" and "pc_ok env mib root pc"
    and "walk_thread env what pc c = (c', r)"
  shows "end_ok env mib root r"
proof (cases pc)
  case Enter
  then show ?thesis using assms(2,4) by (auto simp: end_ok_def pc_ok_def subtree_def)
next
  case (At spot r0 cur acc)
  have r0: "r0 = root" using assms(3) by (simp add: At pc_ok_def)
  have at: "pc_ok env mib root (At spot' root cur acc)" for spot' using assms(3) by (simp add: At r0 pc_ok_def)
  note part = pc_ok_part [OF at]
  have ask: "end_ok env mib root (walk_take env what root acc nv)" if "se_getnext env w cur = (w', Inr nv)" for w w' nv
    using walk_take_ok [OF assms(1) at] that assms(1) unfolding truthful_def by blast
  have basic: "end_ok env mib root (Inl (At spot' root cur acc))" "end_ok env mib root (Inr (Returned acc e))"
    "end_ok env mib root (Inr (Recovered t))" for spot' e t
    using at part by (simp_all add: end_ok_def)
  note basic = this walk_return_ok [OF part, of what]
  show ?thesis
    using assms(4) basic unfolding At r0
    by (cases spot) (auto split: if_splits prod.splits sum.splits option.splits go_panic.splits dest: ask)
qed

lemma walk_event_inv:
  assumes "truthful env mib" and "se_parse env what = Inr root" and "walk_inv env mib root s"
    and "walk_event env what e s = Some t"
  shows "walk_inv env mib root t"
proof (cases e)
  case (Step i)
  then obtain pc where i: "i < length (ws_threads s)" "ws_threads s ! i = Inl pc"
    using assms(4) by (auto simp: walk_event_def thread_event_def split: if_splits sum.splits)
  obtain c r where r: "walk_thread env what pc (ws_coll s) = (c, r)" by (cases "walk_thread env what pc (ws_coll s)")
  have "Inl pc \<in> set (ws_threads s)" using i by (metis nth_mem)
  then have ok: "end_ok env mib root r"
    using walk_thread_ok [OF assms(1,2) _ r] assms(3) by (simp add: walk_inv_def)
  have upd: "Inl q \<in> set ((ws_threads s)[i := x]) \<Longrightarrow> Inl q = x \<or> Inl q \<in> set (ws_threads s)" for q x
    using set_update_subset_insert [of "ws_threads s" i x] by blast
  show ?thesis
    using assms(3,4) i r ok
    by (auto simp: walk_event_def thread_event_def Step walk_inv_def end_ok_def split: sum.splits walk_end.splits dest!: upd)
next
  case Main
  then show ?thesis using assms(3,4)
    by (auto simp: walk_event_def main_event_def walk_inv_def pc_ok_def split: main_pc.splits sum.splits if_splits prod.splits option.splits)
next
  case Deadline
  then show ?thesis using assms(3,4) by (auto simp: walk_event_def deadline_event_def walk_inv_def split: if_splits)
qed

definition truthful_step :: "'w snmp_env \<Rightarrow> string \<Rightarrow> (oid \<times> bytes) list \<Rightarrow> oid \<Rightarrow> 'w walk_state \<Rightarrow> walk_event \<Rightarrow> 'w walk_state \<Rightarrow> bool" where
  "truthful_step env what mib root s e t \<longleftrightarrow>
     truthful env mib \<and> se_parse env what = Inr root \<and> walk_step env what s e t"

interpretation walk_sys: invariant_system "\<lambda>s. \<exists>c. s = walk_start c" "truthful_step env what mib root" "walk_inv env mib root"
  for env :: "'w snmp_env" and what mib root
  by unfold_locales (force simp: walk_start_def walk_inv_def, meson truthful_step_def walk_event_inv)

lemma reach_truthful:
  assumes "truthful env mib" and "se_parse env what = Inr root"
  shows "reach start (walk_step env what) s \<Longrightarrow> reach start (truthful_step env what mib root) s"
proof (induction rule: reach.induct)
  case (reach_step s e t)
  then show ?case using assms by (blast intro: reach.reach_step [where e = e] truthful_step_def [THEN iffD2])
qed (rule reach_start)

section \<open>Without a missed deadline\<close>

text \<open>An attempt that is left alone.\<close>

inductive ends :: "'w snmp_env \<Rightarrow> string \<Rightarrow> walk_pc \<Rightarrow> 'w snmp_collector \<Rightarrow> 'w snmp_collector \<Rightarrow> walk_end \<Rightarrow> bool"
  for env what where
  ends_now: "walk_thread env what pc c = (c', Inr e) \<Longrightarrow> ends env what pc c c' e"
| ends_later: "walk_thread env what pc c = (c1, Inl pc1) \<Longrightarrow> ends env what pc1 c1 c' e \<Longrightarrow> ends env what pc c c' e"

lemma ends_iff:
  "ends env what pc c c' e \<longleftrightarrow>
     (case walk_thread env what pc c of (c1, Inr e1) \<Rightarrow> c' = c1 \<and> e = e1 | (c1, Inl pc1) \<Rightarrow> ends env what pc1 c1 c' e)"
  by (subst ends.simps) (auto split: prod.splits sum.splits)

fun end_got :: "walk_end \<Rightarrow> string + pdu list" where
  "end_got (Returned p e) = (case e of None \<Rightarrow> Inr p | Some err \<Rightarrow> Inl err)"
| "end_got (Recovered t) = Inl (recovered_text t)"

text \<open>What \<open>attempt\<close> makes of the outcome of the sequential walk.\<close>

fun outcome_got :: "string \<Rightarrow> pdu list outcome \<Rightarrow> string + pdu list" where
  "outcome_got what (Fine p) = end_got (walk_return what p)"
| "outcome_got what (Fails err) = Inl err"
| "outcome_got what (Panics t) = Inl (recovered_text t)"

lemma Connect_session: "snmp_Connect env c = Inr (c', None) \<Longrightarrow> sn_session c'"
  by (auto simp: snmp_Connect_def split: option.splits prod.splits)

lemma ends_asks:
  assumes "sn_session c" and "next_oid env cur c = (c1, r)"
  shows "(case r of
      Fine nv \<Rightarrow> (\<forall>c' e'. ends env what (At Check root cur acc) c c' e' \<longleftrightarrow>
        (case walk_take env what root acc nv of Inr e1 \<Rightarrow> c' = c1 \<and> e' = e1 | Inl pc1 \<Rightarrow> ends env what pc1 c1 c' e'))
    | Fails err \<Rightarrow> ends env what (At Check root cur acc) c c1 (walk_return what acc)
    | Panics t \<Rightarrow> ends env what (At Check root cur acc) c c1 (Recovered t))"
proof -
  obtain w x where g: "se_getnext env (sn_world c) cur = (w, x)" by (cases "se_getnext env (sn_world c) cur")
  let ?c = "c\<lparr>sn_world := w\<rparr>"
  show ?thesis
  proof (cases x)
    case (Inr nv)
    then have "c1 = ?c" "r = Fine nv" using assms(2) g by (simp_all add: next_oid_def)
    then show ?thesis using assms(1) g Inr
      by (simp add: ends_iff [of env what "At Check root cur acc"] ends_iff [of env what "At Ask root cur acc"] split: sum.split)
  next
    case (Inl err)
    have start: "ends env what (At Check root cur acc) c c' e' = ends env what (At Redial root cur acc) (snmp_Disconnect ?c) c' e'"
      for c' e'
      using assms(1) g Inl
      by (simp add: ends_iff [of env what "At Check root cur acc"] ends_iff [of env what "At Ask root cur acc"]
          ends_iff [of env what "At Failed root cur acc"] ends_iff [of env what "At Closing root cur acc"])
    have n: "(c1, r) = (case snmp_Connect env (snmp_Disconnect ?c) of
        Inl (Raised p) \<Rightarrow> (snmp_Disconnect ?c, Panics p) | Inl p \<Rightarrow> (snmp_Disconnect ?c, Panics ''runtime error'')
      | Inr (c, Some reconnErr) \<Rightarrow> (c, Fails reconnErr)
      | Inr (c, None) \<Rightarrow> (case se_getnext env (sn_world c) cur of
            (w, Inr nv) \<Rightarrow> (c\<lparr>sn_world := w\<rparr>, Fine nv) | (w, Inl err) \<Rightarrow> (c\<lparr>sn_world := w\<rparr>, Fails err)))"
      using assms(2) g Inl by (simp add: next_oid_def reconnectSession_def)
    show ?thesis
    proof (cases "snmp_Connect env (snmp_Disconnect ?c)")
      case p: (Inl p)
      then show ?thesis using n unfolding start
        by (cases p) (simp_all add: ends_iff [of env what "At Redial root cur acc"])
    next
      case q: (Inr q)
      obtain c2 re where c2: "q = (c2, re)" by (cases q)
      show ?thesis
      proof (cases re)
        case (Some reconnErr)
        then show ?thesis using n q c2 unfolding start by (simp add: ends_iff [of env what "At Redial root cur acc"])
      next
        case None
        have s2: "sn_session c2" using Connect_session q c2 None by blast
        obtain w2 y where g2: "se_getnext env (sn_world c2) cur = (w2, y)" by (cases "se_getnext env (sn_world c2) cur")
        have again: "ends env what (At Redial root cur acc) (snmp_Disconnect ?c) c' e' = ends env what (At AskAgain root cur acc) c2 c' e'"
          for c' e'
          using q c2 None s2
          by (simp add: ends_iff [of env what "At Redial root cur acc"] ends_iff [of env what "At Recheck root cur acc"])
        show ?thesis
          using n q c2 None g2 s2 unfolding start again
          by (cases y) (simp_all add: ends_iff [of env what "At AskAgain root cur acc"] split: sum.split)
      qed
    qed
  qed
qed

lemma walk_loop_ends:
  "walk_loop env root n cur acc c = (c', Some out) \<Longrightarrow>
   \<exists>e. ends env what (At Check root cur acc) c c' e \<and> end_got e = outcome_got what out"
proof (induction n arbitrary: cur acc c)
  case (Suc n)
  show ?case
  proof (cases "sn_session c")
    case False
    then show ?thesis using Suc.prems
      by (auto simp: ends_iff [of env what "At Check root cur acc"] closed_text_def)
  next
    case True
    obtain c1 r where r: "next_oid env cur c = (c1, r)" by (cases "next_oid env cur c")
    note asks = ends_asks [OF True r, of what root acc]
    show ?thesis
    proof (cases r)
      case (Fine nv)
      obtain o' v where nv: "nv = (o', v)" by (cases nv)
      show ?thesis
      proof (cases "prefix root o' \<and> v \<noteq> BERType")
        case go: True
        then obtain bs where v: "v = SnmpValue bs" by (cases v) auto
        have "\<exists>e. ends env what (At Check root o' (acc @ [(se_show env o', bs)])) c1 c' e \<and> end_got e = outcome_got what out"
          using Suc.IH Suc.prems True r Fine nv v go by simp
        then show ?thesis using asks go by (auto simp: Fine nv v walk_take_def)
      next
        case False
        then have "c' = c1" "out = Fine acc" using Suc.prems True r Fine nv by (auto split: if_splits)
        then show ?thesis using asks False by (auto simp: Fine nv walk_take_def)
      qed
    qed (use Suc.prems True r asks in auto)
  qed
qed simp

text \<open>A walk whose sequential form always returns, that is, whose requests fit before the deadline.\<close>

definition in_time :: "'w snmp_env \<Rightarrow> string \<Rightarrow> bool" where
  "in_time env what \<longleftrightarrow> (\<forall>c. snd (snmpWalk env what c) \<noteq> None)"

lemma attempt_ends:
  assumes "in_time env what"
  shows "\<exists>c1 e. ends env what Enter c c1 e \<and>
    attempt ''Walk'' (snmpWalk env what) env c = (c1\<lparr>sn_pollSuccess := True\<rparr>, end_got e)"
proof -
  obtain c1 out where w: "snmpWalk env what c = (c1, Some out)"
    using assms unfolding in_time_def by (metis option.exhaust prod.collapse)
  have att: "attempt ''Walk'' (snmpWalk env what) env c = (c1\<lparr>sn_pollSuccess := True\<rparr>,
      case out of Fine p \<Rightarrow> Inr p | Fails err \<Rightarrow> Inl err | Panics t \<Rightarrow> Inl (recovered_text t))"
    by (simp add: attempt_def w recovered_text_def split: outcome.split)
  show ?thesis
  proof (cases "sn_session c")
    case False
    then show ?thesis using w att by (auto simp: snmpWalk_def ends_iff [of env what Enter])
  next
    case s: True
    show ?thesis
    proof (cases "se_parse env what")
      case (Inl err)
      then show ?thesis using w att s by (auto simp: snmpWalk_def ends_iff [of env what Enter])
    next
      case (Inr root)
      obtain c2 x where l: "walk_loop env root (se_budget env (sn_world c)) root [] c = (c2, x)"
        by (cases "walk_loop env root (se_budget env (sn_world c)) root [] c")
      then obtain out' where x: "x = Some out'" using w s Inr by (cases x) (auto simp: snmpWalk_def)
      obtain e where e: "ends env what (At Check root root []) c c2 e" "end_got e = outcome_got what out'"
        using walk_loop_ends [OF l [unfolded x]] by blast
      have "ends env what Enter c c2 e" using e(1) s Inr by (simp add: ends_iff [of env what Enter])
      moreover have "c2 = c1" "outcome_got what out' = (case out of Fine p \<Rightarrow> Inr p | Fails err \<Rightarrow> Inl err | Panics t \<Rightarrow> Inl (recovered_text t))"
        using w s Inr l x by (auto simp: snmpWalk_def walk_return_def split: outcome.splits list.splits)
      ultimately show ?thesis using att e(2) by metis
    qed
  qed
qed

text \<open>The rest of the loop after an attempt that gave \<open>x\<close>, with \<open>n\<close> attempts left.\<close>

abbreviation retry_walk :: "'w snmp_env \<Rightarrow> string \<Rightarrow> nat \<Rightarrow> 'w snmp_collector \<Rightarrow> ('w snmp_collector \<times> (string + pdu list)) res" where
  "retry_walk env what \<equiv> retry ''Walk'' (snmpWalk env what) env"

definition reconnected ::
  "'w snmp_env \<Rightarrow> string \<Rightarrow> nat \<Rightarrow> string \<Rightarrow> 'w snmp_collector \<Rightarrow> ('w snmp_collector \<times> (string + pdu list)) res" where
  "reconnected env what n err c =
     bind_res (snmp_Connect env c) (\<lambda>(c, reconnErr).
       case reconnErr of Some _ \<Rightarrow> Inr (c, Inl err) | None \<Rightarrow> retry_walk env what n c)"

definition judged ::
  "'w snmp_env \<Rightarrow> string \<Rightarrow> nat \<Rightarrow> 'w snmp_collector \<Rightarrow> string + pdu list \<Rightarrow> ('w snmp_collector \<times> (string + pdu list)) res" where
  "judged env what n c x =
     (case x of Inr p \<Rightarrow> Inr (c, Inr p)
      | Inl err \<Rightarrow> if n = 0 then Inr (c, Inl err) else reconnected env what (n - 1) err (snmp_Disconnect c))"

lemma retry_judged:
  "attempt ''Walk'' (snmpWalk env what) env c = (c1, x) \<Longrightarrow> retry_walk env what n c = judged env what n c1 x"
  by (cases n; cases x) (simp_all add: judged_def reconnected_def reconnectSession_def)

text \<open>
  A state that is to end with \<open>G\<close>: at most the current attempt runs, and the sequential form of what is
  left to do, from here, gives \<open>G\<close>.
\<close>

definition over :: "(walk_pc + string option) list \<Rightarrow> bool" where
  "over ts \<longleftrightarrow> (\<forall>pc. Inl pc \<notin> set ts)"

definition on_course ::
  "'w snmp_env \<Rightarrow> string \<Rightarrow> ('w snmp_collector \<times> (string + pdu list)) res \<Rightarrow> 'w walk_state \<Rightarrow> bool" where
  "on_course env what G s \<longleftrightarrow>
     (let n = length (ws_threads s); c = ws_coll s in
      n \<le> 10 \<and>
      over (if ws_main s = Waiting then butlast (ws_threads s) else ws_threads s) \<and>
      (case ws_main s of
         Begin \<Rightarrow> n < 10 \<and> G = retry_walk env what (9 - n) c
       | Waiting \<Rightarrow> n > 0 \<and>
           (case last (ws_threads s) of
              Inl pc \<Rightarrow> \<exists>c1 e. ends env what pc c c1 e \<and> G = judged env what (10 - n) (c1\<lparr>sn_pollSuccess := True\<rparr>) (end_got e)
            | Inr err \<Rightarrow> G = judged env what (10 - n) (c\<lparr>sn_pollSuccess := True\<rparr>)
                (case err of None \<Rightarrow> Inr (ws_pdus s) | Some t \<Rightarrow> Inl t))
       | Judge \<Rightarrow> G = judged env what (10 - n) c (walk_got s)
       | Resting \<Rightarrow> n < 10 \<and> (\<exists>err. ws_lastError s = Some err \<and> G = reconnected env what (9 - n) err c)
       | Left \<Rightarrow> G = Inr (c, walk_got s)
       | Crashed p \<Rightarrow> G = Inl p))"

lemma on_course_start: "on_course env what (retry_walk env what 9 c) (walk_start c)"
  by (simp add: on_course_def walk_start_def over_def)

lemma running_last:
  assumes "over (butlast ts)" and "i < length ts" and "ts ! i = Inl pc"
  shows "Suc i = length ts" and "last ts = Inl pc"
proof -
  show "Suc i = length ts"
  proof (rule ccontr)
    assume "Suc i \<noteq> length ts"
    then have "Inl pc \<in> set (butlast ts)" using assms(2,3) by (metis Suc_lessI length_butlast less_diff_conv nth_butlast nth_mem
          Suc_eq_plus1)
    then show False using assms(1) by (simp add: over_def)
  qed
  then show "last ts = Inl pc" using assms(3) by (cases ts rule: rev_cases) auto
qed

lemma update_last: "Suc i = length ts \<Longrightarrow> last (ts[i := x]) = x \<and> butlast (ts[i := x]) = butlast ts"
  by (cases ts rule: rev_cases) (auto simp: list_update_append)

lemma thread_on_course:
  assumes "on_course env what G s" and "thread_event env what i s = Some t"
  shows "on_course env what G t"
proof -
  obtain pc where i: "i < length (ws_threads s)" "ws_threads s ! i = Inl pc"
    using assms(2) by (auto simp: thread_event_def split: if_splits sum.splits)
  have "ws_main s = Waiting" using assms(1) i nth_mem [OF i(1)] by (auto simp: on_course_def Let_def over_def split: if_splits)
  then have w: "ws_main s = Waiting" "over (butlast (ws_threads s))" using assms(1) by (simp_all add: on_course_def Let_def)
  note last = running_last [OF w(2) i]
  note upd = update_last [OF last(1)]
  obtain c1 e where e: "ends env what pc (ws_coll s) c1 e"
    "G = judged env what (10 - length (ws_threads s)) (c1\<lparr>sn_pollSuccess := True\<rparr>) (end_got e)"
    using assms(1) by (auto simp: on_course_def Let_def w(1) last(2))
  have n: "length (ws_threads s) \<le> 10" "length (ws_threads s) > 0" using assms(1) i(1) by (auto simp: on_course_def Let_def)
  obtain c2 r where r: "walk_thread env what pc (ws_coll s) = (c2, r)" by (cases "walk_thread env what pc (ws_coll s)")
  show ?thesis
  proof (cases r)
    case (Inl pc2)
    then have "ends env what pc2 c2 c1 e" using e(1) r by (simp add: ends_iff [of env what pc])
    moreover have "t = s\<lparr>ws_coll := c2, ws_threads := (ws_threads s)[i := Inl pc2]\<rparr>"
      using assms(2) i r Inl by (simp add: thread_event_def)
    ultimately show ?thesis using e(2) w n upd by (auto simp: on_course_def Let_def)
  next
    case (Inr e2)
    then have "c1 = c2" "e = e2" using e(1) r by (simp_all add: ends_iff [of env what pc])
    then show ?thesis using e(2) assms(2) i r Inr w n upd
      by (cases e2) (auto simp: on_course_def Let_def thread_event_def split: option.split)
  qed
qed

lemma main_on_course:
  assumes "in_time env what" and "on_course env what G s" and "main_event env s = Some t"
  shows "on_course env what G t"
proof (cases "ws_main s")
  case Begin
  let ?n = "length (ws_threads s)"
  have n: "?n < 10" "G = retry_walk env what (9 - ?n) (ws_coll s)"
    and over: "over (ws_threads s)"
    using assms(2) by (auto simp: on_course_def Let_def Begin)
  obtain c1 e where e: "ends env what Enter (ws_coll s) c1 e"
    "attempt ''Walk'' (snmpWalk env what) env (ws_coll s) = (c1\<lparr>sn_pollSuccess := True\<rparr>, end_got e)"
    using attempt_ends [OF assms(1)] by blast
  have "G = judged env what (9 - ?n) (c1\<lparr>sn_pollSuccess := True\<rparr>) (end_got e)" using n(2) retry_judged [OF e(2)] by simp
  moreover have "t = s\<lparr>ws_pdus := [], ws_lastError := None, ws_threads := ws_threads s @ [Inl Enter], ws_main := Waiting\<rparr>"
    using assms(3) Begin by (simp add: main_event_def)
  ultimately show ?thesis using n(1) over e(1) by (auto simp: on_course_def Let_def)
next
  case Waiting
  then have "over (butlast (ws_threads s))" "ws_threads s \<noteq> []" using assms(2) by (auto simp: on_course_def Let_def)
  then have "over (ws_threads s)" if "last (ws_threads s) = Inr e" for e
    using that by (cases "ws_threads s" rule: rev_cases) (auto simp: over_def)
  then show ?thesis using assms(2,3) Waiting
    by (auto simp: main_event_def on_course_def Let_def walk_got_def split: sum.splits option.splits)
next
  case Judge
  then show ?thesis using assms(2,3)
    by (auto simp: main_event_def on_course_def Let_def walk_got_def judged_def split: option.splits if_splits)
next
  case Resting
  then show ?thesis using assms(2,3)
    by (auto simp: main_event_def on_course_def Let_def walk_got_def reconnected_def split: sum.splits option.splits prod.splits)
qed (use assms(3) in \<open>simp_all add: main_event_def\<close>)

lemma run_on_course:
  assumes "in_time env what"
  shows "on_course env what G s \<Longrightarrow> Deadline \<notin> set es \<Longrightarrow> walk_run env what es s = Some t \<Longrightarrow> on_course env what G t"
proof (induction es arbitrary: s)
  case (Cons e es)
  obtain s1 where s1: "walk_event env what e s = Some s1" "walk_run env what es s1 = Some t"
    using Cons.prems(3) by (auto split: option.splits)
  have "on_course env what G s1"
    using s1(1) Cons.prems(1,2) thread_on_course main_on_course [OF assms] by (cases e) (auto simp: walk_event_def)
  then show ?case using Cons.IH s1(2) Cons.prems(2) by simp
qed simp

lemma walk_run_append:
  "walk_run env what es s = Some t \<Longrightarrow> walk_run env what (es @ es') s = walk_run env what es' t"
  by (induction es arbitrary: s) (auto split: option.splits)

text \<open>An attempt that is left alone comes to its end, and the loop then to its own.\<close>

lemma attempt_over:
  "ends env what pc c c' e \<Longrightarrow> ws_coll s = c \<Longrightarrow> ws_threads s = ts @ [Inl pc] \<Longrightarrow> ws_main s = Waiting \<Longrightarrow>
   \<exists>es t err. Deadline \<notin> set es \<and> walk_run env what es s = Some t \<and> ws_main t = Waiting \<and> ws_threads t = ts @ [Inr err]"
proof (induction arbitrary: s rule: ends.induct)
  case (ends_now pc c c' e)
  show ?case
  proof (cases e)
    case (Returned p err)
    show ?thesis
      by (rule exI [of _ "[Step (length ts)]"], rule exI [of _ "s\<lparr>ws_coll := c', ws_pdus := p, ws_threads := ts @ [Inr err]\<rparr>"])
        (use ends_now Returned in \<open>simp add: walk_event_def thread_event_def\<close>)
  next
    case (Recovered x)
    show ?thesis
      by (rule exI [of _ "[Step (length ts)]"], rule exI [of _ "s\<lparr>ws_coll := c', ws_threads := ts @ [Inr (Some (recovered_text x))]\<rparr>"])
        (use ends_now Recovered in \<open>simp add: walk_event_def thread_event_def\<close>)
  qed
next
  case (ends_later pc c c1 pc1 c' e)
  let ?s = "s\<lparr>ws_coll := c1, ws_threads := ts @ [Inl pc1]\<rparr>"
  have step: "walk_event env what (Step (length ts)) s = Some ?s"
    using ends_later.hyps(1) ends_later.prems by (simp add: walk_event_def thread_event_def)
  obtain es t err where t: "Deadline \<notin> set es" "walk_run env what es ?s = Some t" "ws_main t = Waiting"
    "ws_threads t = ts @ [Inr err]"
    using ends_later.IH [of ?s] ends_later.prems(3) by auto
  then show ?case using step by (intro exI [of _ "Step (length ts) # es"] exI [of _ t]) simp
qed

lemma judged_over:
  assumes "walk_event env what Main s = Some t" and "ws_main s = Judge"
  shows "ws_main t = Left \<or> ws_main t = Resting \<and> ws_threads t = ws_threads s \<and> length (ws_threads s) < 10"
  using assms by (auto simp: walk_event_def main_event_def split: if_splits)

lemma loop_over:
  assumes "in_time env what"
  shows "ws_main s = Begin \<Longrightarrow> length (ws_threads s) < 10 \<Longrightarrow>
    \<exists>es t. Deadline \<notin> set es \<and> walk_run env what es s = Some t \<and> (ws_main t = Left \<or> (\<exists>p. ws_main t = Crashed p))"
proof (induction "10 - length (ws_threads s)" arbitrary: s rule: less_induct)
  case less
  let ?s1 = "s\<lparr>ws_pdus := [], ws_lastError := None, ws_threads := ws_threads s @ [Inl Enter], ws_main := Waiting\<rparr>"
  obtain c1 e where "ends env what Enter (ws_coll s) c1 e" using attempt_ends [OF assms] by blast
  then obtain es t err where t: "Deadline \<notin> set es" "walk_run env what es ?s1 = Some t" "ws_main t = Waiting"
    "ws_threads t = ws_threads s @ [Inr err]"
    using attempt_over [where s = ?s1 and ts = "ws_threads s"] by fastforce
  let ?s2 = "t\<lparr>ws_coll := (ws_coll t)\<lparr>sn_pollSuccess := True\<rparr>, ws_lastError := err, ws_main := Judge\<rparr>"
  have "walk_event env what Main s = Some ?s1" using less.prems by (simp add: walk_event_def main_event_def)
  moreover have "walk_event env what Main t = Some ?s2" using t(3,4) by (simp add: walk_event_def main_event_def)
  ultimately have run2: "walk_run env what (Main # es @ [Main]) s = Some ?s2" using walk_run_append [OF t(2)] by simp
  obtain s3 where s3: "walk_event env what Main ?s2 = Some s3" by (simp add: walk_event_def main_event_def)
  have run3: "walk_run env what ((Main # es @ [Main]) @ [Main]) s = Some s3"
    by (simp only: walk_run_append [OF run2] walk_run.simps s3 option.case)
  have "ws_main ?s2 = Judge" by simp
  from judged_over [OF s3 this] show ?case
  proof (elim disjE)
    assume "ws_main s3 = Left"
    then show ?thesis using run3 t(1) by (intro exI [of _ "(Main # es @ [Main]) @ [Main]"] exI [of _ s3]) simp
  next
    assume r: "ws_main s3 = Resting \<and> ws_threads s3 = ws_threads ?s2 \<and> length (ws_threads ?s2) < 10"
    then obtain s4 where s4: "walk_event env what Main s3 = Some s4" "ws_threads s4 = ws_threads s3"
      "ws_main s4 = Left \<or> (\<exists>p. ws_main s4 = Crashed p) \<or> ws_main s4 = Begin"
      by (cases "snmp_Connect env (ws_coll s3)") (auto simp: walk_event_def main_event_def split: prod.split option.split)
    have run4: "walk_run env what (((Main # es @ [Main]) @ [Main]) @ [Main]) s = Some s4"
      by (simp only: walk_run_append [OF run3] walk_run.simps s4(1) option.case)
    show ?thesis
    proof (cases "ws_main s4 = Begin")
      case True
      have "10 - length (ws_threads s4) < 10 - length (ws_threads s)" "length (ws_threads s4) < 10"
        using r s4(2) t(4) less.prems(2) by (simp_all, arith?)
      then obtain fs u where u: "Deadline \<notin> set fs" "walk_run env what fs s4 = Some u" "ws_main u = Left \<or> (\<exists>p. ws_main u = Crashed p)"
        using less.hyps True by blast
      have "walk_run env what ((((Main # es @ [Main]) @ [Main]) @ [Main]) @ fs) s = Some u"
        by (simp only: walk_run_append [OF run4] u(2))
      then show ?thesis using u(1,3) t(1)
        by (intro exI [of _ "(((Main # es @ [Main]) @ [Main]) @ [Main]) @ fs"] exI [of _ u]) simp
    next
      case False
      then show ?thesis using run4 s4(3) t(1) by (intro exI [of _ "((Main # es @ [Main]) @ [Main]) @ [Main]"] exI [of _ s4]) simp
    qed
  qed
qed

section \<open>Properties\<close>

text \<open>
  C7. The goroutines implement \<open>retry\<close>: when the requests of a walk fit before its deadline, the loop with
  its attempts run as threads, step by step, leaves with a collector and a result exactly when the
  sequential loop returns them, and there is such a run.
\<close>

theorem walk_threads_refine_retry:
  assumes "in_time env what"
  shows "(\<exists>es s. Deadline \<notin> set es \<and> walk_run env what es (walk_start c) = Some s \<and> ws_main s = Left \<and>
      ws_coll s = c' \<and> walk_got s = x) \<longleftrightarrow>
    retry ''Walk'' (snmpWalk env what) env 9 c = Inr (c', x)"
proof -
  let ?G = "retry_walk env what 9 c"
  have course: "on_course env what ?G s"
    if "Deadline \<notin> set es" "walk_run env what es (walk_start c) = Some s" for es s
    using run_on_course [OF assms on_course_start that] .
  have left: "?G = Inr (ws_coll s, walk_got s)" if "on_course env what ?G s" "ws_main s = Left" for s
    using that by (simp add: on_course_def Let_def)
  show ?thesis
  proof
    assume "\<exists>es s. Deadline \<notin> set es \<and> walk_run env what es (walk_start c) = Some s \<and> ws_main s = Left \<and>
      ws_coll s = c' \<and> walk_got s = x"
    then show "?G = Inr (c', x)" using course left by blast
  next
    assume G: "?G = Inr (c', x)"
    obtain es t where t: "Deadline \<notin> set es" "walk_run env what es (walk_start c) = Some t"
      "ws_main t = Left \<or> (\<exists>p. ws_main t = Crashed p)"
      using loop_over [OF assms, of "walk_start c"] by (auto simp: walk_start_def)
    have "ws_main t \<noteq> Crashed p" for p
      using course [OF t(1,2)] G by (auto simp: on_course_def Let_def)
    then have "ws_main t = Left" using t(3) by blast
    then show "\<exists>es s. Deadline \<notin> set es \<and> walk_run env what es (walk_start c) = Some s \<and> ws_main s = Left \<and>
      ws_coll s = c' \<and> walk_got s = x"
      using t(1,2) left [OF course [OF t(1,2)]] G by (intro exI [of _ es] exI [of _ t]) simp
  qed
qed

text \<open>
  C10. Whatever the abandoned attempts do, nothing is made up: in every interleaving, with any number of
  missed deadlines, what the loop reads without an error is an initial part of the device's subtree. (It may
  be empty, see \<open>abandoned_attempt_overwrites\<close>.)
\<close>

theorem abandoned_attempts_truthful:
  assumes "truthful env mib" and "se_parse env what = Inr root"
    and "inj_on (\<lambda>o1. normalizeOID (se_show env o1)) (fst ` set mib)"
    and "reach (\<lambda>s. \<exists>c. s = walk_start c) (walk_step env what) s" and "walk_got s = Inr pdus"
  shows "\<exists>es. prefix es (subtree root mib) \<and> pdus = named env es \<and> map_of_pdus pdus = collected env es"
proof -
  have "walk_inv env mib root s" by (rule walk_sys.reach_inv [OF reach_truthful [OF assms(1,2,4)]])
  moreover have "pdus = ws_pdus s" using assms(5) by (simp add: walk_got_def split: option.splits)
  ultimately obtain es where es: "pdus = named env es" "prefix es (subtree root mib)"
    unfolding walk_inv_def part_of_def by blast
  then show ?thesis using map_of_pdus_part [OF _ assms(3) es(2)] assms(1) by (auto simp: truthful_def)
qed

section \<open>Bounds and runs\<close>

lemma walk_loop_in_time:
  assumes "truthful env mib"
  shows "length (filter (\<lambda>e. cur < fst e) mib) < n \<Longrightarrow> snd (walk_loop env root n cur acc c) \<noteq> None"
proof (induction n arbitrary: cur acc c)
  case (Suc n)
  obtain c1 r where r: "next_oid env cur c = (c1, r)" by (cases "next_oid env cur c")
  show ?case
  proof (cases r)
    case (Fine nv)
    obtain o' v where nv: "nv = (o', v)" by (cases nv)
    have ans: "next_answer mib {} cur = Inr (o', v)" using next_oid_truthful [OF assms r [unfolded Fine nv]] .
    show ?thesis
    proof (cases v)
      case (SnmpValue bs)
      then obtain rest where f: "filter (\<lambda>e. cur < fst e) mib = (o', bs) # rest"
        using ans by (auto simp: next_answer_def split: list.splits)
      then have "filter (\<lambda>e. o' < fst e) mib = rest" using filter_above [of mib cur "(o', bs)"] assms by (simp add: truthful_def)
      then show ?thesis using Suc f r Fine nv SnmpValue by simp
    qed (use r Fine nv in simp)
  qed (use r in simp_all)
qed simp


lemma demo_truthful: "truthful (demo_snmp {}) demo_mib"
  by (simp add: truthful_def demo_snmp_def demo_mib_def)


lemma demo_in_time: "in_time (demo_snmp {}) what"
proof -
  have "snd (snmpWalk (demo_snmp {}) what c) \<noteq> None" for c
    using walk_loop_in_time [OF demo_truthful, of "[1, 3]" 100 "[1, 3]" "[]" c]
    by (cases "walk_loop (demo_snmp {}) [1, 3] 100 [1, 3] [] c")
      (auto simp: snmpWalk_def demo_snmp_def demo_mib_def split: outcome.split list.split)
  then show ?thesis by (simp add: in_time_def)
qed

theorem walk_threads_refine_retry_witness:
  "\<exists>es s. Deadline \<notin> set es \<and> walk_run (demo_snmp {}) ''1.3'' es (walk_start demo_session) = Some s \<and> ws_main s = Left \<and>
     walk_got s = Inr [(''.1.3.1'', [5]), (''.1.3.2'', [6]), (''.1.3.2.7'', [7])]"
proof -
  have "retry ''Walk'' (snmpWalk (demo_snmp {}) ''1.3'') (demo_snmp {}) 9 demo_session =
      Inr (demo_session\<lparr>sn_pollSuccess := True\<rparr>, Inr [(''.1.3.1'', [5]), (''.1.3.2'', [6]), (''.1.3.2.7'', [7])])"
    by code_simp
  then show ?thesis using walk_threads_refine_retry [OF demo_in_time] by blast
qed

text \<open>A device that loses its first and its sixth request.\<close>

definition two_losses :: "nat snmp_env" where
  "two_losses = \<lparr>se_credential = Some ''public'', se_open = \<lambda>w. (w, None), se_parse = \<lambda>_. Inr [1, 3],
     se_show = show_oid, se_get = \<lambda>w o1. (Suc w, Inl ''none''),
     se_getnext = \<lambda>w o1. (Suc w, if w = 0 \<or> w = 5 then Inl ''request timeout'' else next_answer demo_mib {} o1),
     se_budget = \<lambda>_. 100, se_poll = \<lambda>_ _. Inl ''unknown'', se_encode_map = concat \<circ> map snd,
     se_encode_table = \<lambda>_. Inr [], se_keys = \<lambda>m. m, se_seconds = dec_int\<rparr>"

text \<open>
  The first attempt is in its reconnection when the deadline comes; the second attempt collects the whole
  subtree and the loop takes it as a success.
\<close>

definition second_succeeds :: "walk_event list" where
  "second_succeeds = Main # replicate 5 (Step 0) @ [Deadline, Main, Main, Main] @ replicate 9 (Step 1) @ [Main]"

lemma second_succeeds_run:
  "map_option (\<lambda>s. (ws_main s, walk_got s)) (walk_run two_losses ''1.3'' second_succeeds (walk_start counting_session)) =
     Some (Judge, Inr [(''.1.3.1'', [5]), (''.1.3.2'', [6]), (''.1.3.2.7'', [7])])"
  by code_simp

theorem abandoned_attempts_truthful_witness:
  "\<exists>s es. walk_run two_losses ''1.3'' second_succeeds (walk_start counting_session) = Some s \<and>
     prefix es (subtree [1, 3] demo_mib) \<and> walk_got s = Inr (named two_losses es)"
proof -
  obtain s where s: "walk_run two_losses ''1.3'' second_succeeds (walk_start counting_session) = Some s"
    "walk_got s = Inr [(''.1.3.1'', [5]), (''.1.3.2'', [6]), (''.1.3.2.7'', [7])]"
    using second_succeeds_run by auto
  have dev: "truthful two_losses demo_mib" "se_parse two_losses ''1.3'' = Inr [1, 3]"
    "inj_on (\<lambda>o1. normalizeOID (se_show two_losses o1)) (fst ` set demo_mib)"
    by (simp_all add: truthful_def two_losses_def demo_mib_def show_oid_def normalizeOID_def HasPrefix_def dec_nat.simps
        split: if_split)
  have "reach (\<lambda>s. \<exists>c. s = walk_start c) (walk_step two_losses ''1.3'') s"
    by (rule run_reach [OF s(1)], rule reach_start) blast
  from abandoned_attempts_truthful [OF dev this s(2)]
  obtain es where "prefix es (subtree [1, 3] demo_mib)" "walk_got s = Inr (named two_losses es)"
    unfolding s(2) by (elim exE conjE) simp
  then show ?thesis using s(1) by blast
qed

text \<open>
  An abandoned attempt can take a finished walk away: after the second attempt has collected the whole
  subtree without an error, the end of the first one sets the shared \<open>pdus\<close> to nil, and the loop leaves
  without an error and with nothing, which the job then reports as a collected, empty map.
\<close>

theorem abandoned_attempt_overwrites:
  "\<exists>s1 s. walk_run two_losses ''1.3'' second_succeeds (walk_start counting_session) = Some s1 \<and>
     walk_got s1 = Inr (named two_losses (subtree [1, 3] demo_mib)) \<and>
     walk_run two_losses ''1.3'' [Step 0, Step 0, Step 0, Main] s1 = Some s \<and> ws_main s = Left \<and> walk_got s = Inr []"
proof -
  have "map_option (\<lambda>s. (ws_main s, walk_got s))
      (walk_run two_losses ''1.3'' (second_succeeds @ [Step 0, Step 0, Step 0, Main]) (walk_start counting_session)) =
      Some (Left, Inr [])"
    by code_simp
  moreover have "named two_losses (subtree [1, 3] demo_mib) = [(''.1.3.1'', [5]), (''.1.3.2'', [6]), (''.1.3.2.7'', [7])]"
    by code_simp
  ultimately show ?thesis using second_succeeds_run walk_run_append by fastforce
qed

end
