(* ===== verification/Snmp_Get_Threads.thy ===== *)
theory Snmp_Get_Threads
  imports Snmp_Threads
begin

text \<open>
  The attempts of one \<open>get\<close> as goroutines, in the way of \<open>Snmp_Threads\<close>. They share more than those of a
  walk: the pointer \<open>pdu\<close> that the loop reads at the end without a test for nil, and \<open>lastError\<close>, which the
  attempts assign themselves. What is shown is that this test is not missing: in every interleaving the
  pointer is there when the loop finds no error, with a value the device gave.
\<close>

section \<open>One attempt\<close>

datatype get_pc = Get_Enter | Get_Ask oid | Get_Failed oid | Get_Closing oid | Get_Redial oid | Get_Recheck oid | Get_AskAgain oid

datatype get_end = Got pdu | Get_Fails string | Get_Recovered string

fun get_thread ::
  "'w snmp_env \<Rightarrow> string \<Rightarrow> get_pc \<Rightarrow> 'w snmp_collector \<Rightarrow> 'w snmp_collector \<times> (get_pc + get_end)" where
  "get_thread env what Get_Enter c =
     (c, if \<not> sn_session c then Inr (Get_Fails ''SNMP session is not initialized'')
         else case se_parse env what of
           Inl err \<Rightarrow> Inr (Get_Fails (''failed to parse OID '' @ what @ '': '' @ err))
         | Inr parsedOid \<Rightarrow> Inl (Get_Ask parsedOid))"
| "get_thread env what (Get_Ask o1) c =
     (if \<not> sn_session c then (c, Inr (Get_Recovered ''runtime error''))
      else case se_get env (sn_world c) o1 of
        (w, Inr v) \<Rightarrow> (c\<lparr>sn_world := w\<rparr>, Inr (Got (what, v)))
      | (w, Inl err) \<Rightarrow> (c\<lparr>sn_world := w\<rparr>, Inl (Get_Failed o1)))"
| "get_thread env what (Get_Failed o1) c =
     (c, if \<not> sn_session c then Inr (Get_Fails (''SNMP session was closed during get for OID '' @ what))
         else Inl (Get_Closing o1))"
| "get_thread env what (Get_Closing o1) c = (snmp_Disconnect c, Inl (Get_Redial o1))"
| "get_thread env what (Get_Redial o1) c =
     (case snmp_Connect env c of
        Inl (Raised p) \<Rightarrow> (c, Inr (Get_Recovered p))
      | Inl p \<Rightarrow> (c, Inr (Get_Recovered ''runtime error''))
      | Inr (c, Some reconnErr) \<Rightarrow>
          (c, Inr (Get_Fails (''SNMP GET failed for OID '' @ what @ '' (reconnect also failed: '' @ reconnErr @ '')'')))
      | Inr (c, None) \<Rightarrow> (c, Inl (Get_Recheck o1)))"
| "get_thread env what (Get_Recheck o1) c =
     (c, if \<not> sn_session c then Inr (Get_Fails (''SNMP session is nil after reconnect for OID '' @ what))
         else Inl (Get_AskAgain o1))"
| "get_thread env what (Get_AskAgain o1) c =
     (if \<not> sn_session c then (c, Inr (Get_Recovered ''runtime error''))
      else case se_get env (sn_world c) o1 of
        (w, Inr v) \<Rightarrow> (c\<lparr>sn_world := w\<rparr>, Inr (Got (what, v)))
      | (w, Inl err) \<Rightarrow> (c\<lparr>sn_world := w\<rparr>, Inr (Get_Fails (''SNMP GET failed for OID '' @ what @ '' after reconnect: '' @ err))))"

section \<open>The loop and its attempts\<close>

text \<open>The attempts so far: where they are, or \<open>None\<close> when they have ended.\<close>

record 'w get_state =
  gs_coll :: "'w snmp_collector"
  gs_pdu :: "pdu option"
  gs_lastError :: "string option"
  gs_threads :: "get_pc option list"
  gs_main :: main_pc

definition get_start :: "'w snmp_collector \<Rightarrow> 'w get_state" where
  "get_start c = \<lparr>gs_coll = c, gs_pdu = None, gs_lastError = None, gs_threads = [], gs_main = Begin\<rparr>"

definition get_thread_event :: "'w snmp_env \<Rightarrow> string \<Rightarrow> nat \<Rightarrow> 'w get_state \<Rightarrow> 'w get_state option" where
  "get_thread_event env what i s =
     (if length (gs_threads s) \<le> i then None
      else case gs_threads s ! i of
        None \<Rightarrow> None
      | Some pc \<Rightarrow>
          (case get_thread env what pc (gs_coll s) of
             (c, Inl pc) \<Rightarrow> Some (s\<lparr>gs_coll := c, gs_threads := (gs_threads s)[i := Some pc]\<rparr>)
           | (c, Inr e) \<Rightarrow>
               (let s = s\<lparr>gs_coll := c, gs_threads := (gs_threads s)[i := None]\<rparr> in
                Some (case e of
                  Got p \<Rightarrow> s\<lparr>gs_pdu := Some p\<rparr>
                | Get_Fails err \<Rightarrow> s\<lparr>gs_lastError := Some err\<rparr>
                | Get_Recovered p \<Rightarrow>
                    s\<lparr>gs_lastError := Some (''SNMP GET panic (session closed during operation): '' @ p)\<rparr>))))"

definition get_main_event :: "'w snmp_env \<Rightarrow> 'w get_state \<Rightarrow> 'w get_state option" where
  "get_main_event env s =
     (case gs_main s of
        Begin \<Rightarrow> Some (s\<lparr>gs_pdu := None, gs_lastError := None, gs_threads := gs_threads s @ [Some Get_Enter], gs_main := Waiting\<rparr>)
      | Waiting \<Rightarrow>
          (case last (gs_threads s) of
             Some pc \<Rightarrow> None
           | None \<Rightarrow> Some (s\<lparr>gs_coll := (gs_coll s)\<lparr>sn_pollSuccess := True\<rparr>, gs_main := Judge\<rparr>))
      | Judge \<Rightarrow>
          Some (if gs_lastError s = None \<or> 10 \<le> length (gs_threads s) then s\<lparr>gs_main := Left\<rparr>
                else s\<lparr>gs_coll := snmp_Disconnect (gs_coll s), gs_main := Resting\<rparr>)
      | Resting \<Rightarrow>
          Some (case snmp_Connect env (gs_coll s) of
                  Inl p \<Rightarrow> s\<lparr>gs_main := Crashed p\<rparr>
                | Inr (c, Some reconnErr) \<Rightarrow> s\<lparr>gs_coll := c, gs_main := Left\<rparr>
                | Inr (c, None) \<Rightarrow> s\<lparr>gs_coll := c, gs_main := Begin\<rparr>)
      | Left \<Rightarrow> None
      | Crashed p \<Rightarrow> None)"

definition get_deadline_event :: "'w snmp_env \<Rightarrow> 'w get_state \<Rightarrow> 'w get_state option" where
  "get_deadline_event env s =
     (if gs_main s = Waiting
      then Some (s\<lparr>gs_coll := (gs_coll s)\<lparr>sn_session := False, sn_connected := False\<rparr>,
        gs_lastError := Some (''timeout after '' @ se_seconds env (timeout_seconds (gs_coll s))), gs_main := Judge\<rparr>)
      else None)"

definition get_event :: "'w snmp_env \<Rightarrow> string \<Rightarrow> walk_event \<Rightarrow> 'w get_state \<Rightarrow> 'w get_state option" where
  "get_event env what e s =
     (case e of Step i \<Rightarrow> get_thread_event env what i s | Main \<Rightarrow> get_main_event env s | Deadline \<Rightarrow> get_deadline_event env s)"

fun get_run :: "'w snmp_env \<Rightarrow> string \<Rightarrow> walk_event list \<Rightarrow> 'w get_state \<Rightarrow> 'w get_state option" where
  "get_run env what [] s = Some s"
| "get_run env what (e # es) s = (case get_event env what e s of None \<Rightarrow> None | Some s \<Rightarrow> get_run env what es s)"

text \<open>What the code after the loop reads: the error, or through the pointer, which panics when it is nil.\<close>

definition get_got :: "'w get_state \<Rightarrow> (string + pdu) res" where
  "get_got s = (case gs_lastError s of Some err \<Rightarrow> Inr (Inl err) | None \<Rightarrow> bind_res (deref (gs_pdu s)) (\<lambda>p. Inr (Inr p)))"

abbreviation get_step :: "'w snmp_env \<Rightarrow> string \<Rightarrow> 'w get_state \<Rightarrow> walk_event \<Rightarrow> 'w get_state \<Rightarrow> bool" where
  "get_step env what s e t \<equiv> get_event env what e s = Some t"

lemma get_run_reach: "get_run env what es s = Some t \<Longrightarrow> reach start (get_step env what) s \<Longrightarrow> reach start (get_step env what) t"
  by (induction es arbitrary: s) (auto split: option.splits intro: reach_step)

section \<open>Every interleaving\<close>

text \<open>
  A value in the shared variable is one that a request for the object gave; and from the end of the current
  attempt on, there is an error or a value.
\<close>

definition answered :: "'w snmp_env \<Rightarrow> string \<Rightarrow> pdu \<Rightarrow> bool" where
  "answered env what p \<longleftrightarrow> fst p = what \<and>
     (\<exists>o1 w w'. se_parse env what = Inr o1 \<and> se_get env w o1 = (w', Inr (snd p)))"

fun get_oid :: "get_pc \<Rightarrow> oid option" where
  "get_oid Get_Enter = None"
| "get_oid (Get_Ask o1) = Some o1"
| "get_oid (Get_Failed o1) = Some o1"
| "get_oid (Get_Closing o1) = Some o1"
| "get_oid (Get_Redial o1) = Some o1"
| "get_oid (Get_Recheck o1) = Some o1"
| "get_oid (Get_AskAgain o1) = Some o1"

definition settled :: "'w get_state \<Rightarrow> bool" where
  "settled s \<longleftrightarrow> gs_lastError s \<noteq> None \<or> gs_pdu s \<noteq> None"

definition get_inv :: "'w snmp_env \<Rightarrow> string \<Rightarrow> 'w get_state \<Rightarrow> bool" where
  "get_inv env what s \<longleftrightarrow>
     (\<forall>p. gs_pdu s = Some p \<longrightarrow> answered env what p) \<and>
     (\<forall>pc o1. Some pc \<in> set (gs_threads s) \<and> get_oid pc = Some o1 \<longrightarrow> se_parse env what = Inr o1) \<and>
     (gs_main s = Waiting \<longrightarrow> gs_threads s \<noteq> [] \<and>
        (last (gs_threads s) = None \<longrightarrow> settled s)) \<and>
     (gs_main s \<in> {Judge, Resting, Left} \<longrightarrow> settled s)"

definition get_end_ok :: "'w snmp_env \<Rightarrow> string \<Rightarrow> get_pc + get_end \<Rightarrow> bool" where
  "get_end_ok env what r \<longleftrightarrow>
     (case r of Inl pc \<Rightarrow> (\<forall>o1. get_oid pc = Some o1 \<longrightarrow> se_parse env what = Inr o1)
      | Inr (Got p) \<Rightarrow> answered env what p | Inr _ \<Rightarrow> True)"

lemma get_thread_ok:
  assumes "get_thread env what pc c = (c', r)" and "\<forall>o1. get_oid pc = Some o1 \<longrightarrow> se_parse env what = Inr o1"
  shows "get_end_ok env what r"
  using assms
  by (cases pc) (auto simp: get_end_ok_def answered_def split: if_splits prod.splits sum.splits option.splits go_panic.splits, blast+)

lemma last_update: "ts \<noteq> [] \<Longrightarrow> last (ts[i := x]) = (if Suc i = length ts then x else last ts)"
  by (cases ts rule: rev_cases) (auto simp: list_update_append nth_append split: nat.splits)

lemma get_event_inv:
  assumes "get_inv env what s" and "get_event env what e s = Some t"
  shows "get_inv env what t"
proof (cases e)
  case (Step i)
  then obtain pc where i: "i < length (gs_threads s)" "gs_threads s ! i = Some pc"
    using assms(2) by (auto simp: get_event_def get_thread_event_def split: if_splits option.splits)
  obtain c r where r: "get_thread env what pc (gs_coll s) = (c, r)" by (cases "get_thread env what pc (gs_coll s)")
  have "Some pc \<in> set (gs_threads s)" using i by (metis nth_mem)
  then have "\<forall>o1. get_oid pc = Some o1 \<longrightarrow> se_parse env what = Inr o1" using assms(1) unfolding get_inv_def by blast
  note ok = get_thread_ok [OF r this]
  have upd: "Some q \<in> set ((gs_threads s)[i := x]) \<Longrightarrow> Some q = x \<or> Some q \<in> set (gs_threads s)" for q x
    using set_update_subset_insert [of "gs_threads s" i x] by blast
  show ?thesis
  proof (cases r)
    case (Inl pc2)
    then have "t = s\<lparr>gs_coll := c, gs_threads := (gs_threads s)[i := Some pc2]\<rparr>"
      using assms(2) i r by (simp add: get_event_def get_thread_event_def Step)
    then show ?thesis using assms(1) ok Inl by (auto simp: get_inv_def get_end_ok_def settled_def last_update split: if_splits dest!: upd)
  next
    case (Inr x)
    then have t: "gs_threads t = (gs_threads s)[i := None]" "gs_main t = gs_main s" "settled t"
      "gs_pdu t = gs_pdu s \<or> (\<exists>p. x = Got p \<and> gs_pdu t = Some p)"
      using assms(2) i r by (cases x; simp add: get_event_def get_thread_event_def Step Let_def settled_def; force)+
    have "\<forall>p. gs_pdu t = Some p \<longrightarrow> answered env what p"
      using t(4) ok assms(1) by (auto simp: Inr get_end_ok_def get_inv_def)
    moreover have "\<forall>pc o1. Some pc \<in> set (gs_threads t) \<and> get_oid pc = Some o1 \<longrightarrow> se_parse env what = Inr o1"
      using upd [where x = None] assms(1) unfolding t(1) get_inv_def by blast
    moreover have "gs_threads t \<noteq> []" using i(1) t(1) by auto
    ultimately show ?thesis using t(3) unfolding get_inv_def by blast
  qed
next
  case Main
  then show ?thesis using assms
    by (auto simp: get_event_def get_main_event_def get_inv_def settled_def split: main_pc.splits sum.splits if_splits prod.splits option.splits)
next
  case Deadline
  then show ?thesis using assms by (auto simp: get_event_def get_deadline_event_def get_inv_def settled_def split: if_splits)
qed

interpretation get_sys: invariant_system "\<lambda>s. \<exists>c. s = get_start c" "get_step env what" "get_inv env what"
  for env :: "'w snmp_env" and what
  by unfold_locales (force simp: get_start_def get_inv_def, rule get_event_inv)


section \<open>A run\<close>

text \<open>A device that loses its first and third request for the value of an object.\<close>

definition lossy_get :: "nat snmp_env" where
  "lossy_get = two_losses\<lparr>se_get := \<lambda>w o1. (Suc w, if even w then Inl ''request timeout'' else Inr [5])\<rparr>"

text \<open>The first attempt misses its deadline in its reconnection; the second gets the value.\<close>

definition second_gets :: "walk_event list" where
  "second_gets = Main # replicate 4 (Step 0) @ [Deadline, Main, Main, Main, Step 1, Step 1, Main, Main]"

lemma second_gets_run:
  "map_option (\<lambda>s. (gs_main s, get_got s)) (get_run lossy_get ''1.3'' second_gets (get_start counting_session)) =
     Some (Left, Inr (Inr (''1.3'', [5])))"
  by code_simp


text \<open>
  The abandoned attempt assigns the shared \<open>lastError\<close> when it fails later, and a Get that has its value
  is reported as failed.
\<close>

theorem abandoned_get_fails_job:
  "\<exists>s t err. get_run lossy_get ''1.3'' second_gets (get_start counting_session) = Some s \<and> gs_main s = Left \<and>
     get_got s = Inr (Inr (''1.3'', [5])) \<and> get_run lossy_get ''1.3'' [Step 0, Step 0, Step 0] s = Some t \<and>
     get_got t = Inr (Inl err)"
proof -
  have "map_option (\<lambda>s. map_option get_got (get_run lossy_get ''1.3'' [Step 0, Step 0, Step 0] s))
      (get_run lossy_get ''1.3'' second_gets (get_start counting_session)) =
      Some (Some (Inr (Inl ''SNMP GET failed for OID 1.3 after reconnect: request timeout'')))"
    by code_simp
  then show ?thesis using second_gets_run by auto
qed

end
