(* ===== verification/Net_Snmp.thy ===== *)
theory Net_Snmp
  imports Snmp
begin

text \<open>
  \<open>protocols/snmp/NetSNMPv2.go\<close>: collection through the net-snmp command line tools. Running a
  command is an argument: it ends with its output, fails with an error and its output, or is killed by
  the time limit.
\<close>

datatype cmd_result = CmdOutput string | CmdError string string | CmdTimeout

datatype net_value = NText string | NInt int | NUint nat

type_synonym net_pdu = "string \<times> net_value"

record net_env =
  ne_credential :: "string option"
  ne_run :: "string \<Rightarrow> string list \<Rightarrow> cmd_result"

section \<open>Reading the output\<close>

definition parse_uint :: "string \<Rightarrow> nat \<Rightarrow> net_value" where
  "parse_uint s w = (case ParseUint s w of Some v \<Rightarrow> NUint v | None \<Rightarrow> NText s)"

definition parse_ticks :: "string \<Rightarrow> net_value" where
  "parse_ticks s =
     (case Index s '')'' of
        None \<Rightarrow> NText s
      | Some idx \<Rightarrow> parse_uint (TrimPrefix (TrimSpace (take idx s)) ''('') 32)"

definition parseValue :: "string \<Rightarrow> net_value" where
  "parseValue s =
     (if Contains s ''STRING: '' then NText (TrimPrefix s ''STRING: '')
      else if Contains s ''INTEGER: '' then
        (let i = TrimPrefix s ''INTEGER: '' in case ParseInt64 i of Some v \<Rightarrow> NInt v | None \<Rightarrow> NText i)
      else if Contains s ''Counter32: '' then parse_uint (TrimPrefix s ''Counter32: '') 32
      else if Contains s ''Counter64: '' then parse_uint (TrimPrefix s ''Counter64: '') 64
      else if Contains s ''Gauge32: '' then parse_uint (TrimPrefix s ''Gauge32: '') 32
      else if Contains s ''TimeTicks: '' then parse_ticks (TrimPrefix s ''TimeTicks: '')
      else if Contains s ''OID: '' then NText (TrimPrefix s ''OID: '')
      else if Contains s ''IpAddress: '' then NText (TrimPrefix s ''IpAddress: '')
      else if Contains s ''Hex-STRING: '' then NText (TrimPrefix s ''Hex-STRING: '')
      else case ParseInt64 s of Some v \<Rightarrow> NInt v | None \<Rightarrow> NText s)"

definition parse_line :: "string \<Rightarrow> net_pdu list" where
  "parse_line line =
     (let line = TrimSpace line in
      if line = '''' then []
      else case SplitN2 line '' '' of
        [o1, v] \<Rightarrow> [(TrimSpace o1, parseValue (TrimSpace v))]
      | _ \<Rightarrow> [])"

definition newline :: string where
  "newline = [CHR 0x0A]"

definition parseSnmpWalkOutput :: "string \<Rightarrow> string + net_pdu list" where
  "parseSnmpWalkOutput output =
     (case concat (map parse_line (Split (TrimSpace output) newline)) of
        [] \<Rightarrow> Inl ''failed to parse any valid SNMP data from output''
      | pdus \<Rightarrow> Inr pdus)"

section \<open>The commands\<close>

definition net_args :: "host_protocol \<Rightarrow> string \<Rightarrow> string \<Rightarrow> string list" where
  "net_args conf community oid =
     (let timeout = (if cfg_Timeout conf = 0 then 60 else cfg_Timeout conf) in
      [''-v'', ''2c'', ''-c'', community, ''-t'', dec_int timeout, ''-r'', ''3'', ''-On'', ''-Oq'',
       cfg_Addr conf @ '':'' @ dec_int (cfg_Port conf), oid])"

definition net_command ::
  "net_env \<Rightarrow> string \<Rightarrow> host_protocol \<Rightarrow> string \<Rightarrow> string \<Rightarrow> (string + string) res" where
  "net_command env cmd conf oid secs =
     (case ne_credential env of
        None \<Rightarrow> Inl (Raised ''credential'')
      | Some community \<Rightarrow>
          (case ne_run env cmd (net_args conf community oid) of
             CmdError e out \<Rightarrow> Inr (Inl (''net-snmp '' @ cmd @ '' failed: '' @ e @ '', output: '' @ out))
           | CmdTimeout \<Rightarrow> Inr (Inl (''net-snmp '' @ cmd @ '' timed out after '' @ secs))
           | CmdOutput out \<Rightarrow>
               if out = '''' then Inr (Inl (''net-snmp '' @ cmd @ '' returned no data for OID '' @ oid)) else Inr (Inr out)))"

definition net_snmpWalk :: "net_env \<Rightarrow> host_protocol option \<Rightarrow> string \<Rightarrow> string \<Rightarrow> (string + net_pdu list) res" where
  "net_snmpWalk env config oid secs =
     (case config of
        None \<Rightarrow> Inr (Inl ''SNMP config is not initialized'')
      | Some conf \<Rightarrow>
          bind_res (net_command env ''snmpwalk'' conf oid secs) (\<lambda>r.
            case r of Inl e \<Rightarrow> Inr (Inl e) | Inr out \<Rightarrow> Inr (parseSnmpWalkOutput out)))"

definition net_snmpGet :: "net_env \<Rightarrow> host_protocol option \<Rightarrow> string \<Rightarrow> string \<Rightarrow> (string + net_pdu) res" where
  "net_snmpGet env config oid secs =
     (case config of
        None \<Rightarrow> Inr (Inl ''SNMP config is not initialized'')
      | Some conf \<Rightarrow>
          bind_res (net_command env ''snmpget'' conf oid secs) (\<lambda>r.
            case r of
              Inl e \<Rightarrow> Inr (Inl e)
            | Inr out \<Rightarrow>
                (case parseSnmpWalkOutput out of
                   Inr (p # _) \<Rightarrow> Inr (Inr p)
                 | _ \<Rightarrow> Inr (Inl (''failed to parse snmpget output for OID '' @ oid)))))"

section \<open>Printed values\<close>

text \<open>Values as the tools print them with their types, and what the collector should read.\<close>

datatype shown =
    Shown_String string
  | Shown_Integer int
  | Shown_Counter32 nat
  | Shown_Counter64 nat
  | Shown_Gauge32 nat
  | Shown_Ticks nat string
  | Shown_Bare int

fun print_shown :: "shown \<Rightarrow> string" where
  "print_shown (Shown_String s) = ''STRING: '' @ s"
| "print_shown (Shown_Integer i) = ''INTEGER: '' @ dec_int i"
| "print_shown (Shown_Counter32 n) = ''Counter32: '' @ dec_nat n"
| "print_shown (Shown_Counter64 n) = ''Counter64: '' @ dec_nat n"
| "print_shown (Shown_Gauge32 n) = ''Gauge32: '' @ dec_nat n"
| "print_shown (Shown_Ticks n t) = ''TimeTicks: ('' @ dec_nat n @ '') '' @ t"
| "print_shown (Shown_Bare i) = dec_int i"

fun shown_value :: "shown \<Rightarrow> net_value" where
  "shown_value (Shown_String s) = NText s"
| "shown_value (Shown_Integer i) = NInt i"
| "shown_value (Shown_Counter32 n) = NUint n"
| "shown_value (Shown_Counter64 n) = NUint n"
| "shown_value (Shown_Gauge32 n) = NUint n"
| "shown_value (Shown_Ticks n t) = NUint n"
| "shown_value (Shown_Bare i) = NInt i"

text \<open>The ranges of the types; the text after the ticks is made of digits, colons and dots.\<close>

fun shown_ok :: "shown \<Rightarrow> bool" where
  "shown_ok (Shown_String s) = True"
| "shown_ok (Shown_Integer i) = (- (2 ^ 63) \<le> i \<and> i < 2 ^ 63)"
| "shown_ok (Shown_Counter32 n) = (int n < 2 ^ 32)"
| "shown_ok (Shown_Counter64 n) = (int n < 2 ^ 64)"
| "shown_ok (Shown_Gauge32 n) = (int n < 2 ^ 32)"
| "shown_ok (Shown_Ticks n t) = (int n < 2 ^ 32 \<and> list_all (\<lambda>c. is_digit c \<or> c = CHR '':'' \<or> c = CHR ''.'') t)"
| "shown_ok (Shown_Bare i) = (- (2 ^ 63) \<le> i \<and> i < 2 ^ 63)"

lemma no_char: "c \<notin> set s \<Longrightarrow> \<not> Contains s (c # r)"
  using Contains_char by blast

lemma dec_nat_chars: "\<not> is_digit c \<Longrightarrow> c \<notin> set (dec_nat n)"
  using dec_nat_digits [of n] by (auto simp: list_all_iff)

lemma dec_int_chars: "\<not> is_digit c \<Longrightarrow> c \<noteq> CHR ''-'' \<Longrightarrow> c \<notin> set (dec_int n)"
  using dec_nat_chars by (auto simp: dec_int_def)

lemma letters_no_digits [simp]:
  "\<not> is_digit CHR ''S''" "\<not> is_digit CHR ''I''" "\<not> is_digit CHR ''C''" "\<not> is_digit CHR ''G''"
  "\<not> is_digit CHR ''T''" "\<not> is_digit CHR ''O''" "\<not> is_digit CHR ''H''" "\<not> is_digit CHR '')''" "\<not> is_digit CHR '' ''"
  by (simp_all add: is_digit_def less_eq_char_def)

lemma parseValue_shown: "shown_ok v \<Longrightarrow> parseValue (print_shown v) = shown_value v"
proof (cases v)
  case (Shown_String s)
  then show ?thesis using Contains_here [of "''STRING: ''" s] TrimPrefix_append [of "''STRING: ''" s]
    by (simp add: parseValue_def)
next
  case (Shown_Integer i)
  assume "shown_ok v"
  then show ?thesis
    using Shown_Integer Contains_here [of "''INTEGER: ''" "dec_int i"] TrimPrefix_append [of "''INTEGER: ''" "dec_int i"]
    by (simp add: parseValue_def no_char dec_int_chars ParseInt64_dec)
next
  case (Shown_Counter32 n)
  assume "shown_ok v"
  then show ?thesis
    using Shown_Counter32 Contains_here [of "''Counter32: ''" "dec_nat n"] TrimPrefix_append [of "''Counter32: ''" "dec_nat n"]
    by (simp add: parseValue_def no_char dec_nat_chars parse_uint_def ParseUint_dec)
next
  case (Shown_Counter64 n)
  assume "shown_ok v"
  moreover have "\<not> Contains (''Counter64: '' @ dec_nat n) ''Counter32: ''"
    by (simp add: Contains_Cons HasPrefix_def no_char dec_nat_chars)
  ultimately show ?thesis
    using Shown_Counter64 Contains_here [of "''Counter64: ''" "dec_nat n"] TrimPrefix_append [of "''Counter64: ''" "dec_nat n"]
    by (simp add: parseValue_def no_char dec_nat_chars parse_uint_def ParseUint_dec)
next
  case (Shown_Gauge32 n)
  assume "shown_ok v"
  then show ?thesis
    using Shown_Gauge32 Contains_here [of "''Gauge32: ''" "dec_nat n"] TrimPrefix_append [of "''Gauge32: ''" "dec_nat n"]
    by (simp add: parseValue_def no_char dec_nat_chars parse_uint_def ParseUint_dec)
next
  case (Shown_Ticks n t)
  assume ok: "shown_ok v"
  let ?s = "''('' @ dec_nat n @ '') '' @ t"
  have t: "c \<notin> set t" if "\<not> is_digit c" "c \<noteq> CHR '':''" "c \<noteq> CHR ''.''" for c
    using ok Shown_Ticks that by (auto simp: list_all_iff)
  have "Index ((CHR ''('' # dec_nat n) @ CHR '')'' # CHR '' '' # t) '')'' = Some (length (CHR ''('' # dec_nat n))"
    by (rule Index_char) (simp add: dec_nat_chars)
  moreover have "trimmed (CHR ''('' # dec_nat n)"
  proof (rule trimmed_ascii)
    have "is_digit (last (dec_nat n))" using dec_nat_digits [of n] by (simp add: list_all_iff)
    then show "list_all (\<lambda>c. 32 < (of_char c :: nat) \<and> (of_char c :: nat) < 128)
        [hd (CHR ''('' # dec_nat n), last (CHR ''('' # dec_nat n)]"
      using dec_nat_digits [of n] by (auto simp: is_digit_def less_eq_char_def)
  qed simp
  moreover have "TrimPrefix (CHR ''('' # dec_nat n) ''('' = dec_nat n" using TrimPrefix_append [of "''(''"] by simp
  ultimately have "parse_ticks ?s = NUint n"
    using ok Shown_Ticks by (simp add: parse_ticks_def TrimSpace_id parse_uint_def ParseUint_dec)
  then show ?thesis
    using Shown_Ticks Contains_here [of "''TimeTicks: ''" ?s] TrimPrefix_append [of "''TimeTicks: ''" ?s]
    by (simp add: parseValue_def no_char dec_nat_chars t)
next
  case (Shown_Bare i)
  assume "shown_ok v"
  then show ?thesis using Shown_Bare by (simp add: parseValue_def no_char dec_int_chars ParseInt64_dec)
qed

section \<open>Reading back a printed walk\<close>

definition print_line :: "string \<times> shown \<Rightarrow> string" where
  "print_line p = fst p @ '' '' @ print_shown (snd p)"

text \<open>A name without white space, a value that neither begins nor ends with it.\<close>

definition line_ok :: "string \<times> shown \<Rightarrow> bool" where
  "line_ok p \<longleftrightarrow> fst p \<noteq> [] \<and> list_all (\<lambda>c. 32 < (of_char c :: nat) \<and> (of_char c :: nat) < 128) (fst p) \<and>
     shown_ok (snd p) \<and> print_shown (snd p) \<noteq> [] \<and> CHR 0x0A \<notin> set (print_shown (snd p)) \<and>
     list_all (\<lambda>c. 32 < (of_char c :: nat) \<and> (of_char c :: nat) < 128) [hd (print_shown (snd p)), last (print_shown (snd p))]"

lemma line_parts:
  assumes "line_ok p"
  shows "trimmed (fst p)" "trimmed (print_shown (snd p))" "trimmed (print_line p)"
    "CHR '' '' \<notin> set (fst p)" "CHR 0x0A \<notin> set (print_line p)" "print_line p \<noteq> []"
proof -
  note ok = assms [unfolded line_ok_def]
  have h: "32 < (of_char (hd (fst p)) :: nat)" "(of_char (hd (fst p)) :: nat) < 128"
      "32 < (of_char (last (fst p)) :: nat)" "(of_char (last (fst p)) :: nat) < 128"
    using ok by (auto simp: list_all_iff)
  show "trimmed (fst p)" by (rule trimmed_ascii) (use ok h in auto)
  show "trimmed (print_shown (snd p))" by (rule trimmed_ascii) (use ok in auto)
  show "trimmed (print_line p)"
    by (rule trimmed_ascii) (use ok h in \<open>auto simp: print_line_def\<close>)
  show "CHR '' '' \<notin> set (fst p)" using ok by (auto simp: list_all_iff)
  show "CHR 0x0A \<notin> set (print_line p)" using ok by (auto simp: print_line_def list_all_iff)
  show "print_line p \<noteq> []" by (simp add: print_line_def)
qed

lemma parse_line_print:
  assumes "line_ok p"
  shows "parse_line (print_line p) = [(fst p, shown_value (snd p))]"
proof -
  have "SplitN2 (print_line p) '' '' = [fst p, print_shown (snd p)]"
    using Index_char [OF line_parts(4) [OF assms], of "print_shown (snd p)"] by (simp add: SplitN2_def print_line_def)
  then show ?thesis
    using line_parts [OF assms] assms parseValue_shown [of "snd p"]
    by (simp add: parse_line_def Let_def TrimSpace_id line_ok_def)
qed

lemma Join_lines_trimmed:
  assumes "ps \<noteq> []" and "list_all line_ok ps"
  shows "trimmed (Join newline (map print_line ps))"
proof (rule trimmed_ascii)
  obtain p where p: "p \<in> set ps" using assms(1) by (cases ps) auto
  have hd: "hd (Join newline (map print_line ps)) = hd (fst (hd ps)) \<and> Join newline (map print_line ps) \<noteq> []"
    using assms by (cases ps; cases "tl ps") (auto simp: print_line_def line_ok_def)
  then show "Join newline (map print_line ps) \<noteq> []" by blast
  have last: "last (Join newline (map print_line ps)) = last (print_shown (snd (last ps)))"
    using assms
  proof (induction ps)
    case (Cons p ps)
    show ?case
    proof (cases "ps = []")
      case True
      then show ?thesis using Cons.prems by (simp add: print_line_def line_ok_def)
    next
      case False
      have "Join newline (map print_line ps) \<noteq> []"
        using False Cons.prems line_parts(6) by (cases ps; cases "tl ps") auto
      then show ?thesis using False Cons by (simp add: Join_Cons)
    qed
  qed simp
  have "line_ok (hd ps)" "line_ok (last ps)" using assms by (auto simp: list_all_iff)
  then show "list_all (\<lambda>c. 32 < (of_char c :: nat) \<and> (of_char c :: nat) < 128)
      [hd (Join newline (map print_line ps)), last (Join newline (map print_line ps))]"
    using hd last by (auto simp: line_ok_def list_all_iff)
qed



text \<open>
  A hexadecimal value is never stripped of its tag, for its tag contains the tag of a text: the
  branch for it cannot be reached.
\<close>

theorem hex_tag_kept:
  "parseValue (''Hex-STRING: '' @ t) = NText (''Hex-STRING: '' @ t)"
proof -
  have "Contains (''Hex-'' @ ''STRING: '' @ t) ''STRING: ''" by (rule Contains_append [OF Contains_here])
  then show ?thesis by (simp add: parseValue_def TrimPrefix_def HasPrefix_def)
qed

end
