(* ===== verification/Ssh_Reader.thy ===== *)
theory Ssh_Reader
  imports Ssh_Theorems
begin

text \<open>
  The background reader of the SSH collector (\<open>run\<close> of \<open>protocols/ssh/Ssh.go\<close>), which queues what the
  shell prints. A read of the library is what it returns: data of at most the buffer's 512 bytes and,
  possibly with it, an error. The list is what the reads return one after another, each with the value of
  \<open>running\<close> that the loop finds before it; the result says whether the reader has ended.
\<close>

type_synonym read = "bool \<times> string \<times> string option"

fun ssh_run :: "read list \<Rightarrow> string list \<Rightarrow> string list \<times> bool" where
  "ssh_run [] queue = (queue, False)"
| "ssh_run ((running, data, err) # rs) queue =
     (if \<not> running then (queue, True)
      else case err of
        Some _ \<Rightarrow> (queue, True)
      | None \<Rightarrow> ssh_run rs (if data \<noteq> '''' then queue @ [data] else queue))"

text \<open>The reads before the first that fails or finds \<open>running\<close> cleared.\<close>

definition good_reads :: "read list \<Rightarrow> read list" where
  "good_reads rs = takeWhile (\<lambda>(running, data, err). running \<and> err = None) rs"

lemma ssh_run_queue:
  "ssh_run rs queue =
    (queue @ filter (\<lambda>d. d \<noteq> '''') (map (\<lambda>(running, data, err). data) (good_reads rs)), good_reads rs \<noteq> rs)"
  by (induction rs queue rule: ssh_run.induct) (auto simp: good_reads_def split: option.split)

text \<open>
  The reader queues exactly the data of the reads up to the first error or the end of \<open>running\<close>, in
  order, without empty pieces, and it ends there; pieces are never longer than the reads.
\<close>

theorem ssh_run_delivers:
  "concat (fst (ssh_run rs queue)) = concat queue @ concat (map (\<lambda>(running, data, err). data) (good_reads rs)) \<and>
   '''' \<notin> set (drop (length queue) (fst (ssh_run rs queue))) \<and>
   (snd (ssh_run rs queue) \<longleftrightarrow> (\<exists>(running, data, err) \<in> set rs. \<not> running \<or> err \<noteq> None))"
proof -
  have flat: "concat (filter (\<lambda>d. d \<noteq> '''') xs) = concat xs" for xs :: "string list"
    by (induction xs) auto
  have "good_reads rs \<noteq> rs \<longleftrightarrow> (\<exists>(running, data, err) \<in> set rs. \<not> running \<or> err \<noteq> None)"
    unfolding good_reads_def takeWhile_eq_all_conv by blast
  then show ?thesis by (simp only: ssh_run_queue fst_conv snd_conv concat_append flat) simp
qed

text \<open>
  A reader in Go may return its last data together with the error that ends the stream. \<open>run\<close> tests the
  error first, so that data is lost.
\<close>

theorem last_read_lost:
  "fst (ssh_run (rs @ [(True, data, Some ''EOF'')]) queue) = fst (ssh_run rs queue)"
proof -
  have "good_reads (rs @ [(True, data, Some ''EOF'')]) = good_reads rs"
    by (simp add: good_reads_def takeWhile_tail)
  then show ?thesis by (simp add: ssh_run_queue)
qed

text \<open>A reader started after a disconnection finds \<open>running\<close> cleared and reads nothing.\<close>

lemma stopped_reader_reads_nothing: "ssh_run ((False, data, err) # rs) queue = (queue, True)"
  by simp

end
