(* ===== verification/Kubectl_Process.thy ===== *)
theory Kubectl_Process
  imports Kubectl
begin

text \<open>
  All kubectl hosts of a process. They share the working directory, where each writes its configuration and
  every job a script, and their jobs overlap: those of the collection loops, one per host, and those of the
  execute service. \<open>Exec\<close> is split at its accesses to the directory: it draws a name, writes the script, has
  it run and removes it. Hosts with different contexts do not get into each other's way.
\<close>

section \<open>Jobs in steps\<close>

text \<open>A job of a host: to begin, with its script to be written, to be run and to be removed, and over.\<close>

datatype kube_run =
    Kube_Begin nat cjob
  | Kube_Named nat cjob string string
  | Kube_Written nat cjob string string
  | Kube_Ran nat cjob string
  | Kube_Over cjob

fun kube_go :: "'w kube_env \<Rightarrow> kubectl list \<Rightarrow> kube_run \<Rightarrow> files \<times> 'w \<Rightarrow> (kube_run \<times> files \<times> 'w) res" where
  "kube_go env hosts (Kube_Begin h job) (fs, w) =
     (let c = hosts ! h in
      if \<not> kc_resources c then Inl NilDeref
      else case ke_poll env (PollarisName job) (JobName job) of
        Inl err \<Rightarrow> Inr (Kube_Over job, fs, w)
      | Inr pl \<Rightarrow>
          (case ke_uuid env w of (w, uuid) \<Rightarrow>
             Inr (Kube_Named h job (''./'' @ uuid @ ''.sh'') (kubectl_script c pl job), fs, w)))"
| "kube_go env hosts (Kube_Named h job path script) (fs, w) =
     Inr (Kube_Written h job path script, fst (write_file env path script fs), w)"
| "kube_go env hosts (Kube_Written h job path script) (fs, w) =
     (case ke_bash env fs w path of (w, out, e) \<Rightarrow>
        let job = (case e of
              Some err \<Rightarrow> job\<lparr>Error := err, ErrorCount := ErrorCount job + 1\<rparr>
            | None \<Rightarrow> job\<lparr>ErrorCount := 0\<rparr>)
        in Inr (Kube_Ran h (job\<lparr>Result := Some (ke_encode env out)\<rparr>) path, fs, w))"
| "kube_go env hosts (Kube_Ran h job path) (fs, w) = Inr (Kube_Over job, remove_file path fs, w)"
| "kube_go env hosts (Kube_Over job) (fs, w) = Inr (Kube_Over job, fs, w)"

fun kube_finish :: "'w kube_env \<Rightarrow> kubectl list \<Rightarrow> nat \<Rightarrow> kube_run \<times> files \<times> 'w \<Rightarrow> (kube_run \<times> files \<times> 'w) res" where
  "kube_finish env hosts 0 s = Inr s"
| "kube_finish env hosts (Suc n) (r, s) = bind_res (kube_go env hosts r s) (kube_finish env hosts n)"

text \<open>With nothing in between, the steps are \<open>Exec\<close>.\<close>

lemma kube_steps_exec:
  "kube_finish env hosts 4 (Kube_Begin h job, fs, w) =
     bind_res (kubectl_Exec env fs w (hosts ! h) job) (\<lambda>(fs, w, job). Inr (Kube_Over job, fs, w))"
proof (cases "kc_resources (hosts ! h)")
  case True
  show ?thesis
  proof (cases "ke_poll env (PollarisName job) (JobName job)")
    case (Inr pl)
    obtain w1 uuid where u: "ke_uuid env w = (w1, uuid)" by (cases "ke_uuid env w")
    let ?path = "''./'' @ uuid @ ''.sh''"
    let ?fs = "fst (write_file env ?path (kubectl_script (hosts ! h) pl job) fs)"
    obtain w2 out e where "ke_bash env ?fs w1 ?path = (w2, out, e)" by (cases "ke_bash env ?fs w1 ?path")
    then show ?thesis using True Inr u by (simp add: kubectl_Exec_def eval_nat_numeral Let_def)
  qed (simp add: kubectl_Exec_def eval_nat_numeral Let_def True)
qed (simp add: kubectl_Exec_def eval_nat_numeral Let_def)

section \<open>The process\<close>

record 'w kube_process =
  kp_files :: files
  kp_world :: 'w
  kp_hosts :: "kubectl list"
  kp_runs :: "kube_run list"

text \<open>Host \<open>i\<close> is initialised with the configuration at position \<open>i\<close>.\<close>

datatype kube_event = Init_Host nat | Disconnect_Host nat | Exec_Host nat cjob | Go nat

definition kube_event ::
  "'w kube_env \<Rightarrow> host_protocol list \<Rightarrow> kube_event \<Rightarrow> 'w kube_process \<Rightarrow> 'w kube_process res" where
  "kube_event env confs ev p =
     (case ev of
        Init_Host i \<Rightarrow>
          (if length confs \<le> i then Inr p
           else bind_res (kubectl_Init env (confs ! i) (kp_files p) (kp_hosts p ! i)) (\<lambda>(c, fs, err).
             Inr (p\<lparr>kp_hosts := (kp_hosts p)[i := c], kp_files := fs\<rparr>)))
      | Disconnect_Host i \<Rightarrow>
          (if length confs \<le> i then Inr p
           else case kubectl_Disconnect (kp_files p) (kp_hosts p ! i) of (c, fs) \<Rightarrow>
             Inr (p\<lparr>kp_hosts := (kp_hosts p)[i := c], kp_files := fs\<rparr>))
      | Exec_Host i job \<Rightarrow>
          (if length confs \<le> i then Inr p else Inr (p\<lparr>kp_runs := kp_runs p @ [Kube_Begin i job]\<rparr>))
      | Go k \<Rightarrow>
          (if length (kp_runs p) \<le> k then Inr p
           else bind_res (kube_go env (kp_hosts p) (kp_runs p ! k) (kp_files p, kp_world p)) (\<lambda>(r, fs, w).
             Inr (p\<lparr>kp_runs := (kp_runs p)[k := r], kp_files := fs, kp_world := w\<rparr>))))"

definition kube_process0 :: "host_protocol list \<Rightarrow> files \<Rightarrow> 'w \<Rightarrow> 'w kube_process" where
  "kube_process0 confs fs w =
     \<lparr>kp_files = fs, kp_world = w, kp_hosts = replicate (length confs) new_kubectl, kp_runs = []\<rparr>"

fun kube_run_events ::
  "'w kube_env \<Rightarrow> host_protocol list \<Rightarrow> kube_event list \<Rightarrow> 'w kube_process \<Rightarrow> 'w kube_process res" where
  "kube_run_events env confs [] p = Inr p"
| "kube_run_events env confs (e # es) p = bind_res (kube_event env confs e p) (kube_run_events env confs es)"

abbreviation kube_step :: "'w kube_env \<Rightarrow> host_protocol list \<Rightarrow> 'w kube_process \<Rightarrow> kube_event \<Rightarrow> 'w kube_process \<Rightarrow> bool" where
  "kube_step env confs p e q \<equiv> kube_event env confs e p = Inr q"

lemma kube_run_reach:
  "kube_run_events env confs es p = Inr q \<Longrightarrow> reach start (kube_step env confs) p \<Longrightarrow> reach start (kube_step env confs) q"
proof (induction es arbitrary: p)
  case (Cons e es)
  obtain p1 where "kube_event env confs e p = Inr p1" "kube_run_events env confs es p1 = Inr q"
    using Cons.prems(1) by (auto simp: bind_res_eq_Inr)
  then show ?case using Cons.IH reach_step [OF Cons.prems(2)] by blast
qed simp

section \<open>What the hosts need\<close>

definition kube_ctxt :: "'w kube_env \<Rightarrow> host_protocol \<Rightarrow> string" where
  "kube_ctxt env conf = (case ke_credential env (cfg_CredId conf) of Some (ctxt, k) \<Rightarrow> ctxt | None \<Rightarrow> '''')"

text \<open>Credentials that can be decoded, with a context of its own for each host, and a directory to write in.\<close>

definition kube_confs_ok :: "'w kube_env \<Rightarrow> host_protocol list \<Rightarrow> (nat \<Rightarrow> string) \<Rightarrow> bool" where
  "kube_confs_ok env confs content \<longleftrightarrow> distinct (map (kube_ctxt env) confs) \<and> (\<forall>path. ke_refuses env path = None) \<and>
     (\<forall>i < length confs. \<exists>k. ke_credential env (cfg_CredId (confs ! i)) = Some (kube_ctxt env (confs ! i), k) \<and>
        ke_decode env k = Inr (content i))"

text \<open>\<open>uuid.New\<close> never gives a name twice; \<open>used\<close> are the names given so far.\<close>

definition uuids_fresh :: "'w kube_env \<Rightarrow> ('w \<Rightarrow> string set) \<Rightarrow> bool" where
  "uuids_fresh env used \<longleftrightarrow>
     (\<forall>w w' u. ke_uuid env w = (w', u) \<longrightarrow> u \<notin> used w \<and> insert u (used w) \<subseteq> used w') \<and>
     (\<forall>fs w path w' r. ke_bash env fs w path = (w', r) \<longrightarrow> used w \<subseteq> used w')"

definition config_path :: "'w kube_env \<Rightarrow> host_protocol \<Rightarrow> string" where
  "config_path env conf = ''.kubeadm-'' @ kube_ctxt env conf"

text \<open>The script of a job of a host: with the host's own configuration and context.\<close>

definition own_script :: "'w kube_env \<Rightarrow> host_protocol \<Rightarrow> cjob \<Rightarrow> string \<Rightarrow> bool" where
  "own_script env conf job script \<longleftrightarrow> (\<exists>pl. ke_poll env (PollarisName job) (JobName job) = Inr pl \<and>
     script = ''kubectl --kubeconfig='' @ config_path env conf @ '' --context='' @ kube_ctxt env conf @ '' '' @
       ReplaceArguments (poll_What pl) job @ [CHR 0x0A])"

fun run_path :: "kube_run \<Rightarrow> string option" where
  "run_path (Kube_Named h job path script) = Some path"
| "run_path (Kube_Written h job path script) = Some path"
| "run_path (Kube_Ran h job path) = Some path"
| "run_path _ = None"

fun run_ok :: "'w kube_env \<Rightarrow> host_protocol list \<Rightarrow> files \<Rightarrow> kube_run \<Rightarrow> bool" where
  "run_ok env confs fs (Kube_Begin h job) = (h < length confs)"
| "run_ok env confs fs (Kube_Named h job path script) = (h < length confs \<and> own_script env (confs ! h) job script)"
| "run_ok env confs fs (Kube_Written h job path script) =
     (h < length confs \<and> own_script env (confs ! h) job script \<and> fs path = Some script)"
| "run_ok env confs fs (Kube_Ran h job path) = True"
| "run_ok env confs fs (Kube_Over job) = True"

definition kube_host_ok :: "'w kube_env \<Rightarrow> host_protocol \<Rightarrow> string \<Rightarrow> files \<Rightarrow> kubectl \<Rightarrow> bool" where
  "kube_host_ok env conf content fs c \<longleftrightarrow>
     \<not> kc_resources c \<and> kc_kubeConfig c = '''' \<or>
     kc_kubeConfig c = config_path env conf \<and> kc_context c = kube_ctxt env conf \<and> fs (config_path env conf) = Some content"

definition script_of :: "string \<Rightarrow> string" where
  "script_of u = ''./'' @ u @ ''.sh''"

definition kube_inv ::
  "'w kube_env \<Rightarrow> host_protocol list \<Rightarrow> (nat \<Rightarrow> string) \<Rightarrow> ('w \<Rightarrow> string set) \<Rightarrow> 'w kube_process \<Rightarrow> bool" where
  "kube_inv env confs content used p \<longleftrightarrow>
     length (kp_hosts p) = length confs \<and>
     (\<forall>i < length confs. kube_host_ok env (confs ! i) (content i) (kp_files p) (kp_hosts p ! i)) \<and>
     (\<forall>r \<in> set (kp_runs p). run_ok env confs (kp_files p) r \<and>
        (\<forall>path. run_path r = Some path \<longrightarrow> (\<exists>u \<in> used (kp_world p). path = script_of u))) \<and>
     (\<forall>i < length (kp_runs p). \<forall>j < length (kp_runs p). \<forall>path. i \<noteq> j \<and> run_path (kp_runs p ! i) = Some path \<longrightarrow>
        run_path (kp_runs p ! j) \<noteq> Some path)"

lemma script_not_config [simp]: "script_of u \<noteq> config_path env conf" "config_path env conf \<noteq> script_of u"
  by (simp_all add: script_of_def config_path_def)

lemma script_of_inject [simp]: "script_of u = script_of v \<longleftrightarrow> u = v"
  by (simp add: script_of_def)

lemma config_path_inject: "config_path env a = config_path env b \<longleftrightarrow> kube_ctxt env a = kube_ctxt env b"
  by (simp add: config_path_def)

section \<open>Every operation keeps it\<close>

lemma run_ok_files:
  "run_ok env confs fs r \<Longrightarrow> (\<And>path. run_path r = Some path \<Longrightarrow> fs' path = fs path) \<Longrightarrow> run_ok env confs fs' r"
  by (cases r) auto

lemma kube_host_ok_files:
  "kube_host_ok env conf content fs c \<Longrightarrow> fs' (config_path env conf) = fs (config_path env conf) \<Longrightarrow>
   kube_host_ok env conf content fs' c"
  by (simp add: kube_host_ok_def)

lemma kube_confs_path:
  assumes "kube_confs_ok env confs content" and "i < length confs" and "j < length confs" and "i \<noteq> j"
  shows "config_path env (confs ! i) \<noteq> config_path env (confs ! j)"
  using assms by (auto simp: kube_confs_ok_def config_path_inject distinct_conv_nth)

lemma kube_Init_ok:
  assumes "kube_confs_ok env confs content" and "i < length confs"
  obtains c' where "kubectl_Init env (confs ! i) fs c = Inr (c', fs(config_path env (confs ! i) \<mapsto> content i), None)"
    and "kc_kubeConfig c' = config_path env (confs ! i)" and "kc_context c' = kube_ctxt env (confs ! i)"
  using assms by (force simp: kube_confs_ok_def kubectl_Init_def write_file_def Let_def config_path_def)

lemma kube_invD:
  assumes "kube_inv env confs content used p"
  shows "length (kp_hosts p) = length confs"
    and "i < length confs \<Longrightarrow> kube_host_ok env (confs ! i) (content i) (kp_files p) (kp_hosts p ! i)"
    and "k < length (kp_runs p) \<Longrightarrow> run_ok env confs (kp_files p) (kp_runs p ! k)"
    and "k < length (kp_runs p) \<Longrightarrow> run_path (kp_runs p ! k) = Some path \<Longrightarrow> \<exists>u \<in> used (kp_world p). path = script_of u"
    and "k < length (kp_runs p) \<Longrightarrow> l < length (kp_runs p) \<Longrightarrow> k \<noteq> l \<Longrightarrow> run_path (kp_runs p ! k) = Some path \<Longrightarrow>
      run_path (kp_runs p ! l) \<noteq> Some path"
  using assms unfolding kube_inv_def by (blast intro: nth_mem)+

lemma kube_invI:
  assumes "length (kp_hosts p) = length confs"
    and "\<And>i. i < length confs \<Longrightarrow> kube_host_ok env (confs ! i) (content i) (kp_files p) (kp_hosts p ! i)"
    and "\<And>k. k < length (kp_runs p) \<Longrightarrow> run_ok env confs (kp_files p) (kp_runs p ! k)"
    and "\<And>k path. k < length (kp_runs p) \<Longrightarrow> run_path (kp_runs p ! k) = Some path \<Longrightarrow> \<exists>u \<in> used (kp_world p). path = script_of u"
    and "\<And>k l path. k < length (kp_runs p) \<Longrightarrow> l < length (kp_runs p) \<Longrightarrow> k \<noteq> l \<Longrightarrow> run_path (kp_runs p ! k) = Some path \<Longrightarrow>
      run_path (kp_runs p ! l) \<noteq> Some path"
  shows "kube_inv env confs content used p"
  using assms unfolding kube_inv_def all_set_conv_all_nth by blast

text \<open>A change of the files of one host only, beside which all else stays as it is.\<close>

lemma kube_inv_host:
  assumes "kube_inv env confs content used p" and "kube_confs_ok env confs content" and "i < length confs"
    and "\<And>path. path \<noteq> config_path env (confs ! i) \<Longrightarrow> fs path = kp_files p path"
    and "kube_host_ok env (confs ! i) (content i) fs c"
  shows "kube_inv env confs content used (p\<lparr>kp_hosts := (kp_hosts p)[i := c], kp_files := fs\<rparr>)"
proof -
  note inv = kube_invD [OF assms(1)]
  have "run_ok env confs fs (kp_runs p ! k)" if k: "k < length (kp_runs p)" for k
    using run_ok_files [OF inv(3) [OF k]] inv(4) [OF k] assms(4) by (metis script_not_config(1))
  moreover have "kube_host_ok env (confs ! j) (content j) fs ((kp_hosts p)[i := c] ! j)" if j: "j < length confs" for j
  proof (cases "j = i")
    case False
    then show ?thesis
      using kube_host_ok_files [OF inv(2) [OF j]] assms(4) kube_confs_path [OF assms(2) j assms(3) False] by simp
  qed (use assms(5) inv(1) j in simp)
  ultimately show ?thesis using inv by (intro kube_invI) simp_all
qed

text \<open>A step of one job.\<close>

lemma kube_inv_run:
  assumes "kube_inv env confs content used p" and "k < length (kp_runs p)"
    and "\<And>path. run_path r = Some path \<Longrightarrow> run_path (kp_runs p ! k) = Some path \<or> (\<exists>u \<in> used w - used (kp_world p). path = script_of u)"
    and "used (kp_world p) \<subseteq> used w"
    and "\<And>path. run_path (kp_runs p ! k) \<noteq> Some path \<Longrightarrow> fs path = kp_files p path"
    and "run_ok env confs fs r"
  shows "kube_inv env confs content used (p\<lparr>kp_runs := (kp_runs p)[k := r], kp_files := fs, kp_world := w\<rparr>)"
proof (rule kube_invI)
  note inv = kube_invD [OF assms(1)]
  let ?rs = "kp_runs p" and ?rs' = "(kp_runs p)[k := r]"
  let ?q = "p\<lparr>kp_runs := ?rs', kp_files := fs, kp_world := w\<rparr>"
  have mine: "run_path (?rs ! j) \<noteq> Some path" if "j < length ?rs" "j \<noteq> k" "run_path r = Some path" for j path
    using assms(3) [OF that(3)] inv(5) [OF assms(2) that(1) that(2) [symmetric]] inv(4) [OF that(1), of path] by auto
  show "length (kp_hosts ?q) = length confs" using inv(1) by simp
  show "kube_host_ok env (confs ! i) (content i) (kp_files ?q) (kp_hosts ?q ! i)" if "i < length confs" for i
    using kube_host_ok_files [OF inv(2) [OF that], of fs] assms(5) inv(4) [OF assms(2)] by (simp, metis script_not_config(2))
  show "run_ok env confs (kp_files ?q) (kp_runs ?q ! j)" if "j < length (kp_runs ?q)" for j
  proof (cases "j = k")
    case False
    then show ?thesis using run_ok_files [OF inv(3)] assms(5) inv(5) [OF assms(2)] that by (simp, blast)
  qed (use assms(2,6) in simp)
  show "\<exists>u \<in> used (kp_world ?q). path = script_of u" if "j < length (kp_runs ?q)" "run_path (kp_runs ?q ! j) = Some path" for j path
  proof (cases "j = k")
    case True
    then have "run_path r = Some path" using that assms(2) by simp
    then show ?thesis using assms(3,4) inv(4) [OF assms(2)] by (simp, blast)
  next
    case False
    then show ?thesis using inv(4) [of j path] that assms(4) by (simp, blast)
  qed
  show "run_path (kp_runs ?q ! j) \<noteq> Some path"
    if "i < length (kp_runs ?q)" "j < length (kp_runs ?q)" "i \<noteq> j" "run_path (kp_runs ?q ! i) = Some path" for i j path
  proof (cases "i = k")
    case True
    then show ?thesis using mine that by simp
  next
    case False
    then show ?thesis using mine inv(5) [of i j path] that by (cases "j = k") auto
  qed
qed

lemma kube_event_inv:
  assumes "kube_confs_ok env confs content" and "uuids_fresh env used"
    and "kube_inv env confs content used p" and "kube_event env confs e p = Inr q"
  shows "kube_inv env confs content used q"
proof (cases e)
  case (Init_Host i)
  show ?thesis
  proof (cases "i < length confs")
    case True
    obtain c' where c': "kubectl_Init env (confs ! i) (kp_files p) (kp_hosts p ! i) =
        Inr (c', (kp_files p)(config_path env (confs ! i) \<mapsto> content i), None)"
      "kc_kubeConfig c' = config_path env (confs ! i)" "kc_context c' = kube_ctxt env (confs ! i)"
      by (rule kube_Init_ok [OF assms(1) True])
    then have "q = p\<lparr>kp_hosts := (kp_hosts p)[i := c'], kp_files := (kp_files p)(config_path env (confs ! i) \<mapsto> content i)\<rparr>"
      using assms(4) True by (simp add: kube_event_def Init_Host)
    then show ?thesis using kube_inv_host [OF assms(3,1) True] c'(2,3) by (simp add: kube_host_ok_def)
  qed (use assms(3,4) in \<open>simp add: kube_event_def Init_Host\<close>)
next
  case (Disconnect_Host i)
  show ?thesis
  proof (cases "i < length confs")
    case True
    obtain c fs where d: "kubectl_Disconnect (kp_files p) (kp_hosts p ! i) = (c, fs)" by (cases "kubectl_Disconnect (kp_files p) (kp_hosts p ! i)")
    then have q: "q = p\<lparr>kp_hosts := (kp_hosts p)[i := c], kp_files := fs\<rparr>"
      using assms(4) True by (simp add: kube_event_def Disconnect_Host)
    have "kube_host_ok env (confs ! i) (content i) (kp_files p) (kp_hosts p ! i)" using assms(3) True by (simp add: kube_inv_def)
    then have "fs path = kp_files p path" if "path \<noteq> config_path env (confs ! i)" for path
      using d that by (auto simp: kubectl_Disconnect_def remove_file_def kube_host_ok_def split: if_splits)
    moreover have "kube_host_ok env (confs ! i) (content i) fs c"
      using d by (auto simp: kubectl_Disconnect_def kube_host_ok_def)
    ultimately show ?thesis unfolding q by (rule kube_inv_host [OF assms(3,1) True])
  qed (use assms(3,4) in \<open>simp add: kube_event_def Disconnect_Host\<close>)
next
  case (Exec_Host i job)
  show ?thesis
  proof (cases "i < length confs")
    case True
    then have q: "q = p\<lparr>kp_runs := kp_runs p @ [Kube_Begin i job]\<rparr>"
      using assms(4) by (simp add: kube_event_def Exec_Host)
    note inv = kube_invD [OF assms(3)]
    have new: "run_path ((kp_runs p @ [Kube_Begin i job]) ! k) = Some path \<Longrightarrow> k < length (kp_runs p)"
      if "k < Suc (length (kp_runs p))" for k path
      using that by (cases "k = length (kp_runs p)") auto
    show ?thesis
    proof (rule kube_invI)
      show "run_ok env confs (kp_files q) (kp_runs q ! k)" if "k < length (kp_runs q)" for k
        using inv(3) True that by (auto simp: q nth_append less_Suc_eq)
      show "\<exists>u \<in> used (kp_world q). path = script_of u" if "k < length (kp_runs q)" "run_path (kp_runs q ! k) = Some path" for k path
        using inv(4) [of k path] new [of k path] that by (simp add: q nth_append)
      show "run_path (kp_runs q ! l) \<noteq> Some path"
        if "k < length (kp_runs q)" "l < length (kp_runs q)" "k \<noteq> l" "run_path (kp_runs q ! k) = Some path" for k l path
        using inv(5) [of k l path] new [of k path] that by (cases "l < length (kp_runs p)") (auto simp: q nth_append)
    qed (use inv(1,2) in \<open>simp_all add: q\<close>)
  qed (use assms(3,4) in \<open>simp add: kube_event_def Exec_Host\<close>)
next
  case (Go k)
  show ?thesis
  proof (cases "k < length (kp_runs p)")
    case k: True
    let ?r = "kp_runs p ! k"
    obtain r fs w where g: "kube_go env (kp_hosts p) ?r (kp_files p, kp_world p) = Inr (r, fs, w)"
      "q = p\<lparr>kp_runs := (kp_runs p)[k := r], kp_files := fs, kp_world := w\<rparr>"
      using assms(4) k by (auto simp: kube_event_def Go bind_res_eq_Inr)
    have ok: "run_ok env confs (kp_files p) ?r" using assms(3) k by (simp add: kube_inv_def)
    have uuid: "ke_uuid env w = (w', u) \<Longrightarrow> u \<in> used w' - used w \<and> used w \<subseteq> used w'" for w w' u
      using assms(2) unfolding uuids_fresh_def by blast
    have bash: "ke_bash env fs w path = (w', r) \<Longrightarrow> used w \<subseteq> used w'" for fs w path w' r
      using assms(2) unfolding uuids_fresh_def by blast
    show ?thesis
      unfolding g(2)
    proof (rule kube_inv_run [OF assms(3) k])
      show "used (kp_world p) \<subseteq> used w"
        using g(1) uuid bash by (cases ?r) (auto simp: Let_def split: if_splits sum.splits prod.splits)
      show "run_path ?r = Some path \<or> (\<exists>u \<in> used w - used (kp_world p). path = script_of u)" if "run_path r = Some path" for path
        using g(1) uuid that by (cases ?r) (auto simp: Let_def script_of_def split: if_splits sum.splits prod.splits)
      show "fs path = kp_files p path" if "run_path ?r \<noteq> Some path" for path
        using g(1) that by (cases ?r)
          (auto simp: Let_def write_file_def remove_file_def split: if_splits sum.splits prod.splits option.splits)
      show "run_ok env confs fs r"
      proof (cases ?r)
        case (Kube_Begin h job)
        have h: "h < length confs" using ok Kube_Begin by simp
        then have "kube_host_ok env (confs ! h) (content h) (kp_files p) (kp_hosts p ! h)" using assms(3) by (simp add: kube_inv_def)
        then show ?thesis using g(1) h unfolding Kube_Begin
          by (auto simp: Let_def kube_host_ok_def kubectl_script_def own_script_def split: if_splits sum.splits prod.splits)
      next
        case (Kube_Named h job path script)
        have "\<forall>path. ke_refuses env path = None" using assms(1) by (simp add: kube_confs_ok_def)
        then show ?thesis using g(1) ok Kube_Named by (auto simp: write_file_def)
      qed (use g(1) ok in \<open>auto simp: Let_def split: prod.splits\<close>)
    qed
  qed (use assms(3,4) in \<open>simp add: kube_event_def Go\<close>)
qed

section \<open>Isolation\<close>

lemma kube_start_inv: "kube_inv env confs content used (kube_process0 confs fs w)"
  by (simp add: kube_inv_def kube_process0_def kube_host_ok_def new_kubectl_def)

lemma kube_reach_inv:
  assumes "kube_confs_ok env confs content" and "uuids_fresh env used"
    and "reach (\<lambda>p. \<exists>fs w. p = kube_process0 confs fs w) (kube_step env confs) p"
  shows "kube_inv env confs content used p"
proof -
  have "invariant_system (\<lambda>p. \<exists>fs w. p = kube_process0 confs fs w) (kube_step env confs) (kube_inv env confs content used)"
    by (rule invariant_system.intro) (auto intro: kube_start_inv elim: kube_event_inv [OF assms(1,2)])
  from invariant_system.reach_inv [OF this assms(3)] show ?thesis .
qed


text \<open>Two hosts, whose credentials are the names of their contexts.\<close>

definition two_kube :: "nat kube_env" where
  "two_kube = \<lparr>ke_credential = \<lambda>cred. Some (cred, cred), ke_decode = Inr, ke_refuses = \<lambda>_. None,
     ke_uuid = \<lambda>w. (Suc w, replicate w (CHR ''f'')), ke_bash = \<lambda>fs w path. (w, case fs path of Some s \<Rightarrow> s | None \<Rightarrow> '''', None),
     ke_poll = ke_poll demo_kube, ke_encode = map of_char\<rparr>"

definition two_kube_hosts :: "host_protocol list" where
  "two_kube_hosts = [demo_kube_host ''a'', demo_kube_host ''b'']"

definition overlapping :: "kube_event list" where
  "overlapping = [Init_Host 0, Init_Host 1, Exec_Host 0 empty_job, Exec_Host 1 empty_job, Go 0, Go 1, Go 1, Go 0, Disconnect_Host 1]"

fun about_to_run :: "kube_run \<Rightarrow> (nat \<times> string \<times> string) option" where
  "about_to_run (Kube_Written h job path script) = Some (h, path, script)"
| "about_to_run r = None"

lemma about_to_run_Some: "about_to_run r = Some (h, path, script) \<longleftrightarrow> (\<exists>job. r = Kube_Written h job path script)"
  by (cases r) auto

lemma overlapping_run:
  "map_sum id (\<lambda>p. map about_to_run (kp_runs p))
      (kube_run_events two_kube two_kube_hosts overlapping (kube_process0 two_kube_hosts Map.empty 0)) =
     Inr [Some (0, ''./.sh'', ''kubectl --kubeconfig=.kubeadm-a --context=a get pods'' @ [CHR 0x0A]),
          Some (1, ''./f.sh'', ''kubectl --kubeconfig=.kubeadm-b --context=b get pods'' @ [CHR 0x0A])]"
  by code_simp


end
