(* ===== verification/K8s_Forwarding.thy ===== *)
theory K8s_Forwarding
  imports K8s_Process Collector_Service_Theorems
begin

text \<open>
  From a deletion in the cluster to the parser: the callback that \<open>CollectorService.Activate\<close> registers
  with the shared runtime (\<open>handleK8sDelete\<close>) meets the cascade of \<open>Cascade.go\<close>. The log of the runtime is
  the sequence of calls of the callback, and the service forwards each of them.
\<close>

definition forward_deletions ::
  "((string \<times> string) list \<Rightarrow> bytes option) \<Rightarrow> string \<Rightarrow> deletion list \<Rightarrow> 'c service \<Rightarrow> 'c service" where
  "forward_deletions encode cluster log s = fold (\<lambda>(g, ns, n). handleK8sDelete encode cluster g ns n) log s"

text \<open>Objects of a resource with a links id are reported; the message names the object to its parser.\<close>

definition linked :: "deletion \<Rightarrow> bool" where
  "linked d \<longleftrightarrow> GVRToLinksId (fst d) \<noteq> ''''"

definition delete_message ::
  "((string \<times> string) list \<Rightarrow> bytes option) \<Rightarrow> string \<Rightarrow> registry \<Rightarrow> deletion \<Rightarrow> (string \<times> int) \<times> cjob" where
  "delete_message encode cluster reg d =
     (let l = GVRToLinksId (fst d) in
      (Parser reg l, empty_job\<lparr>LinksId := l, HostId := cluster,
         Result := encode [(''namespace'', fst (snd d)), (''name'', snd (snd d))]\<rparr>))"

lemma handleK8sDelete_registry [simp]: "svc_registry (handleK8sDelete encode cluster g ns n s) = svc_registry s"
  by (simp add: handleK8sDelete_def Let_def split: option.split)

lemma handleK8sDelete_message:
  assumes "encode [(''namespace'', ns), (''name'', n)] \<noteq> None"
  shows "deletions (handleK8sDelete encode cluster g ns n s) =
    deletions s @ (if linked (g, ns, n) then [delete_message encode cluster (svc_registry s) (g, ns, n)] else [])"
  using assms by (auto simp: handleK8sDelete_def linked_def delete_message_def Let_def)

lemma forward_deletions_messages:
  assumes "\<And>m. encode m \<noteq> None"
  shows "deletions (forward_deletions encode cluster log s) =
    deletions s @ map (delete_message encode cluster (svc_registry s)) (filter linked log)"
  unfolding forward_deletions_def
proof (induction log arbitrary: s)
  case (Cons d log)
  obtain g ns n where d: "d = (g, ns, n)" by (cases d)
  show ?case
    using Cons.IH [where s = "handleK8sDelete encode cluster g ns n s"] handleK8sDelete_message [OF assms, where cluster = cluster and g = g and ns = ns and n = n and s = s]
    by (simp add: d)
qed simp


section \<open>A deployment is deleted\<close>

definition demo_deployed :: "unit shared_runtime" where
  "demo_deployed = demo_state\<lparr>rt_cache := Some demo_cache, rt_onDelete := True,
     rt_warmed := Some [''apps/v1/deployments::shop::*'']\<rparr>"

definition demo_removal :: admission_event where
  "demo_removal = \<lparr>ev_UID = ''2'', ev_Group = ''apps'', ev_Version = ''v1'', ev_Resource = ''deployments'',
     ev_SubResource = '''', ev_Namespace = ''shop'', ev_Name = ''web'', ev_Operation = ''DELETE'', ev_Object = None,
     ev_OldObject = None\<rparr>"

lemma demo_deployed_ok: "state_ok demo_deployed"
proof -
  have "runtime_ok demo_deployed"
    unfolding demo_deployed_def by (rule runtime_ok_same [of demo_state]) (use demo_state_ok in \<open>simp_all add: state_ok_def\<close>)
  then show ?thesis by (simp add: state_ok_def demo_deployed_def demo_cache_ok)
qed

lemma demo_removal_gvr: "event_gvr demo_removal = deployments_gvr"
  by (simp add: event_gvr_def demo_removal_def gvr_text_def deployments_gvr_def)


end
