(* ===== verification/K8s_Webhook.thy ===== *)
theory K8s_Webhook
  imports K8s_Client_Theorems
begin

text \<open>
  \<open>protocols/k8sclient/Webhook.go\<close>, the rules of \<open>WebhookConfig.go\<close> and the warm-up of \<open>WarmUp.go\<close>: the
  webhook rules of all Kubernetes polls, the matching of admission requests, the events made of them and
  the answer to a review. Decoding and encoding of JSON are arguments. The polls of a model are visited
  in the order of its list, which stands for one order of ranging over the map.
\<close>

record webhook_rule =
  APIGroups :: "string list"
  APIVersions :: "string list"
  Resources :: "string list"
  Operations :: "string list"

record admission_request =
  rq_UID :: string
  rq_Group :: string
  rq_Version :: string
  rq_Resource :: string
  rq_SubResource :: string
  rq_Namespace :: string
  rq_Name :: string
  rq_Operation :: string
  rq_Object :: bytes
  rq_OldObject :: bytes

section \<open>Rules\<close>

definition containsString :: "string list \<Rightarrow> string \<Rightarrow> bool" where
  "containsString items v = list_ex (\<lambda>item. item = v) items"

definition addUniqueString :: "string list \<Rightarrow> string \<Rightarrow> string list" where
  "addUniqueString items v = (if containsString items v then items else items @ [v])"

definition gvr_key :: "gvr \<Rightarrow> string" where
  "gvr_key g = Group g @ ''|'' @ Version g @ ''|'' @ Resource g"

definition add_rule ::
  "gvr \<Rightarrow> string list \<Rightarrow> (string \<times> webhook_rule) list \<Rightarrow> (string \<times> webhook_rule) list" where
  "add_rule g ops agg =
     (let rule = (case map_of agg (gvr_key g) of
            Some r \<Rightarrow> r
          | None \<Rightarrow> \<lparr>APIGroups = [Group g], APIVersions = [Version g], Resources = [Resource g], Operations = []\<rparr>)
      in AList.update (gvr_key g) (rule\<lparr>Operations := foldl addUniqueString (Operations rule) ops\<rparr>) agg)"

fun rules_of_polls ::
  "(string \<Rightarrow> string + cache_spec) \<Rightarrow> string \<Rightarrow> (string \<times> poll) list \<Rightarrow> (string \<times> webhook_rule) list \<Rightarrow>
   string + (string \<times> webhook_rule) list" where
  "rules_of_polls unmarshal model [] agg = Inr agg"
| "rules_of_polls unmarshal model ((k, pl) # es) agg =
     (if poll_Protocol pl \<noteq> L8PKubernetesAPI then rules_of_polls unmarshal model es agg
      else case ParseCacheSpec unmarshal (poll_What pl) (Some pl) of
        Inl err \<Rightarrow> Inl (model @ ''/'' @ poll_Name pl @ '': '' @ err)
      | Inr spec \<Rightarrow>
          (case ParseGVR (spec_GVR spec) of
             Inl err \<Rightarrow> Inl (model @ ''/'' @ poll_Name pl @ '': '' @ err)
           | Inr g \<Rightarrow> rules_of_polls unmarshal model es (add_rule g (spec_Operations spec) agg)))"

fun rules_of_models ::
  "(string \<Rightarrow> string + cache_spec) \<Rightarrow> pollaris option list \<Rightarrow> (string \<times> webhook_rule) list \<Rightarrow>
   string + (string \<times> webhook_rule) list" where
  "rules_of_models unmarshal [] agg = Inr agg"
| "rules_of_models unmarshal (None # ms) agg = rules_of_models unmarshal ms agg"
| "rules_of_models unmarshal (Some m # ms) agg =
     (case rules_of_polls unmarshal (plrs_Name m) (plrs_Polling m) agg of
        Inl err \<Rightarrow> Inl err
      | Inr agg \<Rightarrow> rules_of_models unmarshal ms agg)"

definition sort_operations :: "webhook_rule \<Rightarrow> webhook_rule" where
  "sort_operations rule = rule\<lparr>Operations := sort (Operations rule)\<rparr>"

definition WebhookRulesFromPollarisModels ::
  "(string \<Rightarrow> string + cache_spec) \<Rightarrow> pollaris option list \<Rightarrow> string + webhook_rule list" where
  "WebhookRulesFromPollarisModels unmarshal models =
     (case rules_of_models unmarshal models [] of
        Inl err \<Rightarrow> Inl err
      | Inr agg \<Rightarrow> Inr (map (\<lambda>k. sort_operations (the (map_of agg k))) (sort (map fst agg))))"

text \<open>The rules of the webhook configuration: per rule its sorted operations and its three lists.\<close>

definition rulesToOperations ::
  "webhook_rule list \<Rightarrow> (string list \<times> string list \<times> string list \<times> string list) list" where
  "rulesToOperations rules =
     map (\<lambda>r. (sort (Operations r), APIGroups r, APIVersions r, Resources r)) rules"

section \<open>Requests\<close>

definition rule_matches :: "admission_request \<Rightarrow> webhook_rule \<Rightarrow> bool" where
  "rule_matches request rule \<longleftrightarrow>
     containsString (APIGroups rule) (rq_Group request) \<and>
     containsString (APIVersions rule) (rq_Version request) \<and>
     containsString (Resources rule) (rq_Resource request) \<and>
     containsString (Operations rule) (rq_Operation request)"

definition matchesWebhookRule :: "webhook_rule list \<Rightarrow> admission_request option \<Rightarrow> bool" where
  "matchesWebhookRule rules request =
     (case request of None \<Rightarrow> False | Some request \<Rightarrow> list_ex (rule_matches request) rules)"

definition decodeAdmissionObject :: "(bytes \<Rightarrow> k8s_item option) \<Rightarrow> bytes \<Rightarrow> k8s_item option" where
  "decodeAdmissionObject unmarshal raw = (if raw = [] then None else unmarshal raw)"

definition buildAdmissionEvent :: "(bytes \<Rightarrow> k8s_item option) \<Rightarrow> admission_request \<Rightarrow> admission_event" where
  "buildAdmissionEvent unmarshal request =
     (let obj = decodeAdmissionObject unmarshal (rq_Object request);
          default = (\<lambda>own field. if own = '''' then (case obj of None \<Rightarrow> own | Some item \<Rightarrow> field item) else own)
      in \<lparr>ev_UID = rq_UID request, ev_Group = rq_Group request, ev_Version = rq_Version request,
          ev_Resource = rq_Resource request, ev_SubResource = rq_SubResource request,
          ev_Namespace = default (rq_Namespace request) item_Namespace,
          ev_Name = default (rq_Name request) item_Name, ev_Operation = rq_Operation request,
          ev_Object = obj, ev_OldObject = decodeAdmissionObject unmarshal (rq_OldObject request)\<rparr>)"

text \<open>What the handler writes: an HTTP error, or a review with its response.\<close>

record review_response =
  rs_Allowed :: bool
  rs_UID :: string
  rs_Warnings :: "string list"
  rs_Result :: "(string \<times> string) option"

datatype http_answer = HttpError nat string | Review review_response

text \<open>
  The handler: the body (or the error of reading it), the decoded review with its request, the callback
  with its state, and the encoding of the answer (its error, when it fails).
\<close>

definition AdmissionHandler ::
  "(bytes \<Rightarrow> string + admission_request option) \<Rightarrow> (bytes \<Rightarrow> k8s_item option) \<Rightarrow>
   (review_response \<Rightarrow> string option) \<Rightarrow> webhook_rule list \<Rightarrow>
   (admission_event \<Rightarrow> 's \<Rightarrow> (string option \<times> 's) res) option \<Rightarrow> string + bytes \<Rightarrow> 's \<Rightarrow>
   (http_answer \<times> 's) res" where
  "AdmissionHandler decode_review decode_object encode_fails rules callback body s =
     (case body of
        Inl err \<Rightarrow> Inr (HttpError 400 err, s)
      | Inr data \<Rightarrow>
          (case decode_review data of
             Inl err \<Rightarrow> Inr (HttpError 400 err, s)
           | Inr request \<Rightarrow>
               bind_res (case (request, callback) of
                   (Some rq, Some cb) \<Rightarrow>
                     (if matchesWebhookRule rules request
                      then bind_res (cb (buildAdmissionEvent decode_object rq) s) (\<lambda>(err, s).
                        Inr (case err of None \<Rightarrow> [] | Some e \<Rightarrow> [e], s))
                      else Inr ([], s))
                 | _ \<Rightarrow> Inr ([], s)) (\<lambda>(warnings, s).
                 let response = \<lparr>rs_Allowed = True,
                       rs_UID = (case request of None \<Rightarrow> '''' | Some rq \<Rightarrow> rq_UID rq), rs_Warnings = warnings,
                       rs_Result = (case warnings of [] \<Rightarrow> None | e # _ \<Rightarrow> Some (''Success'', e))\<rparr>
                 in Inr (case encode_fails response of None \<Rightarrow> Review response | Some err \<Rightarrow> HttpError 500 err, s))))"

section \<open>Warm-up\<close>

fun watch_all ::
  "'k client_env \<Rightarrow> cache_spec list \<Rightarrow> 'k shared_runtime \<Rightarrow> (string option \<times> 'k shared_runtime) res" where
  "watch_all env [] s = Inr (None, s)"
| "watch_all env (spec # specs) s =
     bind_res (ensureWatching env (spec_GVR spec) (spec_Namespace spec) s) (\<lambda>(err, s).
       case err of Some e \<Rightarrow> Inr (Some e, s) | None \<Rightarrow> watch_all env specs s)"

definition WarmUpFromBootModels ::
  "'k client_env \<Rightarrow> pollaris option list \<Rightarrow> 'k client \<Rightarrow> (string option \<times> 'k client) res" where
  "WarmUpFromBootModels env models cs =
     (case (if rt_connected (snd cs) then (None, cs) else Connect env cs) of
        (Some err, cs) \<Rightarrow> Inr (Some err, cs)
      | (None, cs) \<Rightarrow>
          (case CacheSpecsFromPollarisModels (ce_unmarshal env) models of
             Inl err \<Rightarrow> Inr (Some err, cs)
           | Inr specs \<Rightarrow> bind_res (watch_all env specs (snd cs)) (\<lambda>(err, s). Inr (err, (fst cs, s)))))"

section \<open>Laws\<close>

lemma containsString_iff [simp]: "containsString items v \<longleftrightarrow> v \<in> set items"
  by (auto simp: containsString_def list_ex_iff)

lemma set_addUniqueString [simp]: "set (addUniqueString items v) = insert v (set items)"
  by (auto simp: addUniqueString_def)

lemma set_add_operations: "set (foldl addUniqueString items ops) = set items \<union> set ops"
  by (induction ops arbitrary: items) auto

definition no_bar :: "gvr \<Rightarrow> bool" where
  "no_bar g \<longleftrightarrow> CHR ''|'' \<notin> set (Group g) \<and> CHR ''|'' \<notin> set (Version g)"

lemma gvr_key_inj: "no_bar g \<Longrightarrow> no_bar g' \<Longrightarrow> gvr_key g = gvr_key g' \<longleftrightarrow> g = g'"
  by (cases g; cases g') (simp add: gvr_key_def no_bar_def first_at_iff)

text \<open>The aggregated map: under the key of a resource, the rule of just that resource.\<close>

definition rules_ok :: "(string \<times> webhook_rule) list \<Rightarrow> bool" where
  "rules_ok agg \<longleftrightarrow> go_map agg \<and> (\<forall>k r. map_of agg k = Some r \<longrightarrow>
     (\<exists>g. no_bar g \<and> k = gvr_key g \<and> APIGroups r = [Group g] \<and> APIVersions r = [Version g] \<and> Resources r = [Resource g]))"

definition allows :: "(string \<times> webhook_rule) list \<Rightarrow> gvr \<Rightarrow> string \<Rightarrow> bool" where
  "allows agg g op \<longleftrightarrow> (\<exists>r. map_of agg (gvr_key g) = Some r \<and> op \<in> set (Operations r))"

lemma add_rule_ok:
  assumes "rules_ok agg" and "no_bar g"
  shows "rules_ok (add_rule g ops agg)"
    and "no_bar g' \<Longrightarrow> allows (add_rule g ops agg) g' op \<longleftrightarrow> allows agg g' op \<or> (g' = g \<and> op \<in> set ops)"
proof -
  let ?r = "case map_of agg (gvr_key g) of Some r \<Rightarrow> r
    | None \<Rightarrow> \<lparr>APIGroups = [Group g], APIVersions = [Version g], Resources = [Resource g], Operations = []\<rparr>"
  have r: "APIGroups ?r = [Group g] \<and> APIVersions ?r = [Version g] \<and> Resources ?r = [Resource g]"
  proof (cases "map_of agg (gvr_key g)")
    case (Some r)
    then obtain g1 where "no_bar g1" "gvr_key g = gvr_key g1" "APIGroups r = [Group g1]"
      "APIVersions r = [Version g1]" "Resources r = [Resource g1]"
      using assms(1) by (auto simp: rules_ok_def)
    then show ?thesis using Some gvr_key_inj [OF assms(2)] by simp
  qed simp
  have upd: "map_of (add_rule g ops agg) =
      (map_of agg)(gvr_key g \<mapsto> ?r\<lparr>Operations := foldl addUniqueString (Operations ?r) ops\<rparr>)"
    by (simp add: add_rule_def Let_def)
  show "rules_ok (add_rule g ops agg)"
    using assms r unfolding rules_ok_def upd
    by (auto simp: add_rule_def Let_def split: if_splits)
  show "no_bar g' \<Longrightarrow> allows (add_rule g ops agg) g' op \<longleftrightarrow> allows agg g' op \<or> (g' = g \<and> op \<in> set ops)"
    using gvr_key_inj [OF _ assms(2), of g']
    by (auto simp: allows_def upd set_add_operations split: option.split)
qed

text \<open>The polls that ask for an operation on a resource.\<close>

definition poll_asks :: "(string \<Rightarrow> string + cache_spec) \<Rightarrow> gvr \<Rightarrow> string \<Rightarrow> poll \<Rightarrow> bool" where
  "poll_asks unmarshal g op pl \<longleftrightarrow> poll_Protocol pl = L8PKubernetesAPI \<and>
     (\<exists>spec. ParseCacheSpec unmarshal (poll_What pl) (Some pl) = Inr spec \<and>
       ParseGVR (spec_GVR spec) = Inr g \<and> op \<in> set (spec_Operations spec))"

text \<open>Every resource that a poll names has parts without a bar.\<close>

definition bars_ok :: "(string \<Rightarrow> string + cache_spec) \<Rightarrow> poll \<Rightarrow> bool" where
  "bars_ok unmarshal pl \<longleftrightarrow> (case ParseCacheSpec unmarshal (poll_What pl) (Some pl) of
     Inl _ \<Rightarrow> True
   | Inr spec \<Rightarrow> (case ParseGVR (spec_GVR spec) of Inl _ \<Rightarrow> True | Inr g \<Rightarrow> no_bar g))"

lemma rules_of_polls_meets:
  assumes "rules_of_polls unmarshal model es agg = Inr agg'" and "rules_ok agg"
    and "\<forall>pl \<in> snd ` set es. bars_ok unmarshal pl"
  shows "rules_ok agg' \<and> (\<forall>g op. no_bar g \<longrightarrow> allows agg' g op \<longleftrightarrow>
    allows agg g op \<or> (\<exists>pl \<in> snd ` set es. poll_asks unmarshal g op pl))"
  using assms
proof (induction es arbitrary: agg)
  case (Cons e es)
  obtain k pl where e: "e = (k, pl)" by (cases e)
  show ?case
  proof (cases "poll_Protocol pl = L8PKubernetesAPI")
    case False
    then show ?thesis using Cons by (simp add: e poll_asks_def)
  next
    case True
    obtain spec g where sp: "ParseCacheSpec unmarshal (poll_What pl) (Some pl) = Inr spec"
      "ParseGVR (spec_GVR spec) = Inr g"
      "rules_of_polls unmarshal model es (add_rule g (spec_Operations spec) agg) = Inr agg'"
      using Cons.prems(1) True by (auto simp: e split: sum.splits)
    have g: "no_bar g" using Cons.prems(3) sp(1,2) by (simp add: e bars_ok_def)
    note ar = add_rule_ok [OF Cons.prems(2) g]
    have "poll_asks unmarshal g' op pl \<longleftrightarrow> g' = g \<and> op \<in> set (spec_Operations spec)" for g' op
      using True sp(1,2) by (auto simp: poll_asks_def)
    then show ?thesis using Cons.IH [OF sp(3) ar(1)] Cons.prems(3) ar(2) by (auto simp: e)
  qed
qed simp

definition model_polls :: "pollaris option list \<Rightarrow> poll set" where
  "model_polls models = {pl. \<exists>m. Some m \<in> set models \<and> pl \<in> snd ` set (plrs_Polling m)}"

lemma rules_of_models_meets:
  assumes "rules_of_models unmarshal models agg = Inr agg'" and "rules_ok agg"
    and "\<forall>pl \<in> model_polls models. bars_ok unmarshal pl"
  shows "rules_ok agg' \<and> (\<forall>g op. no_bar g \<longrightarrow> allows agg' g op \<longleftrightarrow>
    allows agg g op \<or> (\<exists>pl \<in> model_polls models. poll_asks unmarshal g op pl))"
  using assms
proof (induction unmarshal models agg rule: rules_of_models.induct)
  case (1 unmarshal agg)
  then show ?case by (simp add: model_polls_def)
next
  case (2 unmarshal ms agg)
  then show ?case by (simp add: model_polls_def)
next
  case (3 unmarshal m ms agg)
  obtain agg1 where a: "rules_of_polls unmarshal (plrs_Name m) (plrs_Polling m) agg = Inr agg1"
    "rules_of_models unmarshal ms agg1 = Inr agg'"
    using "3.prems"(1) by (auto split: sum.splits)
  have polls: "model_polls (Some m # ms) = snd ` set (plrs_Polling m) \<union> model_polls ms"
    by (auto simp: model_polls_def)
  have p: "rules_ok agg1" "no_bar g \<Longrightarrow> allows agg1 g op \<longleftrightarrow>
      allows agg g op \<or> (\<exists>pl \<in> snd ` set (plrs_Polling m). poll_asks unmarshal g op pl)" for g op
    using rules_of_polls_meets [OF a(1) "3.prems"(2)] "3.prems"(3) by (auto simp: polls)
  then show ?case
    using "3.IH" [OF a(1) a(2) p(1)] "3.prems"(3) by (auto simp: polls)
qed

definition request_gvr :: "admission_request \<Rightarrow> gvr" where
  "request_gvr rq = \<lparr>Group = rq_Group rq, Version = rq_Version rq, Resource = rq_Resource rq\<rparr>"

text \<open>
  C28. The webhook rules let through exactly what the polls ask for: a request for an operation on a
  resource matches the rules of the models if and only if some Kubernetes poll of some model has a
  specification of that resource with that operation (for resources without a bar, which separates the
  parts of the keys the rules are collected under).
\<close>

theorem webhook_rules_exact:
  assumes "WebhookRulesFromPollarisModels unmarshal models = Inr rules"
    and "\<forall>pl \<in> model_polls models. bars_ok unmarshal pl" and "no_bar (request_gvr rq)"
  shows "matchesWebhookRule rules (Some rq) \<longleftrightarrow>
    (\<exists>pl \<in> model_polls models. poll_asks unmarshal (request_gvr rq) (rq_Operation rq) pl)"
proof -
  obtain agg where agg: "rules_of_models unmarshal models [] = Inr agg"
    "rules = map (\<lambda>k. sort_operations (the (map_of agg k))) (sort (map fst agg))"
    using assms(1) by (auto simp: WebhookRulesFromPollarisModels_def split: sum.splits)
  have "rules_ok []" by (simp add: rules_ok_def)
  from rules_of_models_meets [OF agg(1) this assms(2)]
  have ok: "rules_ok agg" and al: "allows agg (request_gvr rq) (rq_Operation rq) \<longleftrightarrow>
      (\<exists>pl \<in> model_polls models. poll_asks unmarshal (request_gvr rq) (rq_Operation rq) pl)"
    using assms(3) by (auto simp: allows_def)
  have match: "rule_matches rq (sort_operations r) \<longleftrightarrow> k = gvr_key (request_gvr rq) \<and> rq_Operation rq \<in> set (Operations r)"
    if r: "map_of agg k = Some r" for k r
  proof -
    obtain g where g: "no_bar g" "k = gvr_key g" "APIGroups r = [Group g]" "APIVersions r = [Version g]"
      "Resources r = [Resource g]"
      using ok r by (auto simp: rules_ok_def)
    have "g = request_gvr rq \<longleftrightarrow> rq_Group rq = Group g \<and> rq_Version rq = Version g \<and> rq_Resource rq = Resource g"
      by (cases g) (auto simp: request_gvr_def)
    then show ?thesis
      using g gvr_key_inj [OF g(1) assms(3)] by (auto simp: rule_matches_def sort_operations_def)
  qed
  have "matchesWebhookRule rules (Some rq) \<longleftrightarrow>
      (\<exists>k \<in> fst ` set agg. rule_matches rq (sort_operations (the (map_of agg k))))"
    by (simp add: matchesWebhookRule_def agg(2) list_ex_iff)
  also have "\<dots> \<longleftrightarrow> (\<exists>k r. map_of agg k = Some r \<and> rule_matches rq (sort_operations r))"
    by (auto simp: dom_map_of_conv_image_fst [symmetric] dom_def) blast
  also have "\<dots> \<longleftrightarrow> allows agg (request_gvr rq) (rq_Operation rq)"
    using match by (auto simp: allows_def)
  finally show ?thesis using al by simp
qed

text \<open>A model with one poll, for pods: a create request for a pod matches, one for a node does not.\<close>

definition demo_models :: "pollaris option list" where
  "demo_models = [None, Some \<lparr>plrs_Name = ''k8s'', plrs_Order = None, plrs_Polling = [(''pods'',
     \<lparr>poll_Name = ''pods'', poll_What = ''{pods}'', poll_Operation = L8C_Table, poll_Protocol = L8PKubernetesAPI,
      poll_Cadence = None, poll_Timeout = 0, poll_Always = False, poll_RespName = ''''\<rparr>)]\<rparr>]"

definition demo_request :: "string \<Rightarrow> admission_request" where
  "demo_request r = \<lparr>rq_UID = ''1'', rq_Group = '''', rq_Version = ''v1'', rq_Resource = r, rq_SubResource = '''',
     rq_Namespace = ''shop'', rq_Name = ''web-0'', rq_Operation = ''CREATE'', rq_Object = [], rq_OldObject = []\<rparr>"

lemma pods_spec:
  "ParseCacheSpec demo_unmarshal ''{pods}'' pl = Inr (applyDefaults None (blank_spec\<lparr>spec_GVR := ''v1/pods''\<rparr>))"
  "spec_GVR (applyDefaults None (blank_spec\<lparr>spec_GVR := ''v1/pods''\<rparr>)) = ''v1/pods''"
  "spec_Operations (applyDefaults None (blank_spec\<lparr>spec_GVR := ''v1/pods''\<rparr>)) = [''CREATE'', ''UPDATE'', ''DELETE'']"
proof -
  let ?s = "applyDefaults None (blank_spec\<lparr>spec_GVR := ''v1/pods''\<rparr>)"
  have f: "spec_Mode ?s = ''list''" "spec_GVR ?s = ''v1/pods''"
    "spec_Operations ?s = [''CREATE'', ''UPDATE'', ''DELETE'']"
    by (simp_all add: applyDefaults_def Let_def default_mode_def default_result_def default_columns_eq
        default_operations_def blank_spec_def spec_consts ToLower_def ToUpper_def upper_char_def)
  have "ParseCacheSpec demo_unmarshal ''{pods}'' pl =
      (let s = applyDefaults pl (blank_spec\<lparr>spec_GVR := ''v1/pods''\<rparr>) in
        if spec_GVR s = '''' then Inl ''cache spec gvr is empty''
        else if spec_Mode s = ModeGet \<and> spec_Name s = '''' \<and> spec_NameFromArg s = ''''
        then Inl ''cache spec get requires name or nameFromArg'' else Inr s)"
    by (simp add: ParseCacheSpec_def trim_pods demo_unmarshal_def Let_def)
  then show "ParseCacheSpec demo_unmarshal ''{pods}'' pl = Inr ?s"
    using f by (simp add: applyDefaults_poll [of pl] ModeGet_def)
  show "spec_GVR ?s = ''v1/pods''" "spec_Operations ?s = [''CREATE'', ''UPDATE'', ''DELETE'']" by (rule f)+
qed

lemma demo_model_polls: "\<exists>pl. model_polls demo_models = {pl} \<and> poll_Protocol pl = L8PKubernetesAPI \<and> poll_What pl = ''{pods}''"
  by (auto simp: model_polls_def demo_models_def)

theorem webhook_rules_exact_witness:
  "\<exists>rules. WebhookRulesFromPollarisModels demo_unmarshal demo_models = Inr rules \<and>
     matchesWebhookRule rules (Some (demo_request ''pods'')) \<and> \<not> matchesWebhookRule rules (Some (demo_request ''nodes''))"
proof -
  obtain rules where rules: "WebhookRulesFromPollarisModels demo_unmarshal demo_models = Inr rules"
    by (simp add: WebhookRulesFromPollarisModels_def demo_models_def pods_spec demo_pods_gvr)
  obtain pl where pl: "model_polls demo_models = {pl}" "poll_Protocol pl = L8PKubernetesAPI" "poll_What pl = ''{pods}''"
    using demo_model_polls by blast
  have bars: "\<forall>pl \<in> model_polls demo_models. bars_ok demo_unmarshal pl"
    by (simp add: pl bars_ok_def pods_spec demo_pods_gvr no_bar_def)
  have nb: "no_bar (request_gvr (demo_request r))" for r by (simp add: no_bar_def request_gvr_def demo_request_def)
  have asks: "poll_asks demo_unmarshal (request_gvr (demo_request r)) (rq_Operation (demo_request r)) pl \<longleftrightarrow> r = ''pods''" for r
    by (auto simp: poll_asks_def pl pods_spec demo_pods_gvr request_gvr_def demo_request_def)
  have "matchesWebhookRule rules (Some (demo_request r)) \<longleftrightarrow> r = ''pods''" for r
    using webhook_rules_exact [OF rules bars nb, of r] by (simp add: pl(1) asks)
  then show ?thesis using rules by simp
qed

text \<open>
  A review is never refused: whatever the request, the rules and the outcome of the callback, a body
  that decodes is answered with a review that allows the request, under its own UID; an error of the
  callback is a warning. Only unreadable bodies and unencodable answers are HTTP errors.
\<close>

theorem review_always_allowed:
  "case AdmissionHandler decode_review decode_object encode_fails rules callback body s of
     Inl p \<Rightarrow> (\<exists>ev cb. callback = Some cb \<and> cb ev s = Inl p)
   | Inr (Review r, _) \<Rightarrow> rs_Allowed r \<and> length (rs_Warnings r) \<le> 1 \<and>
       (\<exists>data rq. body = Inr data \<and> decode_review data = Inr rq \<and>
         rs_UID r = (case rq of None \<Rightarrow> '''' | Some rq \<Rightarrow> rq_UID rq))
   | Inr (HttpError code err, _) \<Rightarrow> (code = 400 \<and> (body = Inl err \<or> (\<exists>data. body = Inr data \<and> decode_review data = Inl err))) \<or>
       (code = 500 \<and> (\<exists>r. encode_fails r = Some err))"
proof (cases body)
  case (Inr data)
  show ?thesis
  proof (cases "decode_review data")
    case (Inr rq)
    let ?c = "case (rq, callback) of
        (Some rq', Some cb) \<Rightarrow>
          (if matchesWebhookRule rules rq
           then bind_res (cb (buildAdmissionEvent decode_object rq') s) (\<lambda>(err, s).
             Inr (case err of None \<Rightarrow> [] | Some e \<Rightarrow> [e], s))
           else Inr ([], s))
      | _ \<Rightarrow> Inr ([], s)"
    show ?thesis
    proof (cases ?c)
      case (Inl p)
      then have "\<exists>ev cb. callback = Some cb \<and> cb ev s = Inl p"
        by (auto simp: bind_res_eq_Inl split: option.splits if_splits)
      then show ?thesis using Inl \<open>decode_review data = Inr rq\<close> \<open>body = Inr data\<close>
        by (simp add: AdmissionHandler_def)
    next
      case (Inr ws)
      obtain w s' where ws: "ws = (w, s')" by (cases ws)
      have "length w \<le> 1"
        using Inr by (auto simp: ws bind_res_eq_Inr split: option.splits if_splits prod.splits)
      then show ?thesis using Inr \<open>decode_review data = Inr rq\<close> \<open>body = Inr data\<close>
        by (cases "encode_fails \<lparr>rs_Allowed = True, rs_UID = (case rq of None \<Rightarrow> '''' | Some rq \<Rightarrow> rq_UID rq), rs_Warnings = w,
            rs_Result = (case w of [] \<Rightarrow> None | e # _ \<Rightarrow> Some (''Success'', e))\<rparr>")
          (auto simp: AdmissionHandler_def ws Let_def)
    qed
  qed (simp add: AdmissionHandler_def Inr)
qed (simp add: AdmissionHandler_def)

end
