(* ===== verification/K8s_Admission.thy ===== *)
theory K8s_Admission
  imports K8s_Webhook
begin

text \<open>
  \<open>protocols/k8sclient/AdmissionServer.go\<close>, \<open>WebhookConfig.go\<close> and \<open>cmd/k8s-webhook-config/main.go\<close>: the
  start of the admission server and the webhook configuration that is generated for it. The process
  environment, the files, the REST server library and the encoding to YAML are arguments.
\<close>

definition DefaultAdmissionPath :: string where
  "DefaultAdmissionPath = ''/admission/kubernetes''"

section \<open>The webhook configuration\<close>

record webhook_options =
  opt_Name :: string
  opt_ServiceName :: string
  opt_Namespace :: string
  opt_Path :: string
  opt_FailureMode :: string

record webhook_configuration =
  wc_TypeMeta :: "string \<times> string"
  wc_ObjectMeta :: string
  wc_WebhookName :: string
  wc_ReviewVersions :: "string list"
  wc_SideEffects :: string
  wc_Service :: "string \<times> string \<times> string"
  wc_Rules :: "(string list \<times> string list \<times> string list \<times> string list) list"
  wc_FailurePolicy :: "string option"

definition admissionregistrationFromRules ::
  "string \<Rightarrow> string \<Rightarrow> string \<Rightarrow> string \<Rightarrow> webhook_rule list \<Rightarrow> webhook_configuration" where
  "admissionregistrationFromRules name serviceName namespace path rules =
     \<lparr>wc_TypeMeta = (''admissionregistration.k8s.io/v1'', ''ValidatingWebhookConfiguration''), wc_ObjectMeta = name,
      wc_WebhookName = serviceName @ ''.'' @ namespace @ ''.svc'', wc_ReviewVersions = [''v1''], wc_SideEffects = ''None'',
      wc_Service = (namespace, serviceName, path), wc_Rules = rulesToOperations rules, wc_FailurePolicy = None\<rparr>"

definition ValidatingWebhookYAMLFromRules ::
  "(webhook_configuration \<Rightarrow> string + bytes) \<Rightarrow> webhook_options \<Rightarrow> webhook_rule list \<Rightarrow> string + bytes" where
  "ValidatingWebhookYAMLFromRules yaml options rules =
     (let path = (if opt_Path options = '''' then DefaultAdmissionPath else opt_Path options);
          mode = (if opt_FailureMode options = '''' then ''Ignore'' else opt_FailureMode options)
      in yaml ((admissionregistrationFromRules (opt_Name options) (opt_ServiceName options) (opt_Namespace options) path rules)
           \<lparr>wc_FailurePolicy := Some mode\<rparr>))"

definition ValidatingWebhookYAML ::
  "(webhook_configuration \<Rightarrow> string + bytes) \<Rightarrow> (string \<Rightarrow> string + cache_spec) \<Rightarrow> pollaris option list \<Rightarrow>
   webhook_options \<Rightarrow> string + bytes" where
  "ValidatingWebhookYAML yaml unmarshal models options =
     (case WebhookRulesFromPollarisModels unmarshal models of
        Inl err \<Rightarrow> Inl err
      | Inr rules \<Rightarrow> ValidatingWebhookYAMLFromRules yaml options rules)"

text \<open>The command: what it writes to the standard output, or to the standard error before it exits with 1.\<close>

definition webhook_config_main ::
  "(webhook_configuration \<Rightarrow> string + bytes) \<Rightarrow> (string \<Rightarrow> string + cache_spec) \<Rightarrow> pollaris option list \<Rightarrow>
   string option \<Rightarrow> string option \<Rightarrow> string option \<Rightarrow> string option \<Rightarrow> string + bytes" where
  "webhook_config_main yaml unmarshal models name service namespace path =
     (let flag = (\<lambda>v d. case v of None \<Rightarrow> d | Some x \<Rightarrow> x) in
      ValidatingWebhookYAML yaml unmarshal models
        \<lparr>opt_Name = flag name ''l8collector-k8s'', opt_ServiceName = flag service ''l8collector'',
         opt_Namespace = flag namespace ''probler-k8s-admin'', opt_Path = flag path DefaultAdmissionPath, opt_FailureMode = ''''\<rparr>)"

section \<open>The admission server\<close>

definition envString :: "(string \<rightharpoonup> string) \<Rightarrow> string \<Rightarrow> string \<Rightarrow> string" where
  "envString vars key fallback =
     (case vars key of None \<Rightarrow> fallback | Some v \<Rightarrow> if v = '''' then fallback else v)"

definition envInt :: "(string \<rightharpoonup> string) \<Rightarrow> string \<Rightarrow> int \<Rightarrow> string + int" where
  "envInt vars key fallback =
     (let v = envString vars key '''' in
      if v = '''' then Inr fallback
      else case Atoi v of (n, ok) \<Rightarrow> if ok then Inr n else Inl (''strconv.Atoi: parsing '' @ v))"

record server_config =
  sv_Host :: string
  sv_Port :: int
  sv_Authentication :: bool
  sv_Prefix :: string
  sv_CertDomain :: string
  sv_CertPrivate :: string

record server_env =
  sv_vars :: "string \<rightharpoonup> string"
  sv_read :: "string \<Rightarrow> string + string"
  sv_new :: "server_config \<Rightarrow> string option"

text \<open>The path a handler with the given rules is registered under.\<close>

definition RegisterAdmissionHandler ::
  "(string \<Rightarrow> string + cache_spec) \<Rightarrow> pollaris option list \<Rightarrow> bool \<Rightarrow> string \<Rightarrow> string + (string \<times> webhook_rule list) option" where
  "RegisterAdmissionHandler unmarshal models registrar path =
     (if \<not> registrar then Inr None
      else case WebhookRulesFromPollarisModels unmarshal models of
        Inl err \<Rightarrow> Inl err
      | Inr rules \<Rightarrow> Inr (Some (if path = '''' then DefaultAdmissionPath else path, rules)))"

text \<open>
  The server that is started: its configuration, the path and the rules of its handler. The registrar is
  the server itself, so the case without one does not arise.
\<close>

definition StartAdmissionServer ::
  "server_env \<Rightarrow> (string \<Rightarrow> string + cache_spec) \<Rightarrow> pollaris option list \<Rightarrow>
   string + (server_config \<times> string \<times> webhook_rule list)" where
  "StartAdmissionServer env unmarshal models =
     (case envInt (sv_vars env) ''ADMISSION_PORT'' 8443 of
        Inl err \<Rightarrow> Inl err
      | Inr port \<Rightarrow>
          let certDir = envString (sv_vars env) ''ADMISSION_CERT_DIR'' ''/data/admission'' in
          (case sv_read env (certDir @ ''/tls.crt'') of
             Inl err \<Rightarrow> Inl (''failed to read TLS certificate: '' @ err)
           | Inr certData \<Rightarrow>
               (case sv_read env (certDir @ ''/tls.key'') of
                  Inl err \<Rightarrow> Inl (''failed to read TLS private key: '' @ err)
                | Inr keyData \<Rightarrow>
                    let config = \<lparr>sv_Host = envString (sv_vars env) ''ADMISSION_HOST'' ''0.0.0.0'', sv_Port = port,
                          sv_Authentication = False, sv_Prefix = '''', sv_CertDomain = certData, sv_CertPrivate = keyData\<rparr>
                    in case sv_new env config of
                         Some err \<Rightarrow> Inl err
                       | None \<Rightarrow>
                           (case RegisterAdmissionHandler unmarshal models True
                                   (envString (sv_vars env) ''ADMISSION_PATH'' DefaultAdmissionPath) of
                              Inl err \<Rightarrow> Inl err
                            | Inr None \<Rightarrow> Inl ''''
                            | Inr (Some (path, rules)) \<Rightarrow> Inr (config, path, rules)))))"

section \<open>Configuration and server agree\<close>

text \<open>A request the configuration sends to the webhook: one of its rules lists its group, version, resource and operation.\<close>

definition sent_by :: "webhook_configuration \<Rightarrow> admission_request \<Rightarrow> bool" where
  "sent_by config request \<longleftrightarrow> (\<exists>(ops, groups, versions, resources) \<in> set (wc_Rules config).
     rq_Operation request \<in> set ops \<and> rq_Group request \<in> set groups \<and> rq_Version request \<in> set versions \<and>
     rq_Resource request \<in> set resources)"


definition demo_server_env :: server_env where
  "demo_server_env = \<lparr>sv_vars = Map.empty, sv_read = Inr, sv_new = \<lambda>_. None\<rparr>"


end
