(* ===== verification/Endpoints.thy ===== *)
theory Endpoints
  imports Collector_Service_Theorems K8s_Admission Net_Snmp
begin

text \<open>
  The small ends of the components that other packages and the service framework call: names,
  constructors, the handlers of the two services, and the entries of \<open>protocols/k8sclient\<close> that are bound
  to the boot models or to the shared runtime. The boot models (\<open>boot.GetAllPolarisModels\<close>), the table of
  links and the registry of handlers are arguments.
\<close>

section \<open>\<open>common/utils.go\<close>: random seconds\<close>

definition RandomSecondWithin15Minutes :: "(int \<Rightarrow> int) \<Rightarrow> int" where
  "RandomSecondWithin15Minutes intn = intn 900"

definition RandomSecondWithin3Minutes :: "(int \<Rightarrow> int) \<Rightarrow> int" where
  "RandomSecondWithin3Minutes intn = intn 180"

lemma random_seconds_within:
  "random_source intn \<Longrightarrow> 0 \<le> RandomSecondWithin15Minutes intn \<and> RandomSecondWithin15Minutes intn < 15 * 60"
  "random_source intn \<Longrightarrow> 0 \<le> RandomSecondWithin3Minutes intn \<and> RandomSecondWithin3Minutes intn < 3 * 60"
  by (simp_all add: random_source_def RandomSecondWithin15Minutes_def RandomSecondWithin3Minutes_def)

section \<open>\<open>service/StaticJobs.go\<close>: the names of the static jobs\<close>

definition IpAddressJob_what :: string where "IpAddressJob_what = ''ipAddress''"
definition DeviceStatusJob_what :: string where "DeviceStatusJob_what = ''deviceStatus''"

lemma static_jobs_registered:
  "map_of staticJobs IpAddressJob_what = Some IpAddressJob_do"
  "map_of staticJobs DeviceStatusJob_what = Some DeviceStatusJob_do"
  by (simp_all add: staticJobs_def IpAddressJob_what_def DeviceStatusJob_what_def)

section \<open>The collector service\<close>

text \<open>The name and area the service is registered under, and that it keeps state.\<close>

definition Activate_collector :: "(string \<Rightarrow> string \<times> 8 word) \<Rightarrow> string \<Rightarrow> string \<times> 8 word \<times> bool" where
  "Activate_collector links linksID = (case links linksID of (name, area) \<Rightarrow> (name, area, True))"

datatype request =
    Req_Put | Req_Patch | Req_Delete | Req_Get | Req_GetCopy | Req_Failed | Req_TransactionConfig | Req_WebService

text \<open>The requests that the services do not implement have no answer and no effect.\<close>

definition CollectorService_other :: "request \<Rightarrow> 'c service \<Rightarrow> unit option \<times> 'c service" where
  "CollectorService_other r s = (None, s)"

section \<open>The execute service\<close>

record 'c execute_service =
  ex_collectorService :: "'c service option"
  ex_serviceArea :: "8 word"

definition ExecuteService_Activate :: "'c service list \<Rightarrow> 8 word \<Rightarrow> 'c execute_service res" where
  "ExecuteService_Activate args area =
     bind_res (go_nth args 0) (\<lambda>s. Inr \<lparr>ex_collectorService = Some s, ex_serviceArea = area\<rparr>)"

definition ExecuteService_DeActivate :: "'c execute_service \<Rightarrow> 'c execute_service" where
  "ExecuteService_DeActivate e = e\<lparr>ex_collectorService := None\<rparr>"

definition ExecuteService_Post ::
  "'c tick \<Rightarrow> string \<Rightarrow> string list \<Rightarrow> (string list \<Rightarrow> string list) \<Rightarrow> (string \<Rightarrow> cjob \<Rightarrow> 'r) \<Rightarrow>
   ('r \<Rightarrow> bool) \<Rightarrow> cjob \<Rightarrow> 'c execute_service \<Rightarrow> ('r reply \<times> 'c execute_service) res" where
  "ExecuteService_Post k self participants ord request failed job e =
     bind_res (deref (ex_collectorService e)) (\<lambda>s.
     bind_res (Execute_Post k self participants ord request failed job s) (\<lambda>(r, s).
       Inr (r, e\<lparr>ex_collectorService := Some s\<rparr>)))"

definition ExecuteService_other :: "request \<Rightarrow> 'c execute_service \<Rightarrow> unit option \<times> 'c execute_service" where
  "ExecuteService_other r e = (None, e)"

text \<open>The endpoint: its name and area, and the type of request and answer of each method.\<close>

definition ExecuteService_WebService :: "'c execute_service \<Rightarrow> string \<times> 8 word \<times> (string \<times> string \<times> string) list" where
  "ExecuteService_WebService e = (''exec'', ex_serviceArea e, [(''CJob'', ''POST'', ''CJob'')])"

datatype 'c handler = Execute_Handler "'c execute_service" | Other_Handler

definition ExecuteService_Exec :: "(string \<Rightarrow> 8 word \<Rightarrow> 'c handler option) \<Rightarrow> 8 word \<Rightarrow> 'c execute_service option res" where
  "ExecuteService_Exec ServiceHandler area =
     (case ServiceHandler ''exec'' area of
        None \<Rightarrow> Inr None
      | Some (Execute_Handler e) \<Rightarrow> Inr (Some e)
      | Some Other_Handler \<Rightarrow> Inl (Raised ''interface conversion''))"

text \<open>
  The execute service works on the collector service it was activated with, and panics on a request that
  arrives after its deactivation.
\<close>

theorem execute_service_life:
  assumes "ExecuteService_Activate (s # args) area = Inr e"
  shows "ExecuteService_Post k self ps ord request failed job e =
      bind_res (Execute_Post k self ps ord request failed job s) (\<lambda>(r, s'). Inr (r, e\<lparr>ex_collectorService := Some s'\<rparr>)) \<and>
    ExecuteService_Post k self ps ord request failed job (ExecuteService_DeActivate e) = Inl NilDeref \<and>
    ExecuteService_WebService e = (''exec'', area, [(''CJob'', ''POST'', ''CJob'')])"
  using assms
  by (auto simp: ExecuteService_Activate_def ExecuteService_Post_def ExecuteService_DeActivate_def
      ExecuteService_WebService_def go_nth_def)

section \<open>\<open>protocols\<close>\<close>

definition NewNetSNMPCollector :: "host_protocol option \<Rightarrow> host_protocol option" where
  "NewNetSNMPCollector config = config"

definition WebhookRulesFromBootModels ::
  "(string \<Rightarrow> string + cache_spec) \<Rightarrow> pollaris option list \<Rightarrow> string + webhook_rule list" where
  "WebhookRulesFromBootModels unmarshal bootModels = WebhookRulesFromPollarisModels unmarshal bootModels"

definition CacheSpecsFromBootModels ::
  "(string \<Rightarrow> string + cache_spec) \<Rightarrow> pollaris option list \<Rightarrow> string + cache_spec list" where
  "CacheSpecsFromBootModels unmarshal bootModels = CacheSpecsFromPollarisModels unmarshal bootModels"

text \<open>The handler that a collector serves: the rules of the boot models and its own event handler.\<close>

definition client_AdmissionHandler ::
  "'k client_env \<Rightarrow> (bytes \<Rightarrow> string + admission_request option) \<Rightarrow> (bytes \<Rightarrow> k8s_item option) \<Rightarrow>
   (review_response \<Rightarrow> string option) \<Rightarrow> pollaris option list \<Rightarrow>
   string + (string + bytes \<Rightarrow> 'k shared_runtime \<Rightarrow> (http_answer \<times> 'k shared_runtime) res)" where
  "client_AdmissionHandler env decode_review decode_object encode_fails bootModels =
     (case WebhookRulesFromBootModels (ce_unmarshal env) bootModels of
        Inl err \<Rightarrow> Inl err
      | Inr rules \<Rightarrow>
          Inr (AdmissionHandler decode_review decode_object encode_fails rules (Some (handleAdmissionEvent env))))"

definition SubscribeAdmissionEvents :: "'k shared_runtime \<Rightarrow> nat \<times> 'k shared_runtime" where
  "SubscribeAdmissionEvents s = subscribe s"

definition UnsubscribeAdmissionEvents :: "nat \<Rightarrow> 'k shared_runtime \<Rightarrow> 'k shared_runtime res" where
  "UnsubscribeAdmissionEvents ch s = unsubscribe ch s"

end
